(* ===== verification/Prelude.thy ===== *)
theory Prelude
  imports Complex_Main "HOL-Library.AList"
begin

text \<open>
  What every component of the development shares: Python exceptions as a result type,
  Python dictionaries as association lists in insertion order, the arithmetic of sums and
  proportional shares, and the text formatting the reasons of the brains use.

  A Python \<open>dict\<close> keeps its insertion order: assigning to a present key changes the value in
  place, assigning to a new key appends it. \<open>AList.update\<close> does exactly that, and
  \<open>AList.delete\<close> is \<open>pop(key, None)\<close>. A dictionary of the program is an association list with
  distinct keys (\<open>wf_dict\<close>). Floats are exact reals: rounding, NaN and infinities are
  outside the arithmetic of the model (they are explicit only where the code tests for them).
\<close>

named_theorems dict_simps and dict_wf and nonneg_intro

section \<open>Exceptions\<close>

text \<open>
  The exceptions the program raises or lets through. The argument is the key or a tag naming
  the raising check. \<open>OutOfModel\<close> marks inputs whose treatment is outside the model.
\<close>

datatype pyerr =
    KeyError string
  | ValueError string
  | TypeError
  | AttributeError
  | IndexError
  | ZeroDivisionError
  | OverflowError
  | RuntimeError string
  | OSError
  | ImportError string
  | OutOfModel

type_synonym 'a res = "pyerr + 'a"

abbreviation Err :: "pyerr \<Rightarrow> 'a res" where
  "Err \<equiv> Inl"

abbreviation Ok :: "'a \<Rightarrow> 'a res" where
  "Ok \<equiv> Inr"

definition res_bind :: "'a res \<Rightarrow> ('a \<Rightarrow> 'b res) \<Rightarrow> 'b res" where
  "res_bind m f = (case m of Inl e \<Rightarrow> Inl e | Inr x \<Rightarrow> f x)"

lemma res_bind_simps [simp]:
  "res_bind (Ok x) f = f x"
  "res_bind (Err e) f = Err e"
  by (simp_all add: res_bind_def)

lemma res_bind_Ok_iff:
  "res_bind m f = Ok y \<longleftrightarrow> (\<exists>x. m = Ok x \<and> f x = Ok y)"
  by (cases m) simp_all

lemma res_bind_Err_iff:
  "res_bind m f = Err e \<longleftrightarrow> m = Err e \<or> (\<exists>x. m = Ok x \<and> f x = Err e)"
  by (cases m) simp_all

text \<open>A list comprehension whose element expression may raise: the first exception wins.\<close>

fun res_map :: "('a \<Rightarrow> 'b res) \<Rightarrow> 'a list \<Rightarrow> 'b list res" where
  "res_map f [] = Ok []"
| "res_map f (x # xs) = res_bind (f x) (\<lambda>y. res_bind (res_map f xs) (\<lambda>ys. Ok (y # ys)))"

lemma res_map_Ok_iff:
  "res_map f xs = Ok ys \<longleftrightarrow> list_all2 (\<lambda>x y. f x = Ok y) xs ys"
  by (induction xs arbitrary: ys) (auto simp: res_bind_Ok_iff list_all2_Cons1)

lemma res_map_in: "res_map f xs = Ok ys \<Longrightarrow> y \<in> set ys \<Longrightarrow> \<exists>x \<in> set xs. f x = Ok y"
  by (induction xs arbitrary: ys) (auto simp: res_bind_Ok_iff)

lemma res_map_total:
  "(\<And>x. x \<in> set xs \<Longrightarrow> f x = Ok (g x)) \<Longrightarrow> res_map f xs = Ok (map g xs)"
  by (induction xs) auto

section \<open>Dictionaries\<close>

type_synonym watts = real
type_synonym gpu = int
type_synonym ('k, 'v) dict = "('k \<times> 'v) list"

abbreviation dkeys :: "('k, 'v) dict \<Rightarrow> 'k list" where
  "dkeys d \<equiv> map fst d"

abbreviation dvals :: "('k, 'v) dict \<Rightarrow> 'v list" where
  "dvals d \<equiv> map snd d"

abbreviation wf_dict :: "('k, 'v) dict \<Rightarrow> bool" where
  "wf_dict d \<equiv> distinct (map fst d)"

abbreviation dset :: "'k \<Rightarrow> 'v \<Rightarrow> ('k, 'v) dict \<Rightarrow> ('k, 'v) dict" where
  "dset k v d \<equiv> AList.update k v d"

abbreviation dpop :: "'k \<Rightarrow> ('k, 'v) dict \<Rightarrow> ('k, 'v) dict" where
  "dpop k d \<equiv> AList.delete k d"

definition dget_or :: "('k, 'v) dict \<Rightarrow> 'k \<Rightarrow> 'v \<Rightarrow> 'v" where
  \<comment> \<open>\<open>d.get(k, v)\<close>\<close>
  "dget_or d k v = (case map_of d k of None \<Rightarrow> v | Some x \<Rightarrow> x)"

definition ditem :: "('k, 'v) dict \<Rightarrow> 'k \<Rightarrow> 'v" where
  \<comment> \<open>\<open>d[k]\<close> where the code has just established that \<open>k\<close> is a key of \<open>d\<close>\<close>
  "ditem d k = the (map_of d k)"

definition getitem :: "(string, 'v) dict \<Rightarrow> string \<Rightarrow> 'v res" where
  \<comment> \<open>\<open>d[k]\<close>, raising \<open>KeyError\<close>\<close>
  "getitem d k = (case map_of d k of None \<Rightarrow> Err (KeyError k) | Some x \<Rightarrow> Ok x)"

definition dsum :: "('k, real) dict \<Rightarrow> real" where
  \<comment> \<open>\<open>sum(d.values())\<close>\<close>
  "dsum d = sum_list (dvals d)"

definition dcomp :: "('k \<Rightarrow> 'v) \<Rightarrow> 'k list \<Rightarrow> ('k, 'v) dict" where
  \<comment> \<open>\<open>{k: f(k) for k in ks}\<close>\<close>
  "dcomp f ks = foldl (\<lambda>d k. dset k (f k) d) [] ks"

definition dmerge :: "('k, 'v) dict \<Rightarrow> ('k, 'v) dict \<Rightarrow> ('k, 'v) dict" where
  \<comment> \<open>\<open>{**a, **b}\<close> and \<open>a.update(b)\<close>\<close>
  "dmerge a b = foldl (\<lambda>d (k, v). dset k v d) a b"

text \<open>
  \<open>for k in d: d[k] = f(k, d[k])\<close> is \<open>map_ran f d\<close> of the library: every value is replaced,
  keys and order stay.
\<close>

lemma dget_or_simps [simp]:
  "dget_or [] k v = v"
  "dget_or ((k', x) # d) k v = (if k = k' then x else dget_or d k v)"
  by (auto simp: dget_or_def)

lemma dget_or_dset [simp]:
  "dget_or (dset k x d) k' v = (if k' = k then x else dget_or d k' v)"
  by (simp add: dget_or_def update_conv')

lemma dget_or_ditem: "k \<in> set (dkeys d) \<Longrightarrow> dget_or d k v = ditem d k"
  by (cases "map_of d k") (auto simp: dget_or_def ditem_def map_of_eq_None_iff)

lemma ditem_Some: "map_of d k = Some v \<Longrightarrow> ditem d k = v"
  by (simp add: ditem_def)

lemma ditem_in: "wf_dict d \<Longrightarrow> (k, v) \<in> set d \<Longrightarrow> ditem d k = v"
  by (simp add: ditem_def)

lemma map_of_some_key: "map_of d k = Some v \<Longrightarrow> k \<in> set (dkeys d)"
  using map_of_eq_None_iff [of d k] by auto

lemma dkey_some: "k \<in> set (dkeys d) \<Longrightarrow> \<exists>v. map_of d k = Some v"
  using map_of_eq_None_iff [of d k] by auto

lemma ditem_in_vals: "k \<in> set (dkeys d) \<Longrightarrow> ditem d k \<in> set (dvals d)"
proof -
  assume "k \<in> set (dkeys d)"
  then have "\<exists>v. map_of d k = Some v" by (rule dkey_some)
  then obtain v where v: "map_of d k = Some v" ..
  then have "(k, v) \<in> set d" by (rule map_of_SomeD)
  then have "snd (k, v) \<in> snd ` set d" by (rule imageI)
  with v show ?thesis by (simp add: ditem_def)
qed

lemma getitem_Ok_iff: "getitem d k = Ok x \<longleftrightarrow> map_of d k = Some x"
  by (auto simp: getitem_def split: option.splits)

lemma getitem_Err_iff: "getitem d k = Err e \<longleftrightarrow> map_of d k = None \<and> e = KeyError k"
  by (auto simp: getitem_def split: option.splits)

lemma wf_dset [simp]: "wf_dict d \<Longrightarrow> wf_dict (dset k v d)"
  by (rule distinct_update)

lemma wf_dpop [simp]: "wf_dict d \<Longrightarrow> wf_dict (dpop k d)"
  by (rule distinct_delete)

lemma dkeys_dset_set [simp]: "set (dkeys (dset k v d)) = insert k (set (dkeys d))"
  using dom_update [of k v d] by simp

lemma map_of_dset [simp]: "map_of (dset k v d) k' = (if k' = k then Some v else map_of d k')"
  by (simp add: update_conv')

lemma map_of_dpop [simp]: "map_of (dpop k d) k' = (if k' = k then None else map_of d k')"
  by (simp add: delete_conv')

subsection \<open>Dictionary comprehensions\<close>

lemma dset_new: "k \<notin> set (dkeys d) \<Longrightarrow> dset k v d = d @ [(k, v)]"
  by (induction d) auto

lemma dcomp_append:
  "distinct (dkeys d @ ks) \<Longrightarrow>
   foldl (\<lambda>d k. dset k (f k) d) d ks = d @ map (\<lambda>k. (k, f k)) ks"
proof (induction ks arbitrary: d)
  case Nil
  then show ?case by simp
next
  case (Cons k ks)
  then have "dset k (f k) d = d @ [(k, f k)]" by (intro dset_new) auto
  with Cons show ?case by simp
qed

lemma dcomp_distinct: "distinct ks \<Longrightarrow> dcomp f ks = map (\<lambda>k. (k, f k)) ks"
  using dcomp_append [of "[]" ks f] by (simp add: dcomp_def)

lemma foldl_dset_map_of:
  "map_of (foldl (\<lambda>d k. dset k (f k) d) d ks) k =
     (if k \<in> set ks then Some (f k) else map_of d k)"
  by (induction ks arbitrary: d) auto

lemma map_of_dcomp [simp]:
  "map_of (dcomp f ks) k = (if k \<in> set ks then Some (f k) else None)"
  by (simp add: dcomp_def foldl_dset_map_of)

lemma wf_foldl_dset: "wf_dict d \<Longrightarrow> wf_dict (foldl (\<lambda>d k. dset k (f k) d) d ks)"
  by (induction ks arbitrary: d) auto

lemma wf_dcomp [simp]: "wf_dict (dcomp f ks)"
  by (simp add: dcomp_def wf_foldl_dset)

lemma dkeys_dcomp [simp]: "set (dkeys (dcomp f ks)) = set ks"
proof -
  have "set (dkeys (foldl (\<lambda>d k. dset k (f k) d) d ks)) = set (dkeys d) \<union> set ks" for d
    by (induction ks arbitrary: d) (simp_all add: image_Un dom_update)
  from this [of "[]"] show ?thesis by (simp add: dcomp_def)
qed

subsection \<open>Merging\<close>

lemma map_of_dmerge [simp]:
  "wf_dict b \<Longrightarrow> map_of (dmerge a b) k = (case map_of b k of None \<Rightarrow> map_of a k | Some v \<Rightarrow> Some v)"
proof (induction b arbitrary: a)
  case Nil
  then show ?case by (simp add: dmerge_def)
next
  case (Cons p b)
  obtain k' v where p: "p = (k', v)" by (cases p)
  have "dmerge a (p # b) = dmerge (dset k' v a) b" by (simp add: p dmerge_def)
  moreover have "map_of b k' = None" using Cons.prems by (simp add: p map_of_eq_None_iff)
  ultimately show ?case using Cons.IH [of "dset k' v a"] Cons.prems
    by (auto simp: p split: option.splits)
qed

lemma wf_dmerge [simp]: "wf_dict a \<Longrightarrow> wf_dict (dmerge a b)"
  by (induction b arbitrary: a) (auto simp: dmerge_def split: prod.splits)

lemma dkeys_dmerge [simp]: "set (dkeys (dmerge a b)) = set (dkeys a) \<union> set (dkeys b)"
proof (induction b arbitrary: a)
  case Nil
  then show ?case by (simp add: dmerge_def)
next
  case (Cons p b)
  obtain k v where p: "p = (k, v)" by (cases p)
  have "dmerge a (p # b) = dmerge (dset k v a) b" by (simp add: p dmerge_def)
  then show ?case using Cons.IH [of "dset k v a"] by (simp add: p dom_update)
qed

lemma dmerge_disjoint:
  "wf_dict b \<Longrightarrow> set (dkeys a) \<inter> set (dkeys b) = {} \<Longrightarrow> dmerge a b = a @ b"
proof (induction b arbitrary: a)
  case Nil
  then show ?case by (simp add: dmerge_def)
next
  case (Cons p b)
  obtain k v where p: "p = (k, v)" by (cases p)
  have new: "dset k v a = a @ [(k, v)]"
    using Cons.prems(2) by (intro dset_new) (auto simp: p)
  have "dmerge a (p # b) = dmerge (a @ [(k, v)]) b"
    using new by (simp add: p dmerge_def)
  also have "\<dots> = (a @ [(k, v)]) @ b"
    using Cons.prems by (intro Cons.IH) (auto simp: p)
  finally show ?case by (simp add: p)
qed

section \<open>Sums and shares\<close>

lemma dsum_simps [simp]:
  "dsum [] = 0"
  "dsum ((k, v) # d) = v + dsum d"
  "dsum (a @ b) = dsum a + dsum b"
  by (simp_all add: dsum_def)

lemma dsum_map: "dsum (map (\<lambda>k. (k, f k)) ks) = sum_list (map f ks)"
  by (simp add: dsum_def comp_def)

lemma dsum_map_ran: "dsum (map_ran f d) = sum_list (map (\<lambda>(k, v). f k v) d)"
  by (induction d) (auto simp: map_ran_def)

lemma dsum_scale: "dsum (map_ran (\<lambda>k v. v * c) d) = dsum d * c"
  by (induction d) (auto simp: algebra_simps)

lemma dsum_ditem: "wf_dict d \<Longrightarrow> dsum d = sum_list (map (ditem d) (dkeys d))"
proof -
  assume wf: "wf_dict d"
  have "map snd d = map (ditem d \<circ> fst) d"
    by (rule map_cong) (auto simp: ditem_in [OF wf])
  then show ?thesis unfolding dsum_def map_map by (rule arg_cong)
qed

lemma dsum_nonneg [nonneg_intro]: "\<forall>v \<in> set (dvals d). 0 \<le> v \<Longrightarrow> 0 \<le> dsum d"
  unfolding dsum_def by (rule sum_list_nonneg) blast

lemma dsum_map_ran_le:
  "(\<And>k v. (k, v) \<in> set d \<Longrightarrow> f k v \<le> v) \<Longrightarrow> dsum (map_ran f d) \<le> dsum d"
  by (induction d) (force simp: add_mono)+

lemma dsum_map_ran_le_keys:
  "(\<And>k v. (k, v) \<in> set d \<Longrightarrow> f k v \<le> h k) \<Longrightarrow> dsum (map_ran f d) \<le> sum_list (map h (dkeys d))"
proof (induction d)
  case (Cons p d)
  then show ?case by (cases p) (force simp: intro: add_mono)
qed simp

lemma sum_list_add_const:
  "sum_list (map (\<lambda>x. c + f x) xs) = c * length xs + sum_list (map f xs)" for c :: real
  by (induction xs) (auto simp: algebra_simps)

lemma sum_list_shares:
  fixes f :: "'a \<Rightarrow> real"
  shows "sum_list (map (\<lambda>x. f x / S * B) xs) = sum_list (map f xs) / S * B"
  by (induction xs) (auto simp: algebra_simps add_divide_distrib)

lemma sum_list_filter_split:
  fixes f :: "'a \<Rightarrow> real"
  shows "sum_list (map f (filter P xs)) + sum_list (map f (filter (\<lambda>x. \<not> P x) xs)) = sum_list (map f xs)"
  by (induction xs) auto

lemma sum_list_le_const:
  fixes f :: "'a \<Rightarrow> real"
  shows "(\<And>x. x \<in> set xs \<Longrightarrow> f x \<le> c) \<Longrightarrow> sum_list (map f xs) \<le> c * length xs"
  using sum_list_mono [of xs f "\<lambda>_. c"] by (simp add: sum_list_triv mult.commute)

lemma sum_list_ge_elem:
  fixes f :: "'a \<Rightarrow> real"
  assumes "\<And>x. x \<in> set xs \<Longrightarrow> 0 \<le> f x" and "y \<in> set xs"
  shows "f y \<le> sum_list (map f xs)"
  by (rule member_le_sum_list) (use assms in auto)

text \<open>Capping a total by scaling every entry: the renormalisation step of three brains.\<close>

definition renormalise :: "real \<Rightarrow> ('k, real) dict \<Rightarrow> ('k, real) dict" where
  \<comment> \<open>\<open>scale = budget / total; for g in caps: caps[g] *= scale\<close>\<close>
  "renormalise budget d = map_ran (\<lambda>k v. v * (budget / dsum d)) d"

lemma dkeys_renormalise [simp]: "dkeys (renormalise b d) = dkeys d"
  by (simp add: renormalise_def)

lemma dsum_renormalise: "dsum d \<noteq> 0 \<Longrightarrow> dsum (renormalise b d) = b"
  unfolding renormalise_def dsum_scale by simp

lemma map_of_renormalise:
  "map_of (renormalise b d) k = map_option (\<lambda>v. v * (b / dsum d)) (map_of d k)"
  by (simp add: renormalise_def map_ran_conv)

section \<open>Text of numbers\<close>

text \<open>\<open>str(n)\<close> of an integer and the \<open>:.0f\<close> format (round half to even).\<close>

fun string_of_nat :: "nat \<Rightarrow> string" where
  "string_of_nat n =
     (if n < 10 then [char_of (48 + n)]
      else string_of_nat (n div 10) @ [char_of (48 + n mod 10)])"

declare string_of_nat.simps [simp del]

definition string_of_int :: "int \<Rightarrow> string" where
  "string_of_int i = (if i < 0 then CHR ''-'' # string_of_nat (nat (- i)) else string_of_nat (nat i))"

definition round_half_even :: "real \<Rightarrow> int" where
  "round_half_even x =
     (let f = \<lfloor>x\<rfloor>; r = x - of_int f in
      if r < 1 / 2 then f else if 1 / 2 < r then f + 1
      else if even f then f else f + 1)"

definition fmt0 :: "real \<Rightarrow> string" where
  "fmt0 x = string_of_int (round_half_even x)"

definition fmt1 :: "real \<Rightarrow> string" where
  \<comment> \<open>the \<open>:.1f\<close> format\<close>
  "fmt1 x =
     (let n = round_half_even (10 * x) in
      (if n < 0 then ''-'' else []) @ string_of_nat (nat \<bar>n\<bar> div 10) @ ''.'' @ string_of_nat (nat \<bar>n\<bar> mod 10))"

lemma round_half_even_error: "\<bar>x - of_int (round_half_even x)\<bar> \<le> 1 / 2"
proof -
  have "of_int \<lfloor>x\<rfloor> \<le> x" and "x < of_int \<lfloor>x\<rfloor> + 1" by linarith+
  then show ?thesis
    unfolding round_half_even_def Let_def by (auto simp: abs_le_iff)
qed

end
