(* ===== verification/PyText.thy ===== *)
theory PyText
  imports Prelude
begin

text \<open>
  The parts of Python's \<open>str\<close>, \<open>int\<close> and \<open>float\<close> that the program parses its inputs with:
  \<open>strip\<close>, \<open>split\<close>, \<open>lower\<close>, \<open>int(text)\<close>, \<open>float(text)\<close> and \<open>math.isfinite\<close>. Strings are
  ASCII. \<open>float(text)\<close> is the one place where infinities and NaN exist in the model, because
  the code that calls it tests for them.
\<close>

section \<open>Splitting and stripping\<close>

definition is_ws :: "char \<Rightarrow> bool" where
  \<comment> \<open>the ASCII characters \<open>str.isspace\<close> accepts\<close>
  "is_ws c = (let n = (of_char c :: nat) in n = 32 \<or> (9 \<le> n \<and> n \<le> 13) \<or> (28 \<le> n \<and> n \<le> 31))"

definition lstrip :: "string \<Rightarrow> string" where
  "lstrip s = dropWhile is_ws s"

definition rstrip :: "string \<Rightarrow> string" where
  "rstrip s = rev (dropWhile is_ws (rev s))"

definition strip :: "string \<Rightarrow> string" where
  "strip s = rstrip (lstrip s)"

fun split_on :: "char \<Rightarrow> string \<Rightarrow> string list" where
  \<comment> \<open>\<open>s.split(c)\<close>: never empty, \<open>''.split(',') = ['']\<close>\<close>
  "split_on c [] = [[]]"
| "split_on c (x # xs) =
     (if x = c then [] # split_on c xs
      else (case split_on c xs of [] \<Rightarrow> [[x]] | w # ws \<Rightarrow> (x # w) # ws))"

definition is_line_break :: "char \<Rightarrow> bool" where
  \<comment> \<open>the ASCII line boundaries of \<open>str.splitlines\<close>\<close>
  "is_line_break c = (let n = (of_char c :: nat) in (10 \<le> n \<and> n \<le> 13) \<or> (28 \<le> n \<and> n \<le> 30))"

definition after_break :: "char \<Rightarrow> string \<Rightarrow> string" where
  \<comment> \<open>a carriage return takes a following line feed with it\<close>
  "after_break c s = (case s of [] \<Rightarrow> [] | d # r \<Rightarrow> if of_char c = (13 :: nat) \<and> of_char d = (10 :: nat) then r else s)"

lemma length_after_break [termination_simp]: "length (after_break c s) < Suc (length s)"
  by (simp add: after_break_def split: list.split)

fun splitlines :: "string \<Rightarrow> string list" where
  "splitlines [] = []"
| "splitlines (c # s) =
     (if is_line_break c then [] # splitlines (after_break c s)
      else (case splitlines s of [] \<Rightarrow> [[c]] | w # ws \<Rightarrow> (c # w) # ws))"

definition split_first :: "char \<Rightarrow> string \<Rightarrow> string \<times> string option" where
  \<comment> \<open>\<open>s.split(c, 1)\<close>: the part before the first \<open>c\<close> and, if there is one, the part after it\<close>
  "split_first c s =
     (takeWhile (\<lambda>x. x \<noteq> c) s,
      case dropWhile (\<lambda>x. x \<noteq> c) s of [] \<Rightarrow> None | _ # r \<Rightarrow> Some r)"

definition join :: "string \<Rightarrow> string list \<Rightarrow> string" where
  \<comment> \<open>\<open>sep.join(parts)\<close>\<close>
  "join sep parts = concat (case parts of [] \<Rightarrow> [] | p # ps \<Rightarrow> p # map (\<lambda>q. sep @ q) ps)"

definition lower_char :: "char \<Rightarrow> char" where
  "lower_char c = (let n = (of_char c :: nat) in if 65 \<le> n \<and> n \<le> 90 then char_of (n + 32) else c)"

definition lower :: "string \<Rightarrow> string" where
  "lower s = map lower_char s"

section \<open>Numbers\<close>

definition is_digit :: "char \<Rightarrow> bool" where
  "is_digit c = (let n = (of_char c :: nat) in 48 \<le> n \<and> n \<le> 57)"

definition digit_val :: "char \<Rightarrow> nat" where
  "digit_val c = of_char c - 48"

text \<open>Digits with single underscores between them: value and number of digits.\<close>

fun udigits :: "string \<Rightarrow> nat \<Rightarrow> nat \<Rightarrow> bool \<Rightarrow> (nat \<times> nat) option" where
  "udigits [] a n p = (if p then Some (a, n) else None)"
| "udigits (c # cs) a n p =
     (if is_digit c then udigits cs (10 * a + digit_val c) (Suc n) True
      else if c = CHR ''_'' \<and> p then udigits cs a n False
      else None)"

definition digits_of :: "string \<Rightarrow> (nat \<times> nat) option" where
  "digits_of s = udigits s 0 0 False"

definition sign_of :: "string \<Rightarrow> bool \<times> string" where
  \<comment> \<open>an optional sign: is it a minus, and the rest\<close>
  "sign_of s = (case s of [] \<Rightarrow> (False, [])
     | c # r \<Rightarrow> if c = CHR ''-'' then (True, r) else if c = CHR ''+'' then (False, r) else (False, s))"

definition py_int :: "string \<Rightarrow> int res" where
  \<comment> \<open>\<open>int(text)\<close>\<close>
  "py_int s =
     (let (neg, r) = sign_of (strip s) in
      case digits_of r of
        None \<Rightarrow> Err (ValueError ''int'')
      | Some (a, _) \<Rightarrow> Ok (if neg then - int a else int a))"

datatype pyfloat = Fin real | PosInf | NegInf | NaN

definition isfinite :: "pyfloat \<Rightarrow> bool" where
  \<comment> \<open>\<open>math.isfinite\<close>\<close>
  "isfinite x = (case x of Fin _ \<Rightarrow> True | _ \<Rightarrow> False)"

text \<open>Reals that round to infinity in binary64: at least halfway between the largest finite
  double and \<open>2 ^ 1024\<close>.\<close>

definition float_overflow :: real where
  "float_overflow = 2 ^ 1024 - 2 ^ 970"

definition to_float :: "real \<Rightarrow> pyfloat" where
  "to_float r = (if float_overflow \<le> r then PosInf else if r \<le> - float_overflow then NegInf else Fin r)"

definition mantissa_of :: "string \<Rightarrow> (nat \<times> nat) option" where
  \<comment> \<open>\<open>digits [. digits] | . digits\<close>: all digits as one number, and how many follow the point\<close>
  "mantissa_of s =
     (case split_first (CHR ''.'') s of
        (a, None) \<Rightarrow> map_option (\<lambda>(v, _). (v, 0)) (digits_of a)
      | (a, Some b) \<Rightarrow>
          if a = [] \<and> b = [] then None
          else (case (if a = [] then Some (0, 0) else digits_of a) of
                  None \<Rightarrow> None
                | Some (va, _) \<Rightarrow>
                    (case (if b = [] then Some (0, 0) else digits_of b) of
                       None \<Rightarrow> None
                     | Some (vb, nb) \<Rightarrow> Some (va * 10 ^ nb + vb, nb))))"

definition exponent_of :: "string option \<Rightarrow> int option" where
  "exponent_of e =
     (case e of None \<Rightarrow> Some 0
      | Some t \<Rightarrow> (let (neg, r) = sign_of t in
          map_option (\<lambda>(v, _). if neg then - int v else int v) (digits_of r)))"

definition scale10 :: "nat \<Rightarrow> int \<Rightarrow> real" where
  "scale10 m e = (if 0 \<le> e then real m * 10 ^ nat e else real m / 10 ^ nat (- e))"

definition py_float :: "string \<Rightarrow> pyfloat res" where
  \<comment> \<open>\<open>float(text)\<close>\<close>
  "py_float s =
     (let (neg, r) = sign_of (strip s); l = lower r in
      if l = ''inf'' \<or> l = ''infinity'' then Ok (if neg then NegInf else PosInf)
      else if l = ''nan'' then Ok NaN
      else (case split_first (CHR ''e'') l of (m, e) \<Rightarrow>
        (case mantissa_of m of None \<Rightarrow> Err (ValueError ''float'')
         | Some (v, nb) \<Rightarrow>
             (case exponent_of e of None \<Rightarrow> Err (ValueError ''float'')
              | Some x \<Rightarrow>
                  (let q = scale10 v (x - int nb) in Ok (to_float (if neg then - q else q)))))))"

section \<open>Lemmas\<close>

lemma float_overflow_big: "2 ^ 969 \<le> float_overflow"
proof -
  have "(2 :: real) ^ 1024 = 2 ^ 970 * 2 ^ 54" by (simp flip: power_add)
  moreover have "(2 :: real) ^ 970 * 1 \<le> 2 ^ 970 * (2 ^ 54 - 1)"
    by (rule mult_left_mono) simp_all
  moreover have "(2 :: real) ^ 969 \<le> 2 ^ 970" by (rule power_increasing) simp_all
  ultimately show ?thesis unfolding float_overflow_def by (simp add: algebra_simps)
qed

lemma float_overflow_small: "\<bar>r\<bar> \<le> 10 ^ 12 \<Longrightarrow> \<bar>r\<bar> < float_overflow"
proof -
  have "(10 :: real) ^ 12 < 2 ^ 40" by simp
  also have "\<dots> \<le> 2 ^ 969" by (rule power_increasing) simp_all
  finally show "\<bar>r\<bar> \<le> 10 ^ 12 \<Longrightarrow> \<bar>r\<bar> < float_overflow"
    using float_overflow_big by linarith
qed

lemma to_float_small [simp]: "\<bar>r\<bar> \<le> 10 ^ 12 \<Longrightarrow> to_float r = Fin r"
  using float_overflow_small [of r] by (auto simp: to_float_def)

lemma to_float_Fin_iff: "to_float r = Fin q \<longleftrightarrow> q = r \<and> \<bar>r\<bar> < float_overflow"
proof -
  have "0 < float_overflow" using float_overflow_small [of 0] by simp
  then show ?thesis by (auto simp: to_float_def)
qed

lemma split_on_nonempty: "split_on c s \<noteq> []"
  by (cases s) (auto split: list.splits)

lemma split_on_no_sep: "w \<in> set (split_on c s) \<Longrightarrow> c \<notin> set w"
  by (induction s arbitrary: w) (auto split: list.splits if_splits)

lemma join_Nil [simp]: "join sep [] = []"
  and join_single [simp]: "join sep [p] = p"
  and join_Cons: "join sep (p # q # ps) = p @ sep @ join sep (q # ps)"
  by (simp_all add: join_def)

text \<open>Joining what was split gives the text back, and splitting what was joined the parts.\<close>

lemma join_split_on: "join [c] (split_on c s) = s"
proof (induction s)
  case Nil
  then show ?case by simp
next
  case (Cons x s)
  obtain w ws where w: "split_on c s = w # ws"
    using split_on_nonempty [of c s] by (cases "split_on c s") auto
  with Cons show ?case by (cases ws) (auto simp: join_def)
qed

lemma split_on_prefix: "c \<notin> set w \<Longrightarrow> split_on c (w @ c # s) = w # split_on c s"
  by (induction w) auto

lemma split_on_plain: "c \<notin> set w \<Longrightarrow> split_on c w = [w]"
  by (induction w) auto

lemma split_on_join:
  "ps \<noteq> [] \<Longrightarrow> \<forall>p \<in> set ps. c \<notin> set p \<Longrightarrow> split_on c (join [c] ps) = ps"
proof (induction ps rule: induct_list012)
  case (3 p q ps)
  then show ?case by (simp add: join_Cons split_on_prefix)
qed (simp_all add: split_on_plain)

lemma udigits_append_digit:
  "is_digit c \<Longrightarrow> udigits s a n p = Some (v, k) \<Longrightarrow>
   udigits (s @ [c]) a n p = Some (10 * v + digit_val c, Suc k)"
  by (induction s arbitrary: a n p) (auto split: if_splits)

text \<open>\<open>int(str(n)) = n\<close>.\<close>

lemma digit_char: "d < 10 \<Longrightarrow> is_digit (char_of (48 + d)) \<and> digit_val (char_of (48 + d)) = d"
  by (simp add: is_digit_def digit_val_def Let_def)

lemma udigits_string_of_nat:
  "\<exists>k. udigits (string_of_nat n) 0 0 False = Some (n, k)"
proof (induction n rule: string_of_nat.induct)
  case (1 n)
  show ?case
  proof (cases "n < 10")
    case True
    then show ?thesis
      using digit_char [of n] by (simp add: string_of_nat.simps [of n])
  next
    case False
    with 1 obtain k where k: "udigits (string_of_nat (n div 10)) 0 0 False = Some (n div 10, k)"
      by auto
    have "n mod 10 < 10" by simp
    then have d: "is_digit (char_of (48 + n mod 10))" "digit_val (char_of (48 + n mod 10)) = n mod 10"
      using digit_char by blast+
    have "udigits (string_of_nat (n div 10) @ [char_of (48 + n mod 10)]) 0 0 False
        = Some (10 * (n div 10) + n mod 10, Suc k)"
      using udigits_append_digit [OF d(1) k] by (simp add: d(2))
    with False show ?thesis by (simp add: string_of_nat.simps [of n])
  qed
qed

lemma string_of_nat_head:
  "\<exists>c r. string_of_nat n = c # r \<and> is_digit c"
proof (induction n rule: string_of_nat.induct)
  case (1 n)
  then show ?case
    using digit_char [of n] by (cases "n < 10") (auto simp: string_of_nat.simps [of n])
qed

end
