(* ===== verification/PyJson.thy ===== *)
theory PyJson
  imports PyText
begin

text \<open>
  Parsed JSON documents as the program sees them after \<open>json.loads\<close>, with the Python
  operations it applies to them: subscripting, \<open>.get\<close>, \<open>.items()\<close>, \<open>list()\<close>, \<open>float()\<close> and
  \<open>int()\<close>, each with the exception it raises on the wrong kind of value. Object keys keep
  the document's order and are distinct. JSON numbers with a fraction or an exponent are
  finite reals; a text that \<open>float()\<close> would turn into an infinity or NaN inside a document
  is \<open>OutOfModel\<close>.
\<close>

datatype json =
    JNull
  | JBool bool
  | JInt int
  | JFloat real
  | JStr string
  | JList "json list"
  | JObj "(string \<times> json) list"

definition json_item :: "json \<Rightarrow> string \<Rightarrow> json res" where
  \<comment> \<open>\<open>v[key]\<close> with a string key\<close>
  "json_item v k = (case v of JObj d \<Rightarrow> getitem d k | _ \<Rightarrow> Err TypeError)"

definition json_get :: "json \<Rightarrow> string \<Rightarrow> json \<Rightarrow> json res" where
  \<comment> \<open>\<open>v.get(key, default)\<close>\<close>
  "json_get v k dflt = (case v of JObj d \<Rightarrow> Ok (dget_or d k dflt) | _ \<Rightarrow> Err AttributeError)"

definition json_items :: "json \<Rightarrow> (string \<times> json) list res" where
  \<comment> \<open>\<open>v.items()\<close>\<close>
  "json_items v = (case v of JObj d \<Rightarrow> Ok d | _ \<Rightarrow> Err AttributeError)"

definition json_list :: "json \<Rightarrow> json list res" where
  \<comment> \<open>\<open>list(v)\<close> and iteration over \<open>v\<close>\<close>
  "json_list v =
     (case v of
        JList xs \<Rightarrow> Ok xs
      | JStr s \<Rightarrow> Ok (map (\<lambda>c. JStr [c]) s)
      | JObj d \<Rightarrow> Ok (map JStr (dkeys d))
      | _ \<Rightarrow> Err TypeError)"

definition truncate_real :: "real \<Rightarrow> int" where
  "truncate_real r = (if 0 \<le> r then \<lfloor>r\<rfloor> else \<lceil>r\<rceil>)"

definition json_float :: "json \<Rightarrow> real res" where
  \<comment> \<open>\<open>float(v)\<close>\<close>
  "json_float v =
     (case v of
        JInt i \<Rightarrow> if float_overflow \<le> \<bar>real_of_int i\<bar> then Err OverflowError else Ok (real_of_int i)
      | JFloat r \<Rightarrow> Ok r
      | JBool b \<Rightarrow> Ok (if b then 1 else 0)
      | JStr s \<Rightarrow> res_bind (py_float s) (\<lambda>x. case x of Fin r \<Rightarrow> Ok r | _ \<Rightarrow> Err OutOfModel)
      | _ \<Rightarrow> Err TypeError)"

definition json_int :: "json \<Rightarrow> int res" where
  \<comment> \<open>\<open>int(v)\<close>\<close>
  "json_int v =
     (case v of
        JInt i \<Rightarrow> Ok i
      | JFloat r \<Rightarrow> Ok (truncate_real r)
      | JBool b \<Rightarrow> Ok (if b then 1 else 0)
      | JStr s \<Rightarrow> py_int s
      | _ \<Rightarrow> Err TypeError)"

text \<open>
  Fields the code stores without converting them: the model covers documents in which they
  have the type the dataclass declares.
\<close>

definition json_str :: "json \<Rightarrow> string res" where
  "json_str v = (case v of JStr s \<Rightarrow> Ok s | _ \<Rightarrow> Err OutOfModel)"

definition json_opt_str :: "json \<Rightarrow> string option res" where
  "json_opt_str v = (case v of JNull \<Rightarrow> Ok None | JStr s \<Rightarrow> Ok (Some s) | _ \<Rightarrow> Err OutOfModel)"

definition json_index :: "json \<Rightarrow> int res" where
  "json_index v = (case v of JInt i \<Rightarrow> Ok i | _ \<Rightarrow> Err OutOfModel)"

lemmas json_defs = json_item_def json_get_def json_items_def json_list_def json_float_def
  json_int_def json_str_def json_opt_str_def json_index_def

lemma json_item_Ok_iff: "json_item v k = Ok x \<longleftrightarrow> (\<exists>d. v = JObj d \<and> map_of d k = Some x)"
  by (auto simp: json_item_def getitem_Ok_iff split: json.splits)

lemma json_items_Ok_iff: "json_items v = Ok d \<longleftrightarrow> v = JObj d"
  by (auto simp: json_items_def split: json.splits)

lemma truncate_real_of_int [simp]: "truncate_real (real_of_int i) = i"
  by (simp add: truncate_real_def)

text \<open>A document whose objects have distinct keys, as every parsed document has.\<close>

fun wf_json :: "json \<Rightarrow> bool" where
  "wf_json (JObj d) = (distinct (map fst d) \<and> (\<forall>p \<in> set d. wf_json (snd p)))"
| "wf_json (JList xs) = (\<forall>x \<in> set xs. wf_json x)"
| "wf_json _ = True"

lemma wf_json_item: "wf_json v \<Longrightarrow> json_item v k = Ok x \<Longrightarrow> wf_json x"
  by (force simp: json_item_Ok_iff dest: map_of_SomeD)

lemma wf_json_get: "wf_json v \<Longrightarrow> wf_json dflt \<Longrightarrow> json_get v k dflt = Ok x \<Longrightarrow> wf_json x"
  by (force simp: json_get_def dget_or_def split: json.splits option.splits dest: map_of_SomeD)

lemma wf_json_items: "wf_json v \<Longrightarrow> json_items v = Ok d \<Longrightarrow> wf_dict d"
  by (simp add: json_items_Ok_iff)

lemma wf_json_item_items:
  assumes "wf_json v" and "res_bind (json_item v k) json_items = Ok d"
  shows "wf_dict d"
proof -
  from assms(2) obtain x where "json_item v k = Ok x" "json_items x = Ok d"
    unfolding res_bind_Ok_iff by blast
  then show ?thesis using wf_json_items [OF wf_json_item [OF assms(1)]] by simp
qed

lemma wf_json_get_items:
  assumes "wf_json v" and "wf_json dflt" and "res_bind (json_get v k dflt) json_items = Ok d"
  shows "wf_dict d"
proof -
  from assms(3) obtain x where "json_get v k dflt = Ok x" "json_items x = Ok d"
    unfolding res_bind_Ok_iff by blast
  then show ?thesis using wf_json_items [OF wf_json_get [OF assms(1,2)]] by simp
qed

end
