(* ===== verification/Coordinator.thy ===== *)
theory Coordinator
  imports PyJson
begin

text \<open>
  \<open>controller/cluster_coordinator.py\<close>: the coordinator of several nodes. It reads the state every
  node published, splits the cluster budget (half of it as equal floors, the rest in
  proportion to draw, at most twice the fair share each) and publishes each node's budget for
  its controller to adopt. The store is an interface, the locale \<open>node_state_store\<close>, which the
  in-memory store interprets.
\<close>

section \<open>Node states and stores\<close>

record node_state =
  ns_node_id :: string
  ns_domain_name :: string
  ns_draw_w :: watts
  ns_cap_w :: watts
  ns_budget_w :: watts
  ns_ts :: real

record mem_store =
  ms_states :: "(string, node_state) dict"
  ms_adopted :: "(string \<times> string, watts) dict"

definition mem_empty :: mem_store where
  "mem_empty = \<lparr>ms_states = [], ms_adopted = []\<rparr>"

definition mem_publish :: "mem_store \<Rightarrow> node_state \<Rightarrow> mem_store" where
  "mem_publish s x = s\<lparr>ms_states := dset (ns_node_id x) x (ms_states s)\<rparr>"

definition mem_get_all :: "mem_store \<Rightarrow> node_state list" where
  "mem_get_all s = dvals (ms_states s)"

definition mem_set_adopted :: "mem_store \<Rightarrow> string \<Rightarrow> string \<Rightarrow> watts \<Rightarrow> mem_store" where
  "mem_set_adopted s n d w = s\<lparr>ms_adopted := dset (n, d) w (ms_adopted s)\<rparr>"

definition mem_get_adopted :: "mem_store \<Rightarrow> string \<Rightarrow> string \<Rightarrow> watts option" where
  "mem_get_adopted s n d = map_of (ms_adopted s) (n, d)"

section \<open>The coordinator\<close>

record coordinator =
  co_budget :: watts
  co_node_budgets :: "(string, watts) dict"

definition coordinator_init :: "watts \<Rightarrow> coordinator" where
  "coordinator_init w = \<lparr>co_budget = w, co_node_budgets = []\<rparr>"

definition get_node_budget :: "coordinator \<Rightarrow> string \<Rightarrow> watts option" where
  "get_node_budget c n = map_of (co_node_budgets c) n"

definition node_budget :: "watts \<Rightarrow> node_state list \<Rightarrow> node_state \<Rightarrow> watts" where
  \<comment> \<open>the loop body: floor plus the share of the surplus, at most the ceiling\<close>
  "node_budget cluster states s =
     (let n = real (length states);
          fair = cluster / n;
          flr = fair * (1 / 2);
          cei = fair * 2;
          surplus = cluster - flr * n;
          drawn = sum_list (map ns_draw_w states);
          total_draw = (if drawn = 0 then 1 else drawn)
      in min (flr + (ns_draw_w s / total_draw) * surplus) cei)"

definition new_budgets :: "watts \<Rightarrow> node_state list \<Rightarrow> (string, watts) dict" where
  "new_budgets cluster states =
     foldl (\<lambda>d s. dset (ns_node_id s) (node_budget cluster states s) d) [] states"

definition publish_budgets :: "('s \<Rightarrow> string \<Rightarrow> string \<Rightarrow> watts \<Rightarrow> 's) \<Rightarrow> (string, watts) dict \<Rightarrow> node_state list \<Rightarrow> 's \<Rightarrow> 's" where
  "publish_budgets set_adopted budgets states store =
     foldl (\<lambda>st s. set_adopted st (ns_node_id s) (ns_domain_name s) (ditem budgets (ns_node_id s))) store states"

definition rebalance :: "('s \<Rightarrow> node_state list) \<Rightarrow> ('s \<Rightarrow> string \<Rightarrow> string \<Rightarrow> watts \<Rightarrow> 's) \<Rightarrow>
    coordinator \<Rightarrow> 's \<Rightarrow> coordinator \<times> 's \<times> (string, watts) dict" where
  "rebalance get_all set_adopted c store =
     (let states = get_all store in
      if states = [] then (c, store, [])
      else let budgets = new_budgets (co_budget c) states in
        (c\<lparr>co_node_budgets := budgets\<rparr>, publish_budgets set_adopted budgets states store, budgets))"

section \<open>The command line\<close>

definition parse_node :: "string \<Rightarrow> (string \<times> watts) res" where
  "parse_node item =
     (case split_first (CHR ''='') item of
        (_, None) \<Rightarrow> Err (ValueError ''bad --nodes entry'')
      | (a, Some draw) \<Rightarrow>
          let nid = strip a in
          if nid = [] then Err (ValueError ''empty node id'')
          else res_bind (py_float draw) (\<lambda>x.
            case x of
              Fin r \<Rightarrow> if r < 0 then Err (ValueError ''draw must be >= 0'') else Ok (nid, r)
            | _ \<Rightarrow> Err (ValueError ''draw must be finite'')))"

definition parse_nodes :: "string \<Rightarrow> (string \<times> watts) list res" where
  "parse_nodes spec =
     res_map parse_node (filter (\<lambda>i. i \<noteq> []) (map strip (split_on (CHR '','') spec)))"

datatype 'a exit = Exit_error string | Exit_ok 'a
  \<comment> \<open>\<open>parser.error\<close> ends the process with status 2\<close>

definition publish_nodes :: "(string \<times> watts) list \<Rightarrow> mem_store \<Rightarrow> mem_store" where
  "publish_nodes nodes store =
     foldl (\<lambda>s (nid, draw). mem_publish s
       \<lparr>ns_node_id = nid, ns_domain_name = nid, ns_draw_w = draw, ns_cap_w = draw, ns_budget_w = 0, ns_ts = 0\<rparr>)
       store nodes"

definition coordinator_main :: "string \<Rightarrow> string \<Rightarrow> ((string, watts) dict \<times> watts) exit" where
  \<comment> \<open>the values of \<open>--cluster-budget-w\<close> and \<open>--nodes\<close>; the budgets and the total printed\<close>
  "coordinator_main budget_arg nodes_arg =
     (case py_float budget_arg of
        Inl _ \<Rightarrow> Exit_error ''invalid float value''
      | Inr x \<Rightarrow>
          (case x of
             Fin w \<Rightarrow>
               if w \<le> 0 then Exit_error ''--cluster-budget-w must be a finite number > 0''
               else (case parse_nodes nodes_arg of
                       Inl _ \<Rightarrow> Exit_error ''bad --nodes''
                     | Inr nodes \<Rightarrow>
                         if nodes = [] then Exit_error ''--nodes must list at least one node''
                         else (case rebalance mem_get_all mem_set_adopted (coordinator_init w) (publish_nodes nodes mem_empty) of
                                 (_, _, budgets) \<Rightarrow> Exit_ok (budgets, dsum budgets)))
           | _ \<Rightarrow> Exit_error ''--cluster-budget-w must be a finite number > 0''))"

section \<open>Budgets\<close>

text \<open>States of distinct nodes with draws that are not negative.\<close>

definition wf_states :: "node_state list \<Rightarrow> bool" where
  "wf_states ss \<longleftrightarrow> distinct (map ns_node_id ss) \<and> (\<forall>s \<in> set ss. 0 \<le> ns_draw_w s)"

definition fair_share :: "watts \<Rightarrow> node_state list \<Rightarrow> watts" where
  "fair_share w ss = w / length ss"

definition total_draw :: "node_state list \<Rightarrow> watts" where
  "total_draw ss = (let d = sum_list (map ns_draw_w ss) in if d = 0 then 1 else d)"

lemma node_budget_eq:
  "ss \<noteq> [] \<Longrightarrow> node_budget w ss s = min (fair_share w ss / 2 + ns_draw_w s / total_draw ss * (w / 2)) (2 * fair_share w ss)"
  by (simp add: node_budget_def Let_def fair_share_def total_draw_def mult.commute)

lemma total_draw_pos: "wf_states ss \<Longrightarrow> 0 < total_draw ss \<and> sum_list (map ns_draw_w ss) \<le> total_draw ss"
proof -
  assume "wf_states ss"
  then have "0 \<le> sum_list (map ns_draw_w ss)" by (intro sum_list_nonneg) (auto simp: wf_states_def)
  then show ?thesis by (simp add: total_draw_def Let_def)
qed

lemma node_budget_bounds:
  assumes "wf_states ss" "s \<in> set ss" "0 \<le> w"
  shows "fair_share w ss / 2 \<le> node_budget w ss s \<and> node_budget w ss s \<le> 2 * fair_share w ss"
proof -
  have ne: "ss \<noteq> []" using assms(2) by auto
  have f: "0 \<le> fair_share w ss" using assms(3) by (simp add: fair_share_def)
  have "0 \<le> ns_draw_w s / total_draw ss * (w / 2)"
    using total_draw_pos [OF assms(1)] assms by (simp add: wf_states_def)
  with f show ?thesis unfolding node_budget_eq [OF ne] by auto
qed

lemma node_budgets_sum:
  assumes "wf_states ss" "ss \<noteq> []" "0 \<le> w"
  shows "sum_list (map (node_budget w ss) ss) \<le> w"
proof -
  let ?T = "total_draw ss"
  have "sum_list (map (node_budget w ss) ss)
      \<le> sum_list (map (\<lambda>s. fair_share w ss / 2 + ns_draw_w s / ?T * (w / 2)) ss)"
    unfolding node_budget_eq [OF assms(2)] by (rule sum_list_mono) simp
  also have "\<dots> = fair_share w ss / 2 * length ss + sum_list (map ns_draw_w ss) / ?T * (w / 2)"
    by (simp only: sum_list_add_const sum_list_shares)
  also have "\<dots> \<le> w / 2 + 1 * (w / 2)"
    using total_draw_pos [OF assms(1)] assms(2,3)
    by (intro add_mono mult_right_mono) (simp_all add: fair_share_def)
  finally show ?thesis by simp
qed

lemma new_budgets_eq:
  assumes "distinct (map ns_node_id ss)"
  shows "new_budgets w ss = map (\<lambda>s. (ns_node_id s, node_budget w ss s)) ss"
proof -
  have "foldl (\<lambda>d s. dset (ns_node_id s) (f s) d) d ss = d @ map (\<lambda>s. (ns_node_id s, f s)) ss"
    if "distinct (dkeys d @ map ns_node_id ss)" for f :: "node_state \<Rightarrow> watts" and d
    using that
  proof (induction ss arbitrary: d)
    case (Cons s ss)
    then have "dset (ns_node_id s) (f s) d = d @ [(ns_node_id s, f s)]" by (intro dset_new) auto
    with Cons show ?case by simp
  qed simp
  from this [of "[]"] assms show ?thesis by (simp add: new_budgets_def)
qed

lemma new_budgets_item:
  assumes "distinct (map ns_node_id ss)" "s \<in> set ss"
  shows "map_of (new_budgets w ss) (ns_node_id s) = Some (node_budget w ss s)"
proof -
  have "distinct (dkeys (new_budgets w ss))" using assms(1) by (simp add: new_budgets_eq comp_def)
  moreover have "(ns_node_id s, node_budget w ss s) \<in> set (new_budgets w ss)"
    using assms by (simp add: new_budgets_eq)
  ultimately show ?thesis by (rule map_of_is_SomeI)
qed

section \<open>The store interface\<close>

locale node_state_store =
  fixes inv :: "'s \<Rightarrow> bool"
    and publish :: "'s \<Rightarrow> node_state \<Rightarrow> 's"
    and get_all :: "'s \<Rightarrow> node_state list"
    and set_adopted :: "'s \<Rightarrow> string \<Rightarrow> string \<Rightarrow> watts \<Rightarrow> 's"
    and get_adopted :: "'s \<Rightarrow> string \<Rightarrow> string \<Rightarrow> watts option"
  assumes get_set: "get_adopted (set_adopted s n d w) n' d' =
      (if n' = n \<and> d' = d then Some w else get_adopted s n' d')"
    and all_set: "get_all (set_adopted s n d w) = get_all s"
    and get_publish: "get_adopted (publish s x) n d = get_adopted s n d"
    and all_publish: "inv s \<Longrightarrow> set (get_all (publish s x)) = insert x {y \<in> set (get_all s). ns_node_id y \<noteq> ns_node_id x}"
    and inv_publish: "inv s \<Longrightarrow> inv (publish s x)"
    and inv_set: "inv s \<Longrightarrow> inv (set_adopted s n d w)"
    and ids: "inv s \<Longrightarrow> distinct (map ns_node_id (get_all s))"
begin

lemma publish_all:
  "get_all (publish_budgets set_adopted bs ss s) = get_all s"
  "inv s \<Longrightarrow> inv (publish_budgets set_adopted bs ss s)"
  unfolding publish_budgets_def by (induction ss arbitrary: s) (simp_all add: all_set inv_set)

lemma publish_get:
  "get_adopted (publish_budgets set_adopted bs ss s) n d =
     (if \<exists>x \<in> set ss. ns_node_id x = n \<and> ns_domain_name x = d then Some (ditem bs n) else get_adopted s n d)"
  unfolding publish_budgets_def
proof (induction ss arbitrary: s)
  case (Cons x ss)
  then show ?case by (auto simp: get_set)
qed simp

text \<open>What a controller reads back is what the coordinator computed for its node.\<close>

lemma rebalance_published:
  assumes "inv s" "rebalance get_all set_adopted c s = (c', s', bs)" "x \<in> set (get_all s)"
  shows "get_adopted s' (ns_node_id x) (ns_domain_name x) = Some (node_budget (co_budget c) (get_all s) x) \<and>
    get_node_budget c' (ns_node_id x) = Some (node_budget (co_budget c) (get_all s) x) \<and>
    get_all s' = get_all s \<and> inv s'"
proof -
  have ne: "get_all s \<noteq> []" using assms(3) by auto
  then have r: "c' = c\<lparr>co_node_budgets := new_budgets (co_budget c) (get_all s)\<rparr>"
    "s' = publish_budgets set_adopted (new_budgets (co_budget c) (get_all s)) (get_all s) s"
    using assms(2) by (auto simp: rebalance_def Let_def)
  have item: "map_of (new_budgets (co_budget c) (get_all s)) (ns_node_id x) = Some (node_budget (co_budget c) (get_all s) x)"
    by (rule new_budgets_item [OF ids [OF assms(1)] assms(3)])
  show ?thesis
    using assms(1,3) by (auto simp: r publish_get publish_all get_node_budget_def item ditem_Some [OF item])
qed

lemma rebalance_within:
  assumes "inv s" "rebalance get_all set_adopted c s = (c', s', bs)" "0 \<le> co_budget c"
    and "\<forall>x \<in> set (get_all s). 0 \<le> ns_draw_w x"
  shows "dsum bs \<le> co_budget c \<and> dkeys bs = map ns_node_id (get_all s) \<and> wf_dict bs"
proof (cases "get_all s = []")
  case True
  with assms show ?thesis by (auto simp: rebalance_def)
next
  case False
  have wf: "wf_states (get_all s)" using assms(4) ids [OF assms(1)] by (simp add: wf_states_def)
  have "bs = map (\<lambda>x. (ns_node_id x, node_budget (co_budget c) (get_all s) x)) (get_all s)"
    using assms(2) False new_budgets_eq [OF ids [OF assms(1)]] by (auto simp: rebalance_def Let_def)
  then show ?thesis
    using node_budgets_sum [OF wf False assms(3)] ids [OF assms(1)] by (simp add: dsum_def comp_def)
qed

end

text \<open>The in-memory store keeps one state per node, under the node's name.\<close>

definition mem_inv :: "mem_store \<Rightarrow> bool" where
  "mem_inv s \<longleftrightarrow> wf_dict (ms_states s) \<and> (\<forall>(n, x) \<in> set (ms_states s). ns_node_id x = n)"

lemma mem_inv_ids: "mem_inv s \<Longrightarrow> map ns_node_id (mem_get_all s) = dkeys (ms_states s)"
  by (auto simp: mem_inv_def mem_get_all_def intro!: map_cong)

lemma dset_vals:
  "wf_dict d \<Longrightarrow> set (dset k v d) = insert (k, v) {p \<in> set d. fst p \<noteq> k}"
proof (induction d)
  case (Cons p d)
  then show ?case by (cases p) (auto simp: rev_image_eqI)
qed simp

lemma mem_publish_set:
  assumes "mem_inv s"
  shows "set (ms_states (mem_publish s x)) = insert (ns_node_id x, x) {p \<in> set (ms_states s). fst p \<noteq> ns_node_id x}"
  using assms by (simp add: mem_publish_def mem_inv_def dset_vals)

interpretation mem: node_state_store mem_inv mem_publish mem_get_all mem_set_adopted mem_get_adopted
proof
  fix s x assume inv: "mem_inv s"
  show "set (mem_get_all (mem_publish s x)) = insert x {y \<in> set (mem_get_all s). ns_node_id y \<noteq> ns_node_id x}"
    using inv unfolding mem_get_all_def set_map mem_publish_set [OF inv]
    by (force simp: mem_inv_def)
  show "mem_inv (mem_publish s x)"
    using inv mem_publish_set [OF inv, of x] by (auto simp: mem_inv_def mem_publish_def)
next
  fix s assume inv: "mem_inv s"
  show "distinct (map ns_node_id (mem_get_all s))"
    unfolding mem_inv_ids [OF inv] using inv by (simp add: mem_inv_def)
qed (auto simp: mem_get_adopted_def mem_set_adopted_def mem_get_all_def mem_publish_def mem_inv_def)

lemma mem_inv_empty: "mem_inv mem_empty"
  by (simp add: mem_inv_def mem_empty_def)

section \<open>Properties\<close>

text \<open>C25. The cluster budget is never oversubscribed: whatever the nodes published, the budgets of
  a rebalance sum to at most the cluster budget; every node gets between half and twice its
  fair share, a node that draws more never gets less, and what each node's controller reads
  back from the store, and what \<open>get_node_budget\<close> reports, is exactly the budget computed.\<close>

theorem rebalance_safe:
  assumes inv: "mem_inv store" and pos: "0 \<le> co_budget c" "\<forall>x \<in> set (mem_get_all store). 0 \<le> ns_draw_w x"
    and reb: "rebalance mem_get_all mem_set_adopted c store = (c', store', budgets)"
  shows "dsum budgets \<le> co_budget c \<and> dkeys budgets = map ns_node_id (mem_get_all store) \<and>
    (\<forall>x \<in> set (mem_get_all store). \<exists>w. map_of budgets (ns_node_id x) = Some w \<and>
       co_budget c / length (mem_get_all store) / 2 \<le> w \<and> w \<le> 2 * (co_budget c / length (mem_get_all store)) \<and>
       mem_get_adopted store' (ns_node_id x) (ns_domain_name x) = Some w \<and> get_node_budget c' (ns_node_id x) = Some w) \<and>
    (\<forall>x \<in> set (mem_get_all store). \<forall>y \<in> set (mem_get_all store). \<forall>v w. ns_draw_w x \<le> ns_draw_w y \<longrightarrow>
       map_of budgets (ns_node_id x) = Some v \<longrightarrow> map_of budgets (ns_node_id y) = Some w \<longrightarrow> v \<le> w)"
proof -
  let ?ss = "mem_get_all store"
  have dist: "distinct (map ns_node_id ?ss)" by (rule mem.ids [OF inv])
  have wf: "wf_states ?ss" using dist pos(2) by (simp add: wf_states_def)
  have item: "map_of budgets (ns_node_id x) = Some (node_budget (co_budget c) ?ss x)" if "x \<in> set ?ss" for x
    using reb that new_budgets_item [OF dist that] by (auto simp: rebalance_def Let_def split: if_splits)
  have mono: "node_budget (co_budget c) ?ss x \<le> node_budget (co_budget c) ?ss y"
    if "x \<in> set ?ss" "ns_draw_w x \<le> ns_draw_w y" for x y
  proof -
    have ne: "?ss \<noteq> []" using that(1) by auto
    have "ns_draw_w x / total_draw ?ss * (co_budget c / 2) \<le> ns_draw_w y / total_draw ?ss * (co_budget c / 2)"
      using that(2) pos(1) total_draw_pos [OF wf] by (intro mult_right_mono divide_right_mono) simp_all
    then show ?thesis unfolding node_budget_eq [OF ne] by simp
  qed
  show ?thesis
    using mem.rebalance_within [OF inv reb pos] item mono mem.rebalance_published [OF inv reb]
      node_budget_bounds [OF wf _ pos(1)] by (auto simp: fair_share_def)
qed

definition demo_store :: mem_store where
  "demo_store = publish_nodes [(''n0'', 8000), (''n1'', 500)] mem_empty"

lemma demo_store_states: "mem_get_all demo_store =
    [\<lparr>ns_node_id = ''n0'', ns_domain_name = ''n0'', ns_draw_w = 8000, ns_cap_w = 8000, ns_budget_w = 0, ns_ts = 0\<rparr>,
     \<lparr>ns_node_id = ''n1'', ns_domain_name = ''n1'', ns_draw_w = 500, ns_cap_w = 500, ns_budget_w = 0, ns_ts = 0\<rparr>]"
  by (simp add: demo_store_def publish_nodes_def mem_get_all_def mem_publish_def mem_empty_def)

lemma publish_nodes_inv: "mem_inv s \<Longrightarrow> mem_inv (publish_nodes nodes s)"
  unfolding publish_nodes_def by (induction nodes arbitrary: s) (auto intro: mem.inv_publish)

theorem rebalance_safe_witness:
  "\<exists>c' store' budgets w. rebalance mem_get_all mem_set_adopted (coordinator_init 10000) demo_store = (c', store', budgets) \<and>
     dsum budgets \<le> 10000 \<and> mem_get_adopted store' ''n1'' ''n1'' = Some w \<and> 2500 \<le> w"
proof -
  obtain c' store' budgets where r: "rebalance mem_get_all mem_set_adopted (coordinator_init 10000) demo_store = (c', store', budgets)"
    by (cases "rebalance mem_get_all mem_set_adopted (coordinator_init 10000) demo_store")
  have inv: "mem_inv demo_store" unfolding demo_store_def by (rule publish_nodes_inv [OF mem_inv_empty])
  have "0 \<le> co_budget (coordinator_init 10000)" "\<forall>x \<in> set (mem_get_all demo_store). 0 \<le> ns_draw_w x"
    by (simp_all add: coordinator_init_def demo_store_states)
  from rebalance_safe [OF inv this r] have "dsum budgets \<le> 10000"
    "\<exists>w. mem_get_adopted store' ''n1'' ''n1'' = Some w \<and> 2500 \<le> w"
    by (auto simp: coordinator_init_def demo_store_states)
  with r show ?thesis by blast
qed

text \<open>What the parser of \<open>--nodes\<close> lets through.\<close>

lemma parse_node_Ok:
  assumes "parse_node item = Ok (n, r)"
  shows "n \<noteq> [] \<and> 0 \<le> r"
proof -
  from assms obtain a d x where "split_first (CHR ''='') item = (a, Some d)" "strip a \<noteq> []" "py_float d = Ok x"
    by (auto simp: parse_node_def Let_def res_bind_Ok_iff split: prod.splits option.splits if_split_asm)
  with assms show ?thesis by (cases x) (auto simp: parse_node_def Let_def split: if_split_asm)
qed

lemma parse_nodes_Ok: "parse_nodes spec = Ok nodes \<Longrightarrow> (n, r) \<in> set nodes \<Longrightarrow> n \<noteq> [] \<and> 0 \<le> r"
  unfolding parse_nodes_def by (drule (1) res_map_in) (auto dest: parse_node_Ok)

lemma mem_publish_nonempty: "mem_get_all (mem_publish s x) \<noteq> []"
  by (simp add: mem_get_all_def mem_publish_def update_nonempty)

lemma publish_nodes_states:
  "\<forall>p \<in> set nodes. 0 \<le> snd p \<Longrightarrow> mem_inv s \<Longrightarrow> \<forall>x \<in> set (mem_get_all s). 0 \<le> ns_draw_w x \<Longrightarrow>
   \<forall>x \<in> set (mem_get_all (publish_nodes nodes s)). 0 \<le> ns_draw_w x"
proof (induction nodes arbitrary: s)
  case Nil
  then show ?case by (simp add: publish_nodes_def)
next
  case (Cons p nodes)
  obtain n r where p: "p = (n, r)" by (cases p)
  let ?x = "\<lparr>ns_node_id = n, ns_domain_name = n, ns_draw_w = r, ns_cap_w = r, ns_budget_w = 0, ns_ts = 0\<rparr>"
  have "\<forall>x \<in> set (mem_get_all (mem_publish s ?x)). 0 \<le> ns_draw_w x"
    using Cons.prems(1,3) by (simp add: mem.all_publish [OF Cons.prems(2)] p)
  from Cons.IH [OF _ mem.inv_publish [OF Cons.prems(2)] this] Cons.prems(1)
  show ?case by (simp add: p publish_nodes_def)
qed

lemma publish_nodes_nonempty: "mem_get_all s \<noteq> [] \<or> nodes \<noteq> [] \<Longrightarrow> mem_get_all (publish_nodes nodes s) \<noteq> []"
proof (induction nodes arbitrary: s)
  case (Cons p nodes)
  then show ?case using mem_publish_nonempty by (cases p) (simp add: publish_nodes_def)
qed (simp add: publish_nodes_def)

text \<open>Every accepted command line is safe: when \<open>main\<close> prints budgets, there is at least one, the
  total it prints is their sum and at most the cluster budget given, which is finite and
  positive; a budget or draw that is infinite, not a number, or a negative draw is always
  rejected.\<close>

theorem coordinator_main_safe:
  "(\<forall>budgets total. coordinator_main budget_arg nodes_arg = Exit_ok (budgets, total) \<longrightarrow>
      (\<exists>w. py_float budget_arg = Ok (Fin w) \<and> 0 < w \<and> total = dsum budgets \<and> total \<le> w \<and> budgets \<noteq> [])) \<and>
   (\<forall>item d x. strip item \<in> set (filter (\<lambda>i. i \<noteq> []) (map strip (split_on (CHR '','') nodes_arg))) \<longrightarrow>
      split_first (CHR ''='') (strip item) = (d, Some x) \<longrightarrow>
      (py_float x = Ok NaN \<or> py_float x = Ok PosInf \<or> py_float x = Ok NegInf \<or> (\<exists>r < 0. py_float x = Ok (Fin r))) \<longrightarrow>
      (\<exists>m. coordinator_main budget_arg nodes_arg = Exit_error m))"
proof (intro conjI allI impI)
  fix budgets total assume ok: "coordinator_main budget_arg nodes_arg = Exit_ok (budgets, total)"
  then obtain w nodes where w: "py_float budget_arg = Ok (Fin w)" "0 < w" and nodes: "parse_nodes nodes_arg = Ok nodes" "nodes \<noteq> []"
    by (auto simp: coordinator_main_def not_le split: sum.splits pyfloat.splits if_splits)
  obtain c' s' where r: "rebalance mem_get_all mem_set_adopted (coordinator_init w) (publish_nodes nodes mem_empty) = (c', s', budgets)"
    and total: "total = dsum budgets"
    using ok w nodes by (auto simp: coordinator_main_def split: prod.splits)
  have inv: "mem_inv (publish_nodes nodes mem_empty)" by (rule publish_nodes_inv [OF mem_inv_empty])
  have "\<forall>x \<in> set (mem_get_all (publish_nodes nodes mem_empty)). 0 \<le> ns_draw_w x"
    by (rule publish_nodes_states [OF _ mem_inv_empty]) (auto simp: mem_empty_def mem_get_all_def dest: parse_nodes_Ok [OF nodes(1)])
  from mem.rebalance_within [OF inv r _ this] w have "dsum budgets \<le> w"
    "dkeys budgets = map ns_node_id (mem_get_all (publish_nodes nodes mem_empty))"
    by (simp_all add: coordinator_init_def)
  with w total publish_nodes_nonempty [of mem_empty nodes] nodes(2)
  show "\<exists>w. py_float budget_arg = Ok (Fin w) \<and> 0 < w \<and> total = dsum budgets \<and> total \<le> w \<and> budgets \<noteq> []" by auto
next
  fix item d x
  assume item: "strip item \<in> set (filter (\<lambda>i. i \<noteq> []) (map strip (split_on (CHR '','') nodes_arg)))"
    and split: "split_first (CHR ''='') (strip item) = (d, Some x)"
    and bad: "py_float x = Ok NaN \<or> py_float x = Ok PosInf \<or> py_float x = Ok NegInf \<or> (\<exists>r < 0. py_float x = Ok (Fin r))"
  have "parse_node (strip item) \<noteq> Ok p" for p
    using split bad by (auto simp: parse_node_def Let_def)
  then have "parse_nodes nodes_arg \<noteq> Ok ns" for ns
    using item unfolding parse_nodes_def res_map_Ok_iff list_all2_conv_all_nth by (metis in_set_conv_nth)
  then obtain e where "parse_nodes nodes_arg = Err e" by (cases "parse_nodes nodes_arg") auto
  then show "\<exists>m. coordinator_main budget_arg nodes_arg = Exit_error m"
    by (cases "py_float budget_arg") (auto simp: coordinator_main_def split: pyfloat.split)
qed

lemma demo_nan: "split_on (CHR '','') ''n0=nan'' = [''n0=nan''] \<and> strip ''n0=nan'' = ''n0=nan'' \<and>
    split_first (CHR ''='') ''n0=nan'' = (''n0'', Some ''nan'') \<and> py_float ''nan'' = Ok NaN"
  by (simp add: split_first_def strip_def lstrip_def rstrip_def is_ws_def py_float_def sign_of_def lower_def lower_char_def)

theorem coordinator_main_safe_witness: "\<exists>m. coordinator_main ''1'' ''n0=nan'' = Exit_error m"
  using coordinator_main_safe [THEN conjunct2, rule_format, of "''n0=nan''" "''n0=nan''" "''n0''" "''nan''" "''1''"] demo_nan
  by simp

section \<open>The Redis store\<close>

text \<open>The keys of the production store and what its operations do with a client, whose commands
  \<open>get\<close> and \<open>setex\<close> are arguments. The budget key joins node and domain with a colon.\<close>

definition node_key :: "string \<Rightarrow> string" where
  "node_key n = ''opendps:node:'' @ n"

definition budget_key :: "string \<Rightarrow> string \<Rightarrow> string" where
  "budget_key n d = ''opendps:budget:'' @ n @ '':'' @ d"

definition redis_set_adopted :: "('c \<Rightarrow> string \<Rightarrow> int \<Rightarrow> string \<Rightarrow> 'c) \<Rightarrow> (watts \<Rightarrow> string) \<Rightarrow> int \<Rightarrow> 'c \<Rightarrow> string \<Rightarrow> string \<Rightarrow> watts \<Rightarrow> 'c" where
  \<comment> \<open>\<open>str\<close> of a float is the second argument\<close>
  "redis_set_adopted setex str_float ttl c n d w = setex c (budget_key n d) ttl (str_float w)"

definition redis_get_adopted :: "('c \<Rightarrow> string \<Rightarrow> string option) \<Rightarrow> 'c \<Rightarrow> string \<Rightarrow> string \<Rightarrow> pyfloat option res" where
  "redis_get_adopted get c n d =
     (case get c (budget_key n d) of
        None \<Rightarrow> Ok None
      | Some raw \<Rightarrow> if raw = [] then Ok None else res_bind (py_float raw) (\<lambda>x. Ok (Some x)))"

definition node_state_json :: "node_state \<Rightarrow> json" where
  \<comment> \<open>\<open>dataclasses.asdict\<close>\<close>
  "node_state_json s = JObj [(''node_id'', JStr (ns_node_id s)), (''domain_name'', JStr (ns_domain_name s)),
     (''draw_w'', JFloat (ns_draw_w s)), (''cap_w'', JFloat (ns_cap_w s)), (''budget_w'', JFloat (ns_budget_w s)),
     (''ts'', JFloat (ns_ts s))]"

definition redis_publish :: "('c \<Rightarrow> string \<Rightarrow> int \<Rightarrow> string \<Rightarrow> 'c) \<Rightarrow> (json \<Rightarrow> string) \<Rightarrow> int \<Rightarrow> 'c \<Rightarrow> node_state \<Rightarrow> 'c" where
  \<comment> \<open>\<open>json.dumps\<close> is the second argument\<close>
  "redis_publish setex dumps ttl c s = setex c (node_key (ns_node_id s)) ttl (dumps (node_state_json s))"

definition node_number :: "json \<Rightarrow> real res" where
  \<comment> \<open>a field the dataclass declares as a float and stores as it is\<close>
  "node_number v = (case v of JInt i \<Rightarrow> Ok (of_int i) | JFloat r \<Rightarrow> Ok r | _ \<Rightarrow> Err OutOfModel)"

definition node_of_json :: "json \<Rightarrow> node_state res" where
  \<comment> \<open>\<open>NodeState(**d)\<close>: a missing or unknown field raises\<close>
  "node_of_json v =
     (case v of
        JObj d \<Rightarrow>
          if set (dkeys d) \<noteq> set [''node_id'', ''domain_name'', ''draw_w'', ''cap_w'', ''budget_w'', ''ts''] then Err TypeError
          else
            res_bind (json_str (ditem d ''node_id'')) (\<lambda>n.
            res_bind (json_str (ditem d ''domain_name'')) (\<lambda>dn.
            res_bind (node_number (ditem d ''draw_w'')) (\<lambda>dr.
            res_bind (node_number (ditem d ''cap_w'')) (\<lambda>c.
            res_bind (node_number (ditem d ''budget_w'')) (\<lambda>b.
            res_bind (node_number (ditem d ''ts'')) (\<lambda>t.
            Ok \<lparr>ns_node_id = n, ns_domain_name = dn, ns_draw_w = dr, ns_cap_w = c, ns_budget_w = b, ns_ts = t\<rparr>))))))
      | _ \<Rightarrow> Err TypeError)"

definition redis_get_all :: "('c \<Rightarrow> string \<Rightarrow> string list) \<Rightarrow> ('c \<Rightarrow> string \<Rightarrow> string option) \<Rightarrow> (string \<Rightarrow> json res) \<Rightarrow> 'c \<Rightarrow> node_state list res" where
  \<comment> \<open>the commands \<open>keys\<close> and \<open>get\<close> of the client and \<open>json.loads\<close> are arguments; an expired key is skipped\<close>
  "redis_get_all keys get loads c =
     res_bind (res_map (\<lambda>k.
         case get c k of
           None \<Rightarrow> Ok []
         | Some raw \<Rightarrow> if raw = [] then Ok [] else res_bind (loads raw) (\<lambda>v. res_bind (node_of_json v) (\<lambda>s. Ok [s])))
       (keys c (node_key ''*'')))
     (\<lambda>sss. Ok (concat sss))"

lemma node_of_json_state: "node_of_json (node_state_json s) = Ok s"
  by (simp add: node_of_json_def node_state_json_def json_str_def node_number_def ditem_def insert_commute)

lemma budget_key_inj:
  assumes "CHR '':'' \<notin> set n" "CHR '':'' \<notin> set n'" "budget_key n d = budget_key n' d'"
  shows "n = n' \<and> d = d'"
proof -
  have "split_on (CHR '':'') (n @ CHR '':'' # d) = split_on (CHR '':'') (n' @ CHR '':'' # d')"
    using assms(3) by (simp add: budget_key_def)
  then have "n = n'" using split_on_prefix [OF assms(1), of d] split_on_prefix [OF assms(2), of d'] by simp
  with assms(3) show ?thesis by (simp add: budget_key_def)
qed

end
