(* ===== verification/Pdn.thy ===== *)
theory Pdn
  imports PyJson
begin

text \<open>
  \<open>pdn/model.py\<close>: the power distribution network. Domains draw from PDUs and may belong to
  racks; \<open>domain_budget_w\<close> is the budget the brains allocate GPU caps against, after rack
  scaling, a budget adopted from the cluster coordinator and node overhead;
  \<open>validate_allocation\<close> checks proposed caps against domain, PDU and rack; \<open>from_dict\<close> builds a
  topology from a configuration document.
\<close>

section \<open>Data\<close>

record power_domain =
  pd_name :: string
  pd_budget_w :: watts
  pd_gpu_indices :: "gpu list"
  pd_pdu_name :: string
  pd_priority :: int
  pd_node_overhead_w :: watts
  pd_rack_name :: "string option"

definition available_gpu_budget_w :: "power_domain \<Rightarrow> watts" where
  "available_gpu_budget_w d = max 0 (pd_budget_w d - pd_node_overhead_w d)"

record pdu =
  pdu_name :: string
  pdu_capacity_w :: watts
  pdu_derating :: real

definition effective_capacity_w :: "pdu \<Rightarrow> watts" where
  "effective_capacity_w p = pdu_capacity_w p * pdu_derating p"

record rack =
  rack_name :: string
  rack_budget_w :: watts

record topology =
  pdus :: "(string, pdu) dict"
  domains :: "(string, power_domain) dict"
  racks :: "(string, rack) dict"
  adopted_budget_w :: "(string, watts) dict"

record allocation_result =
  ar_domain :: string
  ar_caps :: "(gpu, watts) dict"
  ar_total_w :: watts
  ar_budget_w :: watts
  ar_oversubscribed :: bool
  ar_headroom_w :: watts

section \<open>Operations\<close>

definition adopt_budget :: "topology \<Rightarrow> string \<Rightarrow> watts \<Rightarrow> topology" where
  "adopt_budget t dn w = t\<lparr>adopted_budget_w := dset dn w (adopted_budget_w t)\<rparr>"

definition release_budget :: "topology \<Rightarrow> string \<Rightarrow> topology" where
  "release_budget t dn = t\<lparr>adopted_budget_w := dpop dn (adopted_budget_w t)\<rparr>"

definition domains_on_pdu :: "topology \<Rightarrow> string \<Rightarrow> power_domain list" where
  "domains_on_pdu t pn = filter (\<lambda>d. pd_pdu_name d = pn) (dvals (domains t))"

definition domains_on_rack :: "topology \<Rightarrow> string option \<Rightarrow> power_domain list" where
  "domains_on_rack t rn = filter (\<lambda>d. pd_rack_name d = rn) (dvals (domains t))"

definition pdu_for_domain :: "topology \<Rightarrow> string \<Rightarrow> pdu res" where
  "pdu_for_domain t dn = res_bind (getitem (domains t) dn) (\<lambda>d. getitem (pdus t) (pd_pdu_name d))"

definition rack_for_domain :: "topology \<Rightarrow> string \<Rightarrow> rack option res" where
  \<comment> \<open>an empty rack name is falsy, like \<open>None\<close>\<close>
  "rack_for_domain t dn = res_bind (getitem (domains t) dn) (\<lambda>d.
     Ok (case pd_rack_name d of
           None \<Rightarrow> None
         | Some r \<Rightarrow> if r = [] then None else map_of (racks t) r))"

definition domain_budget_w :: "topology \<Rightarrow> string \<Rightarrow> watts res" where
  "domain_budget_w t dn =
     res_bind (getitem (domains t) dn) (\<lambda>d.
       case map_of (adopted_budget_w t) dn of
         Some a \<Rightarrow> Ok (max 0 (a - pd_node_overhead_w d))
       | None \<Rightarrow>
           res_bind (rack_for_domain t dn) (\<lambda>rk.
             let budget = pd_budget_w d;
                 budget' = (case rk of
                     None \<Rightarrow> budget
                   | Some r \<Rightarrow>
                       (let total = sum_list (map pd_budget_w (domains_on_rack t (pd_rack_name d))) in
                        if rack_budget_w r < total \<and> 0 < rack_budget_w r
                        then budget * rack_budget_w r / total else budget))
             in Ok (max 0 (budget' - pd_node_overhead_w d))))"

definition peer_draw :: "string \<Rightarrow> power_domain \<Rightarrow> watts \<Rightarrow> power_domain \<Rightarrow> watts" where
  \<comment> \<open>the loop body of both rollups: this domain draws what is proposed plus its overhead,
    another domain counts with its full budget\<close>
  "peer_draw dn own proposed d =
     (if pd_name d = dn then proposed + pd_node_overhead_w own else pd_budget_w d)"

definition validate_allocation :: "topology \<Rightarrow> string \<Rightarrow> (gpu, watts) dict \<Rightarrow> bool res" where
  "validate_allocation t dn caps =
     res_bind (getitem (domains t) dn) (\<lambda>own.
       let proposed = dsum caps in
       res_bind (domain_budget_w t dn) (\<lambda>b.
         if b < proposed then Ok False
         else
           res_bind (getitem (pdus t) (pd_pdu_name own)) (\<lambda>p.
             let pdu_total = sum_list (map (peer_draw dn own proposed) (domains_on_pdu t (pd_pdu_name own))) in
             if effective_capacity_w p < pdu_total then Ok False
             else
               res_bind (rack_for_domain t dn) (\<lambda>rk.
                 case rk of
                   None \<Rightarrow> Ok True
                 | Some r \<Rightarrow>
                     (let rack_total = sum_list (map (peer_draw dn own proposed) (domains_on_rack t (pd_rack_name own))) in
                      Ok (\<not> rack_budget_w r < rack_total))))))"

definition total_gpu_count :: "topology \<Rightarrow> nat" where
  "total_gpu_count t = sum_list (map (\<lambda>d. length (pd_gpu_indices d)) (dvals (domains t)))"

definition oversubscription_ratio :: "topology \<Rightarrow> string \<Rightarrow> (gpu, watts) dict \<Rightarrow> real res" where
  "oversubscription_ratio t dn caps =
     res_bind (getitem (domains t) dn) (\<lambda>d.
       if pd_budget_w d = 0 then Err ZeroDivisionError else Ok (dsum caps / pd_budget_w d))"

section \<open>Building a topology from a document\<close>

definition pdu_from_spec :: "string \<Rightarrow> json \<Rightarrow> pdu res" where
  "pdu_from_spec name spec =
     res_bind (res_bind (json_item spec ''capacity_w'') json_float) (\<lambda>cap.
     res_bind (res_bind (json_get spec ''derating'' (JFloat (9/10))) json_float) (\<lambda>der.
     Ok \<lparr>pdu_name = name, pdu_capacity_w = cap, pdu_derating = der\<rparr>))"

definition rack_from_spec :: "string \<Rightarrow> json \<Rightarrow> rack res" where
  "rack_from_spec name spec =
     res_bind (res_bind (json_item spec ''budget_w'') json_float) (\<lambda>b.
     Ok \<lparr>rack_name = name, rack_budget_w = b\<rparr>)"

definition domain_from_spec :: "string \<Rightarrow> json \<Rightarrow> power_domain res" where
  "domain_from_spec name spec =
     res_bind (res_bind (json_item spec ''budget_w'') json_float) (\<lambda>b.
     res_bind (res_bind (res_bind (json_item spec ''gpu_indices'') json_list) (res_map json_index)) (\<lambda>gs.
     res_bind (res_bind (json_item spec ''pdu_name'') json_str) (\<lambda>p.
     res_bind (res_bind (json_get spec ''priority'' (JInt 0)) json_int) (\<lambda>pr.
     res_bind (res_bind (json_get spec ''node_overhead_w'' (JFloat 0)) json_float) (\<lambda>oh.
     res_bind (res_bind (json_get spec ''rack_name'' JNull) json_opt_str) (\<lambda>rn.
     Ok \<lparr>pd_name = name, pd_budget_w = b, pd_gpu_indices = gs, pd_pdu_name = p,
         pd_priority = pr, pd_node_overhead_w = oh, pd_rack_name = rn\<rparr>))))))"

definition build_entries :: "(string \<Rightarrow> json \<Rightarrow> 'a res) \<Rightarrow> (string \<times> json) list \<Rightarrow> (string, 'a) dict res" where
  \<comment> \<open>\<open>for name, spec in ...items(): out[name] = ...\<close>\<close>
  "build_entries mk items = res_map (\<lambda>(name, spec). res_bind (mk name spec) (\<lambda>x. Ok (name, x))) items"

definition unknown_rack :: "(string, rack) dict \<Rightarrow> power_domain \<Rightarrow> bool" where
  "unknown_rack rks d =
     (case pd_rack_name d of None \<Rightarrow> False | Some r \<Rightarrow> r \<notin> set (dkeys rks))"

definition from_dict :: "json \<Rightarrow> topology res" where
  "from_dict config =
     res_bind (res_bind (res_bind (json_item config ''pdus'') json_items) (build_entries pdu_from_spec)) (\<lambda>ps.
     res_bind (res_bind (res_bind (json_get config ''racks'' (JObj [])) json_items) (build_entries rack_from_spec)) (\<lambda>rs.
     res_bind (res_bind (res_bind (json_item config ''domains'') json_items) (build_entries domain_from_spec)) (\<lambda>ds.
       if \<exists>d \<in> set (dvals ds). unknown_rack rs d then Err (ValueError ''unknown rack'')
       else Ok \<lparr>pdus = ps, domains = ds, racks = rs, adopted_budget_w = []\<rparr>)))"


section \<open>Well-formed topologies\<close>

text \<open>
  What \<open>from_dict\<close> establishes and \<open>adopt_budget\<close> and \<open>release_budget\<close> keep: the four
  dictionaries have distinct keys, every record carries the key it is stored under, and every
  rack reference resolves.
\<close>

definition wf_topology :: "topology \<Rightarrow> bool" where
  "wf_topology t \<longleftrightarrow>
     wf_dict (pdus t) \<and> wf_dict (domains t) \<and> wf_dict (racks t) \<and> wf_dict (adopted_budget_w t) \<and>
     (\<forall>(n, d) \<in> set (domains t). pd_name d = n) \<and>
     (\<forall>(n, p) \<in> set (pdus t). pdu_name p = n) \<and>
     (\<forall>(n, r) \<in> set (racks t). rack_name r = n) \<and>
     (\<forall>d \<in> set (dvals (domains t)). \<not> unknown_rack (racks t) d)"

lemma wf_topology_domain:
  "wf_topology t \<Longrightarrow> map_of (domains t) n = Some d \<Longrightarrow> pd_name d = n"
  by (auto simp: wf_topology_def dest: map_of_SomeD)

lemma wf_topology_lookup:
  "wf_topology t \<Longrightarrow> d \<in> set (dvals (domains t)) \<Longrightarrow> map_of (domains t) (pd_name d) = Some d"
  by (auto simp: wf_topology_def)

lemma adopt_budget_sel [simp]:
  "pdus (adopt_budget t dn w) = pdus t" "domains (adopt_budget t dn w) = domains t"
  "racks (adopt_budget t dn w) = racks t"
  "adopted_budget_w (adopt_budget t dn w) = dset dn w (adopted_budget_w t)"
  by (simp_all add: adopt_budget_def)

lemma release_budget_sel [simp]:
  "pdus (release_budget t dn) = pdus t" "domains (release_budget t dn) = domains t"
  "racks (release_budget t dn) = racks t"
  "adopted_budget_w (release_budget t dn) = dpop dn (adopted_budget_w t)"
  by (simp_all add: release_budget_def)

lemma wf_adopt_budget [simp]: "wf_topology t \<Longrightarrow> wf_topology (adopt_budget t dn w)"
  by (auto simp: wf_topology_def)

lemma wf_release_budget [simp]: "wf_topology t \<Longrightarrow> wf_topology (release_budget t dn)"
  by (auto simp: wf_topology_def)

lemma rack_for_domain_cong [simp]:
  "rack_for_domain (adopt_budget t dn w) n = rack_for_domain t n"
  "rack_for_domain (release_budget t dn) n = rack_for_domain t n"
  by (simp_all add: rack_for_domain_def cong: option.case_cong if_cong)

lemma domains_on_cong [simp]:
  "domains_on_rack (adopt_budget t dn w) r = domains_on_rack t r"
  "domains_on_rack (release_budget t dn) r = domains_on_rack t r"
  by (simp_all add: domains_on_rack_def)

section \<open>The effective budget\<close>

lemma rack_for_domain_known:
  "map_of (domains t) dn = Some d \<Longrightarrow>
   rack_for_domain t dn = Ok (case pd_rack_name d of None \<Rightarrow> None
     | Some r \<Rightarrow> if r = [] then None else map_of (racks t) r)"
  by (simp add: rack_for_domain_def getitem_def)

lemma domain_budget_unknown: "map_of (domains t) dn = None \<Longrightarrow> domain_budget_w t dn = Err (KeyError dn)"
  by (simp add: domain_budget_w_def getitem_def)

lemma domain_budget_adopted:
  "map_of (domains t) dn = Some d \<Longrightarrow> map_of (adopted_budget_w t) dn = Some a \<Longrightarrow>
   domain_budget_w t dn = Ok (max 0 (a - pd_node_overhead_w d))"
  by (simp add: domain_budget_w_def getitem_def)

text \<open>The rack's share of a domain's budget.\<close>

definition rack_share :: "topology \<Rightarrow> power_domain \<Rightarrow> rack option \<Rightarrow> watts" where
  "rack_share t d rk = (case rk of None \<Rightarrow> pd_budget_w d
     | Some r \<Rightarrow>
        (let total = sum_list (map pd_budget_w (domains_on_rack t (pd_rack_name d))) in
         if rack_budget_w r < total \<and> 0 < rack_budget_w r
         then pd_budget_w d * rack_budget_w r / total else pd_budget_w d))"

lemma domain_budget_static:
  "map_of (domains t) dn = Some d \<Longrightarrow> map_of (adopted_budget_w t) dn = None \<Longrightarrow>
   rack_for_domain t dn = Ok rk \<Longrightarrow>
   domain_budget_w t dn = Ok (max 0 (rack_share t d rk - pd_node_overhead_w d))"
  by (simp add: domain_budget_w_def getitem_def rack_share_def Let_def)

lemma domain_budget_total:
  "map_of (domains t) dn = Some d \<Longrightarrow> \<exists>b \<ge> 0. domain_budget_w t dn = Ok b"
  by (cases "map_of (adopted_budget_w t) dn")
     (auto simp: domain_budget_adopted domain_budget_static rack_for_domain_known)

lemma domain_budget_nonneg: "domain_budget_w t dn = Ok b \<Longrightarrow> 0 \<le> b"
  using domain_budget_total [of t dn] domain_budget_unknown [of t dn]
  by (cases "map_of (domains t) dn") auto

lemma domain_budget_Ok_known:
  "domain_budget_w t dn = Ok b \<Longrightarrow> \<exists>d. map_of (domains t) dn = Some d"
  by (cases "map_of (domains t) dn") (auto simp: domain_budget_unknown)

lemma rack_share_le:
  assumes "0 \<le> pd_budget_w d"
  shows "rack_share t d rk \<le> pd_budget_w d"
proof (cases rk)
  case (Some r)
  define total where "total = sum_list (map pd_budget_w (domains_on_rack t (pd_rack_name d)))"
  show ?thesis
  proof (cases "rack_budget_w r < total \<and> 0 < rack_budget_w r")
    case True
    then have "rack_budget_w r / total \<le> 1" by (simp add: divide_le_eq)
    from mult_left_mono [OF this assms]
    show ?thesis using Some True by (simp add: rack_share_def total_def [symmetric])
  next
    case False
    with Some show ?thesis by (auto simp: rack_share_def total_def [symmetric])
  qed
qed (simp add: rack_share_def)

text \<open>Scaled shares of the domains of one rack sum to at most the rack's budget.\<close>

lemma rack_shares_sum:
  assumes pos: "0 < rack_budget_w r"
    and same: "\<And>d. d \<in> set ds \<Longrightarrow> pd_rack_name d = rn"
    and ds: "ds = domains_on_rack t rn"
  shows "sum_list (map (\<lambda>d. rack_share t d (Some r)) ds) \<le> rack_budget_w r"
proof -
  define total where "total = sum_list (map pd_budget_w ds)"
  have share: "rack_share t d (Some r) =
      (if rack_budget_w r < total then pd_budget_w d / total * rack_budget_w r else pd_budget_w d)"
    if "d \<in> set ds" for d
    using same [OF that] pos by (simp add: rack_share_def Let_def ds total_def)
  show ?thesis
  proof (cases "rack_budget_w r < total")
    case True
    have "sum_list (map (\<lambda>d. rack_share t d (Some r)) ds)
        = sum_list (map (\<lambda>d. pd_budget_w d / total * rack_budget_w r) ds)"
      using True by (intro arg_cong [where f = sum_list] map_cong) (auto simp: share)
    also have "\<dots> = total / total * rack_budget_w r"
      by (simp only: sum_list_shares total_def)
    finally show ?thesis using True pos by simp
  next
    case False
    have "sum_list (map (\<lambda>d. rack_share t d (Some r)) ds) = total"
      unfolding total_def using False by (intro arg_cong [where f = sum_list] map_cong) (auto simp: share)
    with False show ?thesis by simp
  qed
qed


definition effective_budget :: "topology \<Rightarrow> power_domain \<Rightarrow> watts" where
  \<comment> \<open>the watts the brains may hand out in a domain of the topology\<close>
  "effective_budget t d = (case domain_budget_w t (pd_name d) of Inl _ \<Rightarrow> 0 | Inr b \<Rightarrow> b)"

lemma effective_budget_static:
  "wf_topology t \<Longrightarrow> d \<in> set (dvals (domains t)) \<Longrightarrow> map_of (adopted_budget_w t) (pd_name d) = None \<Longrightarrow>
   rack_for_domain t (pd_name d) = Ok rk \<Longrightarrow>
   effective_budget t d = max 0 (rack_share t d rk - pd_node_overhead_w d)"
  by (simp add: effective_budget_def domain_budget_static wf_topology_lookup)

text \<open>C26. The rack cascade of N17: when a rack has a positive budget and no domain of it runs on
  a budget adopted from the coordinator, the effective budgets of its domains (what the brains
  may hand out as GPU caps) sum to at most the rack's budget, however large the domains'
  own budgets are.\<close>

theorem rack_cascade:
  assumes wf: "wf_topology t"
    and rk: "map_of (racks t) rn = Some r" and ne: "rn \<noteq> []" and pos: "0 < rack_budget_w r"
    and static: "\<And>d. d \<in> set (domains_on_rack t (Some rn)) \<Longrightarrow>
        map_of (adopted_budget_w t) (pd_name d) = None \<and> 0 \<le> pd_budget_w d \<and> 0 \<le> pd_node_overhead_w d"
  shows "sum_list (map (effective_budget t) (domains_on_rack t (Some rn))) \<le> rack_budget_w r"
proof -
  let ?ds = "domains_on_rack t (Some rn)"
  have on: "d \<in> set (dvals (domains t))" "pd_rack_name d = Some rn" if "d \<in> set ?ds" for d
    using that by (auto simp: domains_on_rack_def)
  have nonneg_total: "0 \<le> sum_list (map pd_budget_w ?ds)"
    by (intro sum_list_nonneg) (use static in auto)
  have le: "effective_budget t d \<le> rack_share t d (Some r)" if d: "d \<in> set ?ds" for d
  proof -
    have "rack_for_domain t (pd_name d) = Ok (Some r)"
      using rack_for_domain_known [OF wf_topology_lookup [OF wf on(1) [OF d]]] on(2) [OF d] ne rk by simp
    then have "effective_budget t d = max 0 (rack_share t d (Some r) - pd_node_overhead_w d)"
      using effective_budget_static wf on(1) d static by blast
    moreover have "0 \<le> rack_share t d (Some r)"
      using static [OF d] nonneg_total pos on(2) [OF d] by (simp add: rack_share_def Let_def)
    ultimately show ?thesis using static [OF d] by linarith
  qed
  have "sum_list (map (effective_budget t) ?ds) \<le> sum_list (map (\<lambda>d. rack_share t d (Some r)) ?ds)"
    by (rule sum_list_mono) (rule le)
  also have "\<dots> \<le> rack_budget_w r"
    by (rule rack_shares_sum [where rn = "Some rn"]) (use pos on(2) in auto)
  finally show ?thesis .
qed

definition demo_rack_topology :: topology where
  \<comment> \<open>two 5000 W domains on one 6000 W rack, one of them with 200 W of node overhead\<close>
  "demo_rack_topology =
     \<lparr>pdus = [(''pdu0'', \<lparr>pdu_name = ''pdu0'', pdu_capacity_w = 100000, pdu_derating = 1\<rparr>)],
      domains =
        [(''a'', \<lparr>pd_name = ''a'', pd_budget_w = 5000, pd_gpu_indices = [0, 1], pd_pdu_name = ''pdu0'',
           pd_priority = 0, pd_node_overhead_w = 200, pd_rack_name = Some ''r0''\<rparr>),
         (''b'', \<lparr>pd_name = ''b'', pd_budget_w = 5000, pd_gpu_indices = [2, 3], pd_pdu_name = ''pdu0'',
           pd_priority = 0, pd_node_overhead_w = 0, pd_rack_name = Some ''r0''\<rparr>)],
      racks = [(''r0'', \<lparr>rack_name = ''r0'', rack_budget_w = 6000\<rparr>)],
      adopted_budget_w = []\<rparr>"

lemma wf_demo_rack_topology: "wf_topology demo_rack_topology"
  by (simp add: wf_topology_def demo_rack_topology_def unknown_rack_def)

theorem rack_cascade_witness:
  "sum_list (map (effective_budget demo_rack_topology) (domains_on_rack demo_rack_topology (Some ''r0'')))
     \<le> 6000"
proof -
  let ?r = "\<lparr>rack_name = ''r0'', rack_budget_w = 6000\<rparr>"
  have "sum_list (map (effective_budget demo_rack_topology) (domains_on_rack demo_rack_topology (Some ''r0'')))
      \<le> rack_budget_w ?r"
    by (rule rack_cascade [OF wf_demo_rack_topology])
       (auto simp: demo_rack_topology_def domains_on_rack_def)
  then show ?thesis by simp
qed

section \<open>Validation of proposed caps\<close>

lemma validate_True_iff:
  "validate_allocation t dn caps = Ok True \<longleftrightarrow>
     (\<exists>own b p rk. map_of (domains t) dn = Some own \<and> domain_budget_w t dn = Ok b \<and>
        map_of (pdus t) (pd_pdu_name own) = Some p \<and> rack_for_domain t dn = Ok rk \<and>
        dsum caps \<le> b \<and>
        sum_list (map (peer_draw dn own (dsum caps)) (domains_on_pdu t (pd_pdu_name own))) \<le> effective_capacity_w p \<and>
        (\<forall>r. rk = Some r \<longrightarrow>
           sum_list (map (peer_draw dn own (dsum caps)) (domains_on_rack t (pd_rack_name own))) \<le> rack_budget_w r))"
  (is "?v \<longleftrightarrow> ?r")
proof
  assume ?v
  then show ?r
    by (auto simp: validate_allocation_def Let_def res_bind_Ok_iff getitem_Ok_iff not_less
             split: if_splits option.splits)
next
  assume ?r
  then obtain own b p rk where
    "map_of (domains t) dn = Some own" "domain_budget_w t dn = Ok b"
    "map_of (pdus t) (pd_pdu_name own) = Some p" "rack_for_domain t dn = Ok rk" "dsum caps \<le> b"
    "sum_list (map (peer_draw dn own (dsum caps)) (domains_on_pdu t (pd_pdu_name own))) \<le> effective_capacity_w p"
    "\<forall>r. rk = Some r \<longrightarrow>
       sum_list (map (peer_draw dn own (dsum caps)) (domains_on_rack t (pd_rack_name own))) \<le> rack_budget_w r"
    by blast
  then show ?v
    by (simp add: validate_allocation_def getitem_def not_less split: option.split)
qed

lemma peer_draw_mono: "p \<le> q \<Longrightarrow> peer_draw dn own p d \<le> peer_draw dn own q d"
  by (simp add: peer_draw_def)

lemma peer_draw_bounds:
  assumes wf: "wf_topology t" and own: "map_of (domains t) dn = Some own"
    and peers: "\<And>d. d \<in> set (dvals (domains t)) \<Longrightarrow> pd_name d \<noteq> dn \<Longrightarrow> draw d \<le> pd_budget_w d"
    and mine: "draw own \<le> proposed + pd_node_overhead_w own"
    and sub: "set ds \<subseteq> set (dvals (domains t))"
  shows "sum_list (map draw ds) \<le> sum_list (map (peer_draw dn own proposed) ds)"
proof (rule sum_list_mono)
  fix d assume "d \<in> set ds"
  with sub have d: "d \<in> set (dvals (domains t))" by blast
  show "draw d \<le> peer_draw dn own proposed d"
  proof (cases "pd_name d = dn")
    case True
    from wf_topology_lookup [OF wf d] True own have "d = own" by simp
    with True mine show ?thesis by (simp add: peer_draw_def)
  next
    case False
    with peers [OF d] show ?thesis by (simp add: peer_draw_def)
  qed
qed

text \<open>C35. Soundness of validation: when \<open>validate_allocation\<close> accepts caps for a domain, then
  whatever the other domains draw within their own budgets, the caps fit the domain's
  effective budget, the draws on the domain's PDU (this domain with its caps and its
  overhead) fit the derated capacity of the PDU, and the draws on its rack, if it has one,
  fit the rack's budget.\<close>

theorem validate_allocation_sound:
  assumes valid: "validate_allocation t dn caps = Ok True" and wf: "wf_topology t"
    and own: "map_of (domains t) dn = Some own"
    and peers: "\<And>d. d \<in> set (dvals (domains t)) \<Longrightarrow> pd_name d \<noteq> dn \<Longrightarrow> draw d \<le> pd_budget_w d"
    and mine: "draw own \<le> dsum caps + pd_node_overhead_w own"
  shows "(\<exists>b. domain_budget_w t dn = Ok b \<and> dsum caps \<le> b) \<and>
         (\<exists>p. pdu_for_domain t dn = Ok p \<and>
            sum_list (map draw (domains_on_pdu t (pd_pdu_name own))) \<le> pdu_capacity_w p * pdu_derating p) \<and>
         (\<forall>r. rack_for_domain t dn = Ok (Some r) \<longrightarrow>
            sum_list (map draw (domains_on_rack t (pd_rack_name own))) \<le> rack_budget_w r)"
proof -
  from valid own obtain b p rk where b: "domain_budget_w t dn = Ok b" "dsum caps \<le> b"
    and p: "map_of (pdus t) (pd_pdu_name own) = Some p" and rk: "rack_for_domain t dn = Ok rk"
    and cap: "sum_list (map (peer_draw dn own (dsum caps)) (domains_on_pdu t (pd_pdu_name own))) \<le> effective_capacity_w p"
    and rcap: "\<forall>r. rk = Some r \<longrightarrow>
       sum_list (map (peer_draw dn own (dsum caps)) (domains_on_rack t (pd_rack_name own))) \<le> rack_budget_w r"
    by (auto simp: validate_True_iff)
  note bound = peer_draw_bounds [OF wf own peers mine]
  have "sum_list (map draw (domains_on_pdu t (pd_pdu_name own))) \<le> effective_capacity_w p"
    using cap by (rule order_trans [rotated]) (rule bound, auto simp: domains_on_pdu_def)
  moreover have "sum_list (map draw (domains_on_rack t (pd_rack_name own)))
      \<le> sum_list (map (peer_draw dn own (dsum caps)) (domains_on_rack t (pd_rack_name own)))"
    by (rule bound) (auto simp: domains_on_rack_def)
  ultimately show ?thesis
    using b p rk rcap own
    by (auto simp: effective_capacity_w_def pdu_for_domain_def getitem_def)
qed

lemma demo_rack_lookup:
  "map_of (domains demo_rack_topology) ''a'' = Some
     \<lparr>pd_name = ''a'', pd_budget_w = 5000, pd_gpu_indices = [0, 1], pd_pdu_name = ''pdu0'',
      pd_priority = 0, pd_node_overhead_w = 200, pd_rack_name = Some ''r0''\<rparr>"
  by (simp add: demo_rack_topology_def)

lemma demo_rack_valid:
  "validate_allocation demo_rack_topology ''a'' [(0, 300), (1, 400)] = Ok True"
  by (simp add: validate_allocation_def demo_rack_topology_def getitem_def domain_budget_w_def
      rack_for_domain_def domains_on_rack_def domains_on_pdu_def peer_draw_def effective_capacity_w_def)

theorem validate_allocation_sound_witness:
  "sum_list (map (\<lambda>d. if pd_name d = ''a'' then 900 else 4000)
     (domains_on_rack demo_rack_topology (Some ''r0''))) \<le> (6000 :: watts)"
proof -
  let ?draw = "\<lambda>d. if pd_name d = ''a'' then 900 else 4000 :: watts"
  have peers: "?draw d \<le> pd_budget_w d"
    if "d \<in> set (dvals (domains demo_rack_topology))" "pd_name d \<noteq> ''a''" for d :: power_domain
    using that by (auto simp: demo_rack_topology_def)
  have "rack_for_domain demo_rack_topology ''a'' = Ok (Some \<lparr>rack_name = ''r0'', rack_budget_w = 6000\<rparr>)"
    by (simp add: demo_rack_topology_def rack_for_domain_def getitem_def)
  then show ?thesis
    using validate_allocation_sound [OF demo_rack_valid wf_demo_rack_topology demo_rack_lookup,
        of ?draw, OF peers] by simp
qed

text \<open>Lowering the proposed caps never turns an accepted allocation into a rejected one.\<close>

lemma validate_allocation_antitone:
  assumes "validate_allocation t dn caps = Ok True" and le: "dsum caps' \<le> dsum caps"
  shows "validate_allocation t dn caps' = Ok True"
proof -
  have mono: "sum_list (map (peer_draw dn own (dsum caps')) ds) \<le> sum_list (map (peer_draw dn own (dsum caps)) ds)"
    for own ds
    by (rule sum_list_mono) (rule peer_draw_mono [OF le])
  from assms(1) show ?thesis
    unfolding validate_True_iff using le mono by (meson order_trans)
qed

section \<open>Adopted budgets\<close>

lemma domain_budget_adopt_other:
  "n \<noteq> dn \<Longrightarrow> domain_budget_w (adopt_budget t dn w) n = domain_budget_w t n"
  unfolding domain_budget_w_def adopt_budget_sel rack_for_domain_cong domains_on_cong map_of_dset by simp

lemma domain_budget_release_other:
  "n \<noteq> dn \<Longrightarrow> domain_budget_w (release_budget t dn) n = domain_budget_w t n"
  unfolding domain_budget_w_def release_budget_sel rack_for_domain_cong domains_on_cong map_of_dpop by simp

text \<open>Adopting a coordinator budget: it supersedes the static and the rack budget of that
  domain only (node overhead still comes off), it leaves every other domain's budget alone,
  and releasing it restores the budgets the topology had before, for every domain.\<close>

theorem adopt_release_budget:
  assumes "map_of (domains t) dn = Some d"
  shows "domain_budget_w (adopt_budget t dn w) dn = Ok (max 0 (w - pd_node_overhead_w d)) \<and>
         (\<forall>n. n \<noteq> dn \<longrightarrow> domain_budget_w (adopt_budget t dn w) n = domain_budget_w t n) \<and>
         (map_of (adopted_budget_w t) dn = None \<longrightarrow>
            (\<forall>n. domain_budget_w (release_budget (adopt_budget t dn w) dn) n = domain_budget_w t n))"
proof -
  have "domain_budget_w (release_budget (adopt_budget t dn w) dn) n = domain_budget_w t n"
    if "map_of (adopted_budget_w t) dn = None" for n
  proof (cases "n = dn")
    case True
    with that show ?thesis
      unfolding domain_budget_w_def adopt_budget_sel release_budget_sel rack_for_domain_cong
        domains_on_cong map_of_dpop by simp
  next
    case False
    then show ?thesis by (simp add: domain_budget_release_other domain_budget_adopt_other)
  qed
  then show ?thesis
    using assms by (simp add: domain_budget_adopted domain_budget_adopt_other)
qed

theorem adopt_release_budget_witness:
  "domain_budget_w (adopt_budget demo_rack_topology ''a'' 2500) ''a'' = Ok 2300 \<and>
   domain_budget_w (release_budget (adopt_budget demo_rack_topology ''a'' 2500) ''a'') ''a''
     = domain_budget_w demo_rack_topology ''a''"
  using adopt_release_budget [OF demo_rack_lookup, of 2500]
  by (simp add: demo_rack_topology_def)

section \<open>Building from a document\<close>

lemma build_entries_Ok:
  "build_entries mk items = Ok d \<longleftrightarrow>
     list_all2 (\<lambda>(n, spec) (m, x). m = n \<and> mk n spec = Ok x) items d"
proof -
  have "(\<lambda>e y. (case e of (name, spec) \<Rightarrow> res_bind (mk name spec) (\<lambda>x. Ok (name, x))) = Ok y)
      = (\<lambda>(n, spec) (m, x). m = n \<and> mk n spec = Ok x)"
    by (auto simp: fun_eq_iff res_bind_Ok_iff)
  then show ?thesis unfolding build_entries_def res_map_Ok_iff by simp
qed

lemma build_entries_keys: "build_entries mk items = Ok d \<Longrightarrow> dkeys d = dkeys items"
  unfolding build_entries_Ok
  by (induction items d rule: list_all2_induct) auto

lemma build_entries_in:
  assumes "build_entries mk items = Ok d" and "(n, x) \<in> set d"
  shows "\<exists>spec. (n, spec) \<in> set items \<and> mk n spec = Ok x"
  using assms unfolding build_entries_Ok
  by (induction items d rule: list_all2_induct) auto

lemma pdu_from_spec_name: "pdu_from_spec n spec = Ok p \<Longrightarrow> pdu_name p = n"
  by (auto simp: pdu_from_spec_def res_bind_Ok_iff)

lemma rack_from_spec_name: "rack_from_spec n spec = Ok r \<Longrightarrow> rack_name r = n"
  by (auto simp: rack_from_spec_def res_bind_Ok_iff)

lemma domain_from_spec_name: "domain_from_spec n spec = Ok d \<Longrightarrow> pd_name d = n"
  by (auto simp: domain_from_spec_def res_bind_Ok_iff)

lemma from_dict_Ok:
  assumes "from_dict config = Ok t"
  shows "\<exists>pi ri di. res_bind (json_item config ''pdus'') json_items = Ok pi \<and>
      build_entries pdu_from_spec pi = Ok (pdus t) \<and>
      res_bind (json_get config ''racks'' (JObj [])) json_items = Ok ri \<and>
      build_entries rack_from_spec ri = Ok (racks t) \<and>
      res_bind (json_item config ''domains'') json_items = Ok di \<and>
      build_entries domain_from_spec di = Ok (domains t) \<and>
      (\<forall>d \<in> set (dvals (domains t)). \<not> unknown_rack (racks t) d) \<and> adopted_budget_w t = []"
  using assms unfolding from_dict_def res_bind_Ok_iff by (fastforce split: if_splits)

text \<open>Every topology \<open>from_dict\<close> returns is well formed: distinct keys, each record stored
  under its own name, every rack reference resolved (a mistyped rack name cannot silently
  disable the rack's enforcement) and no adopted budget yet.\<close>

theorem from_dict_wf:
  assumes wfj: "wf_json config" and t: "from_dict config = Ok t"
  shows "wf_topology t \<and> adopted_budget_w t = []"
proof -
  from from_dict_Ok [OF t] obtain pi ri di where
    pi: "res_bind (json_item config ''pdus'') json_items = Ok pi" "build_entries pdu_from_spec pi = Ok (pdus t)" and
    ri: "res_bind (json_get config ''racks'' (JObj [])) json_items = Ok ri" "build_entries rack_from_spec ri = Ok (racks t)" and
    di: "res_bind (json_item config ''domains'') json_items = Ok di" "build_entries domain_from_spec di = Ok (domains t)" and
    known: "\<forall>d \<in> set (dvals (domains t)). \<not> unknown_rack (racks t) d" and ad: "adopted_budget_w t = []"
    by blast
  have "wf_dict pi" "wf_dict ri" "wf_dict di"
    using wf_json_item_items [OF wfj pi(1)] wf_json_get_items [OF wfj _ ri(1)]
      wf_json_item_items [OF wfj di(1)] by simp_all
  moreover note build_entries_keys [OF pi(2)] build_entries_keys [OF ri(2)] build_entries_keys [OF di(2)]
  moreover have "\<forall>(n, p) \<in> set (pdus t). pdu_name p = n"
    using build_entries_in [OF pi(2)] pdu_from_spec_name by fastforce
  moreover have "\<forall>(n, r) \<in> set (racks t). rack_name r = n"
    using build_entries_in [OF ri(2)] rack_from_spec_name by fastforce
  moreover have "\<forall>(n, d) \<in> set (domains t). pd_name d = n"
    using build_entries_in [OF di(2)] domain_from_spec_name by fastforce
  ultimately show ?thesis using known ad by (simp add: wf_topology_def)
qed

definition demo_config :: json where
  "demo_config = JObj
     [(''pdus'', JObj [(''pdu0'', JObj [(''capacity_w'', JInt 10000)])]),
      (''racks'', JObj [(''r0'', JObj [(''budget_w'', JInt 6000)])]),
      (''domains'', JObj [(''a'', JObj [(''budget_w'', JStr ''8e3''), (''gpu_indices'', JList [JInt 0, JInt 1]),
         (''pdu_name'', JStr ''pdu0''), (''rack_name'', JStr ''r0'')])])]"

definition demo_config_topology :: topology where
  "demo_config_topology =
     \<lparr>pdus = [(''pdu0'', \<lparr>pdu_name = ''pdu0'', pdu_capacity_w = 10000, pdu_derating = 9/10\<rparr>)],
      domains =
        [(''a'', \<lparr>pd_name = ''a'', pd_budget_w = 8000, pd_gpu_indices = [0, 1], pd_pdu_name = ''pdu0'',
           pd_priority = 0, pd_node_overhead_w = 0, pd_rack_name = Some ''r0''\<rparr>)],
      racks = [(''r0'', \<lparr>rack_name = ''r0'', rack_budget_w = 6000\<rparr>)],
      adopted_budget_w = []\<rparr>"

lemma demo_budget_text: "py_float ''8e3'' = Ok (Fin 8000)"
  by (simp add: py_float_def strip_def lstrip_def rstrip_def is_ws_def sign_of_def lower_def
      lower_char_def split_first_def mantissa_of_def digits_of_def is_digit_def digit_val_def
      exponent_of_def scale10_def)

lemma from_dict_demo: "from_dict demo_config = Ok demo_config_topology"
  using float_overflow_small [of 10000] float_overflow_small [of 6000]
  by (simp add: from_dict_def demo_config_def demo_config_topology_def json_defs getitem_def
      build_entries_def pdu_from_spec_def rack_from_spec_def domain_from_spec_def unknown_rack_def
      demo_budget_text)

theorem from_dict_wf_witness: "wf_topology demo_config_topology"
  using from_dict_wf [of demo_config, OF _ from_dict_demo] by (simp add: demo_config_def)

end
