(* ===== verification/Brain.thy ===== *)
theory Brain
  imports Pdn
begin

text \<open>
  What a brain sees and returns (\<open>DomainState\<close> and \<open>BrainDecision\<close> of \<open>brain/dpm.py\<close>), and the
  contract of \<open>decide\<close> the controller relies on, as the locale \<open>cap_brain\<close>: each brain of the
  program interprets it on its own model. The topology object is shared with the controller,
  which may adopt budgets between ticks, so it is an argument of \<open>decide\<close>, not a field of the
  brain.
\<close>

section \<open>Data\<close>

record domain_state =
  ds_domain_name :: string
  gpu_draws :: "(gpu, watts) dict"
  gpu_caps :: "(gpu, watts) dict"
  ds_ts :: real
  gpu_max_caps :: "(gpu, watts) dict"
  gpu_thermal_throttled :: "(gpu, bool) dict"

record brain_decision =
  bd_domain :: string
  bd_caps :: "(gpu, watts) dict"
  bd_ts :: real
  bd_reason :: string

text \<open>
  A well-formed state: dictionaries have distinct keys and powers are not negative. The
  controller builds only such states from an actuator that reports non-negative powers.
\<close>

definition wf_state :: "domain_state \<Rightarrow> bool" where
  "wf_state st \<longleftrightarrow>
     wf_dict (gpu_draws st) \<and> wf_dict (gpu_caps st) \<and> wf_dict (gpu_max_caps st) \<and>
     (\<forall>v \<in> set (dvals (gpu_draws st)). 0 \<le> v) \<and>
     (\<forall>v \<in> set (dvals (gpu_caps st)). 0 \<le> v) \<and>
     (\<forall>v \<in> set (dvals (gpu_max_caps st)). 0 \<le> v)"

abbreviation state_gpus :: "domain_state \<Rightarrow> gpu list" where
  "state_gpus st \<equiv> dkeys (gpu_draws st)"

lemma wf_state_draw: "wf_state st \<Longrightarrow> (g, v) \<in> set (gpu_draws st) \<Longrightarrow> 0 \<le> v"
  by (force simp: wf_state_def)

lemma wf_state_draw_item: "wf_state st \<Longrightarrow> g \<in> set (state_gpus st) \<Longrightarrow> 0 \<le> ditem (gpu_draws st) g"
  using ditem_in_vals [of g "gpu_draws st"] unfolding wf_state_def by blast

lemma wf_state_total: "wf_state st \<Longrightarrow> 0 \<le> dsum (gpu_draws st)"
  by (rule dsum_nonneg) (simp add: wf_state_def)

lemma dget_or_nonneg:
  "\<forall>v \<in> set (dvals d). 0 \<le> v \<Longrightarrow> 0 \<le> x \<Longrightarrow> 0 \<le> dget_or d k (x :: real)"
  by (induction d) auto

lemma wf_state_cap: "wf_state st \<Longrightarrow> 0 \<le> x \<Longrightarrow> 0 \<le> dget_or (gpu_caps st) g x"
  by (rule dget_or_nonneg) (simp_all add: wf_state_def)

lemma wf_state_max_cap: "wf_state st \<Longrightarrow> 0 \<le> x \<Longrightarrow> 0 \<le> dget_or (gpu_max_caps st) g x"
  by (rule dget_or_nonneg) (simp_all add: wf_state_def)

section \<open>The contract of a brain\<close>

text \<open>
  A decision caps exactly GPUs of the state, each once, never below zero, and keeps the
  brain's own invariant; \<open>decide\<close> raises only when the topology does not know the domain.
\<close>

locale cap_brain =
  fixes inv :: "'b \<Rightarrow> bool"
    and decide :: "'b \<Rightarrow> topology \<Rightarrow> string \<Rightarrow> domain_state \<Rightarrow> ('b \<times> brain_decision) res"
  assumes decide_total: "map_of (domains t) dn = Some d \<Longrightarrow> wf_state st \<Longrightarrow> inv b \<Longrightarrow>
      \<exists>r. decide b t dn st = Ok r"
    and decide_inv: "wf_state st \<Longrightarrow> inv b \<Longrightarrow> decide b t dn st = Ok (b', dec) \<Longrightarrow> inv b'"
    and decide_wf: "wf_state st \<Longrightarrow> inv b \<Longrightarrow> decide b t dn st = Ok (b', dec) \<Longrightarrow> wf_dict (bd_caps dec)"
    and decide_gpus: "wf_state st \<Longrightarrow> inv b \<Longrightarrow> decide b t dn st = Ok (b', dec) \<Longrightarrow>
      set (dkeys (bd_caps dec)) \<subseteq> set (state_gpus st)"
    and decide_nonneg: "wf_state st \<Longrightarrow> inv b \<Longrightarrow> decide b t dn st = Ok (b', dec) \<Longrightarrow>
      v \<in> set (dvals (bd_caps dec)) \<Longrightarrow> 0 \<le> v"

text \<open>Ticks of one domain in sequence: the brain's state is threaded through.\<close>

fun decide_all :: "('b \<Rightarrow> topology \<Rightarrow> string \<Rightarrow> domain_state \<Rightarrow> ('b \<times> brain_decision) res) \<Rightarrow>
    'b \<Rightarrow> topology \<Rightarrow> string \<Rightarrow> domain_state list \<Rightarrow> ('b \<times> brain_decision list) res" where
  "decide_all f b t dn [] = Ok (b, [])"
| "decide_all f b t dn (st # sts) =
     res_bind (f b t dn st) (\<lambda>(b', dec).
     res_bind (decide_all f b' t dn sts) (\<lambda>(b'', decs). Ok (b'', dec # decs)))"

context cap_brain
begin

lemma decide_all_total:
  "map_of (domains t) dn = Some d \<Longrightarrow> \<forall>st \<in> set sts. wf_state st \<Longrightarrow> inv b \<Longrightarrow>
   \<exists>b' decs. decide_all decide b t dn sts = Ok (b', decs) \<and> inv b' \<and> length decs = length sts"
proof (induction sts arbitrary: b)
  case Nil
  then show ?case by simp
next
  case (Cons st sts)
  then obtain b1 dec where 1: "decide b t dn st = Ok (b1, dec)"
    using decide_total [of t dn d st b] by auto
  then have "inv b1" using decide_inv Cons.prems by auto
  then obtain b2 decs where "decide_all decide b1 t dn sts = Ok (b2, decs)" "inv b2" "length decs = length sts"
    using Cons.IH [of b1] Cons.prems by auto
  with 1 show ?case by simp
qed

lemma decide_all_caps_nonneg:
  "\<forall>st \<in> set sts. wf_state st \<Longrightarrow> inv b \<Longrightarrow> decide_all decide b t dn sts = Ok (b', decs) \<Longrightarrow>
   dec \<in> set decs \<Longrightarrow> v \<in> set (dvals (bd_caps dec)) \<Longrightarrow> 0 \<le> v"
proof (induction sts arbitrary: b decs)
  case Nil
  then show ?case by simp
next
  case (Cons st sts)
  from Cons.prems(3) obtain b1 dec1 decs1 where
    1: "decide b t dn st = Ok (b1, dec1)" and
    2: "decide_all decide b1 t dn sts = Ok (b', decs1)" and decs: "decs = dec1 # decs1"
    by (auto simp: res_bind_Ok_iff)
  have wf: "wf_state st" using Cons.prems(1) by simp
  show ?case
  proof (cases "dec = dec1")
    case True
    with 1 wf Cons.prems show ?thesis using decide_nonneg by blast
  next
    case False
    have "inv b1" using decide_inv [OF wf _ 1] Cons.prems by simp
    with False Cons 2 decs show ?thesis by auto
  qed
qed

end

text \<open>
  A brain that also keeps the total within a bound of its own (the budget, or the budget
  plus what its floors may add).
\<close>

locale bounded_brain = cap_brain inv decide
  for inv :: "'b \<Rightarrow> bool"
    and decide :: "'b \<Rightarrow> topology \<Rightarrow> string \<Rightarrow> domain_state \<Rightarrow> ('b \<times> brain_decision) res" +
  fixes bound :: "'b \<Rightarrow> string \<Rightarrow> watts \<Rightarrow> domain_state \<Rightarrow> watts"
  assumes decide_bound: "wf_state st \<Longrightarrow> inv b \<Longrightarrow> domain_budget_w t dn = Ok w \<Longrightarrow>
      decide b t dn st = Ok (b', dec) \<Longrightarrow> dsum (bd_caps dec) \<le> bound b dn w st"
begin

text \<open>No single GPU is given more than the bound on the total.\<close>

lemma decide_each_bound:
  assumes "wf_state st" and "inv b" and "domain_budget_w t dn = Ok w"
    and dec: "decide b t dn st = Ok (b', dec)" and g: "map_of (bd_caps dec) g = Some c"
  shows "c \<le> bound b dn w st"
proof -
  have "c \<in> set (dvals (bd_caps dec))"
    using map_of_SomeD [OF g] by (metis image_eqI set_map snd_conv)
  then have "c \<le> dsum (bd_caps dec)"
    unfolding dsum_def by (rule member_le_sum_list) (use decide_nonneg assms in blast)
  also have "\<dots> \<le> bound b dn w st" using decide_bound assms by blast
  finally show ?thesis .
qed

end

end
