(* ===== verification/Dpm.thy ===== *)
theory Dpm
  imports Brain
begin

text \<open>
  \<open>brain/dpm.py\<close>: brain v1, static proportional allocation. Under budget every GPU gets its
  hardware maximum back; over budget each GPU gets its share of the budget in proportion to
  its draw, clamped between the floor and the cap it currently holds.
\<close>

record dpm_brain =
  dpm_min_cap_w :: watts

definition dpm_under :: "dpm_brain \<Rightarrow> domain_state \<Rightarrow> (gpu, watts) dict" where
  "dpm_under b st = dcomp (\<lambda>g. dget_or (gpu_max_caps st) g (dget_or (gpu_caps st) g (dpm_min_cap_w b))) (state_gpus st)"

definition dpm_raw :: "watts \<Rightarrow> domain_state \<Rightarrow> gpu \<Rightarrow> watts" where
  "dpm_raw budget st g = ditem (gpu_draws st) g / dsum (gpu_draws st) * budget"

definition dpm_over :: "dpm_brain \<Rightarrow> watts \<Rightarrow> domain_state \<Rightarrow> (gpu, watts) dict" where
  "dpm_over b budget st =
     (if 0 < dsum (gpu_draws st)
      then dcomp (\<lambda>g. max (dpm_min_cap_w b)
                     (min (dget_or (gpu_caps st) g (dpm_min_cap_w b)) (dpm_raw budget st g))) (state_gpus st)
      else (let n = length (state_gpus st);
                equal_share = (if n \<noteq> 0 then max (dpm_min_cap_w b) (budget / n) else 0)
            in dcomp (\<lambda>g. equal_share) (state_gpus st)))"

definition dpm_decide :: "dpm_brain \<Rightarrow> topology \<Rightarrow> string \<Rightarrow> domain_state \<Rightarrow> (dpm_brain \<times> brain_decision) res" where
  "dpm_decide b t dn st =
     res_bind (domain_budget_w t dn) (\<lambda>budget.
       let (caps, reason) =
         (if dsum (gpu_draws st) \<le> budget then (dpm_under b st, ''under_budget'')
          else (dpm_over b budget st, ''over_budget''))
       in Ok (b, \<lparr>bd_domain = dn, bd_caps = caps, bd_ts = ds_ts st, bd_reason = reason\<rparr>))"

section \<open>Lemmas\<close>

lemma dpm_decide_Ok:
  "dpm_decide b t dn st = Ok (b', dec) \<longleftrightarrow>
   (\<exists>w. domain_budget_w t dn = Ok w \<and> b' = b \<and>
      dec = \<lparr>bd_domain = dn,
             bd_caps = (if dsum (gpu_draws st) \<le> w then dpm_under b st else dpm_over b w st),
             bd_ts = ds_ts st,
             bd_reason = (if dsum (gpu_draws st) \<le> w then ''under_budget'' else ''over_budget'')\<rparr>)"
  by (auto simp: dpm_decide_def res_bind_Ok_iff)

lemma dpm_keys [simp]:
  "set (dkeys (dpm_under b st)) = set (state_gpus st)"
  "set (dkeys (dpm_over b w st)) = set (state_gpus st)"
  by (simp_all only: dpm_under_def dpm_over_def Let_def if_distrib [of dkeys] if_distrib [of set]
        dkeys_dcomp if_cancel)

lemma dpm_wf [simp]: "wf_dict (dpm_under b st)" "wf_dict (dpm_over b w st)"
  by (simp_all add: dpm_under_def dpm_over_def Let_def)

lemma dcomp_vals: "v \<in> set (dvals (dcomp f ks)) \<Longrightarrow> \<exists>k \<in> set ks. v = f k"
proof -
  assume "v \<in> set (dvals (dcomp f ks))"
  then obtain k where "(k, v) \<in> set (dcomp f ks)" by auto
  then have "map_of (dcomp f ks) k = Some v" by (rule map_of_is_SomeI [OF wf_dcomp])
  then show ?thesis by (auto split: if_splits)
qed

lemma dpm_over_eq:
  "0 < dsum (gpu_draws st) \<Longrightarrow> wf_state st \<Longrightarrow>
   dpm_over b w st = map (\<lambda>g. (g, max (dpm_min_cap_w b)
     (min (dget_or (gpu_caps st) g (dpm_min_cap_w b)) (dpm_raw w st g)))) (state_gpus st)"
  by (simp add: dpm_over_def dcomp_distinct wf_state_def)

lemma dpm_raw_sum:
  assumes "wf_state st" and "0 < dsum (gpu_draws st)"
  shows "sum_list (map (dpm_raw w st) (state_gpus st)) = w"
proof -
  have "sum_list (map (dpm_raw w st) (state_gpus st))
      = sum_list (map (ditem (gpu_draws st)) (state_gpus st)) / dsum (gpu_draws st) * w"
    unfolding dpm_raw_def by (rule sum_list_shares)
  also have "sum_list (map (ditem (gpu_draws st)) (state_gpus st)) = dsum (gpu_draws st)"
    using dsum_ditem [of "gpu_draws st"] assms(1) by (simp add: wf_state_def)
  finally show ?thesis using assms(2) by simp
qed

text \<open>What the floor may add above the budget: the part of it the shares do not reach.\<close>

definition floor_excess :: "dpm_brain \<Rightarrow> watts \<Rightarrow> domain_state \<Rightarrow> watts" where
  "floor_excess b w st = sum_list (map (\<lambda>g. max 0 (dpm_min_cap_w b - dpm_raw w st g)) (state_gpus st))"

lemma dpm_over_total:
  assumes wf: "wf_state st" and pos: "0 < dsum (gpu_draws st)"
  shows "dsum (dpm_over b w st) \<le> w + floor_excess b w st"
proof -
  let ?m = "dpm_min_cap_w b"
  have "dsum (dpm_over b w st) \<le>
      sum_list (map (\<lambda>g. dpm_raw w st g + max 0 (?m - dpm_raw w st g)) (state_gpus st))"
    unfolding dpm_over_eq [OF pos wf] dsum_map by (rule sum_list_mono) linarith
  also have "\<dots> = w + floor_excess b w st"
    unfolding floor_excess_def sum_list_addf dpm_raw_sum [OF wf pos] ..
  finally show ?thesis .
qed

interpretation dpm: cap_brain "\<lambda>b. 0 \<le> dpm_min_cap_w b" dpm_decide
proof
  fix t :: topology and dn d st b
  assume "map_of (domains t) dn = Some d"
  then show "\<exists>r. dpm_decide b t dn st = Ok r"
    using domain_budget_total [of t dn d] by (auto simp: dpm_decide_def split_beta)
next
  fix st b t dn b' dec v
  assume "wf_state st" "0 \<le> dpm_min_cap_w b" "dpm_decide b t dn st = Ok (b', dec)"
    "v \<in> set (dvals (bd_caps dec))"
  then show "0 \<le> v"
    by (auto simp: dpm_decide_Ok dpm_under_def dpm_over_def Let_def wf_state_cap wf_state_max_cap
             simp del: set_map dest!: dcomp_vals split: if_splits)
qed (auto simp: dpm_decide_Ok simp del: set_map split: if_splits)


section \<open>Properties\<close>

text \<open>C37. Over budget, the DPM caps sum to at most the domain budget plus what the per-GPU
  floor adds above the proportional shares; in particular they fit the budget whenever
  every share reaches the floor, and no GPU is given more than the cap it already holds or
  the floor.\<close>

theorem dpm_over_budget:
  assumes wf: "wf_state st" and w: "domain_budget_w t dn = Ok w" and over: "w < dsum (gpu_draws st)"
    and dec: "dpm_decide b t dn st = Ok (b', dec)"
  shows "dsum (bd_caps dec) \<le> w + floor_excess b w st \<and>
         ((\<forall>g \<in> set (state_gpus st). dpm_min_cap_w b \<le> dpm_raw w st g) \<longrightarrow> dsum (bd_caps dec) \<le> w) \<and>
         (\<forall>g c. map_of (bd_caps dec) g = Some c \<longrightarrow>
            c \<le> max (dpm_min_cap_w b) (dget_or (gpu_caps st) g (dpm_min_cap_w b)))"
proof -
  have pos: "0 < dsum (gpu_draws st)" using over domain_budget_nonneg [OF w] by linarith
  from dec w over have caps: "bd_caps dec = dpm_over b w st" by (auto simp: dpm_decide_Ok)
  have "floor_excess b w st = 0" if "\<forall>g \<in> set (state_gpus st). dpm_min_cap_w b \<le> dpm_raw w st g"
    unfolding floor_excess_def using that
    by (intro sum_list_nonneg_eq_0_iff [THEN iffD2]) auto
  moreover have "c \<le> max (dpm_min_cap_w b) (dget_or (gpu_caps st) g (dpm_min_cap_w b))"
    if "map_of (dpm_over b w st) g = Some c" for g c
    using that pos by (auto simp: dpm_over_def split: if_splits)
  ultimately show ?thesis using dpm_over_total [OF wf pos, of b w] caps by auto
qed

definition demo_domain :: "watts \<Rightarrow> topology" where
  \<comment> \<open>one PDU, one domain with GPUs 0 to 3\<close>
  "demo_domain w =
     \<lparr>pdus = [(''pdu0'', \<lparr>pdu_name = ''pdu0'', pdu_capacity_w = 10000, pdu_derating = 9/10\<rparr>)],
      domains = [(''d'', \<lparr>pd_name = ''d'', pd_budget_w = w, pd_gpu_indices = [0, 1, 2, 3],
        pd_pdu_name = ''pdu0'', pd_priority = 0, pd_node_overhead_w = 0, pd_rack_name = None\<rparr>)],
      racks = [], adopted_budget_w = []\<rparr>"

definition demo_state :: domain_state where
  \<comment> \<open>GPU 0 hot, GPU 1 warm, GPU 2 idle\<close>
  "demo_state =
     \<lparr>ds_domain_name = ''d'', gpu_draws = [(0, 900), (1, 600), (2, 100)],
      gpu_caps = [(0, 1000), (1, 700), (2, 500)], ds_ts = 0,
      gpu_max_caps = [(0, 1000), (1, 1000), (2, 1000)], gpu_thermal_throttled = []\<rparr>"

lemma demo_budget [simp]: "0 \<le> w \<Longrightarrow> domain_budget_w (demo_domain w) ''d'' = Ok w"
  by (simp add: demo_domain_def domain_budget_w_def getitem_def rack_for_domain_def)

lemma wf_demo_state [simp]: "wf_state demo_state"
  by (simp add: wf_state_def demo_state_def)

lemma dpm_demo: "\<exists>dec. dpm_decide \<lparr>dpm_min_cap_w = 50\<rparr> (demo_domain 800) ''d'' demo_state = Ok (\<lparr>dpm_min_cap_w = 50\<rparr>, dec)
    \<and> bd_caps dec = [(0, 450), (1, 300), (2, 50)]"
  by (simp add: dpm_decide_Ok dpm_over_eq)
     (simp add: dpm_over_def demo_state_def dpm_raw_def ditem_def dcomp_def)

theorem dpm_over_budget_witness:
  "\<exists>dec. dpm_decide \<lparr>dpm_min_cap_w = 50\<rparr> (demo_domain 800) ''d'' demo_state = Ok (\<lparr>dpm_min_cap_w = 50\<rparr>, dec)
     \<and> dsum (bd_caps dec) \<le> 800"
proof -
  obtain dec where dec: "dpm_decide \<lparr>dpm_min_cap_w = 50\<rparr> (demo_domain 800) ''d'' demo_state = Ok (\<lparr>dpm_min_cap_w = 50\<rparr>, dec)"
    using dpm_demo by blast
  have "dsum (bd_caps dec) \<le> 800"
    using dpm_over_budget [OF wf_demo_state demo_budget _ dec]
    by (simp add: demo_state_def dpm_raw_def ditem_def)
  with dec show ?thesis by blast
qed

text \<open>Hot GPUs first: over budget, between two GPUs that hold the same cap the one that
  draws more gets at least as much; under budget every GPU is back at its hardware maximum,
  whatever an earlier over-budget tick did to its cap.\<close>

theorem dpm_hot_first:
  assumes w: "domain_budget_w t dn = Ok w" and dec: "dpm_decide b t dn st = Ok (b', dec)" and wf: "wf_state st"
  shows "(w < dsum (gpu_draws st) \<longrightarrow>
            (\<forall>i j ci cj. map_of (bd_caps dec) i = Some ci \<longrightarrow> map_of (bd_caps dec) j = Some cj \<longrightarrow>
               dget_or (gpu_caps st) i (dpm_min_cap_w b) = dget_or (gpu_caps st) j (dpm_min_cap_w b) \<longrightarrow>
               ditem (gpu_draws st) i \<le> ditem (gpu_draws st) j \<longrightarrow> ci \<le> cj)) \<and>
         (dsum (gpu_draws st) \<le> w \<longrightarrow>
            (\<forall>g \<in> set (state_gpus st). \<forall>m. map_of (gpu_max_caps st) g = Some m \<longrightarrow>
               map_of (bd_caps dec) g = Some m))"
proof (intro conjI impI allI ballI)
  fix i j ci cj
  assume over: "w < dsum (gpu_draws st)"
    and caps: "map_of (bd_caps dec) i = Some ci" "map_of (bd_caps dec) j = Some cj"
    and same: "dget_or (gpu_caps st) i (dpm_min_cap_w b) = dget_or (gpu_caps st) j (dpm_min_cap_w b)"
    and hot: "ditem (gpu_draws st) i \<le> ditem (gpu_draws st) j"
  have pos: "0 < dsum (gpu_draws st)" and w0: "0 \<le> w" using over domain_budget_nonneg [OF w] by linarith+
  have "dpm_raw w st i \<le> dpm_raw w st j"
    unfolding dpm_raw_def using hot pos w0 by (intro mult_right_mono divide_right_mono) simp_all
  moreover have "bd_caps dec = dpm_over b w st" using dec w over by (auto simp: dpm_decide_Ok)
  ultimately show "ci \<le> cj"
    using caps pos same by (auto simp: dpm_over_def split: if_splits)
next
  fix g m
  assume "dsum (gpu_draws st) \<le> w" "g \<in> set (state_gpus st)" "map_of (gpu_max_caps st) g = Some m"
  then show "map_of (bd_caps dec) g = Some m"
    using dec w by (auto simp: dpm_decide_Ok dpm_under_def dget_or_def)
qed

theorem dpm_hot_first_witness:
  "\<exists>dec. dpm_decide \<lparr>dpm_min_cap_w = 50\<rparr> (demo_domain 2000) ''d'' demo_state = Ok (\<lparr>dpm_min_cap_w = 50\<rparr>, dec)
     \<and> map_of (bd_caps dec) 2 = Some 1000"
proof -
  obtain dec where dec: "dpm_decide \<lparr>dpm_min_cap_w = 50\<rparr> (demo_domain 2000) ''d'' demo_state = Ok (\<lparr>dpm_min_cap_w = 50\<rparr>, dec)"
    by (auto simp: dpm_decide_Ok)
  have "map_of (bd_caps dec) 2 = Some 1000"
    using dpm_hot_first [OF demo_budget dec wf_demo_state] by (simp add: demo_state_def)
  with dec show ?thesis by blast
qed

end
