(* ===== verification/Prs.thy ===== *)
theory Prs
  imports Dpm
begin

text \<open>
  \<open>brain/prs.py\<close>: brain v2, the Power Reclaim Service. Draws are smoothed per GPU by an
  exponential moving average; GPUs whose average is below a fraction of their cap are idle
  and keep a small margin over it; what they free is handed to the hot GPUs in proportion to
  their averages; raises of a cap per tick can be limited. The state is kept per domain.
\<close>

section \<open>State\<close>

record prs_metrics =
  hot_gpus :: "gpu list"
  idle_gpus :: "gpu list"
  idle_stranded_w :: watts
  domain_draw_w :: watts
  domain_cap_w :: watts
  ewma_draws :: "(gpu, watts) dict"

record prs_brain =
  prs_min_cap_w :: watts
  prs_alpha :: real
  prs_threshold :: real
  prs_margin :: real
  prs_cap_raise_rate :: watts
  prs_ewma :: "(string, (gpu, watts) dict) dict"
  prs_last_caps :: "(string, (gpu, watts) dict) dict"
  prs_last_metrics :: "(string, prs_metrics) dict"

definition prs_init :: "watts \<Rightarrow> real \<Rightarrow> real \<Rightarrow> real \<Rightarrow> watts \<Rightarrow> prs_brain res" where
  "prs_init min_cap_w ewma_alpha reclaim_threshold idle_floor_margin cap_raise_rate =
     (if \<not> (0 < ewma_alpha \<and> ewma_alpha \<le> 1) then Err (ValueError ''ewma_alpha must be in (0, 1]'')
      else if cap_raise_rate < 0 then Err (ValueError ''cap_raise_rate_w_per_tick must be >= 0'')
      else Ok \<lparr>prs_min_cap_w = min_cap_w, prs_alpha = ewma_alpha, prs_threshold = reclaim_threshold,
               prs_margin = idle_floor_margin, prs_cap_raise_rate = cap_raise_rate,
               prs_ewma = [], prs_last_caps = [], prs_last_metrics = []\<rparr>)"

section \<open>Stages of a decision\<close>

definition ewma_update :: "real \<Rightarrow> (gpu, watts) dict \<Rightarrow> (gpu, watts) dict \<Rightarrow> (gpu, watts) dict" where
  "ewma_update \<alpha> draws e0 =
     foldl (\<lambda>e (g, draw). dset g (\<alpha> * draw + (1 - \<alpha>) * dget_or e g draw) e) e0 draws"

definition domain_ewma :: "prs_brain \<Rightarrow> string \<Rightarrow> domain_state \<Rightarrow> (gpu, watts) dict" where
  "domain_ewma b dn st = ewma_update (prs_alpha b) (gpu_draws st) (dget_or (prs_ewma b) dn [])"

definition fallback_max :: "watts \<Rightarrow> domain_state \<Rightarrow> watts" where
  "fallback_max budget st = budget / max (length (state_gpus st)) 1"

definition is_hot :: "prs_brain \<Rightarrow> watts \<Rightarrow> domain_state \<Rightarrow> (gpu, watts) dict \<Rightarrow> gpu \<Rightarrow> bool" where
  "is_hot b budget st e g =
     (let cap = dget_or (gpu_caps st) g (fallback_max budget st) in
      0 < cap \<and> prs_threshold b \<le> ditem e g / cap)"

definition hw_max :: "watts \<Rightarrow> domain_state \<Rightarrow> gpu \<Rightarrow> watts" where
  "hw_max budget st g = dget_or (gpu_max_caps st) g (dget_or (gpu_caps st) g (fallback_max budget st))"

definition idle_cap :: "prs_brain \<Rightarrow> watts \<Rightarrow> domain_state \<Rightarrow> (gpu, watts) dict \<Rightarrow> gpu \<Rightarrow> watts" where
  "idle_cap b budget st e g =
     min (max (prs_min_cap_w b) (ditem e g * (1 + prs_margin b))) (hw_max budget st g)"

definition hot_share :: "(gpu, watts) dict \<Rightarrow> gpu list \<Rightarrow> gpu \<Rightarrow> real" where
  "hot_share e hot g =
     (let total_hot_ewma = sum_list (map (ditem e) hot) in
      if 0 < total_hot_ewma then ditem e g / total_hot_ewma else 1 / length hot)"

definition hot_cap :: "prs_brain \<Rightarrow> watts \<Rightarrow> domain_state \<Rightarrow> (gpu, watts) dict \<Rightarrow> gpu list \<Rightarrow> watts \<Rightarrow> gpu \<Rightarrow> watts" where
  "hot_cap b budget st e hot hot_budget g =
     max (prs_min_cap_w b) (min (hw_max budget st g) (hot_share e hot g * hot_budget))"

definition rate_limit :: "prs_brain \<Rightarrow> string \<Rightarrow> domain_state \<Rightarrow> (gpu, watts) dict \<Rightarrow> (gpu, watts) dict" where
  "rate_limit b dn st caps =
     (if 0 < prs_cap_raise_rate b
      then (let last = dget_or (prs_last_caps b) dn [] in
            map_ran (\<lambda>g target.
              case (case map_of last g of Some p \<Rightarrow> Some p | None \<Rightarrow> map_of (gpu_caps st) g) of
                None \<Rightarrow> target
              | Some prev \<Rightarrow> if prev < target then min target (prev + prs_cap_raise_rate b) else target) caps)
      else caps)"

definition prs_reason :: "nat \<Rightarrow> nat \<Rightarrow> watts \<Rightarrow> string" where
  "prs_reason nhot nidle stranded =
     ''prs:hot='' @ string_of_nat nhot @ '',idle='' @ string_of_nat nidle @
     '',stranded='' @ fmt0 stranded @ ''W''"

section \<open>The decision\<close>

definition prs_targets :: "prs_brain \<Rightarrow> string \<Rightarrow> watts \<Rightarrow> domain_state \<Rightarrow> gpu list \<times> gpu list \<times> (gpu, watts) dict" where
  \<comment> \<open>steps 1 to 4: classification and caps before the raise limiter\<close>
  "prs_targets b dn budget st =
     (let e = domain_ewma b dn st;
          hot = filter (is_hot b budget st e) (state_gpus st);
          idle = filter (\<lambda>g. \<not> is_hot b budget st e g) (state_gpus st);
          idle_caps = dcomp (idle_cap b budget st e) idle;
          hot_budget = max 0 (budget - dsum idle_caps);
          hot_caps = dcomp (hot_cap b budget st e hot hot_budget) hot
      in (hot, idle, dmerge idle_caps hot_caps))"

definition prs_decide :: "prs_brain \<Rightarrow> topology \<Rightarrow> string \<Rightarrow> domain_state \<Rightarrow> (prs_brain \<times> brain_decision) res" where
  "prs_decide b t dn st =
     res_bind (domain_budget_w t dn) (\<lambda>budget.
       let e = domain_ewma b dn st;
           (hot, idle, targets) = prs_targets b dn budget st;
           caps = rate_limit b dn st targets;
           idle_stranded = sum_list (map (\<lambda>g. ditem caps g - dget_or (gpu_draws st) g 0) idle);
           metrics = \<lparr>hot_gpus = hot, idle_gpus = idle, idle_stranded_w = max 0 idle_stranded,
                      domain_draw_w = dsum (gpu_draws st), domain_cap_w = dsum caps, ewma_draws = e\<rparr>
       in Ok (b\<lparr>prs_ewma := dset dn e (prs_ewma b),
                prs_last_caps := dset dn caps (prs_last_caps b),
                prs_last_metrics := dset dn metrics (prs_last_metrics b)\<rparr>,
              \<lparr>bd_domain = dn, bd_caps = caps, bd_ts = ds_ts st,
               bd_reason = prs_reason (length hot) (length idle) (idle_stranded_w metrics)\<rparr>))"

definition prs_get_last_metrics :: "prs_brain \<Rightarrow> string \<Rightarrow> prs_metrics option" where
  "prs_get_last_metrics b dn = map_of (prs_last_metrics b) dn"

definition note_applied_caps :: "prs_brain \<Rightarrow> string \<Rightarrow> (gpu, watts) dict \<Rightarrow> prs_brain" where
  "note_applied_caps b dn caps = b\<lparr>prs_last_caps := dset dn caps (prs_last_caps b)\<rparr>"

definition reset_ewma :: "prs_brain \<Rightarrow> string option \<Rightarrow> prs_brain" where
  "reset_ewma b dn =
     (case dn of
        None \<Rightarrow> b\<lparr>prs_ewma := [], prs_last_caps := [], prs_last_metrics := []\<rparr>
      | Some n \<Rightarrow> b\<lparr>prs_ewma := dpop n (prs_ewma b), prs_last_caps := dpop n (prs_last_caps b),
                     prs_last_metrics := dpop n (prs_last_metrics b)\<rparr>)"

section \<open>Averages\<close>

lemma ewma_update_other: "g \<notin> set (dkeys draws) \<Longrightarrow> map_of (ewma_update \<alpha> draws e) g = map_of e g"
  unfolding ewma_update_def by (induction draws arbitrary: e) auto

lemma ewma_update_map_of:
  "wf_dict draws \<Longrightarrow> map_of draws g = Some d \<Longrightarrow>
   map_of (ewma_update \<alpha> draws e) g = Some (\<alpha> * d + (1 - \<alpha>) * dget_or e g d)"
proof (induction draws arbitrary: e)
  case Nil
  then show ?case by simp
next
  case (Cons p draws)
  obtain g' d' where p: "p = (g', d')" by (cases p)
  let ?e = "dset g' (\<alpha> * d' + (1 - \<alpha>) * dget_or e g' d') e"
  have step: "ewma_update \<alpha> ((g', d') # draws) e = ewma_update \<alpha> draws ?e"
    by (simp add: ewma_update_def)
  show ?case
  proof (cases "g = g'")
    case True
    then have "map_of (ewma_update \<alpha> draws ?e) g = map_of ?e g"
      using Cons.prems by (intro ewma_update_other) (auto simp: p)
    with True Cons.prems show ?thesis unfolding p step by auto
  next
    case False
    then have "dget_or ?e g d = dget_or e g d" by simp
    with False Cons show ?thesis by (simp add: step p)
  qed
qed

lemma wf_ewma_update: "wf_dict e \<Longrightarrow> wf_dict (ewma_update \<alpha> draws e)"
  unfolding ewma_update_def by (induction draws arbitrary: e) (auto split: prod.splits)

lemma wf_map_of_vals:
  "wf_dict d \<Longrightarrow> (\<forall>v \<in> set (dvals d). P v) \<longleftrightarrow> (\<forall>k v. map_of d k = Some v \<longrightarrow> P v)"
  by (auto simp: map_of_eq_Some_iff) 

lemma ewma_update_nonneg:
  assumes "wf_dict draws" "wf_dict e" "0 < \<alpha>" "\<alpha> \<le> 1"
    and "\<forall>v \<in> set (dvals draws). 0 \<le> v" and "\<forall>v \<in> set (dvals e). 0 \<le> v"
  shows "\<forall>v \<in> set (dvals (ewma_update \<alpha> draws e)). 0 \<le> v"
  unfolding wf_map_of_vals [OF wf_ewma_update [OF assms(2)]]
proof (intro allI impI)
  fix g v assume v: "map_of (ewma_update \<alpha> draws e) g = Some v"
  show "0 \<le> v"
  proof (cases "map_of draws g")
    case None
    then have "g \<notin> set (dkeys draws)" by (simp add: map_of_eq_None_iff)
    from ewma_update_other [OF this] v have "map_of e g = Some v" by simp
    then show ?thesis using assms(6) unfolding wf_map_of_vals [OF assms(2)] by blast
  next
    case (Some d)
    then have "0 \<le> d" using assms(5) unfolding wf_map_of_vals [OF assms(1)] by blast
    moreover from this have "0 \<le> dget_or e g d" using assms(6) by (intro dget_or_nonneg) auto
    ultimately show ?thesis
      using v ewma_update_map_of [OF assms(1) Some, of \<alpha> e] assms(3,4)
      by (auto intro!: add_nonneg_nonneg mult_nonneg_nonneg)
  qed
qed


section \<open>Invariant\<close>

definition wf_powers :: "(gpu, watts) dict \<Rightarrow> bool" where
  "wf_powers d \<longleftrightarrow> wf_dict d \<and> (\<forall>v \<in> set (dvals d). 0 \<le> v)"

definition prs_inv :: "prs_brain \<Rightarrow> bool" where
  "prs_inv b \<longleftrightarrow>
     0 \<le> prs_min_cap_w b \<and> 0 < prs_alpha b \<and> prs_alpha b \<le> 1 \<and> 0 \<le> prs_margin b \<and>
     0 \<le> prs_cap_raise_rate b \<and>
     (\<forall>n e. map_of (prs_ewma b) n = Some e \<longrightarrow> wf_powers e) \<and>
     (\<forall>n c. map_of (prs_last_caps b) n = Some c \<longrightarrow> wf_powers c)"

lemma wf_powers_Nil [simp]: "wf_powers []"
  by (simp add: wf_powers_def)

lemma wf_powers_map_of: "wf_powers d \<Longrightarrow> map_of d g = Some v \<Longrightarrow> 0 \<le> v"
  unfolding wf_powers_def using wf_map_of_vals [of d "\<lambda>v. 0 \<le> v"] by blast

lemma wf_powers_item:
  assumes "wf_powers d" "g \<in> set (dkeys d)"
  shows "0 \<le> ditem d g"
proof -
  obtain v where v: "map_of d g = Some v" using dkey_some [OF assms(2)] by blast
  from wf_powers_map_of [OF assms(1) v] show ?thesis by (simp add: ditem_Some [OF v])
qed

lemma wf_powersI: "wf_dict d \<Longrightarrow> (\<And>g v. map_of d g = Some v \<Longrightarrow> 0 \<le> v) \<Longrightarrow> wf_powers d"
  unfolding wf_powers_def using wf_map_of_vals [of d "\<lambda>v. 0 \<le> v"] by blast

lemma wf_powers_state:
  "wf_state st \<Longrightarrow> wf_powers (gpu_draws st) \<and> wf_powers (gpu_caps st) \<and> wf_powers (gpu_max_caps st)"
  unfolding wf_state_def wf_powers_def by blast

lemma wf_powers_get_or: "(\<forall>n e. map_of m n = Some e \<longrightarrow> wf_powers e) \<Longrightarrow> wf_powers (dget_or m n [])"
  by (simp add: dget_or_def split: option.split)

lemma prs_init_inv:
  "prs_init m a th mg r = Ok b \<Longrightarrow> 0 \<le> m \<Longrightarrow> 0 \<le> mg \<Longrightarrow> prs_inv b"
  by (auto simp: prs_init_def prs_inv_def split: if_splits)

lemma wf_domain_ewma:
  assumes "wf_state st" and "prs_inv b"
  shows "wf_powers (domain_ewma b dn st)"
proof -
  have "wf_powers (dget_or (prs_ewma b) dn [])"
    using assms(2) by (intro wf_powers_get_or) (simp add: prs_inv_def)
  then show ?thesis
    using assms ewma_update_nonneg [of "gpu_draws st" "dget_or (prs_ewma b) dn []" "prs_alpha b"]
    unfolding domain_ewma_def wf_powers_def wf_state_def prs_inv_def
    by (blast intro: wf_ewma_update)
qed

lemma domain_ewma_map_of:
  "wf_state st \<Longrightarrow> map_of (gpu_draws st) g = Some d \<Longrightarrow>
   map_of (domain_ewma b dn st) g =
     Some (prs_alpha b * d + (1 - prs_alpha b) * dget_or (dget_or (prs_ewma b) dn []) g d)"
  by (simp add: domain_ewma_def ewma_update_map_of wf_state_def)

lemma domain_ewma_nonneg:
  assumes "wf_state st" and "prs_inv b" and "g \<in> set (state_gpus st)"
  shows "0 \<le> ditem (domain_ewma b dn st) g"
proof -
  obtain d where "map_of (gpu_draws st) g = Some d" using dkey_some [OF assms(3)] by blast
  then have "map_of (domain_ewma b dn st) g = Some (ditem (domain_ewma b dn st) g)"
    using domain_ewma_map_of [OF assms(1)] by (simp add: ditem_def)
  then show ?thesis using wf_powers_map_of [OF wf_domain_ewma [OF assms(1,2)]] by blast
qed

section \<open>Targets\<close>

definition hot_of :: "prs_brain \<Rightarrow> string \<Rightarrow> watts \<Rightarrow> domain_state \<Rightarrow> gpu list" where
  "hot_of b dn w st = filter (is_hot b w st (domain_ewma b dn st)) (state_gpus st)"

definition idle_of :: "prs_brain \<Rightarrow> string \<Rightarrow> watts \<Rightarrow> domain_state \<Rightarrow> gpu list" where
  "idle_of b dn w st = filter (\<lambda>g. \<not> is_hot b w st (domain_ewma b dn st) g) (state_gpus st)"

definition idle_total :: "prs_brain \<Rightarrow> string \<Rightarrow> watts \<Rightarrow> domain_state \<Rightarrow> watts" where
  "idle_total b dn w st = sum_list (map (idle_cap b w st (domain_ewma b dn st)) (idle_of b dn w st))"

definition hot_raw :: "prs_brain \<Rightarrow> string \<Rightarrow> watts \<Rightarrow> domain_state \<Rightarrow> gpu \<Rightarrow> watts" where
  \<comment> \<open>a hot GPU's share of the reclaimed budget, before its floor and its hardware maximum\<close>
  "hot_raw b dn w st g =
     hot_share (domain_ewma b dn st) (hot_of b dn w st) g * max 0 (w - idle_total b dn w st)"

definition targets_of :: "prs_brain \<Rightarrow> string \<Rightarrow> watts \<Rightarrow> domain_state \<Rightarrow> (gpu, watts) dict" where
  "targets_of b dn w st =
     map (\<lambda>g. (g, idle_cap b w st (domain_ewma b dn st) g)) (idle_of b dn w st) @
     map (\<lambda>g. (g, max (prs_min_cap_w b) (min (hw_max w st g) (hot_raw b dn w st g)))) (hot_of b dn w st)"

lemma hot_idle_distinct:
  "wf_state st \<Longrightarrow> distinct (hot_of b dn w st)" "wf_state st \<Longrightarrow> distinct (idle_of b dn w st)"
  by (simp_all add: hot_of_def idle_of_def wf_state_def)

lemma hot_idle_disjoint: "set (hot_of b dn w st) \<inter> set (idle_of b dn w st) = {}"
  by (auto simp: hot_of_def idle_of_def)

lemma hot_idle_union: "set (hot_of b dn w st) \<union> set (idle_of b dn w st) = set (state_gpus st)"
  by (auto simp: hot_of_def idle_of_def)

lemma prs_targets_eq:
  assumes "wf_state st"
  shows "prs_targets b dn w st = (hot_of b dn w st, idle_of b dn w st, targets_of b dn w st)"
proof -
  let ?e = "domain_ewma b dn st"
  have d: "distinct (hot_of b dn w st)" "distinct (idle_of b dn w st)"
    using hot_idle_distinct [OF assms] by blast+
  have idle: "dcomp (idle_cap b w st ?e) (idle_of b dn w st)
      = map (\<lambda>g. (g, idle_cap b w st ?e g)) (idle_of b dn w st)"
    by (rule dcomp_distinct [OF d(2)])
  have "prs_targets b dn w st =
      (hot_of b dn w st, idle_of b dn w st,
       dmerge (map (\<lambda>g. (g, idle_cap b w st ?e g)) (idle_of b dn w st))
         (map (\<lambda>g. (g, hot_cap b w st ?e (hot_of b dn w st) (max 0 (w - idle_total b dn w st)) g)) (hot_of b dn w st)))"
    unfolding prs_targets_def Let_def hot_of_def [symmetric] idle_of_def [symmetric] idle
      dcomp_distinct [OF d(1)] dsum_map idle_total_def ..
  also have "dmerge (map (\<lambda>g. (g, idle_cap b w st ?e g)) (idle_of b dn w st))
         (map (\<lambda>g. (g, hot_cap b w st ?e (hot_of b dn w st) (max 0 (w - idle_total b dn w st)) g)) (hot_of b dn w st))
      = targets_of b dn w st"
    unfolding targets_of_def hot_cap_def hot_raw_def
    by (rule dmerge_disjoint) (use hot_idle_disjoint [of b dn w st] d in \<open>auto simp: comp_def\<close>)
  finally show ?thesis .
qed

lemma dkeys_targets: "dkeys (targets_of b dn w st) = idle_of b dn w st @ hot_of b dn w st"
  by (simp add: targets_of_def comp_def)

lemma wf_targets: "wf_state st \<Longrightarrow> wf_dict (targets_of b dn w st)"
  using hot_idle_distinct [of st b dn w] hot_idle_disjoint [of b dn w st] by (auto simp: dkeys_targets)

lemma set_dkeys_targets [simp]: "set (dkeys (targets_of b dn w st)) = set (state_gpus st)"
  using hot_idle_union [of b dn w st] by (auto simp: dkeys_targets simp del: set_map)

lemma map_of_targets:
  assumes "wf_state st"
  shows "map_of (targets_of b dn w st) g =
     (if g \<in> set (idle_of b dn w st) then Some (idle_cap b w st (domain_ewma b dn st) g)
      else if g \<in> set (hot_of b dn w st)
           then Some (max (prs_min_cap_w b) (min (hw_max w st g) (hot_raw b dn w st g))) else None)"
  unfolding targets_of_def by (auto simp: map_of_map_restrict map_add_def restrict_map_def)

lemma hot_share_sum:
  assumes "hs \<noteq> []" and "\<And>g. g \<in> set hs \<Longrightarrow> 0 \<le> ditem e g"
  shows "sum_list (map (\<lambda>g. hot_share e hs g * B) hs) = B"
proof (cases "0 < sum_list (map (ditem e) hs)")
  case True
  then show ?thesis
    using sum_list_shares [of "ditem e" "sum_list (map (ditem e) hs)" B hs]
    by (simp add: hot_share_def)
next
  case False
  with assms(1) show ?thesis by (simp add: hot_share_def sum_list_triv)
qed

lemma hot_share_nonneg: "(\<And>g. g \<in> set hs \<Longrightarrow> 0 \<le> ditem e g) \<Longrightarrow> g \<in> set hs \<Longrightarrow> 0 \<le> hot_share e hs g"
  by (auto simp: hot_share_def Let_def)

text \<open>What the floor of the hot GPUs may add above the budget.\<close>

definition hot_floor_excess :: "prs_brain \<Rightarrow> string \<Rightarrow> watts \<Rightarrow> domain_state \<Rightarrow> watts" where
  "hot_floor_excess b dn w st =
     sum_list (map (\<lambda>g. max 0 (prs_min_cap_w b - hot_raw b dn w st g)) (hot_of b dn w st))"

lemma targets_total:
  assumes wf: "wf_state st" and inv: "prs_inv b"
  shows "dsum (targets_of b dn w st) \<le> max w (idle_total b dn w st) + hot_floor_excess b dn w st"
proof -
  let ?hot = "hot_of b dn w st" and ?e = "domain_ewma b dn st"
  let ?B = "max 0 (w - idle_total b dn w st)"
  have pos: "0 \<le> ditem ?e g" if "g \<in> set ?hot" for g
    using that domain_ewma_nonneg [OF wf inv, of g dn] hot_idle_union [of b dn w st] by blast
  have "sum_list (map (\<lambda>g. max (prs_min_cap_w b) (min (hw_max w st g) (hot_raw b dn w st g))) ?hot)
      \<le> sum_list (map (\<lambda>g. hot_raw b dn w st g + max 0 (prs_min_cap_w b - hot_raw b dn w st g)) ?hot)"
    by (rule sum_list_mono) linarith
  also have "\<dots> = sum_list (map (hot_raw b dn w st) ?hot) + hot_floor_excess b dn w st"
    unfolding hot_floor_excess_def sum_list_addf ..
  finally have hot: "sum_list (map (\<lambda>g. max (prs_min_cap_w b) (min (hw_max w st g) (hot_raw b dn w st g))) ?hot)
      \<le> sum_list (map (hot_raw b dn w st) ?hot) + hot_floor_excess b dn w st" .
  have "sum_list (map (hot_raw b dn w st) ?hot) \<le> ?B"
    using hot_share_sum [of ?hot ?e ?B] pos
    by (cases "?hot = []") (auto simp: hot_raw_def cong: map_cong)
  moreover have "dsum (targets_of b dn w st) = idle_total b dn w st +
      sum_list (map (\<lambda>g. max (prs_min_cap_w b) (min (hw_max w st g) (hot_raw b dn w st g))) ?hot)"
    unfolding targets_of_def dsum_simps dsum_map idle_total_def ..
  ultimately show ?thesis using hot by linarith
qed


section \<open>The raise limiter\<close>

definition limiter_prev :: "prs_brain \<Rightarrow> string \<Rightarrow> domain_state \<Rightarrow> gpu \<Rightarrow> watts option" where
  \<comment> \<open>the cap a GPU is known to hold: what was applied last, else what the telemetry reports\<close>
  "limiter_prev b dn st g =
     (case map_of (dget_or (prs_last_caps b) dn []) g of Some p \<Rightarrow> Some p | None \<Rightarrow> map_of (gpu_caps st) g)"

definition limited :: "prs_brain \<Rightarrow> string \<Rightarrow> domain_state \<Rightarrow> gpu \<Rightarrow> watts \<Rightarrow> watts" where
  "limited b dn st g target =
     (if 0 < prs_cap_raise_rate b
      then (case limiter_prev b dn st g of
              None \<Rightarrow> target
            | Some prev \<Rightarrow> if prev < target then min target (prev + prs_cap_raise_rate b) else target)
      else target)"

lemma rate_limit_eq: "rate_limit b dn st caps = map_ran (limited b dn st) caps"
proof (cases "0 < prs_cap_raise_rate b")
  case True
  then have "limited b dn st = (\<lambda>g target.
      case (case map_of (dget_or (prs_last_caps b) dn []) g of Some p \<Rightarrow> Some p | None \<Rightarrow> map_of (gpu_caps st) g) of
        None \<Rightarrow> target
      | Some prev \<Rightarrow> if prev < target then min target (prev + prs_cap_raise_rate b) else target)"
    by (simp add: fun_eq_iff limited_def limiter_prev_def)
  with True show ?thesis by (simp add: rate_limit_def)
next
  case False
  then show ?thesis by (simp add: rate_limit_def limited_def map_ran_def)
qed

lemma limited_le: "limited b dn st g target \<le> target"
  by (simp add: limited_def split: option.split)

lemma limited_raise:
  "0 < prs_cap_raise_rate b \<Longrightarrow> limiter_prev b dn st g = Some p \<Longrightarrow>
   limited b dn st g target \<le> max target p \<and>
   (p < limited b dn st g target \<longrightarrow> limited b dn st g target \<le> p + prs_cap_raise_rate b) \<and>
   (target \<le> p \<longrightarrow> limited b dn st g target = target)"
  by (simp add: limited_def)

lemma limiter_prev_nonneg:
  assumes "wf_state st" "prs_inv b" "limiter_prev b dn st g = Some p"
  shows "0 \<le> p"
proof (cases "map_of (dget_or (prs_last_caps b) dn []) g")
  case None
  then show ?thesis
    using assms(3) wf_powers_map_of [of "gpu_caps st" g p] wf_powers_state [OF assms(1)]
    by (simp add: limiter_prev_def)
next
  case (Some q)
  have "wf_powers (dget_or (prs_last_caps b) dn [])"
    using assms(2) by (intro wf_powers_get_or) (simp add: prs_inv_def)
  then show ?thesis using wf_powers_map_of Some assms(3) by (simp add: limiter_prev_def)
qed

lemma limited_nonneg:
  assumes "wf_state st" "prs_inv b" "0 \<le> target"
  shows "0 \<le> limited b dn st g target"
  using limiter_prev_nonneg [OF assms(1,2), of dn g] assms(3)
  by (auto simp: limited_def split: option.split)

lemma rate_limit_sum: "dsum (rate_limit b dn st caps) \<le> dsum caps"
  unfolding rate_limit_eq by (rule dsum_map_ran_le) (rule limited_le)

lemma dkeys_rate_limit [simp]: "dkeys (rate_limit b dn st caps) = dkeys caps"
  by (simp add: rate_limit_eq)

lemma map_of_rate_limit:
  "map_of (rate_limit b dn st caps) g = map_option (limited b dn st g) (map_of caps g)"
  by (simp add: rate_limit_eq map_ran_conv)

section \<open>Decisions\<close>

definition prs_metrics_of :: "prs_brain \<Rightarrow> string \<Rightarrow> watts \<Rightarrow> domain_state \<Rightarrow> (gpu, watts) dict \<Rightarrow> prs_metrics" where
  "prs_metrics_of b dn w st caps =
     \<lparr>hot_gpus = hot_of b dn w st, idle_gpus = idle_of b dn w st,
      idle_stranded_w = max 0 (sum_list (map (\<lambda>g. ditem caps g - dget_or (gpu_draws st) g 0) (idle_of b dn w st))),
      domain_draw_w = dsum (gpu_draws st), domain_cap_w = dsum caps, ewma_draws = domain_ewma b dn st\<rparr>"

lemma prs_decideD:
  assumes wf: "wf_state st" and dec: "prs_decide b t dn st = Ok (b', dec)"
  obtains w where "domain_budget_w t dn = Ok w"
    "bd_caps dec = rate_limit b dn st (targets_of b dn w st)"
    "b' = b\<lparr>prs_ewma := dset dn (domain_ewma b dn st) (prs_ewma b),
            prs_last_caps := dset dn (bd_caps dec) (prs_last_caps b),
            prs_last_metrics := dset dn (prs_metrics_of b dn w st (bd_caps dec)) (prs_last_metrics b)\<rparr>"
    "bd_domain dec = dn" "bd_ts dec = ds_ts st"
  using dec unfolding prs_decide_def prs_targets_eq [OF wf] Let_def prs_metrics_of_def
  by (auto simp: res_bind_Ok_iff)

lemma prs_decide_total:
  "map_of (domains t) dn = Some d \<Longrightarrow> \<exists>r. prs_decide b t dn st = Ok r"
  using domain_budget_total [of t dn d] by (auto simp: prs_decide_def Let_def split_beta)

lemma prs_decide_unknown: "map_of (domains t) dn = None \<Longrightarrow> prs_decide b t dn st = Err (KeyError dn)"
  by (simp add: prs_decide_def domain_budget_unknown)

lemma hw_max_nonneg: "wf_state st \<Longrightarrow> 0 \<le> w \<Longrightarrow> 0 \<le> hw_max w st g"
  by (simp add: hw_max_def fallback_max_def wf_state_cap wf_state_max_cap)

lemma targets_nonneg:
  assumes "wf_state st" "prs_inv b" "0 \<le> w" "map_of (targets_of b dn w st) g = Some v"
  shows "0 \<le> v"
  using assms by (auto simp: map_of_targets idle_cap_def prs_inv_def hw_max_nonneg le_max_iff_disj split: if_splits)

lemma prs_caps_nonneg:
  assumes "wf_state st" "prs_inv b" "0 \<le> w"
    and "map_of (rate_limit b dn st (targets_of b dn w st)) g = Some v"
  shows "0 \<le> v"
  using assms(4) targets_nonneg [OF assms(1-3)] limited_nonneg [OF assms(1,2)]
  by (auto simp: map_of_rate_limit)

lemma prs_decide_powers:
  assumes wf: "wf_state st" and inv: "prs_inv b" and dec: "prs_decide b t dn st = Ok (b', dec)"
  shows "wf_powers (bd_caps dec)"
proof -
  from prs_decideD [OF wf dec] obtain w where w: "domain_budget_w t dn = Ok w"
    and caps: "bd_caps dec = rate_limit b dn st (targets_of b dn w st)" by metis
  show ?thesis unfolding caps
    by (rule wf_powersI) (use wf_targets [OF wf] prs_caps_nonneg [OF wf inv domain_budget_nonneg [OF w]] in auto)
qed

lemma prs_decide_inv:
  assumes wf: "wf_state st" and inv: "prs_inv b" and dec: "prs_decide b t dn st = Ok (b', dec)"
  shows "prs_inv b'"
proof -
  from prs_decideD [OF wf dec] obtain w where
    b': "b' = b\<lparr>prs_ewma := dset dn (domain_ewma b dn st) (prs_ewma b),
            prs_last_caps := dset dn (bd_caps dec) (prs_last_caps b),
            prs_last_metrics := dset dn (prs_metrics_of b dn w st (bd_caps dec)) (prs_last_metrics b)\<rparr>"
    by metis
  show ?thesis
    using inv wf_domain_ewma [OF wf inv] prs_decide_powers [OF wf inv dec]
    unfolding b' prs_inv_def by (auto split: if_splits)
qed

lemma prs_decide_keys:
  assumes wf: "wf_state st" and dec: "prs_decide b t dn st = Ok (b', dec)"
  shows "set (dkeys (bd_caps dec)) = set (state_gpus st)"
proof -
  from prs_decideD [OF wf dec] obtain w where "bd_caps dec = rate_limit b dn st (targets_of b dn w st)"
    by metis
  then show ?thesis by (simp del: set_map)
qed

definition prs_bound :: "prs_brain \<Rightarrow> string \<Rightarrow> watts \<Rightarrow> domain_state \<Rightarrow> watts" where
  "prs_bound b dn w st = max w (idle_total b dn w st) + hot_floor_excess b dn w st"

interpretation prs: bounded_brain prs_inv prs_decide prs_bound
proof
  fix st b and t :: topology and dn b' dec
  assume wf: "wf_state st" and inv: "prs_inv b" and dec: "prs_decide b t dn st = Ok (b', dec)"
  show "prs_inv b'" by (rule prs_decide_inv [OF wf inv dec])
  show "wf_dict (bd_caps dec)" using prs_decide_powers [OF wf inv dec] by (simp add: wf_powers_def)
  show "set (dkeys (bd_caps dec)) \<subseteq> set (state_gpus st)" using prs_decide_keys [OF wf dec] by simp
  show "0 \<le> v" if "v \<in> set (dvals (bd_caps dec))" for v
    using prs_decide_powers [OF wf inv dec] that unfolding wf_powers_def by blast
  fix w assume w: "domain_budget_w t dn = Ok w"
  have "bd_caps dec = rate_limit b dn st (targets_of b dn w st)"
    using prs_decideD [OF wf dec] w by (metis sum.inject(2))
  then show "dsum (bd_caps dec) \<le> prs_bound b dn w st"
    using rate_limit_sum [of b dn st "targets_of b dn w st"] targets_total [OF wf inv, of dn w]
    by (simp add: prs_bound_def)
qed (rule prs_decide_total)


section \<open>Properties\<close>

definition demo_prs :: prs_brain where
  "demo_prs = \<lparr>prs_min_cap_w = 50, prs_alpha = 1/2, prs_threshold = 3/5, prs_margin = 3/10,
     prs_cap_raise_rate = 100, prs_ewma = [], prs_last_caps = [], prs_last_metrics = []\<rparr>"

lemma prs_inv_demo [simp]: "prs_inv demo_prs"
  by (simp add: prs_inv_def demo_prs_def)

lemma demo_known: "map_of (domains (demo_domain w)) ''d'' \<noteq> None"
  by (simp add: demo_domain_def)

lemma prs_demo_step: "\<exists>b' dec. prs_decide demo_prs (demo_domain 1500) ''d'' demo_state = Ok (b', dec)"
  using prs_decide_total [of "demo_domain 1500" "''d''"] demo_known by fast

lemma demo_ewma: "domain_ewma demo_prs ''d'' demo_state = [(0, 900), (1, 600), (2, 100)]"
  by (simp add: domain_ewma_def ewma_update_def demo_prs_def demo_state_def)

lemma demo_is_hot:
  "is_hot demo_prs 1500 demo_state [(0, 900), (1, 600), (2, 100)] g \<longleftrightarrow> g = 0 \<or> g = 1"
  if "g \<in> {0, 1, 2}"
  using that by (auto simp: is_hot_def demo_prs_def demo_state_def ditem_def)

lemma demo_gpus: "state_gpus demo_state = [0, 1, 2]"
  by (simp add: demo_state_def)

lemma demo_hot: "hot_of demo_prs ''d'' 1500 demo_state = [0, 1]"
  by (simp add: hot_of_def demo_ewma demo_gpus demo_is_hot)

lemma demo_idle: "idle_of demo_prs ''d'' 1500 demo_state = [2]"
  by (simp add: idle_of_def demo_ewma demo_gpus demo_is_hot)

lemma demo_idle_total: "idle_total demo_prs ''d'' 1500 demo_state = 130"
  by (simp add: idle_total_def demo_idle idle_cap_def demo_ewma hw_max_def ditem_def)
     (simp add: demo_state_def demo_prs_def)

lemma demo_hot_raw:
  "hot_raw demo_prs ''d'' 1500 demo_state 0 = 822" "hot_raw demo_prs ''d'' 1500 demo_state 1 = 548"
  by (simp_all add: hot_raw_def demo_idle_total demo_hot demo_ewma hot_share_def ditem_def)

text \<open>C27. Budget safety of PRS: a decision caps every GPU of the state, each at most at the
  larger of its hardware maximum and the floor, and the caps sum to at most the budget (or
  the idle floors, if those alone exceed it) plus what the floor of the hot GPUs adds above
  their shares; so they fit the budget whenever the idle floors do and every hot share
  reaches the floor.\<close>

theorem prs_budget_safety:
  assumes wf: "wf_state st" and inv: "prs_inv b" and w: "domain_budget_w t dn = Ok w"
    and dec: "prs_decide b t dn st = Ok (b', dec)"
  shows "set (dkeys (bd_caps dec)) = set (state_gpus st) \<and>
         (\<forall>g c. map_of (bd_caps dec) g = Some c \<longrightarrow> 0 \<le> c \<and> c \<le> max (prs_min_cap_w b) (hw_max w st g)) \<and>
         dsum (bd_caps dec) \<le> max w (idle_total b dn w st) + hot_floor_excess b dn w st \<and>
         (idle_total b dn w st \<le> w \<and> (\<forall>g \<in> set (hot_of b dn w st). prs_min_cap_w b \<le> hot_raw b dn w st g)
            \<longrightarrow> dsum (bd_caps dec) \<le> w)"
proof -
  have caps: "bd_caps dec = rate_limit b dn st (targets_of b dn w st)"
    using prs_decideD [OF wf dec] w by (metis sum.inject(2))
  have "c \<le> max (prs_min_cap_w b) (hw_max w st g)" if c: "map_of (bd_caps dec) g = Some c" for g c
  proof -
    obtain v where v: "map_of (targets_of b dn w st) g = Some v" and cv: "c = limited b dn st g v"
      using c by (auto simp: caps map_of_rate_limit)
    have "v \<le> max (prs_min_cap_w b) (hw_max w st g)"
      using v by (auto simp: map_of_targets [OF wf] idle_cap_def split: if_splits)
    with cv limited_le [of b dn st g v] show ?thesis by linarith
  qed
  moreover have "0 \<le> c" if "map_of (bd_caps dec) g = Some c" for g c
    using wf_powers_map_of [OF prs_decide_powers [OF wf inv dec] that] .
  moreover have total: "dsum (bd_caps dec) \<le> max w (idle_total b dn w st) + hot_floor_excess b dn w st"
    using prs.decide_bound [OF wf inv w dec] by (simp add: prs_bound_def)
  moreover have "hot_floor_excess b dn w st = 0"
    if "\<forall>g \<in> set (hot_of b dn w st). prs_min_cap_w b \<le> hot_raw b dn w st g"
    unfolding hot_floor_excess_def using that by (intro sum_list_nonneg_eq_0_iff [THEN iffD2]) auto
  ultimately show ?thesis using prs_decide_keys [OF wf dec] by auto
qed

theorem prs_budget_safety_witness:
  "\<exists>b' dec. prs_decide demo_prs (demo_domain 1500) ''d'' demo_state = Ok (b', dec) \<and> dsum (bd_caps dec) \<le> 1500"
proof -
  obtain b' dec where dec: "prs_decide demo_prs (demo_domain 1500) ''d'' demo_state = Ok (b', dec)"
    using prs_demo_step by blast
  have "dsum (bd_caps dec) \<le> 1500"
    using prs_budget_safety [OF wf_demo_state prs_inv_demo demo_budget dec]
    by (simp add: demo_idle_total demo_hot demo_hot_raw) (simp add: demo_prs_def)
  with dec show ?thesis by blast
qed

text \<open>C34. The raise limiter over consecutive ticks: with a limit set, no GPU's cap rises by more
  than the limit from one tick to the next, whatever the second tick observes, even under
  another budget; and a target at or below the cap last applied takes effect at once.\<close>

theorem prs_raise_limited:
  assumes wf: "wf_state st1" "wf_state st2"
    and d1: "prs_decide b t1 dn st1 = Ok (b1, dec1)" and d2: "prs_decide b1 t2 dn st2 = Ok (b2, dec2)"
    and rate: "0 < prs_cap_raise_rate b" and w: "domain_budget_w t2 dn = Ok w"
    and c1: "map_of (bd_caps dec1) g = Some c1" and c2: "map_of (bd_caps dec2) g = Some c2"
  shows "c2 \<le> c1 + prs_cap_raise_rate b \<and>
         (\<forall>target. map_of (targets_of b1 dn w st2) g = Some target \<longrightarrow> target \<le> c1 \<longrightarrow> c2 = target)"
proof -
  obtain w1 where b1: "b1 = b\<lparr>prs_ewma := dset dn (domain_ewma b dn st1) (prs_ewma b),
            prs_last_caps := dset dn (bd_caps dec1) (prs_last_caps b),
            prs_last_metrics := dset dn (prs_metrics_of b dn w1 st1 (bd_caps dec1)) (prs_last_metrics b)\<rparr>"
    using prs_decideD [OF wf(1) d1] by metis
  have prev: "limiter_prev b1 dn st2 g = Some c1" and rate1: "prs_cap_raise_rate b1 = prs_cap_raise_rate b"
    using c1 by (simp_all add: b1 limiter_prev_def)
  have "bd_caps dec2 = rate_limit b1 dn st2 (targets_of b1 dn w st2)"
    using prs_decideD [OF wf(2) d2] w by (metis sum.inject(2))
  with c2 obtain target where "map_of (targets_of b1 dn w st2) g = Some target" "c2 = limited b1 dn st2 g target"
    by (auto simp: map_of_rate_limit)
  then show ?thesis
    using limited_raise [of b1 dn st2 g c1 target] prev rate rate1 by auto
qed

lemma demo_second_state: "wf_state (demo_state\<lparr>gpu_draws := [(0, 100), (1, 600), (2, 450)]\<rparr>)"
  by (simp add: wf_state_def demo_state_def)

theorem prs_raise_limited_witness:
  "\<exists>b1 dec1 b2 dec2 c1 c2.
     prs_decide demo_prs (demo_domain 1500) ''d'' demo_state = Ok (b1, dec1) \<and>
     prs_decide b1 (demo_domain 1500) ''d'' (demo_state\<lparr>gpu_draws := [(0, 100), (1, 600), (2, 450)]\<rparr>) = Ok (b2, dec2) \<and>
     map_of (bd_caps dec1) 2 = Some c1 \<and> map_of (bd_caps dec2) 2 = Some c2 \<and> c2 \<le> c1 + 100"
proof -
  let ?st2 = "demo_state\<lparr>gpu_draws := [(0, 100), (1, 600), (2, 450)]\<rparr>"
  obtain b1 dec1 where d1: "prs_decide demo_prs (demo_domain 1500) ''d'' demo_state = Ok (b1, dec1)"
    using prs_demo_step by blast
  obtain b2 dec2 where d2: "prs_decide b1 (demo_domain 1500) ''d'' ?st2 = Ok (b2, dec2)"
    using prs_decide_total [of "demo_domain 1500" "''d''" _ b1 ?st2] demo_known by fast
  have "2 \<in> set (dkeys (bd_caps dec1))" "2 \<in> set (dkeys (bd_caps dec2))"
    using prs_decide_keys [OF wf_demo_state d1] prs_decide_keys [OF demo_second_state d2]
    by (simp_all add: demo_state_def)
  from this [THEN dkey_some] obtain c1 c2 where
    c: "map_of (bd_caps dec1) 2 = Some c1" "map_of (bd_caps dec2) 2 = Some c2" by blast
  have "c2 \<le> c1 + 100"
    using prs_raise_limited [OF wf_demo_state demo_second_state d1 d2 _ demo_budget c]
    by (simp add: demo_prs_def)
  with d1 d2 c show ?thesis by blast
qed

text \<open>The moving average converges: while a GPU keeps drawing \<open>d\<close> watts, the distance of its
  average from \<open>d\<close> shrinks by the factor \<open>1 - alpha\<close> every tick, whatever the other GPUs do.\<close>

theorem ewma_converges:
  assumes sts: "\<forall>st \<in> set sts. wf_state st \<and> map_of (gpu_draws st) g = Some d"
    and run: "decide_all prs_decide b t dn sts = Ok (b', decs)"
    and e: "dget_or (dget_or (prs_ewma b) dn []) g d = e"
  shows "dget_or (dget_or (prs_ewma b') dn []) g d = d + (1 - prs_alpha b) ^ length sts * (e - d)"
  using sts run e
proof (induction sts arbitrary: b e decs)
  case Nil
  then show ?case by simp
next
  case (Cons st sts)
  from Cons.prems(2) obtain b1 dec decs1 where
    1: "prs_decide b t dn st = Ok (b1, dec)" and
    2: "decide_all prs_decide b1 t dn sts = Ok (b', decs1)"
    by (auto simp: res_bind_Ok_iff)
  have wf: "wf_state st" and g: "map_of (gpu_draws st) g = Some d" using Cons.prems(1) by auto
  obtain w where b1: "b1 = b\<lparr>prs_ewma := dset dn (domain_ewma b dn st) (prs_ewma b),
            prs_last_caps := dset dn (bd_caps dec) (prs_last_caps b),
            prs_last_metrics := dset dn (prs_metrics_of b dn w st (bd_caps dec)) (prs_last_metrics b)\<rparr>"
    using prs_decideD [OF wf 1] by metis
  have "dget_or (dget_or (prs_ewma b1) dn []) g d = prs_alpha b * d + (1 - prs_alpha b) * e"
    using domain_ewma_map_of [OF wf g, of b dn] Cons.prems(3) by (simp add: b1 dget_or_def [of "domain_ewma b dn st"])
  from Cons.IH [OF _ 2 this] Cons.prems(1)
  have "dget_or (dget_or (prs_ewma b') dn []) g d
      = d + (1 - prs_alpha b) ^ length sts * (prs_alpha b * d + (1 - prs_alpha b) * e - d)"
    by (simp add: b1)
  also have "prs_alpha b * d + (1 - prs_alpha b) * e - d = (1 - prs_alpha b) * (e - d)"
    by (simp add: algebra_simps)
  finally show ?case by (simp add: mult.assoc mult.left_commute)
qed

theorem ewma_converges_witness:
  "\<exists>b' decs. decide_all prs_decide (demo_prs\<lparr>prs_ewma := [(''d'', [(0, 100)])]\<rparr>) (demo_domain 1500) ''d''
       [demo_state, demo_state, demo_state] = Ok (b', decs) \<and>
     dget_or (dget_or (prs_ewma b') ''d'' []) 0 900 = 800"
proof -
  let ?b = "demo_prs\<lparr>prs_ewma := [(''d'', [(0, 100)])]\<rparr>"
  have "prs_inv ?b" by (simp add: prs_inv_def demo_prs_def wf_powers_def)
  then obtain b' decs where run: "decide_all prs_decide ?b (demo_domain 1500) ''d'' [demo_state, demo_state, demo_state] = Ok (b', decs)"
    using prs.decide_all_total [of "demo_domain 1500" "''d''" _ "[demo_state, demo_state, demo_state]" ?b] demo_known
    by fastforce
  have g: "map_of (gpu_draws demo_state) 0 = Some 900" by (simp add: demo_state_def)
  have "dget_or (dget_or (prs_ewma ?b) ''d'' []) 0 900 = 100" by simp
  from ewma_converges [OF _ run this]
  have "dget_or (dget_or (prs_ewma b') ''d'' []) 0 900 = 800" by (simp add: g demo_prs_def)
  with run show ?thesis by blast
qed

text \<open>Domains do not interfere: a decision for one domain leaves the averages, the applied
  caps and the metrics of every other domain as they were, and the next decision for another
  domain is the one it would have been without it.\<close>

theorem prs_domain_isolation:
  assumes wf: "wf_state st" and dec: "prs_decide b t dn st = Ok (b', dec)" and n: "n \<noteq> dn"
  shows "map_of (prs_ewma b') n = map_of (prs_ewma b) n \<and>
         map_of (prs_last_caps b') n = map_of (prs_last_caps b) n \<and>
         prs_get_last_metrics b' n = prs_get_last_metrics b n \<and>
         map_sum id snd (prs_decide b' t n st') = map_sum id snd (prs_decide b t n st')"
proof -
  obtain w where b': "b' = b\<lparr>prs_ewma := dset dn (domain_ewma b dn st) (prs_ewma b),
            prs_last_caps := dset dn (bd_caps dec) (prs_last_caps b),
            prs_last_metrics := dset dn (prs_metrics_of b dn w st (bd_caps dec)) (prs_last_metrics b)\<rparr>"
    using prs_decideD [OF wf dec] by metis
  have e: "domain_ewma b' n st' = domain_ewma b n st'"
    using n by (simp add: b' domain_ewma_def dget_or_def [of "prs_ewma b"])
  have cap: "idle_cap b' w' st' = idle_cap b w' st'" "hot_cap b' w' st' = hot_cap b w' st'"
      "is_hot b' w' st' = is_hot b w' st'" for w'
    by (simp_all add: fun_eq_iff b' idle_cap_def hot_cap_def is_hot_def)
  have "limited b' n st' = limited b n st'"
    using n by (simp add: fun_eq_iff b' limited_def limiter_prev_def cong: option.case_cong if_cong)
  then have "rate_limit b' n st' = rate_limit b n st'" by (intro ext) (simp add: rate_limit_eq)
  moreover have "prs_targets b' n w' st' = prs_targets b n w' st'" for w'
    by (simp add: prs_targets_def e cap)
  ultimately have "map_sum id snd (prs_decide b' t n st') = map_sum id snd (prs_decide b t n st')"
    by (cases "domain_budget_w t n") (simp_all add: prs_decide_def Let_def split_beta)
  then show ?thesis using n by (simp add: b' prs_get_last_metrics_def)
qed

theorem prs_domain_isolation_witness:
  "\<exists>b' dec. prs_decide demo_prs (demo_domain 1500) ''d'' demo_state = Ok (b', dec) \<and>
     map_of (prs_ewma b') ''other'' = None"
proof -
  obtain b' dec where dec: "prs_decide demo_prs (demo_domain 1500) ''d'' demo_state = Ok (b', dec)"
    using prs_demo_step by blast
  have "map_of (prs_ewma b') ''other'' = map_of (prs_ewma demo_prs) ''other''"
    using prs_domain_isolation [OF wf_demo_state dec, of "''other''"] by simp
  then have "map_of (prs_ewma b') ''other'' = None" by (simp add: demo_prs_def)
  with dec show ?thesis by blast
qed

text \<open>Clearing a domain's state makes the brain decide for it as a fresh brain does.\<close>

lemma reset_ewma_fresh:
  assumes init: "prs_init (prs_min_cap_w b) (prs_alpha b) (prs_threshold b) (prs_margin b) (prs_cap_raise_rate b) = Ok b0"
    and dn: "r = None \<or> r = Some dn"
  shows "map_sum id snd (prs_decide (reset_ewma b r) t dn st) = map_sum id snd (prs_decide b0 t dn st)"
proof -
  have b0: "b0 = b\<lparr>prs_ewma := [], prs_last_caps := [], prs_last_metrics := []\<rparr>"
    using init by (auto simp: prs_init_def split: if_splits)
  let ?r = "reset_ewma b r"
  have none: "dget_or (prs_ewma ?r) dn [] = []" "dget_or (prs_last_caps ?r) dn [] = []"
    using dn by (auto simp: reset_ewma_def dget_or_def)
  have par: "prs_min_cap_w ?r = prs_min_cap_w b" "prs_alpha ?r = prs_alpha b" "prs_threshold ?r = prs_threshold b"
      "prs_margin ?r = prs_margin b" "prs_cap_raise_rate ?r = prs_cap_raise_rate b"
    by (simp_all add: reset_ewma_def split: option.split)
  have e: "domain_ewma ?r dn st = domain_ewma b0 dn st" by (simp add: domain_ewma_def none par b0)
  have cap: "idle_cap ?r w st = idle_cap b0 w st" "hot_cap ?r w st = hot_cap b0 w st"
      "is_hot ?r w st = is_hot b0 w st" for w
    by (simp_all add: fun_eq_iff b0 idle_cap_def hot_cap_def is_hot_def par)
  have "limited ?r dn st = limited b0 dn st"
    by (simp add: fun_eq_iff b0 limited_def limiter_prev_def none par cong: option.case_cong if_cong)
  then have "rate_limit ?r dn st = rate_limit b0 dn st" by (intro ext) (simp add: rate_limit_eq)
  moreover have "prs_targets ?r dn w st = prs_targets b0 dn w st" for w
    by (simp add: prs_targets_def e cap)
  ultimately show ?thesis
    by (cases "domain_budget_w t dn") (simp_all add: prs_decide_def Let_def split_beta)
qed

text \<open>The comment on \<open>PRSMetrics.domain_cap_w\<close> says the new caps are within the budget by
  construction. They are not: two hot GPUs with the default 200 W floor in a 300 W domain are
  given 400 W, and the metric records it.\<close>

definition tight_state :: domain_state where
  "tight_state =
     \<lparr>ds_domain_name = ''d'', gpu_draws = [(0, 150), (1, 150)], gpu_caps = [(0, 150), (1, 150)], ds_ts = 0,
      gpu_max_caps = [(0, 1000), (1, 1000)], gpu_thermal_throttled = []\<rparr>"

theorem prs_can_exceed_budget:
  "\<exists>b b' dec m. prs_init 200 (3/10) (3/5) (3/10) 0 = Ok b \<and>
     domain_budget_w (demo_domain 300) ''d'' = Ok 300 \<and>
     prs_decide b (demo_domain 300) ''d'' tight_state = Ok (b', dec) \<and>
     prs_get_last_metrics b' ''d'' = Some m \<and> domain_cap_w m = 400"
proof -
  define b where "b = \<lparr>prs_min_cap_w = 200, prs_alpha = 3/10, prs_threshold = 3/5, prs_margin = 3/10,
     prs_cap_raise_rate = 0, prs_ewma = [], prs_last_caps = [], prs_last_metrics = []\<rparr>"
  have init: "prs_init 200 (3/10) (3/5) (3/10) 0 = Ok b" by (simp add: prs_init_def b_def)
  have wf: "wf_state tight_state" by (simp add: wf_state_def tight_state_def)
  have gpus: "state_gpus tight_state = [0, 1]" by (simp add: tight_state_def)
  have e: "domain_ewma b ''d'' tight_state = [(0, 150), (1, 150)]"
    by (simp add: domain_ewma_def ewma_update_def b_def tight_state_def)
  have hot: "is_hot b 300 tight_state [(0, 150), (1, 150)] g" if "g = 0 \<or> g = 1" for g
    using that by (auto simp: is_hot_def b_def tight_state_def ditem_def)
  have H: "hot_of b ''d'' 300 tight_state = [0, 1]" and I: "idle_of b ''d'' 300 tight_state = []"
    by (simp_all add: hot_of_def idle_of_def e gpus hot)
  have raw: "hot_raw b ''d'' 300 tight_state g = 150" if "g = 0 \<or> g = 1" for g
    using that by (auto simp: hot_raw_def H I idle_total_def e hot_share_def ditem_def)
  have T: "targets_of b ''d'' 300 tight_state = [(0, 200), (1, 200)]"
    by (simp add: targets_of_def H I raw) (simp add: b_def hw_max_def tight_state_def)
  obtain b' dec where dec: "prs_decide b (demo_domain 300) ''d'' tight_state = Ok (b', dec)"
    using prs_decide_total [of "demo_domain 300" "''d''" _ b tight_state] demo_known by fast
  from prs_decideD [OF wf dec] obtain w where w: "domain_budget_w (demo_domain 300) ''d'' = Ok w"
    and caps: "bd_caps dec = rate_limit b ''d'' tight_state (targets_of b ''d'' w tight_state)"
    and b': "b' = b\<lparr>prs_ewma := dset ''d'' (domain_ewma b ''d'' tight_state) (prs_ewma b),
            prs_last_caps := dset ''d'' (bd_caps dec) (prs_last_caps b),
            prs_last_metrics := dset ''d'' (prs_metrics_of b ''d'' w tight_state (bd_caps dec)) (prs_last_metrics b)\<rparr>"
    by metis
  have "w = 300" using w by simp
  then have "bd_caps dec = [(0, 200), (1, 200)]"
    by (simp add: caps T rate_limit_def) (simp add: b_def)
  then have "prs_get_last_metrics b' ''d'' = Some (prs_metrics_of b ''d'' w tight_state [(0, 200), (1, 200)])"
    by (simp add: b' prs_get_last_metrics_def)
  moreover have "domain_cap_w (prs_metrics_of b ''d'' w tight_state [(0, 200), (1, 200)]) = 400"
    by (simp add: prs_metrics_of_def)
  ultimately show ?thesis using init dec demo_budget [of 300] by fastforce
qed

end
