(* ===== verification/Wrapped.thy ===== *)
theory Wrapped
  imports Prs
begin

text \<open>
  What the brains that wrap PRS share. Each of them runs \<open>prs_decide\<close> and rewrites the caps of
  its decision: the locale \<open>cap_rewrite\<close> is the contract of that rewriting (the GPUs stay, no
  cap becomes negative), and \<open>cap_to_budget\<close> is the safety step two of them end with: scale
  every cap down when the sum is above a non-zero budget.
\<close>

locale cap_rewrite =
  fixes rewrite :: "'b \<Rightarrow> watts \<Rightarrow> domain_state \<Rightarrow> (gpu, watts) dict \<Rightarrow> (gpu, watts) dict"
    and ok :: "'b \<Rightarrow> bool"
  assumes rewrite_keys: "dkeys (rewrite b w st caps) = dkeys caps"
    and rewrite_nonneg: "ok b \<Longrightarrow> wf_state st \<Longrightarrow> 0 \<le> w \<Longrightarrow> wf_powers caps \<Longrightarrow>
      map_of (rewrite b w st caps) g = Some v \<Longrightarrow> 0 \<le> v"
begin

lemma rewrite_powers:
  "ok b \<Longrightarrow> wf_state st \<Longrightarrow> 0 \<le> w \<Longrightarrow> wf_powers caps \<Longrightarrow> wf_powers (rewrite b w st caps)"
  by (rule wf_powersI) (simp add: rewrite_keys wf_powers_def, rule rewrite_nonneg)

lemma rewrite_decision:
  assumes "ok b" "wf_state st" "prs_inv p" "prs_decide p t dn st = Ok (p', dec)" "domain_budget_w t dn = Ok w"
  shows "wf_powers (rewrite b w st (bd_caps dec)) \<and>
         set (dkeys (rewrite b w st (bd_caps dec))) = set (state_gpus st)"
  using rewrite_powers [OF assms(1,2) domain_budget_nonneg [OF assms(5)] prs_decide_powers [OF assms(2-4)]]
    prs_decide_keys [OF assms(2,4)] by (simp add: rewrite_keys del: set_map)

end

definition cap_to_budget :: "watts \<Rightarrow> (gpu, watts) dict \<Rightarrow> (gpu, watts) dict" where
  \<comment> \<open>\<open>if budget and total > budget: scale = budget / total; ...\<close>\<close>
  "cap_to_budget budget caps =
     (if budget \<noteq> 0 \<and> budget < dsum caps then renormalise budget caps else caps)"

lemma dkeys_cap_to_budget [simp]: "dkeys (cap_to_budget w caps) = dkeys caps"
  by (simp add: cap_to_budget_def)

lemma cap_to_budget_sum: "0 < w \<Longrightarrow> dsum (cap_to_budget w caps) \<le> w"
  by (simp add: cap_to_budget_def dsum_renormalise)

lemma cap_to_budget_total: "0 < w \<Longrightarrow> dsum (cap_to_budget w caps) = min w (dsum caps)"
  by (simp add: cap_to_budget_def dsum_renormalise)

text \<open>All caps are multiplied by one factor between 0 and 1.\<close>

definition budget_scale :: "watts \<Rightarrow> (gpu, watts) dict \<Rightarrow> real" where
  "budget_scale w caps = (if w \<noteq> 0 \<and> w < dsum caps then w / dsum caps else 1)"

lemma map_of_cap_to_budget:
  "map_of (cap_to_budget w caps) g = map_option (\<lambda>v. v * budget_scale w caps) (map_of caps g)"
  by (simp add: cap_to_budget_def budget_scale_def map_of_renormalise option.map_ident)

lemma budget_scale_bounds: "0 \<le> w \<Longrightarrow> 0 < budget_scale w caps \<and> budget_scale w caps \<le> 1"
  by (auto simp: budget_scale_def)

lemma budget_scale_fits: "dsum caps \<le> w \<Longrightarrow> budget_scale w caps = 1"
  by (simp add: budget_scale_def)

lemma wf_powers_cap_to_budget:
  assumes "0 \<le> w" "wf_powers caps"
  shows "wf_powers (cap_to_budget w caps)"
proof (rule wf_powersI)
  show "wf_dict (cap_to_budget w caps)" using assms(2) by (simp add: wf_powers_def)
  show "0 \<le> v" if "map_of (cap_to_budget w caps) g = Some v" for g v
    using that wf_powers_map_of [OF assms(2)] budget_scale_bounds [OF assms(1), of caps]
    by (auto simp: map_of_cap_to_budget)
qed

lemma wf_powers_map_ran:
  assumes "wf_powers caps" and "\<And>g v. map_of caps g = Some v \<Longrightarrow> 0 \<le> v \<Longrightarrow> 0 \<le> f g v"
  shows "wf_powers (map_ran f caps)"
proof (rule wf_powersI)
  show "wf_dict (map_ran f caps)" using assms(1) by (simp add: wf_powers_def)
  show "0 \<le> v" if "map_of (map_ran f caps) g = Some v" for g v
    using that assms wf_powers_map_of [OF assms(1)] by (auto simp: map_ran_conv)
qed

lemma wf_powers_max_cap: "wf_state st \<Longrightarrow> 0 \<le> c \<Longrightarrow> 0 \<le> dget_or (gpu_max_caps st) g c"
  by (rule wf_state_max_cap)

lemma prs_decide_keys_list: "wf_state st \<Longrightarrow> prs_decide b t dn st = Ok (b', dec) \<Longrightarrow> wf_dict (bd_caps dec)"
  using wf_targets by (metis prs_decideD dkeys_rate_limit)

end
