(* ===== verification/JobTracker.thy ===== *)
theory JobTracker
  imports PyText
begin

text \<open>
  \<open>agent/job_tracker.py\<close>: which GPUs run compute jobs, read from the text \<open>nvidia-smi\<close> prints.
  The text is an argument (\<open>None\<close> when running the program raised); both parsers stop at the
  first malformed line and keep what they had, as the \<open>try\<close> around each loop does. The
  polling thread replaces the whole table under a lock, so a step of it is one update.
\<close>

record gpu_job =
  job_pid :: int
  job_gpu_uuid :: string
  job_gpu_index :: gpu
  used_memory_mib :: int

record job_tracker =
  jt_jobs :: "(gpu, gpu_job list) dict"
  uuid_to_index :: "(string, gpu) dict"

definition get_jobs :: "job_tracker \<Rightarrow> gpu \<Rightarrow> gpu_job list" where
  "get_jobs jt g = dget_or (jt_jobs jt) g []"

definition is_gpu_busy :: "job_tracker \<Rightarrow> gpu \<Rightarrow> bool" where
  "is_gpu_busy jt g = (get_jobs jt g \<noteq> [])"

definition set_busy_gpus :: "job_tracker \<Rightarrow> gpu list \<Rightarrow> job_tracker" where
  "set_busy_gpus jt gs =
     jt\<lparr>jt_jobs := dcomp (\<lambda>i. [\<lparr>job_pid = - 1, job_gpu_uuid = ''sim-'' @ string_of_int i,
                                 job_gpu_index = i, used_memory_mib = 1\<rparr>]) gs\<rparr>"

text \<open>One line of \<open>--query-gpu=index,uuid\<close>: a line without a comma or with a bad index raises.\<close>

definition uuid_line :: "string \<Rightarrow> (string \<times> gpu) res" where
  "uuid_line line =
     (case split_first (CHR '','') line of
        (_, None) \<Rightarrow> Err (ValueError ''unpack'')
      | (a, Some b) \<Rightarrow> res_bind (py_int (strip a)) (\<lambda>i. Ok (strip b, i)))"

fun uuid_lines :: "string list \<Rightarrow> (string, gpu) dict \<Rightarrow> (string, gpu) dict" where
  "uuid_lines [] m = m"
| "uuid_lines (l # ls) m =
     (case uuid_line l of Inl _ \<Rightarrow> m | Inr (uuid, i) \<Rightarrow> uuid_lines ls (dset uuid i m))"

definition refresh_uuid_map :: "string option \<Rightarrow> job_tracker \<Rightarrow> job_tracker" where
  "refresh_uuid_map out jt =
     (case out of None \<Rightarrow> jt
      | Some s \<Rightarrow> jt\<lparr>uuid_to_index := uuid_lines (splitlines (strip s)) (uuid_to_index jt)\<rparr>)"

text \<open>One line of \<open>--query-compute-apps\<close>: blank and short lines and unknown GPUs are skipped.\<close>

definition app_fields :: "(string, gpu) dict \<Rightarrow> string \<Rightarrow> string \<Rightarrow> string \<Rightarrow> gpu_job option res" where
  "app_fields uuids pid_s uuid mem_s =
     res_bind (py_int pid_s) (\<lambda>pid.
     res_bind (py_int mem_s) (\<lambda>mem.
     Ok (if dget_or uuids uuid (- 1) < 0 then None
         else Some \<lparr>job_pid = pid, job_gpu_uuid = uuid, job_gpu_index = dget_or uuids uuid (- 1),
                    used_memory_mib = mem\<rparr>)))"

definition app_line :: "(string, gpu) dict \<Rightarrow> string \<Rightarrow> gpu_job option res" where
  "app_line uuids line =
     (if strip line = [] then Ok None
      else let parts = map strip (split_on (CHR '','') line) in
        if length parts < 3 then Ok None
        else app_fields uuids (parts ! 0) (parts ! 1) (parts ! 2))"

definition add_job :: "(gpu, gpu_job list) dict \<Rightarrow> gpu_job \<Rightarrow> (gpu, gpu_job list) dict" where
  "add_job m j = dset (job_gpu_index j) (dget_or m (job_gpu_index j) [] @ [j]) m"

fun app_lines :: "(string, gpu) dict \<Rightarrow> string list \<Rightarrow> (gpu, gpu_job list) dict \<Rightarrow> (gpu, gpu_job list) dict" where
  "app_lines uuids [] m = m"
| "app_lines uuids (l # ls) m =
     (case app_line uuids l of
        Inl _ \<Rightarrow> m
      | Inr None \<Rightarrow> app_lines uuids ls m
      | Inr (Some j) \<Rightarrow> app_lines uuids ls (add_job m j))"

definition poll :: "job_tracker \<Rightarrow> string option \<Rightarrow> (gpu, gpu_job list) dict" where
  "poll jt out =
     (case out of None \<Rightarrow> [] | Some s \<Rightarrow> app_lines (uuid_to_index jt) (splitlines (strip s)) [])"

definition loop_step :: "string option \<Rightarrow> job_tracker \<Rightarrow> job_tracker" where
  "loop_step out jt = jt\<lparr>jt_jobs := poll jt out\<rparr>"

section \<open>Lemmas\<close>

text \<open>The jobs a list of lines describes: those before the first malformed line.\<close>

fun jobs_of_lines :: "(string, gpu) dict \<Rightarrow> string list \<Rightarrow> gpu_job list" where
  "jobs_of_lines uuids [] = []"
| "jobs_of_lines uuids (l # ls) =
     (case app_line uuids l of
        Inl _ \<Rightarrow> []
      | Inr None \<Rightarrow> jobs_of_lines uuids ls
      | Inr (Some j) \<Rightarrow> j # jobs_of_lines uuids ls)"

lemma app_lines_foldl: "app_lines uuids ls m = foldl add_job m (jobs_of_lines uuids ls)"
  by (induction ls arbitrary: m) (auto split: sum.split option.split)

lemma foldl_add_job:
  "dget_or (foldl add_job m js) g [] = dget_or m g [] @ filter (\<lambda>j. job_gpu_index j = g) js"
  by (induction js arbitrary: m) (auto simp: add_job_def)

lemma known_index: "\<not> dget_or m k (- 1) < 0 \<Longrightarrow> map_of m k = Some (dget_or m k (- 1 :: int))"
  by (cases "map_of m k") (simp_all add: dget_or_def)

lemma app_fields_index: "app_fields uuids p u m = Ok (Some j) \<Longrightarrow>
    map_of uuids (job_gpu_uuid j) = Some (job_gpu_index j) \<and> 0 \<le> job_gpu_index j"
  using known_index [of uuids u] by (auto simp: app_fields_def res_bind_Ok_iff split: if_splits)

lemma app_line_index:
  assumes "app_line uuids l = Ok (Some j)"
  shows "map_of uuids (job_gpu_uuid j) = Some (job_gpu_index j) \<and> 0 \<le> job_gpu_index j"
proof -
  define parts where "parts = map strip (split_on (CHR '','') l)"
  have "app_line uuids l = (if strip l = [] then Ok None else if length parts < 3 then Ok None
      else app_fields uuids (parts ! 0) (parts ! 1) (parts ! 2))"
    unfolding app_line_def parts_def Let_def ..
  then have "app_fields uuids (parts ! 0) (parts ! 1) (parts ! 2) = Ok (Some j)"
    using assms by (cases "strip l = []"; cases "length parts < 3") simp_all
  then show ?thesis by (rule app_fields_index)
qed

lemma jobs_of_lines_index: "j \<in> set (jobs_of_lines uuids ls) \<Longrightarrow>
    map_of uuids (job_gpu_uuid j) = Some (job_gpu_index j) \<and> 0 \<le> job_gpu_index j"
proof (induction ls)
  case (Cons l ls)
  show ?case
  proof (cases "app_line uuids l")
    case (Inr r)
    with Cons app_line_index [of uuids l j] show ?thesis by (cases r) auto
  qed (use Cons.prems in simp)
qed simp

lemma jobs_of_lines_prefix:
  "\<forall>l \<in> set ls. \<exists>r. app_line uuids l = Ok r \<Longrightarrow>
   jobs_of_lines uuids (ls @ ls') = jobs_of_lines uuids ls @ jobs_of_lines uuids ls'"
  by (induction ls) (auto split: option.split)

section \<open>Properties\<close>

text \<open>C38. A poll groups the listed jobs by GPU: the jobs of a GPU are those of its lines, in the
  order printed; each of them names that GPU by an identifier the tracker knows, and so does every other
  job read; a GPU is busy iff it has such a line; and lines after a malformed one are ignored without losing the
  earlier ones.\<close>

theorem poll_groups_jobs:
  "get_jobs (loop_step (Some s) jt) g =
     filter (\<lambda>j. job_gpu_index j = g) (jobs_of_lines (uuid_to_index jt) (splitlines (strip s))) \<and>
   (is_gpu_busy (loop_step (Some s) jt) g \<longleftrightarrow>
     (\<exists>j \<in> set (jobs_of_lines (uuid_to_index jt) (splitlines (strip s))).
        job_gpu_index j = g \<and> map_of (uuid_to_index jt) (job_gpu_uuid j) = Some g)) \<and>
   (\<forall>j \<in> set (get_jobs (loop_step (Some s) jt) g).
      job_gpu_index j = g \<and> map_of (uuid_to_index jt) (job_gpu_uuid j) = Some g) \<and>
   (\<forall>j \<in> set (jobs_of_lines (uuid_to_index jt) (splitlines (strip s))).
      0 \<le> job_gpu_index j \<and> map_of (uuid_to_index jt) (job_gpu_uuid j) = Some (job_gpu_index j)) \<and>
   (\<forall>ls l ls'. splitlines (strip s) = ls @ l # ls' \<longrightarrow>
      (\<forall>x \<in> set ls. \<exists>r. app_line (uuid_to_index jt) x = Ok r) \<longrightarrow>
      app_line (uuid_to_index jt) l = Err e \<longrightarrow>
      get_jobs (loop_step (Some s) jt) g =
        filter (\<lambda>j. job_gpu_index j = g) (jobs_of_lines (uuid_to_index jt) ls))"
proof -
  let ?u = "uuid_to_index jt" and ?ls = "splitlines (strip s)"
  have jobs: "get_jobs (loop_step (Some s) jt) g = filter (\<lambda>j. job_gpu_index j = g) (jobs_of_lines ?u ?ls)"
    by (simp add: get_jobs_def loop_step_def poll_def app_lines_foldl foldl_add_job)
  moreover have "is_gpu_busy (loop_step (Some s) jt) g \<longleftrightarrow>
     (\<exists>j \<in> set (jobs_of_lines ?u ?ls). job_gpu_index j = g \<and> map_of ?u (job_gpu_uuid j) = Some g)"
    unfolding is_gpu_busy_def jobs filter_empty_conv using jobs_of_lines_index by blast
  moreover have "jobs_of_lines ?u (ls @ l # ls') = jobs_of_lines ?u ls"
    if "\<forall>x \<in> set ls. \<exists>r. app_line ?u x = Ok r" "app_line ?u l = Err e" for ls l ls'
    using that by (simp add: jobs_of_lines_prefix)
  ultimately show ?thesis using jobs_of_lines_index [of _ ?u ?ls] by auto
qed

definition demo_tracker :: job_tracker where
  "demo_tracker = \<lparr>jt_jobs = [], uuid_to_index = [(''A'', 0), (''B'', 1)]\<rparr>"

theorem poll_groups_jobs_witness:
  "get_jobs (loop_step (Some ''7, A, 4'') demo_tracker) 0 =
     [\<lparr>job_pid = 7, job_gpu_uuid = ''A'', job_gpu_index = 0, used_memory_mib = 4\<rparr>]"
proof -
  have "jobs_of_lines [(''A'', 0), (''B'', 1)] (splitlines (strip ''7, A, 4'')) =
      [\<lparr>job_pid = 7, job_gpu_uuid = ''A'', job_gpu_index = 0, used_memory_mib = 4\<rparr>]"
    by code_simp
  then show ?thesis
    using poll_groups_jobs [THEN conjunct1, of "''7, A, 4''" demo_tracker 0] by (simp add: demo_tracker_def)
qed

text \<open>Marking GPUs busy by hand replaces whatever was polled.\<close>

lemma set_busy_gpus_busy: "is_gpu_busy (set_busy_gpus jt gs) g \<longleftrightarrow> g \<in> set gs"
  by (auto simp: is_gpu_busy_def get_jobs_def set_busy_gpus_def dget_or_def)

end
