(* ===== verification/JobAware.thy ===== *)
theory JobAware
  imports Wrapped JobTracker
begin

text \<open>
  \<open>brain/job_aware_prs.py\<close>: PRS with a boost for GPUs that run jobs. The tracker object is
  shared with its polling thread; a decision reads one snapshot of it.
\<close>

record job_aware_brain =
  ja_prs :: prs_brain
  ja_tracker :: job_tracker
  ja_boost :: real

definition job_aware_init :: "job_tracker \<Rightarrow> real \<Rightarrow> prs_brain res \<Rightarrow> job_aware_brain res" where
  \<comment> \<open>the last argument is \<open>PRSBrain(topology, **prs_kwargs)\<close>\<close>
  "job_aware_init tracker boost mk_prs =
     (if boost < 0 then Err (ValueError ''priority_boost must be >= 0'')
      else res_bind mk_prs (\<lambda>p. Ok \<lparr>ja_prs = p, ja_tracker = tracker, ja_boost = boost\<rparr>))"

definition boost_busy :: "job_aware_brain \<Rightarrow> domain_state \<Rightarrow> (gpu, watts) dict \<Rightarrow> (gpu, watts) dict" where
  "boost_busy b st caps =
     map_ran (\<lambda>g c. if is_gpu_busy (ja_tracker b) g
                     then min (c * (1 + ja_boost b)) (dget_or (gpu_max_caps st) g c) else c) caps"

definition job_aware_caps :: "job_aware_brain \<Rightarrow> watts \<Rightarrow> domain_state \<Rightarrow> (gpu, watts) dict \<Rightarrow> (gpu, watts) dict" where
  "job_aware_caps b budget st caps = cap_to_budget budget (boost_busy b st caps)"

definition job_aware_decide :: "job_aware_brain \<Rightarrow> topology \<Rightarrow> string \<Rightarrow> domain_state \<Rightarrow> (job_aware_brain \<times> brain_decision) res" where
  "job_aware_decide b t dn st =
     res_bind (prs_decide (ja_prs b) t dn st) (\<lambda>(p, dec).
       let busy = filter (is_gpu_busy (ja_tracker b)) (dkeys (bd_caps dec)) in
       if busy = [] then Ok (b\<lparr>ja_prs := p\<rparr>, dec)
       else res_bind (domain_budget_w t dn) (\<lambda>budget.
         Ok (b\<lparr>ja_prs := p\<rparr>, dec\<lparr>bd_caps := job_aware_caps b budget st (bd_caps dec)\<rparr>)))"

definition job_get_last_metrics :: "job_aware_brain \<Rightarrow> string \<Rightarrow> prs_metrics option" where
  "job_get_last_metrics b dn = prs_get_last_metrics (ja_prs b) dn"

section \<open>Lemmas\<close>

definition job_aware_inv :: "job_aware_brain \<Rightarrow> bool" where
  "job_aware_inv b \<longleftrightarrow> prs_inv (ja_prs b) \<and> 0 \<le> ja_boost b"

lemma job_aware_init_inv:
  "job_aware_init tr boost (prs_init m a th mg r) = Ok b \<Longrightarrow> 0 \<le> m \<Longrightarrow> 0 \<le> mg \<Longrightarrow> job_aware_inv b"
  using prs_init_inv [of m a th mg r] by (auto simp: job_aware_init_def job_aware_inv_def res_bind_Ok_iff split: if_splits)

lemma boost_busy_nonneg:
  assumes "job_aware_inv b" "wf_state st" "wf_powers caps"
  shows "wf_powers (boost_busy b st caps)"
  unfolding boost_busy_def
  using assms(1) by (intro wf_powers_map_ran [OF assms(3)])
    (auto simp: job_aware_inv_def wf_powers_max_cap [OF assms(2)])

interpretation job_rewrite: cap_rewrite job_aware_caps job_aware_inv
proof
  fix b w st and caps :: "(gpu, watts) dict" and g v
  show "dkeys (job_aware_caps b w st caps) = dkeys caps" by (simp add: job_aware_caps_def boost_busy_def)
  assume "job_aware_inv b" "wf_state st" "0 \<le> w" "wf_powers caps" "map_of (job_aware_caps b w st caps) g = Some v"
  then show "0 \<le> v"
    using wf_powers_map_of [OF wf_powers_cap_to_budget [OF _ boost_busy_nonneg]] by (simp add: job_aware_caps_def)
qed

lemma job_aware_decideD:
  assumes "job_aware_decide b t dn st = Ok (b', dec')"
  obtains p dec w where "prs_decide (ja_prs b) t dn st = Ok (p, dec)" "b' = b\<lparr>ja_prs := p\<rparr>"
    "domain_budget_w t dn = Ok w"
    "(\<forall>g \<in> set (dkeys (bd_caps dec)). \<not> is_gpu_busy (ja_tracker b) g) \<and> dec' = dec \<or>
     (\<exists>g \<in> set (dkeys (bd_caps dec)). is_gpu_busy (ja_tracker b) g) \<and>
       dec' = dec\<lparr>bd_caps := job_aware_caps b w st (bd_caps dec)\<rparr>"
proof -
  from assms obtain p dec where p: "prs_decide (ja_prs b) t dn st = Ok (p, dec)"
    by (auto simp: job_aware_decide_def res_bind_Ok_iff)
  from p obtain w where w: "domain_budget_w t dn = Ok w"
    by (auto simp: prs_decide_def res_bind_Ok_iff)
  show thesis
  proof (rule that [OF p _ w])
    show "b' = b\<lparr>ja_prs := p\<rparr>" using assms p w by (auto simp: job_aware_decide_def Let_def split: if_splits)
    show "(\<forall>g \<in> set (dkeys (bd_caps dec)). \<not> is_gpu_busy (ja_tracker b) g) \<and> dec' = dec \<or>
     (\<exists>g \<in> set (dkeys (bd_caps dec)). is_gpu_busy (ja_tracker b) g) \<and>
       dec' = dec\<lparr>bd_caps := job_aware_caps b w st (bd_caps dec)\<rparr>"
      using assms p w by (simp add: job_aware_decide_def Let_def filter_empty_conv split: if_splits)
  qed
qed

lemma job_aware_decide_total:
  "map_of (domains t) dn = Some d \<Longrightarrow> \<exists>r. job_aware_decide b t dn st = Ok r"
  using prs_decide_total [of t dn d "ja_prs b" st] domain_budget_total [of t dn d]
  by (auto simp: job_aware_decide_def Let_def)

lemma job_aware_powers:
  assumes wf: "wf_state st" and inv: "job_aware_inv b" and dec: "job_aware_decide b t dn st = Ok (b', dec)"
  shows "wf_powers (bd_caps dec) \<and> set (dkeys (bd_caps dec)) = set (state_gpus st) \<and> job_aware_inv b'"
proof -
  from job_aware_decideD [OF dec] obtain p pdec w where p: "prs_decide (ja_prs b) t dn st = Ok (p, pdec)"
    and b': "b' = b\<lparr>ja_prs := p\<rparr>" and w: "domain_budget_w t dn = Ok w"
    and cases: "dec = pdec \<or> dec = pdec\<lparr>bd_caps := job_aware_caps b w st (bd_caps pdec)\<rparr>"
    by metis
  have pi: "prs_inv (ja_prs b)" using inv by (simp add: job_aware_inv_def)
  show ?thesis
    using cases job_rewrite.rewrite_decision [OF inv wf pi p w] prs_decide_powers [OF wf pi p]
      prs_decide_keys [OF wf p] prs_decide_inv [OF wf pi p] inv
    by (auto simp: b' job_aware_inv_def simp del: set_map)
qed

interpretation job_aware: cap_brain job_aware_inv job_aware_decide
proof
  show "v \<in> set (dvals (bd_caps dec)) \<Longrightarrow> 0 \<le> v"
    if "wf_state st" "job_aware_inv b" "job_aware_decide b t dn st = Ok (b', dec)" for st b t dn b' dec v
    using job_aware_powers [OF that] unfolding wf_powers_def by blast
qed (use job_aware_decide_total job_aware_powers in \<open>auto simp: wf_powers_def simp del: set_map\<close>)

section \<open>Properties\<close>

text \<open>C33. The boost redistributes and does not oversubscribe: if some GPU of the decision runs a
  job and the budget is not zero, the caps sum to at most the budget; boosting never takes
  power away from the domain as a whole (the sum is at least what PRS gave, up to the budget)
  and a busy GPU's share of the power never falls against that of a GPU that runs no job,
  wherever PRS stayed within the hardware maximum. Without a job the decision is PRS's own.\<close>

theorem job_aware_redistributes:
  assumes wf: "wf_state st" and inv: "job_aware_inv b" and w: "domain_budget_w t dn = Ok w"
    and dec: "job_aware_decide b t dn st = Ok (b', dec)"
    and prs: "prs_decide (ja_prs b) t dn st = Ok (p, pdec)"
  shows "((\<exists>g \<in> set (state_gpus st). is_gpu_busy (ja_tracker b) g) \<and> 0 < w \<longrightarrow> dsum (bd_caps dec) \<le> w) \<and>
         ((\<forall>g \<in> set (state_gpus st). \<not> is_gpu_busy (ja_tracker b) g) \<longrightarrow> dec = pdec) \<and>
         ((\<forall>g c. map_of (bd_caps pdec) g = Some c \<longrightarrow> c \<le> dget_or (gpu_max_caps st) g c) \<longrightarrow>
            (0 < w \<longrightarrow> min w (dsum (bd_caps pdec)) \<le> dsum (bd_caps dec)) \<and>
            (\<forall>i j ci cj ci' cj'. map_of (bd_caps pdec) i = Some ci \<longrightarrow> map_of (bd_caps pdec) j = Some cj \<longrightarrow>
               map_of (bd_caps dec) i = Some ci' \<longrightarrow> map_of (bd_caps dec) j = Some cj' \<longrightarrow>
               is_gpu_busy (ja_tracker b) i \<longrightarrow> \<not> is_gpu_busy (ja_tracker b) j \<longrightarrow> ci * cj' \<le> ci' * cj))"
proof -
  from job_aware_decideD [OF dec] prs w have cases:
    "(\<forall>g \<in> set (dkeys (bd_caps pdec)). \<not> is_gpu_busy (ja_tracker b) g) \<and> dec = pdec \<or>
     (\<exists>g \<in> set (dkeys (bd_caps pdec)). is_gpu_busy (ja_tracker b) g) \<and>
       dec = pdec\<lparr>bd_caps := job_aware_caps b w st (bd_caps pdec)\<rparr>"
    by (metis prod.inject sum.inject(2))
  note keys = prs_decide_keys [OF wf prs]
  have pos: "wf_powers (bd_caps pdec)" using prs_decide_powers [OF wf _ prs] inv by (simp add: job_aware_inv_def)
  have w0: "0 \<le> w" using domain_budget_nonneg [OF w] .
  show ?thesis
  proof (cases "\<exists>g \<in> set (state_gpus st). is_gpu_busy (ja_tracker b) g")
    case False
    then have "dec = pdec" using cases unfolding keys by blast
    with False show ?thesis by (auto simp: keys [symmetric] mult.commute simp del: set_map dest: map_of_some_key)
  next
    case True
    let ?c = "bd_caps pdec"
    have caps: "bd_caps dec = cap_to_budget w (boost_busy b st ?c)"
      using cases True unfolding keys by (auto simp: job_aware_caps_def)
    have up: "v \<le> (if is_gpu_busy (ja_tracker b) g
                   then min (v * (1 + ja_boost b)) (dget_or (gpu_max_caps st) g v) else v)"
      if "(g, v) \<in> set ?c" "\<forall>g c. map_of ?c g = Some c \<longrightarrow> c \<le> dget_or (gpu_max_caps st) g c" for g v
    proof -
      have v: "map_of ?c g = Some v" using that(1) pos by (simp add: wf_powers_def)
      then show ?thesis using that(2) wf_powers_map_of [OF pos v] inv
        by (simp add: job_aware_inv_def algebra_simps)
    qed
    have grow: "dsum ?c \<le> dsum (boost_busy b st ?c)"
      if "\<forall>g c. map_of ?c g = Some c \<longrightarrow> c \<le> dget_or (gpu_max_caps st) g c"
      unfolding boost_busy_def dsum_map_ran unfolding dsum_def
      by (rule sum_list_mono) (use up [OF _ that] in auto)
    have share: "ci * cj' \<le> ci' * cj"
      if hw: "\<forall>g c. map_of ?c g = Some c \<longrightarrow> c \<le> dget_or (gpu_max_caps st) g c"
        and m: "map_of ?c i = Some ci" "map_of ?c j = Some cj"
          "map_of (bd_caps dec) i = Some ci'" "map_of (bd_caps dec) j = Some cj'"
        and busy: "is_gpu_busy (ja_tracker b) i" "\<not> is_gpu_busy (ja_tracker b) j" for i j ci cj ci' cj'
    proof -
      let ?s = "budget_scale w (boost_busy b st ?c)"
      define boosted where "boosted = min (ci * (1 + ja_boost b)) (dget_or (gpu_max_caps st) i ci)"
      have "cj' = cj * ?s" and ci': "ci' = boosted * ?s"
        using m busy by (simp_all add: caps map_of_cap_to_budget boost_busy_def map_ran_conv boosted_def)
      moreover have "ci \<le> boosted"
        using up [OF map_of_SomeD [OF m(1)] hw] busy by (simp add: boosted_def)
      moreover have "0 \<le> cj * ?s"
        using wf_powers_map_of [OF pos m(2)] budget_scale_bounds [OF w0, of "boost_busy b st ?c"] by simp
      ultimately show ?thesis
        using mult_right_mono [of ci boosted "cj * ?s"] by (simp add: mult.left_commute mult.commute)
    qed
    show ?thesis
      using True grow share cap_to_budget_sum [of w] cap_to_budget_total [of w "boost_busy b st ?c"]
      by (auto simp: caps)
  qed
qed

definition demo_job_brain :: job_aware_brain where
  "demo_job_brain = \<lparr>ja_prs = demo_prs, ja_tracker = set_busy_gpus demo_tracker [0], ja_boost = 3/20\<rparr>"

theorem job_aware_redistributes_witness:
  "\<exists>b' dec. job_aware_decide demo_job_brain (demo_domain 1500) ''d'' demo_state = Ok (b', dec) \<and>
     dsum (bd_caps dec) \<le> 1500"
proof -
  have inv: "job_aware_inv demo_job_brain" by (simp add: job_aware_inv_def demo_job_brain_def)
  obtain b' dec where dec: "job_aware_decide demo_job_brain (demo_domain 1500) ''d'' demo_state = Ok (b', dec)"
    using job_aware_decide_total [of "demo_domain 1500" "''d''"] demo_known by fast
  obtain p pdec where p: "prs_decide (ja_prs demo_job_brain) (demo_domain 1500) ''d'' demo_state = Ok (p, pdec)"
    using prs_demo_step by (auto simp: demo_job_brain_def)
  have "is_gpu_busy (ja_tracker demo_job_brain) 0" by (simp add: demo_job_brain_def set_busy_gpus_busy)
  then have "dsum (bd_caps dec) \<le> 1500"
    using job_aware_redistributes [OF wf_demo_state inv demo_budget dec p, THEN conjunct1]
    by (simp add: demo_gpus)
  with dec show ?thesis by blast
qed

end
