(* ===== verification/Priority.thy ===== *)
theory Priority
  imports Wrapped
begin

text \<open>
  \<open>brain/priority_prs.py\<close>: PRS with SLA tiers. The GPUs that draw near their current cap are
  contended; when at least two are, the budget left after the idle caps and a floor for every
  contended GPU is split in proportion to draw times tier weight.
\<close>

definition TIER_WEIGHTS :: "(string, real) dict" where
  "TIER_WEIGHTS = [(''low'', 1/2), (''normal'', 1), (''high'', 2), (''critical'', 4)]"

definition DEFAULT_TIER :: string where
  "DEFAULT_TIER = ''normal''"

record priority_brain =
  pr_prs :: prs_brain
  pr_tiers :: "(gpu, string) dict"
  pr_threshold :: real
  pr_min_cap_w :: watts

definition valid_tiers :: "(gpu, string) dict \<Rightarrow> bool" where
  "valid_tiers tiers = (\<forall>tier \<in> set (dvals tiers). tier \<in> set (dkeys TIER_WEIGHTS))"

definition set_tiers :: "priority_brain \<Rightarrow> (gpu, string) dict \<Rightarrow> priority_brain res" where
  "set_tiers b tiers =
     (if \<not> valid_tiers tiers then Err (ValueError ''unknown priority tier'')
      else Ok (b\<lparr>pr_tiers := tiers\<rparr>))"

definition priority_init :: "(gpu, string) dict \<Rightarrow> real \<Rightarrow> watts \<Rightarrow> prs_brain res \<Rightarrow> priority_brain res" where
  \<comment> \<open>the last argument is \<open>PRSBrain(topology, **prs_kwargs)\<close>; \<open>min_cap_w\<close> is not among them\<close>
  "priority_init tiers threshold min_cap_w mk_prs =
     (if \<not> valid_tiers tiers then Err (ValueError ''unknown priority tier'')
      else res_bind mk_prs (\<lambda>p.
        set_tiers \<lparr>pr_prs = p, pr_tiers = [], pr_threshold = threshold, pr_min_cap_w = min_cap_w\<rparr> tiers))"

definition is_contended :: "priority_brain \<Rightarrow> domain_state \<Rightarrow> gpu \<Rightarrow> bool" where
  "is_contended b st g =
     (0 < dget_or (gpu_caps st) g 0 \<and>
      pr_threshold b \<le> dget_or (gpu_draws st) g 0 / ditem (gpu_caps st) g)"

definition tier_weight :: "priority_brain \<Rightarrow> gpu \<Rightarrow> real" where
  "tier_weight b g = ditem TIER_WEIGHTS (dget_or (pr_tiers b) g DEFAULT_TIER)"

definition contended_weight :: "priority_brain \<Rightarrow> domain_state \<Rightarrow> gpu \<Rightarrow> real" where
  "contended_weight b st g = dget_or (gpu_draws st) g 0 * tier_weight b g"

definition contended_of :: "priority_brain \<Rightarrow> domain_state \<Rightarrow> (gpu, watts) dict \<Rightarrow> gpu list" where
  "contended_of b st caps = filter (is_contended b st) (dkeys caps)"

definition reserved_idle :: "priority_brain \<Rightarrow> domain_state \<Rightarrow> (gpu, watts) dict \<Rightarrow> watts" where
  "reserved_idle b st caps =
     sum_list (map (ditem caps) (filter (\<lambda>g. g \<notin> set (contended_of b st caps)) (dkeys caps)))"

definition pr_surplus :: "priority_brain \<Rightarrow> watts \<Rightarrow> domain_state \<Rightarrow> (gpu, watts) dict \<Rightarrow> watts" where
  "pr_surplus b budget st caps =
     max 0 (budget - reserved_idle b st caps - pr_min_cap_w b * length (contended_of b st caps))"

definition total_weight :: "priority_brain \<Rightarrow> domain_state \<Rightarrow> (gpu, watts) dict \<Rightarrow> real" where
  "total_weight b st caps =
     (let s = sum_list (map (contended_weight b st) (contended_of b st caps)) in if s = 0 then 1 else s)"

definition tier_split :: "priority_brain \<Rightarrow> watts \<Rightarrow> domain_state \<Rightarrow> (gpu, watts) dict \<Rightarrow> (gpu, watts) dict" where
  \<comment> \<open>the loop over the contended GPUs\<close>
  "tier_split b budget st caps =
     map_ran (\<lambda>g c. if g \<in> set (contended_of b st caps)
       then min (pr_min_cap_w b + pr_surplus b budget st caps * contended_weight b st g / total_weight b st caps)
                (dget_or (gpu_max_caps st) g c)
       else c) caps"

definition priority_caps :: "priority_brain \<Rightarrow> watts \<Rightarrow> domain_state \<Rightarrow> (gpu, watts) dict \<Rightarrow> (gpu, watts) dict" where
  "priority_caps b budget st caps = cap_to_budget budget (tier_split b budget st caps)"

definition priority_decide :: "priority_brain \<Rightarrow> topology \<Rightarrow> string \<Rightarrow> domain_state \<Rightarrow> (priority_brain \<times> brain_decision) res" where
  "priority_decide b t dn st =
     res_bind (prs_decide (pr_prs b) t dn st) (\<lambda>(p, decision).
       let contended = contended_of b st (bd_caps decision) in
       if length contended < 2 then Ok (b\<lparr>pr_prs := p\<rparr>, decision)
       else res_bind (domain_budget_w t dn) (\<lambda>budget.
         if budget = 0 then Ok (b\<lparr>pr_prs := p\<rparr>, decision)
         else let caps = priority_caps b budget st (bd_caps decision) in
           Ok (b\<lparr>pr_prs := note_applied_caps p dn caps\<rparr>,
               \<lparr>bd_domain = dn, bd_caps = caps, bd_ts = ds_ts st,
                bd_reason = ''priority-prs:'' @ string_of_nat (length contended) @ ''contended''\<rparr>)))"

definition priority_get_last_metrics :: "priority_brain \<Rightarrow> string \<Rightarrow> prs_metrics option" where
  "priority_get_last_metrics b dn = prs_get_last_metrics (pr_prs b) dn"

section \<open>Lemmas\<close>

definition priority_inv :: "priority_brain \<Rightarrow> bool" where
  "priority_inv b \<longleftrightarrow> prs_inv (pr_prs b) \<and> valid_tiers (pr_tiers b) \<and> 0 \<le> pr_min_cap_w b"

lemma set_tiers_inv: "set_tiers b tiers = Ok b' \<Longrightarrow> priority_inv b \<Longrightarrow> priority_inv b'"
  by (auto simp: set_tiers_def priority_inv_def split: if_splits)

lemma set_tiers_rejects: "\<not> valid_tiers tiers \<longleftrightarrow> set_tiers b tiers = Err (ValueError ''unknown priority tier'')"
  by (simp add: set_tiers_def)

lemma priority_init_inv:
  "priority_init tiers th c (prs_init m a pth mg r) = Ok b \<Longrightarrow> 0 \<le> m \<Longrightarrow> 0 \<le> mg \<Longrightarrow> 0 \<le> c \<Longrightarrow> priority_inv b"
  using prs_init_inv [of m a pth mg r]
  by (auto simp: priority_init_def set_tiers_def priority_inv_def res_bind_Ok_iff split: if_splits)

lemma tier_weight_pos:
  assumes "valid_tiers (pr_tiers b)"
  shows "0 < tier_weight b g"
proof -
  have pos: "0 < ditem TIER_WEIGHTS tier" if "tier \<in> set (dkeys TIER_WEIGHTS)" for tier
    using that by (auto simp: TIER_WEIGHTS_def ditem_def)
  have "dget_or (pr_tiers b) g DEFAULT_TIER \<in> set (dkeys TIER_WEIGHTS)"
  proof (cases "map_of (pr_tiers b) g")
    case None
    then show ?thesis by (simp add: dget_or_def DEFAULT_TIER_def TIER_WEIGHTS_def)
  next
    case (Some tier)
    have "tier \<in> set (dvals (pr_tiers b))" using map_of_SomeD [OF Some] by force
    then have "tier \<in> set (dkeys TIER_WEIGHTS)" using assms unfolding valid_tiers_def by blast
    with Some show ?thesis by (simp add: dget_or_def)
  qed
  then show ?thesis unfolding tier_weight_def by (rule pos)
qed

lemma contended_weight_nonneg:
  assumes "valid_tiers (pr_tiers b)" "wf_state st"
  shows "0 \<le> contended_weight b st g"
  using tier_weight_pos [OF assms(1), of g] dget_or_nonneg [of "gpu_draws st" 0 g] assms(2)
  by (auto simp: contended_weight_def wf_state_def)

lemma total_weight_pos:
  assumes "valid_tiers (pr_tiers b)" "wf_state st"
  shows "0 < total_weight b st caps"
proof -
  have "0 \<le> sum_list (map (contended_weight b st) (contended_of b st caps))"
    by (rule sum_list_nonneg) (use contended_weight_nonneg [OF assms] in auto)
  then show ?thesis by (simp add: total_weight_def Let_def)
qed

lemma pr_surplus_nonneg: "0 \<le> pr_surplus b w st caps"
  by (simp add: pr_surplus_def)

lemma tier_split_share_nonneg:
  assumes "priority_inv b" "wf_state st"
  shows "0 \<le> pr_surplus b w st caps * contended_weight b st g / total_weight b st caps"
  using contended_weight_nonneg [of b st g] total_weight_pos [of b st caps] pr_surplus_nonneg [of b w st caps] assms
  by (simp add: priority_inv_def)

lemma tier_split_powers:
  assumes "priority_inv b" "wf_state st" "wf_powers caps"
  shows "wf_powers (tier_split b w st caps)"
  unfolding tier_split_def
proof (rule wf_powers_map_ran [OF assms(3)])
  fix g v assume "0 \<le> (v :: watts)"
  then show "0 \<le> (if g \<in> set (contended_of b st caps)
       then min (pr_min_cap_w b + pr_surplus b w st caps * contended_weight b st g / total_weight b st caps)
                (dget_or (gpu_max_caps st) g v) else v)"
    using wf_powers_max_cap [OF assms(2)] tier_split_share_nonneg [OF assms(1,2), of w caps g] assms(1)
    by (simp add: priority_inv_def)
qed

interpretation priority_rewrite: cap_rewrite priority_caps priority_inv
proof
  fix b w st and caps :: "(gpu, watts) dict" and g v
  show "dkeys (priority_caps b w st caps) = dkeys caps" by (simp add: priority_caps_def tier_split_def)
  assume "priority_inv b" "wf_state st" "0 \<le> w" "wf_powers caps" "map_of (priority_caps b w st caps) g = Some v"
  then show "0 \<le> v"
    using wf_powers_map_of [OF wf_powers_cap_to_budget [OF _ tier_split_powers]] by (simp add: priority_caps_def)
qed

lemma priority_decide_total:
  "map_of (domains t) dn = Some d \<Longrightarrow> \<exists>r. priority_decide b t dn st = Ok r"
  using prs_decide_total [of t dn d "pr_prs b" st] domain_budget_total [of t dn d]
  by (auto simp: priority_decide_def Let_def)

lemma priority_decideD:
  assumes "priority_decide b t dn st = Ok (b', dec)"
  obtains p pdec w where "prs_decide (pr_prs b) t dn st = Ok (p, pdec)" "domain_budget_w t dn = Ok w"
    "(length (contended_of b st (bd_caps pdec)) < 2 \<or> w = 0) \<and> b' = b\<lparr>pr_prs := p\<rparr> \<and> dec = pdec \<or>
     2 \<le> length (contended_of b st (bd_caps pdec)) \<and> w \<noteq> 0 \<and>
       bd_caps dec = priority_caps b w st (bd_caps pdec) \<and>
       b' = b\<lparr>pr_prs := note_applied_caps p dn (bd_caps dec)\<rparr>"
proof -
  from assms obtain p pdec where p: "prs_decide (pr_prs b) t dn st = Ok (p, pdec)"
    by (auto simp: priority_decide_def res_bind_Ok_iff)
  from p obtain w where w: "domain_budget_w t dn = Ok w"
    by (auto simp: prs_decide_def res_bind_Ok_iff)
  show thesis
    by (rule that [OF p w]) (use assms p w in \<open>auto simp: priority_decide_def Let_def split: if_splits\<close>)
qed

lemma prs_inv_note: "prs_inv p \<Longrightarrow> wf_powers caps \<Longrightarrow> prs_inv (note_applied_caps p dn caps)"
  by (auto simp: prs_inv_def note_applied_caps_def)

lemma priority_powers:
  assumes wf: "wf_state st" and inv: "priority_inv b" and dec: "priority_decide b t dn st = Ok (b', dec)"
  shows "wf_powers (bd_caps dec) \<and> set (dkeys (bd_caps dec)) = set (state_gpus st) \<and> priority_inv b'"
proof -
  from priority_decideD [OF dec] obtain p pdec w where p: "prs_decide (pr_prs b) t dn st = Ok (p, pdec)"
    and w: "domain_budget_w t dn = Ok w"
    and cases: "b' = b\<lparr>pr_prs := p\<rparr> \<and> dec = pdec \<or> bd_caps dec = priority_caps b w st (bd_caps pdec) \<and>
       b' = b\<lparr>pr_prs := note_applied_caps p dn (bd_caps dec)\<rparr>"
    by metis
  have pi: "prs_inv (pr_prs b)" using inv by (simp add: priority_inv_def)
  show ?thesis
    using cases priority_rewrite.rewrite_decision [OF inv wf pi p w] prs_decide_powers [OF wf pi p]
      prs_decide_keys [OF wf p] prs_decide_inv [OF wf pi p] inv prs_inv_note
    by (auto simp: priority_inv_def simp del: set_map)
qed

interpretation priority: cap_brain priority_inv priority_decide
proof
  show "v \<in> set (dvals (bd_caps dec)) \<Longrightarrow> 0 \<le> v"
    if "wf_state st" "priority_inv b" "priority_decide b t dn st = Ok (b', dec)" for st b t dn b' dec v
    using priority_powers [OF that] unfolding wf_powers_def by blast
qed (use priority_decide_total priority_powers in \<open>auto simp: wf_powers_def simp del: set_map\<close>)

section \<open>Properties\<close>

text \<open>The sum of the split caps when the idle caps and the floors fit the budget.\<close>

lemma tier_split_total:
  assumes inv: "priority_inv b" and wf: "wf_state st" and caps: "wf_powers caps"
    and fits: "reserved_idle b st caps + pr_min_cap_w b * length (contended_of b st caps) \<le> w"
  shows "dsum (tier_split b w st caps) \<le> w"
proof -
  let ?C = "contended_of b st caps"
  let ?S = "pr_surplus b w st caps" and ?T = "total_weight b st caps"
  let ?new = "\<lambda>g. if g \<in> set ?C then pr_min_cap_w b + contended_weight b st g / ?T * ?S else ditem caps g"
  have wfd: "wf_dict caps" using caps by (simp add: wf_powers_def)
  have "dsum (tier_split b w st caps) \<le> sum_list (map ?new (dkeys caps))"
    unfolding tier_split_def
    by (rule dsum_map_ran_le_keys) (auto simp: ditem_in [OF wfd] mult.commute)
  also have "\<dots> = sum_list (map ?new (filter (\<lambda>g. g \<in> set ?C) (dkeys caps)))
      + sum_list (map ?new (filter (\<lambda>g. g \<notin> set ?C) (dkeys caps)))"
    by (rule sum_list_filter_split [symmetric])
  also have "filter (\<lambda>g. g \<in> set ?C) (dkeys caps) = ?C"
    unfolding contended_of_def by (rule filter_cong) auto
  also have "sum_list (map ?new ?C) = pr_min_cap_w b * length ?C + sum_list (map (\<lambda>g. contended_weight b st g / ?T * ?S) ?C)"
    using sum_list_add_const [of "pr_min_cap_w b" "\<lambda>g. contended_weight b st g / ?T * ?S" ?C] by (simp cong: map_cong)
  also have "sum_list (map ?new (filter (\<lambda>g. g \<notin> set ?C) (dkeys caps))) = reserved_idle b st caps"
    unfolding reserved_idle_def by (intro arg_cong [where f = sum_list] map_cong) auto
  also have "sum_list (map (\<lambda>g. contended_weight b st g / ?T * ?S) ?C) \<le> ?S"
  proof -
    have "sum_list (map (contended_weight b st) ?C) \<le> ?T" by (simp add: total_weight_def Let_def)
    then have "sum_list (map (contended_weight b st) ?C) / ?T \<le> 1"
      using total_weight_pos [OF _ wf, of b caps] inv by (simp add: priority_inv_def)
    from mult_right_mono [OF this pr_surplus_nonneg [of b w st caps]]
    show ?thesis unfolding sum_list_shares by simp
  qed
  finally show ?thesis using fits by (simp add: pr_surplus_def)
qed

text \<open>C29. Priority tiers arbitrate within the budget. With at least two contended GPUs and a
  non-zero budget: the caps sum to at most the budget; between two contended GPUs with equal
  draw, the one with the higher tier weight gets at least as much, unless its hardware maximum
  is lower; and when the idle caps and the floors fit the budget, every GPU that is not
  contended keeps its PRS cap and every contended GPU gets at least the floor, or its hardware
  maximum.\<close>

theorem priority_arbitrates:
  assumes wf: "wf_state st" and inv: "priority_inv b" and w: "domain_budget_w t dn = Ok w"
    and prs: "prs_decide (pr_prs b) t dn st = Ok (p, pdec)"
    and dec: "priority_decide b t dn st = Ok (b', dec)"
    and two: "2 \<le> length (contended_of b st (bd_caps pdec))" and w0: "w \<noteq> 0"
  shows "dsum (bd_caps dec) \<le> w \<and>
         (\<forall>i \<in> set (contended_of b st (bd_caps pdec)). \<forall>j \<in> set (contended_of b st (bd_caps pdec)).
            \<forall>ci cj. map_of (bd_caps dec) i = Some ci \<longrightarrow> map_of (bd_caps dec) j = Some cj \<longrightarrow>
            dget_or (gpu_draws st) i 0 = dget_or (gpu_draws st) j 0 \<longrightarrow> tier_weight b i \<le> tier_weight b j \<longrightarrow>
            dget_or (gpu_max_caps st) i (ditem (bd_caps pdec) i) \<le> dget_or (gpu_max_caps st) j (ditem (bd_caps pdec) j) \<longrightarrow>
            ci \<le> cj) \<and>
         (reserved_idle b st (bd_caps pdec) + pr_min_cap_w b * length (contended_of b st (bd_caps pdec)) \<le> w \<longrightarrow>
            (\<forall>g c. map_of (bd_caps pdec) g = Some c \<longrightarrow>
               (if g \<in> set (contended_of b st (bd_caps pdec))
                then \<exists>c'. map_of (bd_caps dec) g = Some c' \<and>
                       min (pr_min_cap_w b) (dget_or (gpu_max_caps st) g c) \<le> c'
                else map_of (bd_caps dec) g = Some c)))"
proof -
  let ?c = "bd_caps pdec"
  let ?C = "contended_of b st ?c" and ?s = "budget_scale w (tier_split b w st ?c)"
  have pos: "wf_powers ?c" using prs_decide_powers [OF wf _ prs] inv by (simp add: priority_inv_def)
  have wpos: "0 < w" using domain_budget_nonneg [OF w] w0 by simp
  have caps: "bd_caps dec = cap_to_budget w (tier_split b w st ?c)"
    using priority_decideD [OF dec] prs w two w0
    by (smt (verit) prod.inject sum.inject(2) priority_caps_def linorder_not_less)
  let ?new = "\<lambda>g c. if g \<in> set ?C
       then min (pr_min_cap_w b + pr_surplus b w st ?c * contended_weight b st g / total_weight b st ?c)
                (dget_or (gpu_max_caps st) g c) else c"
  have mo: "map_of (bd_caps dec) g = map_option (\<lambda>c. ?new g c * ?s) (map_of ?c g)" for g
    by (simp add: caps map_of_cap_to_budget tier_split_def map_ran_conv option.map_comp comp_def)
  have s: "0 < ?s" "?s \<le> 1" using budget_scale_bounds [of w "tier_split b w st ?c"] wpos by simp_all
  have order: "ci \<le> cj"
    if C: "i \<in> set ?C" "j \<in> set ?C" and m: "map_of (bd_caps dec) i = Some ci" "map_of (bd_caps dec) j = Some cj"
      and d: "dget_or (gpu_draws st) i 0 = dget_or (gpu_draws st) j 0" and tw: "tier_weight b i \<le> tier_weight b j"
      and hw: "dget_or (gpu_max_caps st) i (ditem ?c i) \<le> dget_or (gpu_max_caps st) j (ditem ?c j)" for i j ci cj
  proof -
    have "0 \<le> dget_or (gpu_draws st) j 0" using wf by (intro dget_or_nonneg) (simp_all add: wf_state_def)
    then have "contended_weight b st i \<le> contended_weight b st j"
      unfolding contended_weight_def d using tw by (rule mult_left_mono [rotated])
    then have "pr_surplus b w st ?c * contended_weight b st i / total_weight b st ?c
        \<le> pr_surplus b w st ?c * contended_weight b st j / total_weight b st ?c"
      using total_weight_pos [OF _ wf, of b ?c] inv pr_surplus_nonneg [of b w st ?c]
      by (intro divide_right_mono mult_left_mono) (simp_all add: priority_inv_def)
    moreover obtain vi vj where v: "map_of ?c i = Some vi" "map_of ?c j = Some vj"
      using m by (auto simp: mo)
    ultimately have "?new i vi \<le> ?new j vj"
      using C hw by (auto simp: ditem_def min_def)
    then have "?new i vi * ?s \<le> ?new j vj * ?s" by (rule mult_right_mono) (use s in simp)
    moreover have "ci = ?new i vi * ?s" "cj = ?new j vj * ?s" using m unfolding mo v by simp_all
    ultimately show ?thesis by simp
  qed
  have keep: "if g \<in> set ?C then \<exists>c'. map_of (bd_caps dec) g = Some c' \<and>
                       min (pr_min_cap_w b) (dget_or (gpu_max_caps st) g c) \<le> c'
              else map_of (bd_caps dec) g = Some c"
    if fits: "reserved_idle b st ?c + pr_min_cap_w b * length ?C \<le> w" and g: "map_of ?c g = Some c" for g c
  proof -
    have "?s = 1" using tier_split_total [OF inv wf pos fits] by (rule budget_scale_fits)
    then have "map_of (bd_caps dec) g = Some (?new g c)" by (simp add: mo g)
    then show ?thesis using tier_split_share_nonneg [OF inv wf, of w ?c g] by auto
  qed
  show ?thesis using order keep cap_to_budget_sum [OF wpos, of "tier_split b w st ?c"]
    unfolding caps by blast
qed

definition demo_priority :: priority_brain where
  "demo_priority = \<lparr>pr_prs = demo_prs, pr_tiers = [(0, ''low''), (1, ''critical'')], pr_threshold = 3/5, pr_min_cap_w = 200\<rparr>"

theorem priority_arbitrates_witness:
  "\<exists>b' dec. priority_decide demo_priority (demo_domain 1200) ''d'' demo_state = Ok (b', dec) \<and>
     dsum (bd_caps dec) \<le> 1200"
proof -
  have inv: "priority_inv demo_priority"
    by (simp add: priority_inv_def demo_priority_def valid_tiers_def TIER_WEIGHTS_def)
  obtain p pdec where p: "prs_decide demo_prs (demo_domain 1200) ''d'' demo_state = Ok (p, pdec)"
    using prs_decide_total [of "demo_domain 1200" "''d''" _ demo_prs demo_state] demo_known by fast
  obtain b' dec where dec: "priority_decide demo_priority (demo_domain 1200) ''d'' demo_state = Ok (b', dec)"
    using priority_decide_total [of "demo_domain 1200" "''d''" _ demo_priority demo_state] demo_known by fast
  have "distinct (dkeys (bd_caps pdec))" by (rule prs_decide_keys_list [OF wf_demo_state p])
  then have "distinct (contended_of demo_priority demo_state (bd_caps pdec))"
    unfolding contended_of_def by (rule distinct_filter)
  moreover have "{0, 1} \<subseteq> set (contended_of demo_priority demo_state (bd_caps pdec))"
    using prs_decide_keys [OF wf_demo_state p] unfolding contended_of_def
    by (simp add: demo_gpus is_contended_def del: set_map)
       (simp add: demo_state_def demo_priority_def ditem_def)
  ultimately have "2 \<le> length (contended_of demo_priority demo_state (bd_caps pdec))"
    using card_mono [of "set (contended_of demo_priority demo_state (bd_caps pdec))" "{0, 1}"]
    by (simp add: distinct_card)
  then have "dsum (bd_caps dec) \<le> 1200"
    using priority_arbitrates [OF wf_demo_state inv demo_budget _ dec] p by (simp add: demo_priority_def)
  with dec show ?thesis by blast
qed

end
