(* ===== verification/Thermal.thy ===== *)
theory Thermal
  imports Priority
begin

text \<open>
  \<open>brain/thermal_prs.py\<close>: PRS for GPUs that throttle on heat. A throttled GPU's cap is backed off
  from the lower of its PRS cap and the cap it holds; the watts freed go to the other GPUs in
  proportion to their headroom below the hardware maximum.
\<close>

record thermal_brain =
  th_prs :: prs_brain
  th_derate :: real
  th_min_cap_w :: watts

definition thermal_init :: "real \<Rightarrow> watts \<Rightarrow> prs_brain res \<Rightarrow> thermal_brain res" where
  "thermal_init derate min_cap_w mk_prs =
     (if \<not> (0 \<le> derate \<and> derate < 1) then Err (ValueError ''thermal_derate must be in [0, 1)'')
      else res_bind mk_prs (\<lambda>p. Ok \<lparr>th_prs = p, th_derate = derate, th_min_cap_w = min_cap_w\<rparr>))"

definition is_throttled :: "domain_state \<Rightarrow> gpu \<Rightarrow> bool" where
  "is_throttled st g = dget_or (gpu_thermal_throttled st) g False"

definition reduced_cap :: "thermal_brain \<Rightarrow> domain_state \<Rightarrow> gpu \<Rightarrow> watts \<Rightarrow> watts" where
  "reduced_cap b st g c =
     (let base = min c (dget_or (gpu_caps st) g c)
      in min base (max (th_min_cap_w b) (base * (1 - th_derate b))))"

definition throttled_of :: "domain_state \<Rightarrow> (gpu, watts) dict \<Rightarrow> gpu list" where
  "throttled_of st caps = filter (is_throttled st) (dkeys caps)"

definition freed_w :: "thermal_brain \<Rightarrow> domain_state \<Rightarrow> (gpu, watts) dict \<Rightarrow> watts" where
  "freed_w b st caps =
     sum_list (map (\<lambda>g. ditem caps g - reduced_cap b st g (ditem caps g)) (throttled_of st caps))"

definition back_off :: "thermal_brain \<Rightarrow> domain_state \<Rightarrow> (gpu, watts) dict \<Rightarrow> (gpu, watts) dict" where
  "back_off b st caps = map_ran (\<lambda>g c. if is_throttled st g then reduced_cap b st g c else c) caps"

definition headroom :: "domain_state \<Rightarrow> (gpu, watts) dict \<Rightarrow> gpu \<Rightarrow> watts" where
  "headroom st caps g = max 0 (dget_or (gpu_max_caps st) g (ditem caps g) - ditem caps g)"

definition recipients :: "domain_state \<Rightarrow> (gpu, watts) dict \<Rightarrow> gpu list" where
  "recipients st caps = filter (\<lambda>g. \<not> is_throttled st g) (dkeys caps)"

definition total_head :: "domain_state \<Rightarrow> (gpu, watts) dict \<Rightarrow> watts" where
  "total_head st caps = sum_list (map (headroom st caps) (recipients st caps))"

definition redistribute :: "domain_state \<Rightarrow> watts \<Rightarrow> (gpu, watts) dict \<Rightarrow> (gpu, watts) dict" where
  "redistribute st freed caps =
     (if 0 < freed \<and> 0 < total_head st caps
      then map_ran (\<lambda>g c. if is_throttled st g then c
             else c + min freed (total_head st caps) * headroom st caps g / total_head st caps) caps
      else caps)"

definition thermal_caps :: "thermal_brain \<Rightarrow> domain_state \<Rightarrow> (gpu, watts) dict \<Rightarrow> (gpu, watts) dict" where
  "thermal_caps b st caps = redistribute st (freed_w b st caps) (back_off b st caps)"

definition thermal_decide :: "thermal_brain \<Rightarrow> topology \<Rightarrow> string \<Rightarrow> domain_state \<Rightarrow> (thermal_brain \<times> brain_decision) res" where
  "thermal_decide b t dn st =
     res_bind (prs_decide (th_prs b) t dn st) (\<lambda>(p, decision).
       let throttled = throttled_of st (bd_caps decision) in
       if throttled = [] then Ok (b\<lparr>th_prs := p\<rparr>, decision)
       else let caps = thermal_caps b st (bd_caps decision) in
         Ok (b\<lparr>th_prs := note_applied_caps p dn caps\<rparr>,
             \<lparr>bd_domain = dn, bd_caps = caps, bd_ts = ds_ts st,
              bd_reason = ''thermal-prs:'' @ string_of_nat (length throttled) @ ''throttled''\<rparr>))"

definition thermal_get_last_metrics :: "thermal_brain \<Rightarrow> string \<Rightarrow> prs_metrics option" where
  "thermal_get_last_metrics b dn = prs_get_last_metrics (th_prs b) dn"

section \<open>Lemmas\<close>

definition thermal_inv :: "thermal_brain \<Rightarrow> bool" where
  "thermal_inv b \<longleftrightarrow> prs_inv (th_prs b) \<and> 0 \<le> th_derate b \<and> th_derate b < 1 \<and> 0 \<le> th_min_cap_w b"

lemma thermal_init_inv:
  "thermal_init d c (prs_init m a pth mg r) = Ok b \<Longrightarrow> 0 \<le> m \<Longrightarrow> 0 \<le> mg \<Longrightarrow> 0 \<le> c \<Longrightarrow> thermal_inv b"
  using prs_init_inv [of m a pth mg r]
  by (auto simp: thermal_init_def thermal_inv_def res_bind_Ok_iff split: if_splits)

lemma reduced_cap_le: "reduced_cap b st g c \<le> c \<and> reduced_cap b st g c \<le> dget_or (gpu_caps st) g c"
  by (auto simp: reduced_cap_def Let_def min_le_iff_disj)

lemma reduced_cap_nonneg: "thermal_inv b \<Longrightarrow> wf_state st \<Longrightarrow> 0 \<le> c \<Longrightarrow> 0 \<le> reduced_cap b st g c"
  using wf_state_cap [of st c g] by (simp add: reduced_cap_def Let_def thermal_inv_def le_max_iff_disj)

lemma freed_nonneg: "0 \<le> freed_w b st caps"
  unfolding freed_w_def by (rule sum_list_nonneg) (use reduced_cap_le in auto)

lemma back_off_sum:
  assumes "wf_dict caps"
  shows "dsum (back_off b st caps) = dsum caps - freed_w b st caps"
proof -
  have "dsum (map_ran (\<lambda>g c. if is_throttled st g then f g c else c) d)
      = dsum d - sum_list (map (\<lambda>(g, c). c - f g c) (filter (\<lambda>p. is_throttled st (fst p)) d))"
    for f and d :: "(gpu, watts) dict"
    by (induction d) (auto simp: map_ran_def)
  moreover have "map (\<lambda>(g, c). c - reduced_cap b st g c) (filter (\<lambda>p. is_throttled st (fst p)) caps)
      = map (\<lambda>g. ditem caps g - reduced_cap b st g (ditem caps g)) (throttled_of st caps)"
    unfolding throttled_of_def filter_map map_map
    by (rule map_cong) (auto simp: ditem_in [OF assms] comp_def)
  ultimately show ?thesis unfolding back_off_def freed_w_def by simp
qed

lemma headroom_nonneg: "0 \<le> headroom st caps g"
  by (simp add: headroom_def)

lemma redistribute_sum:
  assumes "wf_dict caps"
  shows "dsum (redistribute st freed caps) =
     dsum caps + (if 0 < freed \<and> 0 < total_head st caps then min freed (total_head st caps) else 0)"
proof (cases "0 < freed \<and> 0 < total_head st caps")
  case True
  let ?give = "min freed (total_head st caps)"
  have "dsum (map_ran (\<lambda>g c. if is_throttled st g then c else c + f g) d)
      = dsum d + sum_list (map f (filter (\<lambda>g. \<not> is_throttled st g) (dkeys d)))"
    for f and d :: "(gpu, watts) dict"
    by (induction d) (auto simp: map_ran_def)
  then have "dsum (redistribute st freed caps) = dsum caps
      + sum_list (map (\<lambda>g. ?give * headroom st caps g / total_head st caps) (recipients st caps))"
    using True by (simp add: redistribute_def recipients_def)
  also have "(\<lambda>g. ?give * headroom st caps g / total_head st caps)
      = (\<lambda>g. headroom st caps g / total_head st caps * ?give)"
    by (simp add: fun_eq_iff)
  also have "sum_list (map \<dots> (recipients st caps)) = ?give"
    unfolding sum_list_shares total_head_def [symmetric] using True by simp
  finally show ?thesis using True by simp
qed (auto simp: redistribute_def)

lemma dkeys_thermal [simp]: "dkeys (back_off b st caps) = dkeys caps"
  "dkeys (redistribute st f caps) = dkeys caps" "dkeys (thermal_caps b st caps) = dkeys caps"
  by (simp_all add: back_off_def redistribute_def thermal_caps_def)

lemma map_of_back_off: "map_of (back_off b st caps) g =
    map_option (\<lambda>c. if is_throttled st g then reduced_cap b st g c else c) (map_of caps g)"
  by (simp add: back_off_def map_ran_conv)

lemma redistribute_throttled: "is_throttled st g \<Longrightarrow> map_of (redistribute st f caps) g = map_of caps g"
  by (simp add: redistribute_def map_ran_conv option.map_ident)

lemma redistribute_recipient:
  assumes "\<not> is_throttled st g" and "map_of caps g = Some c"
  shows "\<exists>c'. map_of (redistribute st f caps) g = Some c' \<and> c \<le> c' \<and> c' \<le> c + headroom st caps g"
proof (cases "0 < f \<and> 0 < total_head st caps")
  case True
  let ?T = "total_head st caps"
  have "min f ?T * headroom st caps g / ?T \<le> ?T * headroom st caps g / ?T"
    using True headroom_nonneg [of st caps g] by (intro divide_right_mono mult_right_mono) simp_all
  then have "min f ?T * headroom st caps g / ?T \<le> headroom st caps g" using True by simp
  moreover have "0 \<le> min f ?T * headroom st caps g / ?T"
    using True headroom_nonneg [of st caps g] by simp
  ultimately show ?thesis using True assms by (simp add: redistribute_def map_ran_conv)
next
  case False
  then show ?thesis using assms headroom_nonneg [of st caps g] by (auto simp: redistribute_def)
qed

interpretation thermal_rewrite: cap_rewrite "\<lambda>b w. thermal_caps b" thermal_inv
proof
  fix b st and caps :: "(gpu, watts) dict" and g v
  show "dkeys (thermal_caps b st caps) = dkeys caps" by simp
  assume inv: "thermal_inv b" "wf_state st" and caps: "wf_powers caps" and v: "map_of (thermal_caps b st caps) g = Some v"
  show "0 \<le> v"
  proof (cases "is_throttled st g")
    case True
    with v show ?thesis
      using reduced_cap_nonneg [OF inv] wf_powers_map_of [OF caps]
      by (auto simp: thermal_caps_def redistribute_throttled map_of_back_off)
  next
    case False
    have "g \<in> set (dkeys caps)" using map_of_some_key [OF v] by (simp del: set_map)
    then obtain c where c: "map_of caps g = Some c" using dkey_some by fast
    then have "map_of (back_off b st caps) g = Some c" using False by (simp add: map_of_back_off)
    from redistribute_recipient [OF False this, of "freed_w b st caps"] v wf_powers_map_of [OF caps c]
    show ?thesis by (auto simp: thermal_caps_def)
  qed
qed

lemma thermal_decide_total:
  "map_of (domains t) dn = Some d \<Longrightarrow> \<exists>r. thermal_decide b t dn st = Ok r"
  using prs_decide_total [of t dn d "th_prs b" st] by (auto simp: thermal_decide_def Let_def)

lemma thermal_decideD:
  assumes "thermal_decide b t dn st = Ok (b', dec)"
  obtains p pdec where "prs_decide (th_prs b) t dn st = Ok (p, pdec)"
    "throttled_of st (bd_caps pdec) = [] \<and> b' = b\<lparr>th_prs := p\<rparr> \<and> dec = pdec \<or>
     throttled_of st (bd_caps pdec) \<noteq> [] \<and> bd_caps dec = thermal_caps b st (bd_caps pdec) \<and>
       b' = b\<lparr>th_prs := note_applied_caps p dn (bd_caps dec)\<rparr>"
  using assms by (auto simp: thermal_decide_def Let_def res_bind_Ok_iff split: if_splits)

lemma thermal_powers:
  assumes wf: "wf_state st" and inv: "thermal_inv b" and dec: "thermal_decide b t dn st = Ok (b', dec)"
  shows "wf_powers (bd_caps dec) \<and> set (dkeys (bd_caps dec)) = set (state_gpus st) \<and> thermal_inv b'"
proof -
  from thermal_decideD [OF dec] obtain p pdec where p: "prs_decide (th_prs b) t dn st = Ok (p, pdec)"
    and cases: "b' = b\<lparr>th_prs := p\<rparr> \<and> dec = pdec \<or> bd_caps dec = thermal_caps b st (bd_caps pdec) \<and>
       b' = b\<lparr>th_prs := note_applied_caps p dn (bd_caps dec)\<rparr>"
    by metis
  from p obtain w where w: "domain_budget_w t dn = Ok w"
    by (auto simp: prs_decide_def res_bind_Ok_iff)
  have pi: "prs_inv (th_prs b)" using inv by (simp add: thermal_inv_def)
  show ?thesis
    using cases thermal_rewrite.rewrite_decision [OF inv wf pi p w] prs_decide_powers [OF wf pi p]
      prs_decide_keys [OF wf p] prs_decide_inv [OF wf pi p] inv prs_inv_note
    by (auto simp: thermal_inv_def simp del: set_map)
qed

lemma thermal_total:
  assumes "wf_dict caps"
  shows "dsum (thermal_caps b st caps) \<le> dsum caps \<and>
    (freed_w b st caps \<le> total_head st (back_off b st caps) \<longrightarrow> dsum (thermal_caps b st caps) = dsum caps)"
proof -
  have wf: "wf_dict (back_off b st caps)" using assms by simp
  show ?thesis
    unfolding thermal_caps_def redistribute_sum [OF wf] back_off_sum [OF assms]
    using freed_nonneg [of b st caps] by auto
qed

interpretation thermal: bounded_brain thermal_inv thermal_decide "\<lambda>b. prs_bound (th_prs b)"
proof
  show "v \<in> set (dvals (bd_caps dec)) \<Longrightarrow> 0 \<le> v"
    if "wf_state st" "thermal_inv b" "thermal_decide b t dn st = Ok (b', dec)" for st b t dn b' dec v
    using thermal_powers [OF that] unfolding wf_powers_def by blast
  fix st b and t :: topology and dn w b' dec
  assume wf: "wf_state st" and inv: "thermal_inv b" and w: "domain_budget_w t dn = Ok w"
    and dec: "thermal_decide b t dn st = Ok (b', dec)"
  from thermal_decideD [OF dec] obtain p pdec where p: "prs_decide (th_prs b) t dn st = Ok (p, pdec)"
    and cases: "dec = pdec \<or> bd_caps dec = thermal_caps b st (bd_caps pdec)"
    by metis
  have "prs_inv (th_prs b)" using inv by (simp add: thermal_inv_def)
  from prs.decide_bound [OF wf this w p] cases thermal_total [OF prs_decide_keys_list [OF wf p], of b st]
  show "dsum (bd_caps dec) \<le> prs_bound (th_prs b) dn w st" by auto
qed (use thermal_decide_total thermal_powers in \<open>auto simp: wf_powers_def simp del: set_map\<close>)

section \<open>Properties\<close>

text \<open>C30. Thermal back-off: a throttled GPU is never given more than PRS proposed nor more than the
  cap it holds; every other GPU gets at least what PRS proposed and is not lifted above its
  hardware maximum; the sum never exceeds the sum PRS proposed, and equals it when the other
  GPUs have headroom for what was freed.\<close>

theorem thermal_back_off:
  assumes wf: "wf_state st" and inv: "thermal_inv b" and dec: "thermal_decide b t dn st = Ok (b', dec)"
    and prs: "prs_decide (th_prs b) t dn st = Ok (p, pdec)"
  shows "(\<forall>g c. map_of (bd_caps pdec) g = Some c \<longrightarrow> (\<exists>c'. map_of (bd_caps dec) g = Some c' \<and>
            (if is_throttled st g then c' \<le> c \<and> (\<forall>cur. map_of (gpu_caps st) g = Some cur \<longrightarrow> c' \<le> cur)
             else c \<le> c' \<and> c' \<le> max c (dget_or (gpu_max_caps st) g c)))) \<and>
         dsum (bd_caps dec) \<le> dsum (bd_caps pdec) \<and>
         (freed_w b st (bd_caps pdec) \<le> total_head st (back_off b st (bd_caps pdec)) \<longrightarrow>
            dsum (bd_caps dec) = dsum (bd_caps pdec))"
proof -
  let ?c = "bd_caps pdec"
  have wfd: "wf_dict ?c" by (rule prs_decide_keys_list [OF wf prs])
  from thermal_decideD [OF dec] prs have cases: "throttled_of st ?c = [] \<and> dec = pdec \<or> bd_caps dec = thermal_caps b st ?c"
    by (metis prod.inject sum.inject(2))
  have each: "\<exists>c'. map_of (thermal_caps b st ?c) g = Some c' \<and>
            (if is_throttled st g then c' \<le> c \<and> (\<forall>cur. map_of (gpu_caps st) g = Some cur \<longrightarrow> c' \<le> cur)
             else c \<le> c' \<and> c' \<le> max c (dget_or (gpu_max_caps st) g c))"
    if c: "map_of ?c g = Some c" for g c
  proof (cases "is_throttled st g")
    case True
    with c reduced_cap_le [of b st g c] show ?thesis
      by (auto simp: thermal_caps_def redistribute_throttled map_of_back_off dget_or_def)
  next
    case False
    then have bo: "map_of (back_off b st ?c) g = Some c" using c by (simp add: map_of_back_off)
    have "headroom st (back_off b st ?c) g = max 0 (dget_or (gpu_max_caps st) g c - c)"
      by (simp add: headroom_def ditem_Some [OF bo])
    with redistribute_recipient [OF False bo, of "freed_w b st ?c"] False show ?thesis
      by (auto simp: thermal_caps_def)
  qed
  have none: "\<not> is_throttled st g" if "throttled_of st ?c = []" "map_of ?c g = Some c" for g c
    using that map_of_some_key [OF that(2)] unfolding throttled_of_def filter_empty_conv by blast
  show ?thesis using cases
  proof
    assume "throttled_of st ?c = [] \<and> dec = pdec"
    with none show ?thesis by fastforce
  next
    assume "bd_caps dec = thermal_caps b st ?c"
    with each thermal_total [OF wfd, of b st] show ?thesis by simp
  qed
qed

definition demo_thermal :: thermal_brain where
  "demo_thermal = \<lparr>th_prs = demo_prs, th_derate = 3/20, th_min_cap_w = 200\<rparr>"

theorem thermal_back_off_witness:
  "\<exists>b' dec c. thermal_decide demo_thermal (demo_domain 1500) ''d'' (demo_state\<lparr>gpu_thermal_throttled := [(0, True)]\<rparr>) = Ok (b', dec) \<and>
     map_of (bd_caps dec) 0 = Some c \<and> c \<le> 1000"
proof -
  let ?st = "demo_state\<lparr>gpu_thermal_throttled := [(0, True)]\<rparr>"
  have wf: "wf_state ?st" by (simp add: wf_state_def demo_state_def)
  have inv: "thermal_inv demo_thermal" by (simp add: thermal_inv_def demo_thermal_def)
  obtain p pdec where p: "prs_decide (th_prs demo_thermal) (demo_domain 1500) ''d'' ?st = Ok (p, pdec)"
    using prs_decide_total [of "demo_domain 1500" "''d''"] demo_known by fast
  obtain b' dec where dec: "thermal_decide demo_thermal (demo_domain 1500) ''d'' ?st = Ok (b', dec)"
    using thermal_decide_total [of "demo_domain 1500" "''d''"] demo_known by fast
  have "0 \<in> set (dkeys (bd_caps pdec))"
    using prs_decide_keys [OF wf p] by (simp add: demo_gpus del: set_map)
  then obtain c where "map_of (bd_caps pdec) 0 = Some c" using dkey_some by fast
  with thermal_back_off [OF wf inv dec p, THEN conjunct1] have
    "\<exists>c'. map_of (bd_caps dec) 0 = Some c' \<and> (\<forall>cur. map_of (gpu_caps ?st) 0 = Some cur \<longrightarrow> c' \<le> cur)"
    by (auto simp: is_throttled_def split: if_splits)
  with dec show ?thesis by (auto simp: demo_state_def)
qed

end
