(* ===== verification/Quota.thy ===== *)
theory Quota
  imports PyJson
begin

text \<open>
  \<open>pdn/quota.py\<close>: per-tenant quotas of a domain budget, their validation and the parser of the
  quota document.
\<close>

record tenant_quota =
  tq_id :: string
  tq_domain :: string
  tq_gpus :: "gpu list"
  tq_pct :: real

definition tenant_quota_init :: "string \<Rightarrow> string \<Rightarrow> gpu list \<Rightarrow> real \<Rightarrow> tenant_quota res" where
  "tenant_quota_init tid dn gs pct =
     (if \<not> (0 < pct \<and> pct \<le> 1) then Err (ValueError ''max_watts_pct must be in (0, 1]'')
      else Ok \<lparr>tq_id = tid, tq_domain = dn, tq_gpus = gs, tq_pct = pct\<rparr>)"

record quota_config =
  qc_domain :: string
  qc_tenants :: "tenant_quota list"

fun overlapping :: "gpu set \<Rightarrow> tenant_quota list \<Rightarrow> bool" where
  \<comment> \<open>the loop with \<open>seen\<close>\<close>
  "overlapping seen [] = False"
| "overlapping seen (t # ts) =
     (if seen \<inter> set (tq_gpus t) \<noteq> {} then True else overlapping (seen \<union> set (tq_gpus t)) ts)"

definition quota_validate :: "quota_config \<Rightarrow> unit res" where
  "quota_validate c =
     (if filter (\<lambda>t. tq_domain t \<noteq> qc_domain c) (qc_tenants c) \<noteq> [] then Err (ValueError ''stray domain_name'')
      else if 1 + 1 / 10 ^ 6 < sum_list (map tq_pct (qc_tenants c)) then Err (ValueError ''total quota'')
      else if overlapping {} (qc_tenants c) then Err (ValueError ''gpu overlap'')
      else Ok ())"

definition tenant_budget_w :: "tenant_quota \<Rightarrow> watts \<Rightarrow> watts" where
  "tenant_budget_w t w = tq_pct t * w"

section \<open>The quota document\<close>

definition tenant_from_json :: "string \<Rightarrow> json \<Rightarrow> tenant_quota res" where
  "tenant_from_json dflt t =
     res_bind (res_bind (json_item t ''tenant_id'') json_str) (\<lambda>tid.
     res_bind (res_bind (json_get t ''domain_name'' (JStr dflt)) json_str) (\<lambda>dn.
     res_bind (res_bind (res_bind (json_item t ''gpu_indices'') json_list) (res_map json_int)) (\<lambda>gs.
     res_bind (res_bind (json_item t ''max_watts_pct'') json_float) (\<lambda>pct.
     tenant_quota_init tid dn gs pct))))"

definition reraise_malformed :: "'a res \<Rightarrow> 'a res" where
  \<comment> \<open>\<open>except (KeyError, TypeError) as exc: raise ValueError(...)\<close>\<close>
  "reraise_malformed r =
     (case r of
        Inl (KeyError _) \<Rightarrow> Err (ValueError ''malformed quota config'')
      | Inl TypeError \<Rightarrow> Err (ValueError ''malformed quota config'')
      | _ \<Rightarrow> r)"

definition quota_from_dict :: "json \<Rightarrow> quota_config res" where
  "quota_from_dict data =
     (case data of
        JObj _ \<Rightarrow>
          res_bind (reraise_malformed (
            res_bind (res_bind (json_item data ''domain_name'') json_str) (\<lambda>dn.
            res_bind (res_bind (json_get data ''tenants'' (JList [])) json_list) (\<lambda>ts.
            res_bind (res_map (tenant_from_json dn) ts) (\<lambda>tenants.
              Ok \<lparr>qc_domain = dn, qc_tenants = tenants\<rparr>))))) (\<lambda>cfg.
          res_bind (quota_validate cfg) (\<lambda>_. Ok cfg))
      | _ \<Rightarrow> Err (ValueError ''quota config must be a JSON object''))"

section \<open>Lemmas\<close>

definition disjoint_gpus :: "tenant_quota list \<Rightarrow> bool" where
  "disjoint_gpus ts \<longleftrightarrow> (\<forall>i j. i < j \<longrightarrow> j < length ts \<longrightarrow> set (tq_gpus (ts ! i)) \<inter> set (tq_gpus (ts ! j)) = {})"

lemma disjoint_gpus_Nil [simp]: "disjoint_gpus []"
  by (simp add: disjoint_gpus_def)

lemma disjoint_gpus_Cons [simp]:
  "disjoint_gpus (t # ts) \<longleftrightarrow> (\<forall>u \<in> set ts. set (tq_gpus t) \<inter> set (tq_gpus u) = {}) \<and> disjoint_gpus ts"
proof
  assume d: "disjoint_gpus (t # ts)"
  have "set (tq_gpus t) \<inter> set (tq_gpus u) = {}" if "u \<in> set ts" for u
  proof -
    from that have "\<exists>k. k < length ts \<and> ts ! k = u" unfolding in_set_conv_nth by simp
    then obtain k where "k < length ts \<and> ts ! k = u" ..
    with d [unfolded disjoint_gpus_def, rule_format, of 0 "Suc k"] show ?thesis by simp
  qed
  moreover have "disjoint_gpus ts"
    unfolding disjoint_gpus_def using d [unfolded disjoint_gpus_def, rule_format, of "Suc _" "Suc _"] by simp
  ultimately show "(\<forall>u \<in> set ts. set (tq_gpus t) \<inter> set (tq_gpus u) = {}) \<and> disjoint_gpus ts" by blast
next
  assume r: "(\<forall>u \<in> set ts. set (tq_gpus t) \<inter> set (tq_gpus u) = {}) \<and> disjoint_gpus ts"
  show "disjoint_gpus (t # ts)"
    unfolding disjoint_gpus_def
  proof (intro allI impI)
    fix i j assume "i < j" "j < length (t # ts)"
    with r show "set (tq_gpus ((t # ts) ! i)) \<inter> set (tq_gpus ((t # ts) ! j)) = {}"
      by (cases i; cases j) (auto simp: disjoint_gpus_def)
  qed
qed

lemma overlapping_iff:
  "\<not> overlapping seen ts \<longleftrightarrow> (\<forall>t \<in> set ts. seen \<inter> set (tq_gpus t) = {}) \<and> disjoint_gpus ts"
  by (induction ts arbitrary: seen) auto

lemma quota_validate_iff:
  "quota_validate c = Ok () \<longleftrightarrow>
     (\<forall>t \<in> set (qc_tenants c). tq_domain t = qc_domain c) \<and>
     sum_list (map tq_pct (qc_tenants c)) \<le> 1 + 1 / 10 ^ 6 \<and> disjoint_gpus (qc_tenants c)"
  using overlapping_iff [of "{}" "qc_tenants c"] by (auto simp: quota_validate_def filter_empty_conv)

lemma tenant_from_json_pct: "tenant_from_json dn t = Ok tn \<Longrightarrow> 0 < tq_pct tn \<and> tq_pct tn \<le> 1"
  by (auto simp: tenant_from_json_def tenant_quota_init_def res_bind_Ok_iff split: if_splits)

lemma reraise_malformed_Ok [simp]: "reraise_malformed r = Ok x \<longleftrightarrow> r = Ok x"
  by (auto simp: reraise_malformed_def split: sum.split pyerr.split)

lemma reraise_malformed_Err: "reraise_malformed r = Err e \<Longrightarrow> e \<noteq> KeyError k \<and> e \<noteq> TypeError"
  by (auto simp: reraise_malformed_def split: sum.splits pyerr.splits)

lemma quota_from_dict_Ok:
  assumes "quota_from_dict data = Ok cfg"
  shows "quota_validate cfg = Ok () \<and> (\<forall>t \<in> set (qc_tenants cfg). 0 < tq_pct t \<and> tq_pct t \<le> 1)"
proof -
  from assms obtain dn ts tenants where t: "res_map (tenant_from_json dn) ts = Ok tenants"
    and cfg: "cfg = \<lparr>qc_domain = dn, qc_tenants = tenants\<rparr>" and v: "quota_validate cfg = Ok ()"
    by (auto simp: quota_from_dict_def res_bind_Ok_iff split: json.splits)
  from t have "\<forall>u \<in> set tenants. \<exists>x \<in> set ts. tenant_from_json dn x = Ok u"
    by (intro ballI) (rule res_map_in)
  with cfg v tenant_from_json_pct show ?thesis by fastforce
qed

section \<open>Properties\<close>

text \<open>Validation of quotas: \<open>validate\<close> accepts exactly the configurations in which every tenant
  names the configuration's domain, the fractions sum to at most one (within the tolerance of
  a millionth) and no GPU belongs to two tenants; a configuration read from a document has
  these properties and fractions in (0, 1]; and a missing key or a value of a wrong type
  surfaces as a \<open>ValueError\<close>, never as a \<open>KeyError\<close> or \<open>TypeError\<close>.\<close>

theorem quota_config_valid:
  "(quota_validate c = Ok () \<longleftrightarrow>
      (\<forall>t \<in> set (qc_tenants c). tq_domain t = qc_domain c) \<and>
      sum_list (map tq_pct (qc_tenants c)) \<le> 1 + 1 / 10 ^ 6 \<and>
      (\<forall>i j. i < j \<longrightarrow> j < length (qc_tenants c) \<longrightarrow>
         set (tq_gpus (qc_tenants c ! i)) \<inter> set (tq_gpus (qc_tenants c ! j)) = {})) \<and>
   (\<forall>cfg. quota_from_dict data = Ok cfg \<longrightarrow>
      quota_validate cfg = Ok () \<and> (\<forall>t \<in> set (qc_tenants cfg). 0 < tq_pct t \<and> tq_pct t \<le> 1)) \<and>
   (\<forall>e. quota_from_dict data = Err e \<longrightarrow> (\<forall>k. e \<noteq> KeyError k) \<and> e \<noteq> TypeError)"
proof (intro conjI)
  have v: "quota_validate cfg \<noteq> Err (KeyError k) \<and> quota_validate cfg \<noteq> Err TypeError" for cfg k
    by (simp add: quota_validate_def)
  show "\<forall>e. quota_from_dict data = Err e \<longrightarrow> (\<forall>k. e \<noteq> KeyError k) \<and> e \<noteq> TypeError"
  proof (cases data)
    case (JObj d)
    then show ?thesis
      unfolding quota_from_dict_def by (auto simp: res_bind_Err_iff v dest: reraise_malformed_Err)
  qed (simp_all add: quota_from_dict_def)
qed (use quota_validate_iff [of c] quota_from_dict_Ok in \<open>auto simp: disjoint_gpus_def\<close>)

definition demo_quota_json :: json where
  "demo_quota_json = JObj [(''domain_name'', JStr ''d''),
     (''tenants'', JList [
        JObj [(''tenant_id'', JStr ''a''), (''gpu_indices'', JList [JInt 0, JInt 1]), (''max_watts_pct'', JFloat (3/5))],
        JObj [(''tenant_id'', JStr ''b''), (''gpu_indices'', JList [JInt 2]), (''max_watts_pct'', JFloat (2/5))]])]"

definition demo_quota :: quota_config where
  "demo_quota = \<lparr>qc_domain = ''d'', qc_tenants =
     [\<lparr>tq_id = ''a'', tq_domain = ''d'', tq_gpus = [0, 1], tq_pct = 3/5\<rparr>,
      \<lparr>tq_id = ''b'', tq_domain = ''d'', tq_gpus = [2], tq_pct = 2/5\<rparr>]\<rparr>"

lemma quota_from_dict_demo: "quota_from_dict demo_quota_json = Ok demo_quota"
  by (simp add: demo_quota_json_def demo_quota_def quota_from_dict_def json_defs getitem_def
      tenant_from_json_def tenant_quota_init_def reraise_malformed_def quota_validate_def)

theorem quota_config_valid_witness: "quota_validate demo_quota = Ok () \<and> tq_pct (qc_tenants demo_quota ! 0) \<le> 1"
  using quota_config_valid [of demo_quota demo_quota_json] quota_from_dict_demo by (simp add: demo_quota_def)

end
