(* ===== verification/QuotaPrs.thy ===== *)
theory QuotaPrs
  imports Quota Wrapped
begin

text \<open>
  \<open>brain/quota_prs.py\<close>: every tick each tenant's slice of the domain budget is allocated by a PRS
  brain of its own, created on first use for the tenant and the set of its GPUs with known
  maximum, on a topology with one domain that has the slice as its budget. GPUs of no tenant
  share what is left.
\<close>

section \<open>State\<close>

record quota_brain =
  qb_quota :: quota_config
  qb_fresh :: "prs_brain res" \<comment> \<open>\<open>PRSBrain(sub_topo, **prs_kwargs)\<close>\<close>
  qb_tenant_brains :: "(string \<times> gpu list, prs_brain \<times> topology) dict"

definition quota_brain_init :: "quota_config \<Rightarrow> prs_brain res \<Rightarrow> quota_brain res" where
  "quota_brain_init cfg fresh =
     res_bind (quota_validate cfg) (\<lambda>_.
       Ok \<lparr>qb_quota = cfg, qb_fresh = fresh, qb_tenant_brains = []\<rparr>)"

section \<open>One tenant\<close>

definition sub_topology :: "string \<Rightarrow> gpu list \<Rightarrow> watts \<Rightarrow> topology" where
  "sub_topology name gs budget =
     \<lparr>pdus = [],
      domains = [(name, \<lparr>pd_name = name, pd_budget_w = budget, pd_gpu_indices = gs,
        pd_pdu_name = ''_virtual'', pd_priority = 0, pd_node_overhead_w = 0, pd_rack_name = None\<rparr>)],
      racks = [], adopted_budget_w = []\<rparr>"

definition sub_state :: "string \<Rightarrow> gpu list \<Rightarrow> domain_state \<Rightarrow> domain_state" where
  "sub_state name gs st =
     \<lparr>ds_domain_name = name,
      gpu_draws = dcomp (ditem (gpu_draws st)) gs,
      gpu_caps = dcomp (\<lambda>g. dget_or (gpu_caps st) g (ditem (gpu_max_caps st) g)) gs,
      ds_ts = ds_ts st,
      gpu_max_caps = dcomp (ditem (gpu_max_caps st)) gs,
      gpu_thermal_throttled = []\<rparr>"

definition present_gpus :: "domain_state \<Rightarrow> tenant_quota \<Rightarrow> gpu list" where
  "present_gpus st t = filter (\<lambda>g. g \<in> set (dkeys (gpu_draws st))) (tq_gpus t)"

definition tenant_gpus :: "domain_state \<Rightarrow> tenant_quota \<Rightarrow> gpu list" where
  "tenant_gpus st t = filter (\<lambda>g. g \<in> set (dkeys (gpu_max_caps st))) (present_gpus st t)"

record quota_acc =
  qa_brains :: "(string \<times> gpu list, prs_brain \<times> topology) dict"
  qa_caps :: "(gpu, watts) dict"
  qa_assigned :: "gpu list"
  qa_used :: watts

definition slice_to_budget :: "watts \<Rightarrow> (gpu, watts) dict \<Rightarrow> (gpu, watts) dict" where
  "slice_to_budget budget caps = (if 0 < budget \<and> budget < dsum caps then renormalise budget caps else caps)"

definition tenant_brain :: "quota_brain \<Rightarrow> quota_acc \<Rightarrow> string \<times> gpu list \<Rightarrow> topology \<Rightarrow> (prs_brain \<times> topology) res" where
  \<comment> \<open>the brain under the key, created on the sub-topology if there is none\<close>
  "tenant_brain b acc key sub =
     (case map_of (qa_brains acc) key of
        Some p \<Rightarrow> Ok p
      | None \<Rightarrow> res_bind (qb_fresh b) (\<lambda>p. Ok (p, sub)))"

definition tenant_step :: "quota_brain \<Rightarrow> string \<Rightarrow> watts \<Rightarrow> domain_state \<Rightarrow> tenant_quota \<Rightarrow> quota_acc \<Rightarrow> quota_acc res" where
  "tenant_step b dn budget st t acc =
     (if tq_domain t \<noteq> dn then Ok acc
      else
        let tb = tenant_budget_w t budget;
            acc1 = acc\<lparr>qa_assigned := qa_assigned acc @ present_gpus st t\<rparr>;
            gs = tenant_gpus st t;
            name = dn @ ''/'' @ tq_id t
        in if gs = [] then Ok acc1
           else res_bind (tenant_brain b acc (tq_id t, gs) (sub_topology name gs tb)) (\<lambda>(p, tp).
                res_bind (prs_decide p tp name (sub_state name gs st)) (\<lambda>(p', dec).
                let caps = slice_to_budget tb (bd_caps dec) in
                Ok (acc1\<lparr>qa_brains := dset (tq_id t, gs) (p', tp) (qa_brains acc),
                         qa_caps := dmerge (qa_caps acc) caps,
                         qa_used := qa_used acc + dsum caps\<rparr>))))"

fun tenants_loop :: "quota_brain \<Rightarrow> string \<Rightarrow> watts \<Rightarrow> domain_state \<Rightarrow> tenant_quota list \<Rightarrow> quota_acc \<Rightarrow> quota_acc res" where
  "tenants_loop b dn budget st [] acc = Ok acc"
| "tenants_loop b dn budget st (t # ts) acc =
     res_bind (tenant_step b dn budget st t acc) (tenants_loop b dn budget st ts)"

section \<open>The decision\<close>

definition unassigned_of :: "domain_state \<Rightarrow> quota_acc \<Rightarrow> gpu list" where
  "unassigned_of st acc = filter (\<lambda>g. g \<notin> set (qa_assigned acc)) (state_gpus st)"

definition leftover_caps :: "watts \<Rightarrow> domain_state \<Rightarrow> quota_acc \<Rightarrow> (gpu, watts) dict" where
  "leftover_caps budget st acc =
     (let un = unassigned_of st acc;
          share = max 0 (budget - qa_used acc) / length un
      in dcomp (\<lambda>g. min share (dget_or (gpu_max_caps st) g share)) un)"

definition quota_decide :: "real \<Rightarrow> quota_brain \<Rightarrow> topology \<Rightarrow> string \<Rightarrow> domain_state \<Rightarrow> (quota_brain \<times> brain_decision) res" where
  \<comment> \<open>the first argument is \<open>time.time()\<close>\<close>
  "quota_decide now b t dn st =
     res_bind (getitem (domains t) dn) (\<lambda>d.
       let budget = pd_budget_w d in
       res_bind (tenants_loop b dn budget st (qc_tenants (qb_quota b))
           \<lparr>qa_brains = qb_tenant_brains b, qa_caps = [], qa_assigned = [], qa_used = 0\<rparr>) (\<lambda>acc.
         let caps = (if unassigned_of st acc = [] then qa_caps acc
                     else dmerge (qa_caps acc) (leftover_caps budget st acc))
         in Ok (b\<lparr>qb_tenant_brains := qa_brains acc\<rparr>,
                \<lparr>bd_domain = dn, bd_caps = caps, bd_ts = now,
                 bd_reason = ''quota-prs:'' @ string_of_nat (length (qc_tenants (qb_quota b))) @ ''tenants''\<rparr>)))"

definition quota_get_last_metrics :: "quota_brain \<Rightarrow> string \<Rightarrow> prs_metrics option" where
  "quota_get_last_metrics b dn = None"

section \<open>Lemmas\<close>

lemma sub_topology_budget: "0 \<le> w \<Longrightarrow> domain_budget_w (sub_topology name gs w) name = Ok w"
  by (simp add: sub_topology_def domain_budget_w_def getitem_def rack_for_domain_def)

lemma tenant_gpus_known:
  "g \<in> set (tenant_gpus st t) \<Longrightarrow> g \<in> set (tq_gpus t) \<and> g \<in> set (state_gpus st) \<and> g \<in> set (dkeys (gpu_max_caps st))"
  by (simp add: tenant_gpus_def present_gpus_def)

lemma wf_state_powers:
  "wf_state st \<longleftrightarrow> wf_powers (gpu_draws st) \<and> wf_powers (gpu_caps st) \<and> wf_powers (gpu_max_caps st)"
  unfolding wf_state_def wf_powers_def by blast

lemma wf_sub_state:
  assumes wf: "wf_state st" and gs: "\<And>g. g \<in> set gs \<Longrightarrow> g \<in> set (state_gpus st) \<and> g \<in> set (dkeys (gpu_max_caps st))"
  shows "wf_state (sub_state name gs st)"
proof -
  have m: "0 \<le> ditem (gpu_max_caps st) g" if "g \<in> set gs" for g
    using wf_powers_item [of "gpu_max_caps st" g] wf_powers_state [OF wf] gs [OF that] by blast
  have d: "0 \<le> ditem (gpu_draws st) g" if "g \<in> set gs" for g
    using wf_state_draw_item [OF wf] gs [OF that] by blast
  have all: "wf_powers (dcomp f gs)" if "\<And>g. g \<in> set gs \<Longrightarrow> 0 \<le> f g" for f :: "gpu \<Rightarrow> watts"
    by (rule wf_powersI) (use that in \<open>auto split: if_splits\<close>)
  have c: "0 \<le> dget_or (gpu_caps st) g (ditem (gpu_max_caps st) g)" if "g \<in> set gs" for g
    by (rule wf_state_cap [OF wf m [OF that]])
  show ?thesis
    unfolding wf_state_powers sub_state_def domain_state.simps
    by (intro conjI all d c m)
qed

lemma slice_to_budget_sum: "0 < w \<Longrightarrow> dsum (slice_to_budget w caps) \<le> w"
  by (simp add: slice_to_budget_def dsum_renormalise)

lemma dkeys_slice [simp]: "dkeys (slice_to_budget w caps) = dkeys caps"
  by (simp add: slice_to_budget_def)

lemma slice_powers:
  assumes "wf_powers caps"
  shows "wf_powers (slice_to_budget w caps)"
proof -
  have "wf_powers (renormalise w caps)" if "0 < w" "w < dsum caps"
    unfolding renormalise_def using that assms by (intro wf_powers_map_ran) auto
  with assms show ?thesis by (simp add: slice_to_budget_def)
qed

text \<open>What holds of the tenant brains: each keeps the PRS invariant and knows its domain.\<close>

definition brains_ok :: "quota_config \<Rightarrow> (string \<times> gpu list, prs_brain \<times> topology) dict \<Rightarrow> bool" where
  "brains_ok cfg bs \<longleftrightarrow> (\<forall>tid gs p tp. map_of bs (tid, gs) = Some (p, tp) \<longrightarrow>
     prs_inv p \<and> map_of (domains tp) (qc_domain cfg @ ''/'' @ tid) \<noteq> None)"

definition quota_inv :: "quota_brain \<Rightarrow> bool" where
  "quota_inv b \<longleftrightarrow> quota_validate (qb_quota b) = Ok () \<and> (\<exists>p. qb_fresh b = Ok p \<and> prs_inv p) \<and>
     brains_ok (qb_quota b) (qb_tenant_brains b)"

lemma quota_brain_init_inv:
  "quota_brain_init cfg (prs_init m a th mg r) = Ok b \<Longrightarrow> prs_init m a th mg r = Ok p \<Longrightarrow>
   0 \<le> m \<Longrightarrow> 0 \<le> mg \<Longrightarrow> quota_inv b"
  using prs_init_inv [of m a th mg r p]
  by (auto simp: quota_brain_init_def quota_inv_def brains_ok_def res_bind_Ok_iff)

lemma tenant_brain_ok:
  assumes inv: "quota_inv b" and ok: "brains_ok (qb_quota b) (qa_brains acc)"
  shows "\<exists>p tp. tenant_brain b acc (tid, gs) (sub_topology (qc_domain (qb_quota b) @ ''/'' @ tid) gs w) = Ok (p, tp) \<and>
    prs_inv p \<and> map_of (domains tp) (qc_domain (qb_quota b) @ ''/'' @ tid) \<noteq> None"
proof (cases "map_of (qa_brains acc) (tid, gs)")
  case None
  with inv show ?thesis by (auto simp: tenant_brain_def quota_inv_def sub_topology_def)
next
  case (Some r)
  with ok show ?thesis by (cases r) (simp add: tenant_brain_def brains_ok_def)
qed

lemma brains_ok_dset:
  "brains_ok cfg bs \<Longrightarrow> prs_inv p \<Longrightarrow> map_of (domains tp) (qc_domain cfg @ ''/'' @ tid) \<noteq> None \<Longrightarrow>
   brains_ok cfg (dset (tid, gs) (p, tp) bs)"
  by (simp add: brains_ok_def)

text \<open>What one tenant's step does to the accumulated decision: it appends caps of the tenant's own
  GPUs whose sum fits the slice.\<close>

definition tenant_added :: "watts \<Rightarrow> domain_state \<Rightarrow> tenant_quota \<Rightarrow> quota_acc \<Rightarrow> quota_acc \<Rightarrow> (gpu, watts) dict \<Rightarrow> bool" where
  "tenant_added budget st t acc acc' new \<longleftrightarrow>
     qa_caps acc' = qa_caps acc @ new \<and> wf_powers new \<and>
     set (dkeys new) \<subseteq> set (tq_gpus t) \<inter> set (state_gpus st) \<and>
     set (qa_assigned acc') = set (qa_assigned acc) \<union> (set (tq_gpus t) \<inter> set (state_gpus st)) \<and>
     qa_used acc' = qa_used acc + dsum new \<and> (0 < tq_pct t * budget \<longrightarrow> dsum new \<le> tq_pct t * budget)"

lemma tenant_step_sound:
  assumes wf: "wf_state st" and inv: "quota_inv b" and ok: "brains_ok (qb_quota b) (qa_brains acc)"
    and dom_t: "tq_domain t = qc_domain (qb_quota b)" and dn: "dn = qc_domain (qb_quota b)"
    and fresh: "set (dkeys (qa_caps acc)) \<inter> set (tq_gpus t) = {}"
  shows "\<exists>acc' new. tenant_step b dn budget st t acc = Ok acc' \<and>
    brains_ok (qb_quota b) (qa_brains acc') \<and> tenant_added budget st t acc acc' new"
proof (cases "tenant_gpus st t = []")
  case True
  let ?acc = "acc\<lparr>qa_assigned := qa_assigned acc @ present_gpus st t\<rparr>"
  have "tenant_step b dn budget st t acc = Ok ?acc" using True dom_t dn by (simp add: tenant_step_def Let_def)
  moreover have "tenant_added budget st t acc ?acc []"
    by (auto simp: tenant_added_def present_gpus_def)
  ultimately show ?thesis using ok by (intro exI [of _ ?acc] exI [of _ "[]"]) simp
next
  case False
  let ?gs = "tenant_gpus st t" and ?tb = "tenant_budget_w t budget"
  define name where "name = dn @ ''/'' @ tq_id t"
  obtain p tp where tb: "tenant_brain b acc (tq_id t, ?gs) (sub_topology name ?gs ?tb) = Ok (p, tp)"
    and p: "prs_inv p" and known: "map_of (domains tp) name \<noteq> None"
    using tenant_brain_ok [OF inv ok, of "tq_id t" ?gs ?tb] dn unfolding name_def by fast
  have wfs: "wf_state (sub_state name ?gs st)" by (rule wf_sub_state [OF wf]) (blast dest: tenant_gpus_known)
  obtain p' dec where dec: "prs_decide p tp name (sub_state name ?gs st) = Ok (p', dec)"
    using prs_decide_total [of tp name _ p "sub_state name ?gs st"] known by fast
  let ?new = "slice_to_budget ?tb (bd_caps dec)"
  have new: "wf_powers ?new" by (rule slice_powers [OF prs_decide_powers [OF wfs p dec]])
  have keys: "set (dkeys ?new) = set ?gs"
    using prs_decide_keys [OF wfs dec] by (simp add: sub_state_def del: set_map)
  have sub: "set ?gs \<subseteq> set (tq_gpus t) \<inter> set (state_gpus st)"
    by (auto simp: tenant_gpus_def present_gpus_def)
  let ?acc = "acc\<lparr>qa_assigned := qa_assigned acc @ present_gpus st t,
      qa_brains := dset (tq_id t, ?gs) (p', tp) (qa_brains acc),
      qa_caps := dmerge (qa_caps acc) ?new, qa_used := qa_used acc + dsum ?new\<rparr>"
  have step: "tenant_step b dn budget st t acc = Ok ?acc"
    using False dom_t dn tb dec by (simp add: tenant_step_def Let_def name_def)
  have "dmerge (qa_caps acc) ?new = qa_caps acc @ ?new"
    by (rule dmerge_disjoint) (use new keys sub fresh in \<open>auto simp: wf_powers_def simp del: set_map\<close>)
  moreover have "brains_ok (qb_quota b) (qa_brains ?acc)"
    using brains_ok_dset [OF ok prs_decide_inv [OF wfs p dec]] known dn by (simp add: name_def)
  moreover have "set (present_gpus st t) = set (tq_gpus t) \<inter> set (state_gpus st)"
    by (auto simp: present_gpus_def)
  ultimately show ?thesis
    using step new keys sub slice_to_budget_sum [of ?tb "bd_caps dec"]
    by (intro exI [of _ ?acc] exI [of _ ?new]) (simp add: tenant_added_def tenant_budget_w_def del: set_map)
qed

lemma quota_inv_tenant: "quota_inv b \<Longrightarrow> t \<in> set (qc_tenants (qb_quota b)) \<Longrightarrow> tq_domain t = qc_domain (qb_quota b)"
  by (simp add: quota_inv_def quota_validate_iff)

text \<open>The whole loop: what it adds belongs to the tenants, slice by slice.\<close>

definition tenant_sum :: "(gpu, watts) dict \<Rightarrow> tenant_quota \<Rightarrow> watts" where
  "tenant_sum caps t = dsum (filter (\<lambda>p. fst p \<in> set (tq_gpus t)) caps)"

lemma tenant_sum_append: "tenant_sum (a @ b) t = tenant_sum a t + tenant_sum b t"
  by (simp add: tenant_sum_def)

lemma tenant_sum_none: "set (dkeys caps) \<inter> set (tq_gpus t) = {} \<Longrightarrow> tenant_sum caps t = 0"
  unfolding tenant_sum_def by (subst filter_False) auto

lemma tenant_sum_all: "set (dkeys caps) \<subseteq> set (tq_gpus t) \<Longrightarrow> tenant_sum caps t = dsum caps"
  unfolding tenant_sum_def by (subst filter_True) auto

lemma wf_powers_append:
  "wf_powers a \<Longrightarrow> wf_powers b \<Longrightarrow> set (dkeys a) \<inter> set (dkeys b) = {} \<Longrightarrow> wf_powers (a @ b)"
  unfolding wf_powers_def by auto

definition all_gpus :: "tenant_quota list \<Rightarrow> gpu set" where
  "all_gpus ts = (\<Union>t \<in> set ts. set (tq_gpus t))"

lemma tenants_loop_sound:
  assumes wf: "wf_state st" and inv: "quota_inv b" and dn: "dn = qc_domain (qb_quota b)"
    and "brains_ok (qb_quota b) (qa_brains acc)"
    and "\<forall>t \<in> set ts. tq_domain t = qc_domain (qb_quota b)" and "disjoint_gpus ts"
    and "set (dkeys (qa_caps acc)) \<inter> all_gpus ts = {}"
  shows "\<exists>acc' new. tenants_loop b dn budget st ts acc = Ok acc' \<and>
    brains_ok (qb_quota b) (qa_brains acc') \<and>
    qa_caps acc' = qa_caps acc @ new \<and> wf_powers new \<and> set (dkeys new) \<subseteq> all_gpus ts \<inter> set (state_gpus st) \<and>
    set (qa_assigned acc') = set (qa_assigned acc) \<union> (all_gpus ts \<inter> set (state_gpus st)) \<and>
    qa_used acc' = qa_used acc + dsum new \<and>
    ((\<forall>t \<in> set ts. 0 < tq_pct t * budget) \<longrightarrow>
       dsum new \<le> sum_list (map tq_pct ts) * budget \<and> (\<forall>t \<in> set ts. tenant_sum new t \<le> tq_pct t * budget))"
  using assms(4-)
proof (induction ts arbitrary: acc)
  case Nil
  then show ?case by (intro exI [of _ acc] exI [of _ "[]"]) (simp add: all_gpus_def)
next
  case (Cons t ts)
  have gpus: "all_gpus (t # ts) = set (tq_gpus t) \<union> all_gpus ts" by (simp add: all_gpus_def)
  have apart: "set (tq_gpus t) \<inter> all_gpus ts = {}" using Cons.prems(3) by (auto simp: all_gpus_def)
  have tdom: "tq_domain t = qc_domain (qb_quota b)" and fresh: "set (dkeys (qa_caps acc)) \<inter> set (tq_gpus t) = {}"
    using Cons.prems gpus by auto
  from tenant_step_sound [OF wf inv Cons.prems(1) tdom dn fresh, of budget] obtain acc1 new1 where
    s1: "tenant_step b dn budget st t acc = Ok acc1" and ok1: "brains_ok (qb_quota b) (qa_brains acc1)"
    and a1: "tenant_added budget st t acc acc1 new1" by blast
  have keys1: "set (dkeys new1) \<subseteq> set (tq_gpus t) \<inter> set (state_gpus st)" using a1 by (simp add: tenant_added_def)
  have "set (dkeys (qa_caps acc1)) \<inter> all_gpus ts = {}"
    using a1 Cons.prems(4) keys1 apart unfolding tenant_added_def gpus by (simp del: set_map) blast
  from Cons.IH [OF ok1 _ _ this] Cons.prems obtain acc2 new2 where
    s2: "tenants_loop b dn budget st ts acc1 = Ok acc2" and ok2: "brains_ok (qb_quota b) (qa_brains acc2)"
    and c2: "qa_caps acc2 = qa_caps acc1 @ new2" "wf_powers new2"
    and keys2: "set (dkeys new2) \<subseteq> all_gpus ts \<inter> set (state_gpus st)"
    and as2: "set (qa_assigned acc2) = set (qa_assigned acc1) \<union> (all_gpus ts \<inter> set (state_gpus st))"
    and u2: "qa_used acc2 = qa_used acc1 + dsum new2"
    and b2: "(\<forall>t \<in> set ts. 0 < tq_pct t * budget) \<longrightarrow>
       dsum new2 \<le> sum_list (map tq_pct ts) * budget \<and> (\<forall>t \<in> set ts. tenant_sum new2 t \<le> tq_pct t * budget)"
    by auto
  have bounds: "dsum (new1 @ new2) \<le> sum_list (map tq_pct (t # ts)) * budget \<and>
      (\<forall>u \<in> set (t # ts). tenant_sum (new1 @ new2) u \<le> tq_pct u * budget)"
    if pos: "\<forall>t \<in> set (t # ts). 0 < tq_pct t * budget"
  proof -
    have d1: "dsum new1 \<le> tq_pct t * budget" using a1 pos by (simp add: tenant_added_def)
    have "tenant_sum new1 t = dsum new1" using keys1 by (intro tenant_sum_all) blast
    moreover have "tenant_sum new2 t = 0" using keys2 apart by (intro tenant_sum_none) blast
    moreover have "tenant_sum new1 u = 0" if "u \<in> set ts" for u
    proof (rule tenant_sum_none)
      have "set (tq_gpus t) \<inter> set (tq_gpus u) = {}" using Cons.prems(3) that by simp
      then show "set (dkeys new1) \<inter> set (tq_gpus u) = {}" using keys1 by blast
    qed
    ultimately show ?thesis using b2 d1 pos by (simp add: tenant_sum_append algebra_simps)
  qed
  have "wf_powers (new1 @ new2)"
    using a1 c2 keys1 keys2 apart by (intro wf_powers_append) (auto simp: tenant_added_def simp del: set_map)
  then show ?case
    using s1 s2 ok2 c2 keys1 keys2 as2 u2 a1 bounds
    by (intro exI [of _ acc2] exI [of _ "new1 @ new2"])
       (auto simp: tenant_added_def gpus simp del: set_map)
qed

lemma tenants_loop_other:
  "\<forall>t \<in> set ts. tq_domain t \<noteq> dn \<Longrightarrow> tenants_loop b dn budget st ts acc = Ok acc"
  by (induction ts) (auto simp: tenant_step_def)

text \<open>The accumulator after the loop, for any domain.\<close>

definition quota_start :: "quota_brain \<Rightarrow> quota_acc" where
  "quota_start b = \<lparr>qa_brains = qb_tenant_brains b, qa_caps = [], qa_assigned = [], qa_used = 0\<rparr>"

lemma quota_loop_sound:
  assumes wf: "wf_state st" and inv: "quota_inv b"
  shows "\<exists>acc. tenants_loop b dn budget st (qc_tenants (qb_quota b)) (quota_start b) = Ok acc \<and>
    brains_ok (qb_quota b) (qa_brains acc) \<and> wf_powers (qa_caps acc) \<and>
    set (dkeys (qa_caps acc)) \<subseteq> set (qa_assigned acc) \<and> set (qa_assigned acc) \<subseteq> set (state_gpus st) \<and>
    qa_used acc = dsum (qa_caps acc) \<and>
    (dn = qc_domain (qb_quota b) \<longrightarrow>
       set (qa_assigned acc) = all_gpus (qc_tenants (qb_quota b)) \<inter> set (state_gpus st) \<and>
       ((\<forall>t \<in> set (qc_tenants (qb_quota b)). 0 < tq_pct t * budget) \<longrightarrow>
         dsum (qa_caps acc) \<le> sum_list (map tq_pct (qc_tenants (qb_quota b))) * budget \<and>
         (\<forall>t \<in> set (qc_tenants (qb_quota b)). tenant_sum (qa_caps acc) t \<le> tq_pct t * budget)))"
proof (cases "dn = qc_domain (qb_quota b)")
  case True
  have ok: "brains_ok (qb_quota b) (qa_brains (quota_start b))" using inv by (simp add: quota_inv_def quota_start_def)
  have ts: "\<forall>t \<in> set (qc_tenants (qb_quota b)). tq_domain t = qc_domain (qb_quota b)"
    "disjoint_gpus (qc_tenants (qb_quota b))"
    using inv by (simp_all add: quota_inv_def quota_validate_iff)
  from tenants_loop_sound [OF wf inv True ok ts, of budget] obtain acc new where
    "tenants_loop b dn budget st (qc_tenants (qb_quota b)) (quota_start b) = Ok acc"
    "brains_ok (qb_quota b) (qa_brains acc)" "qa_caps acc = new" "wf_powers new"
    "set (dkeys new) \<subseteq> all_gpus (qc_tenants (qb_quota b)) \<inter> set (state_gpus st)"
    "set (qa_assigned acc) = all_gpus (qc_tenants (qb_quota b)) \<inter> set (state_gpus st)"
    "qa_used acc = dsum new"
    "(\<forall>t \<in> set (qc_tenants (qb_quota b)). 0 < tq_pct t * budget) \<longrightarrow>
       dsum new \<le> sum_list (map tq_pct (qc_tenants (qb_quota b))) * budget \<and>
       (\<forall>t \<in> set (qc_tenants (qb_quota b)). tenant_sum new t \<le> tq_pct t * budget)"
    by (auto simp: quota_start_def simp del: set_map)
  then show ?thesis by (intro exI [of _ acc]) (auto simp del: set_map)
next
  case False
  then have "\<forall>t \<in> set (qc_tenants (qb_quota b)). tq_domain t \<noteq> dn"
    using quota_inv_tenant [OF inv] by auto
  from tenants_loop_other [OF this, of b budget st "quota_start b"] False inv show ?thesis
    by (intro exI [of _ "quota_start b"]) (simp add: quota_start_def quota_inv_def)
qed

lemma leftover_bound:
  assumes "unassigned_of st acc \<noteq> []" "wf_state st"
  shows "dsum (leftover_caps budget st acc) \<le> max 0 (budget - qa_used acc) \<and>
    wf_powers (leftover_caps budget st acc) \<and>
    set (dkeys (leftover_caps budget st acc)) = set (unassigned_of st acc)"
proof -
  let ?un = "unassigned_of st acc"
  let ?share = "max 0 (budget - qa_used acc) / length ?un"
  have d: "distinct ?un" using assms(2) by (simp add: unassigned_of_def wf_state_def)
  have eq: "leftover_caps budget st acc = dcomp (\<lambda>g. min ?share (dget_or (gpu_max_caps st) g ?share)) ?un"
    by (simp add: leftover_caps_def Let_def)
  have "dsum (leftover_caps budget st acc) \<le> ?share * length ?un"
    unfolding eq dcomp_distinct [OF d] dsum_map by (rule sum_list_le_const) simp
  also have "\<dots> = max 0 (budget - qa_used acc)" using assms(1) by simp
  finally have sum: "dsum (leftover_caps budget st acc) \<le> max 0 (budget - qa_used acc)" .
  have share: "0 \<le> ?share" by simp
  have "wf_powers (leftover_caps budget st acc)"
    unfolding eq using share wf_state_max_cap [OF assms(2) share]
    by (intro wf_powersI) (auto split: if_splits)
  then show ?thesis using sum by (simp add: eq del: set_map)
qed

lemma quota_decideD:
  assumes wf: "wf_state st" and inv: "quota_inv b" and known: "map_of (domains t) dn = Some d"
  obtains acc dec where "quota_decide now b t dn st = Ok (b\<lparr>qb_tenant_brains := qa_brains acc\<rparr>, dec)"
    "tenants_loop b dn (pd_budget_w d) st (qc_tenants (qb_quota b)) (quota_start b) = Ok acc"
    "bd_caps dec = qa_caps acc @ (if unassigned_of st acc = [] then [] else leftover_caps (pd_budget_w d) st acc)"
    "wf_powers (bd_caps dec)" "set (dkeys (bd_caps dec)) \<subseteq> set (state_gpus st)"
    "brains_ok (qb_quota b) (qa_brains acc)"
proof -
  from quota_loop_sound [OF wf inv, of dn "pd_budget_w d"] obtain acc where
    loop: "tenants_loop b dn (pd_budget_w d) st (qc_tenants (qb_quota b)) (quota_start b) = Ok acc" and
    ok: "brains_ok (qb_quota b) (qa_brains acc)" and pw: "wf_powers (qa_caps acc)" and
    ks: "set (dkeys (qa_caps acc)) \<subseteq> set (qa_assigned acc)" "set (qa_assigned acc) \<subseteq> set (state_gpus st)"
    by blast
  let ?caps = "if unassigned_of st acc = [] then qa_caps acc else dmerge (qa_caps acc) (leftover_caps (pd_budget_w d) st acc)"
  let ?add = "if unassigned_of st acc = [] then [] else leftover_caps (pd_budget_w d) st acc"
  let ?dec = "\<lparr>bd_domain = dn, bd_caps = ?caps, bd_ts = now,
                 bd_reason = ''quota-prs:'' @ string_of_nat (length (qc_tenants (qb_quota b))) @ ''tenants''\<rparr>"
  have dec: "quota_decide now b t dn st = Ok (b\<lparr>qb_tenant_brains := qa_brains acc\<rparr>, ?dec)"
    using loop by (simp add: quota_decide_def getitem_def known quota_start_def)
  have add: "wf_powers ?add \<and> set (dkeys ?add) = set (unassigned_of st acc)"
    using leftover_bound [OF _ wf, of acc "pd_budget_w d"] by auto
  have un: "set (unassigned_of st acc) = set (state_gpus st) - set (qa_assigned acc)"
    by (auto simp: unassigned_of_def simp del: set_map)
  have apart: "set (dkeys (qa_caps acc)) \<inter> set (dkeys ?add) = {}" using add un ks by blast
  have caps: "bd_caps ?dec = qa_caps acc @ ?add"
    using dmerge_disjoint [OF _ apart] add
    by (cases "unassigned_of st acc = []") (simp_all add: wf_powers_def del: set_map)
  have "wf_powers (qa_caps acc @ ?add)" using wf_powers_append [OF pw _ apart] add by blast
  moreover have "set (dkeys (qa_caps acc @ ?add)) \<subseteq> set (state_gpus st)"
    using add un ks unfolding map_append set_append by blast
  ultimately show thesis using that [OF dec loop caps] ok by (simp only: caps)
qed

lemma quota_decide_unknown: "map_of (domains t) dn = None \<Longrightarrow> quota_decide now b t dn st = Err (KeyError dn)"
  by (simp add: quota_decide_def getitem_def)

lemma quota_decide_known: "quota_decide now b t dn st = Ok r \<Longrightarrow> \<exists>d. map_of (domains t) dn = Some d"
  by (cases "map_of (domains t) dn") (simp_all add: quota_decide_unknown)

lemma quota_powers:
  assumes wf: "wf_state st" and inv: "quota_inv b" and dec: "quota_decide now b t dn st = Ok (b', dec)"
  shows "wf_powers (bd_caps dec) \<and> set (dkeys (bd_caps dec)) \<subseteq> set (state_gpus st) \<and> quota_inv b'"
proof -
  obtain d where d: "map_of (domains t) dn = Some d" using quota_decide_known [OF dec] ..
  show ?thesis
  proof (rule quota_decideD [OF wf inv d, where now = now])
    fix acc dec'
    assume 1: "quota_decide now b t dn st = Ok (b\<lparr>qb_tenant_brains := qa_brains acc\<rparr>, dec')"
      and 2: "wf_powers (bd_caps dec')" "set (dkeys (bd_caps dec')) \<subseteq> set (state_gpus st)"
      and 3: "brains_ok (qb_quota b) (qa_brains acc)"
    from 1 dec have "b' = b\<lparr>qb_tenant_brains := qa_brains acc\<rparr>" "dec' = dec" by simp_all
    with 2 3 inv show ?thesis by (simp add: quota_inv_def del: set_map)
  qed
qed

interpretation quota: cap_brain quota_inv "quota_decide now" for now
proof
  fix t :: topology and dn d st b
  assume "map_of (domains t) dn = Some d" "wf_state st" "quota_inv b"
  then show "\<exists>r. quota_decide now b t dn st = Ok r" by (metis quota_decideD)
next
  show "v \<in> set (dvals (bd_caps dec)) \<Longrightarrow> 0 \<le> v"
    if "wf_state st" "quota_inv b" "quota_decide now b t dn st = Ok (b', dec)" for st b t dn b' dec v
    using quota_powers [OF that] unfolding wf_powers_def by blast
qed (use quota_powers in \<open>auto simp: wf_powers_def simp del: set_map\<close>)

section \<open>Properties\<close>

text \<open>Two GPUs at the floor of 200 W in a slice of 300 W: the floor gives way.\<close>

lemma slice_below_floor: "slice_to_budget 300 [(0, 200), (1, 200)] = [(0, 150), (1, 150)]"
  by (simp add: slice_to_budget_def renormalise_def)

text \<open>C28. Quota enforcement: for the domain of the quota, each tenant's GPUs together are capped at no
  more than the tenant's fraction of the domain budget, whatever the other tenants draw; the
  whole decision stays within the budget when the fractions sum to at most one (and within
  the validated tolerance otherwise), the GPUs no tenant owns included. This holds also where the
  floors of the tenant's GPUs exceed its slice: the caps decided are scaled below the floor,
  contrary to \<open>docs/N13-quota-enforcement.md\<close>, by which the floor wins and the slice is overshot.\<close>

theorem quota_slices:
  assumes wf: "wf_state st" and inv: "quota_inv b" and d: "map_of (domains t) (qc_domain (qb_quota b)) = Some d"
    and pos: "0 < pd_budget_w d" "\<forall>tn \<in> set (qc_tenants (qb_quota b)). 0 < tq_pct tn"
    and dec: "quota_decide now b t (qc_domain (qb_quota b)) st = Ok (b', dec)"
  shows "(\<forall>tn \<in> set (qc_tenants (qb_quota b)). tenant_sum (bd_caps dec) tn \<le> tenant_budget_w tn (pd_budget_w d)) \<and>
         dsum (bd_caps dec) \<le> (1 + 1 / 10 ^ 6) * pd_budget_w d \<and>
         (sum_list (map tq_pct (qc_tenants (qb_quota b))) \<le> 1 \<longrightarrow> dsum (bd_caps dec) \<le> pd_budget_w d)"
proof (rule quota_decideD [OF wf inv d, where now = now])
  let ?ts = "qc_tenants (qb_quota b)" and ?w = "pd_budget_w d"
  fix acc dec'
  assume "quota_decide now b t (qc_domain (qb_quota b)) st = Ok (b\<lparr>qb_tenant_brains := qa_brains acc\<rparr>, dec')"
    and loop: "tenants_loop b (qc_domain (qb_quota b)) ?w st ?ts (quota_start b) = Ok acc"
    and caps: "bd_caps dec' = qa_caps acc @ (if unassigned_of st acc = [] then [] else leftover_caps ?w st acc)"
  then have [simp]: "dec' = dec" using dec by simp
  let ?add = "if unassigned_of st acc = [] then [] else leftover_caps ?w st acc"
  from quota_loop_sound [OF wf inv, of "qc_domain (qb_quota b)" ?w] loop pos have
    used: "qa_used acc = dsum (qa_caps acc)"
    and asg: "set (qa_assigned acc) = all_gpus ?ts \<inter> set (state_gpus st)"
    and sum: "dsum (qa_caps acc) \<le> sum_list (map tq_pct ?ts) * ?w"
    and slices: "\<forall>tn \<in> set ?ts. tenant_sum (qa_caps acc) tn \<le> tq_pct tn * ?w"
    by (auto simp del: set_map)
  have add: "dsum ?add \<le> max 0 (?w - qa_used acc)" "set (dkeys ?add) \<subseteq> set (unassigned_of st acc)"
    using leftover_bound [OF _ wf, of acc ?w] by auto
  have "tenant_sum ?add tn = 0" if "tn \<in> set ?ts" for tn
  proof (rule tenant_sum_none)
    have "set (tq_gpus tn) \<subseteq> all_gpus ?ts" using that by (auto simp: all_gpus_def)
    then show "set (dkeys ?add) \<inter> set (tq_gpus tn) = {}"
      using add(2) asg by (auto simp: unassigned_of_def simp del: set_map)
  qed
  then have slice: "tenant_sum (bd_caps dec) tn \<le> tenant_budget_w tn ?w" if "tn \<in> set ?ts" for tn
    using that slices caps by (simp add: tenant_sum_append tenant_budget_w_def)
  have total: "dsum (bd_caps dec) \<le> max ?w (sum_list (map tq_pct ?ts) * ?w)"
    using caps add(1) sum used by simp
  moreover have "sum_list (map tq_pct ?ts) * ?w \<le> (1 + 1 / 10 ^ 6) * ?w"
    using inv pos(1) by (intro mult_right_mono) (simp_all add: quota_inv_def quota_validate_iff)
  moreover have "sum_list (map tq_pct ?ts) * ?w \<le> 1 * ?w" if "sum_list (map tq_pct ?ts) \<le> 1"
    using that pos(1) by (intro mult_right_mono) simp_all
  moreover have "?w \<le> (1 + 1 / 10 ^ 6) * ?w" using pos(1) by simp
  ultimately have "dsum (bd_caps dec) \<le> (1 + 1 / 10 ^ 6) * ?w \<and>
      (sum_list (map tq_pct ?ts) \<le> 1 \<longrightarrow> dsum (bd_caps dec) \<le> ?w)"
    by (smt (verit))
  with slice show ?thesis by blast
qed

definition demo_quota_brain :: quota_brain where
  "demo_quota_brain = \<lparr>qb_quota = demo_quota, qb_fresh = Ok demo_prs, qb_tenant_brains = []\<rparr>"

theorem quota_slices_witness:
  "\<exists>b' dec. quota_decide 0 demo_quota_brain (demo_domain 1000) ''d'' demo_state = Ok (b', dec) \<and>
     tenant_sum (bd_caps dec) (hd (qc_tenants demo_quota)) \<le> 600 \<and> dsum (bd_caps dec) \<le> 1000"
proof -
  have inv: "quota_inv demo_quota_brain"
    by (simp add: quota_inv_def demo_quota_brain_def brains_ok_def quota_validate_iff)
      (simp add: demo_quota_def)
  have q: "qb_quota demo_quota_brain = demo_quota" "qc_domain demo_quota = ''d''"
    by (simp_all add: demo_quota_brain_def demo_quota_def)
  obtain d where d: "map_of (domains (demo_domain 1000)) ''d'' = Some d" "pd_budget_w d = 1000"
    by (simp add: demo_domain_def)
  obtain b' dec where dec: "quota_decide 0 demo_quota_brain (demo_domain 1000) ''d'' demo_state = Ok (b', dec)"
    using quota.decide_total [OF d(1) wf_demo_state inv, of 0] by auto
  show ?thesis
    using quota_slices [OF wf_demo_state inv, of "demo_domain 1000" d 0 b' dec, unfolded q, OF d(1) _ _ dec] dec d(2)
    by (simp add: demo_quota_def tenant_budget_w_def)
qed

text \<open>The budget the slices are cut from is \<open>budget_w\<close> of the domain, not its effective budget:
  with a coordinator budget of 300 W adopted for the domain the brain still hands out 1500 W.\<close>

theorem quota_ignores_adopted_budget:
  "\<exists>b' dec. domain_budget_w (adopt_budget (demo_domain 1500) ''d'' 300) ''d'' = Ok 300 \<and>
     quota_decide 0 \<lparr>qb_quota = \<lparr>qc_domain = ''d'', qc_tenants = []\<rparr>, qb_fresh = Ok demo_prs, qb_tenant_brains = []\<rparr>
       (adopt_budget (demo_domain 1500) ''d'' 300) ''d'' demo_state = Ok (b', dec) \<and>
     dsum (bd_caps dec) = 1500"
proof -
  have "domain_budget_w (adopt_budget (demo_domain 1500) ''d'' 300) ''d'' = Ok 300"
    by (simp add: demo_domain_def domain_budget_w_def getitem_def)
  then show ?thesis
    by (simp add: quota_decide_def getitem_def unassigned_of_def demo_gpus leftover_caps_def dcomp_def dmerge_def)
       (simp add: demo_domain_def demo_state_def)
qed

end
