(* ===== verification/Cvxpy.thy ===== *)
theory Cvxpy
  imports Wrapped
begin

text \<open>
  \<open>brain/cvxpy_brain.py\<close>: brain v3 states the allocation as a linear program and falls back to
  PRS when the solver package is missing, raises or finds no optimum. The solver is not part
  of the program: it is an argument, \<open>None\<close> when \<open>import cvxpy\<close> fails, otherwise a function from
  the program stated to the outcome. What the code has changed before an exception stays
  changed.
\<close>

section \<open>The linear program\<close>

record lp =
  lp_objective :: "nat list" \<comment> \<open>the variables summed in the objective\<close>
  lp_constant :: real \<comment> \<open>what the objective subtracts\<close>
  lp_budget :: watts
  lp_floor :: watts
  lp_max :: "watts list"
  lp_ceilings :: "(nat \<times> watts) list"

datatype solver_outcome =
    SolverRaised
  | Solved string "real list option" real \<comment> \<open>status, value of the variables, milliseconds\<close>

definition lp_feasible :: "lp \<Rightarrow> real list \<Rightarrow> bool" where
  "lp_feasible p xs \<longleftrightarrow>
     length xs = length (lp_max p) \<and> list_all (\<lambda>x. 0 \<le> x) xs \<and> sum_list xs \<le> lp_budget p \<and>
     list_all (\<lambda>x. lp_floor p \<le> x) xs \<and> list_all2 (\<lambda>x m. x \<le> m) xs (lp_max p) \<and>
     list_all (\<lambda>(i, c). xs ! i \<le> c) (lp_ceilings p)"

definition lp_value :: "lp \<Rightarrow> real list \<Rightarrow> real" where
  "lp_value p xs = sum_list (map (\<lambda>i. xs ! i) (lp_objective p)) - lp_constant p"

section \<open>State\<close>

record cvx_metrics =
  cm_hot_gpus :: "gpu list"
  cm_idle_gpus :: "gpu list"
  cm_idle_stranded_w :: watts
  cm_domain_draw_w :: watts
  cm_domain_cap_w :: watts
  cm_solver_status :: string
  cm_solve_time_ms :: real

record cvx_brain =
  cx_min_cap :: watts
  cx_alpha :: real
  cx_threshold :: real
  cx_idle_ceil :: real
  cx_ewma :: "(string, (gpu, watts) dict) dict"
  cx_last_metrics :: "(string, cvx_metrics) dict"
  cx_fallback :: prs_brain

definition cvx_init :: "watts \<Rightarrow> real \<Rightarrow> real \<Rightarrow> real \<Rightarrow> cvx_brain res" where
  "cvx_init min_cap_w ewma_alpha reclaim_threshold idle_reclaim_ceil =
     res_bind (prs_init min_cap_w ewma_alpha (3/5) (3/10) 0) (\<lambda>fb.
       Ok \<lparr>cx_min_cap = min_cap_w, cx_alpha = ewma_alpha, cx_threshold = reclaim_threshold,
           cx_idle_ceil = idle_reclaim_ceil, cx_ewma = [], cx_last_metrics = [], cx_fallback = fb\<rparr>)"

definition cvx_get_last_metrics :: "cvx_brain \<Rightarrow> string \<Rightarrow> cvx_metrics option" where
  "cvx_get_last_metrics b dn = map_of (cx_last_metrics b) dn"

definition cvx_ewma :: "cvx_brain \<Rightarrow> string \<Rightarrow> domain_state \<Rightarrow> (gpu, watts) dict" where
  "cvx_ewma b dn st =
     ewma_update (cx_alpha b) (gpu_draws st)
       (case map_of (cx_ewma b) dn of None \<Rightarrow> gpu_draws st | Some e \<Rightarrow> e)"

section \<open>The decision\<close>

definition sorted_gpus :: "domain_state \<Rightarrow> gpu list" where
  "sorted_gpus st = sort (state_gpus st)"

definition cvx_is_hot :: "cvx_brain \<Rightarrow> (gpu, watts) dict \<Rightarrow> domain_state \<Rightarrow> gpu \<Rightarrow> bool" where
  "cvx_is_hot b e st g = (cx_threshold b \<le> ditem e g / max (ditem (gpu_max_caps st) g) 1)"

definition cvx_problem :: "cvx_brain \<Rightarrow> (gpu, watts) dict \<Rightarrow> watts \<Rightarrow> domain_state \<Rightarrow> lp" where
  "cvx_problem b e budget st =
     (let gpus = sorted_gpus st;
          is = [0..<length gpus];
          hot = filter (\<lambda>i. cvx_is_hot b e st (gpus ! i)) is;
          idle = filter (\<lambda>i. \<not> cvx_is_hot b e st (gpus ! i)) is
      in \<lparr>lp_objective = (if hot = [] then is else hot),
          lp_constant = (if hot = [] then 0 else sum_list (map (\<lambda>i. ditem (gpu_draws st) (gpus ! i)) hot)),
          lp_budget = budget, lp_floor = cx_min_cap b,
          lp_max = map (ditem (gpu_max_caps st)) gpus,
          lp_ceilings = map (\<lambda>i. (i, max (cx_min_cap b) (ditem e (gpus ! i) * cx_idle_ceil b))) idle\<rparr>)"

definition cvx_note :: "cvx_brain \<Rightarrow> string \<Rightarrow> cvx_metrics \<Rightarrow> cvx_brain" where
  "cvx_note b dn m = b\<lparr>cx_last_metrics := dset dn m (cx_last_metrics b)\<rparr>"

definition cvx_unsolved :: "cvx_brain \<Rightarrow> topology \<Rightarrow> string \<Rightarrow> domain_state \<Rightarrow> gpu list \<Rightarrow> gpu list \<Rightarrow> string \<Rightarrow> real \<Rightarrow>
    cvx_brain \<times> brain_decision option" where
  \<comment> \<open>no optimum: the PRS decision, with metrics that say so\<close>
  "cvx_unsolved b t dn st hot idle status ms =
     (let m = prs_get_last_metrics (cx_fallback b) dn in
      case prs_decide (cx_fallback b) t dn st of
        Inl _ \<Rightarrow> (b, None)
      | Inr (fb, result) \<Rightarrow>
          (cvx_note (b\<lparr>cx_fallback := fb\<rparr>) dn
             \<lparr>cm_hot_gpus = hot, cm_idle_gpus = idle,
              cm_idle_stranded_w = (case m of None \<Rightarrow> 0 | Some x \<Rightarrow> idle_stranded_w x),
              cm_domain_draw_w = dsum (gpu_draws st), cm_domain_cap_w = dsum (bd_caps result),
              cm_solver_status = ''fallback:'' @ status, cm_solve_time_ms = ms\<rparr>, Some result))"

definition cvx_solved :: "cvx_brain \<Rightarrow> string \<Rightarrow> domain_state \<Rightarrow> gpu list \<Rightarrow> gpu list \<Rightarrow> string \<Rightarrow> real list \<Rightarrow> real \<Rightarrow>
    cvx_brain \<times> brain_decision option" where
  "cvx_solved b dn st hot idle status xs ms =
     (let caps = zip (sorted_gpus st) xs in
      (cvx_note b dn
         \<lparr>cm_hot_gpus = hot, cm_idle_gpus = idle,
          cm_idle_stranded_w = sum_list (map (\<lambda>g. ditem (gpu_max_caps st) g - ditem caps g) idle),
          cm_domain_draw_w = dsum (gpu_draws st), cm_domain_cap_w = dsum caps,
          cm_solver_status = status, cm_solve_time_ms = ms\<rparr>,
       Some \<lparr>bd_domain = dn, bd_caps = caps, bd_ts = ds_ts st,
             bd_reason = ''cvxpy:'' @ status @ '':'' @ fmt1 ms @ ''ms''\<rparr>))"

definition cvx_try :: "(lp \<Rightarrow> solver_outcome) \<Rightarrow> cvx_brain \<Rightarrow> topology \<Rightarrow> string \<Rightarrow> domain_state \<Rightarrow>
    cvx_brain \<times> brain_decision option" where
  \<comment> \<open>\<open>_decide_cvxpy\<close>: the brain as it is afterwards, and the decision unless it raised\<close>
  "cvx_try solve b t dn st =
     (case map_of (domains t) dn of
        None \<Rightarrow> (b, None)
      | Some d \<Rightarrow>
          let gpus = sorted_gpus st;
              e = cvx_ewma b dn st;
              b1 = b\<lparr>cx_ewma := dset dn e (cx_ewma b)\<rparr>
          in if \<exists>g \<in> set gpus. map_of (gpu_max_caps st) g = None then (b1, None)
             else
               let hot = filter (cvx_is_hot b e st) gpus;
                   idle = filter (\<lambda>g. \<not> cvx_is_hot b e st g) gpus
               in case solve (cvx_problem b e (pd_budget_w d) st) of
                    SolverRaised \<Rightarrow> (b1, None)
                  | Solved status None ms \<Rightarrow> cvx_unsolved b1 t dn st hot idle status ms
                  | Solved status (Some xs) ms \<Rightarrow>
                      if status = ''optimal'' \<or> status = ''optimal_inaccurate''
                      then if length xs < length gpus then (b1, None)
                           else cvx_solved b1 dn st hot idle status xs ms
                      else cvx_unsolved b1 t dn st hot idle status ms)"

definition cvx_decide :: "(lp \<Rightarrow> solver_outcome) option \<Rightarrow> cvx_brain \<Rightarrow> topology \<Rightarrow> string \<Rightarrow> domain_state \<Rightarrow>
    (cvx_brain \<times> brain_decision) res" where
  "cvx_decide cvxpy b t dn st =
     (case (case cvxpy of None \<Rightarrow> (b, None) | Some solve \<Rightarrow> cvx_try solve b t dn st) of
        (b1, Some dec) \<Rightarrow> Ok (b1, dec)
      | (b1, None) \<Rightarrow>
          res_bind (prs_decide (cx_fallback b1) t dn st) (\<lambda>(fb, dec). Ok (b1\<lparr>cx_fallback := fb\<rparr>, dec)))"

section \<open>Fallback\<close>

definition cvx_inv :: "cvx_brain \<Rightarrow> bool" where
  "cvx_inv b \<longleftrightarrow> prs_inv (cx_fallback b)"

lemma cvx_init_inv: "cvx_init m a th c = Ok b \<Longrightarrow> 0 \<le> m \<Longrightarrow> cvx_inv b"
  using prs_init_inv [of m a "3/5" "3/10" 0] by (auto simp: cvx_init_def cvx_inv_def res_bind_Ok_iff)

lemma cvx_note_sel [simp]: "cx_fallback (cvx_note b dn m) = cx_fallback b"
  by (simp add: cvx_note_def)

text \<open>An attempt that raised leaves the fallback brain as it was.\<close>

lemma cvx_try_raised: "cvx_try solve b t dn st = (b1, None) \<Longrightarrow> cx_fallback b1 = cx_fallback b"
  by (auto simp: cvx_try_def Let_def cvx_unsolved_def cvx_solved_def
           split: option.splits if_splits solver_outcome.splits sum.splits prod.splits)

lemma cvx_try_decided:
  assumes "cvx_try solve b t dn st = (b1, Some dec)"
  shows "(\<exists>fb. prs_decide (cx_fallback b) t dn st = Ok (fb, dec) \<and> cx_fallback b1 = fb) \<or>
    (\<exists>d status xs ms. map_of (domains t) dn = Some d \<and>
       solve (cvx_problem b (cvx_ewma b dn st) (pd_budget_w d) st) = Solved status (Some xs) ms \<and>
       (status = ''optimal'' \<or> status = ''optimal_inaccurate'') \<and> length (sorted_gpus st) \<le> length xs \<and>
       bd_caps dec = zip (sorted_gpus st) xs \<and> cx_fallback b1 = cx_fallback b)"
  using assms
  by (auto simp: cvx_try_def Let_def cvx_unsolved_def cvx_solved_def not_less
           split: option.splits if_splits solver_outcome.splits sum.splits prod.splits)

lemma cvx_decide_total:
  assumes "map_of (domains t) dn = Some d"
  shows "\<exists>r. cvx_decide cvxpy b t dn st = Ok r"
proof -
  have "\<exists>r. prs_decide p t dn st = Ok r" for p by (rule prs_decide_total [OF assms])
  then have "res_bind (prs_decide p t dn st) f \<noteq> Err e" if "\<And>x. \<exists>y. f x = Ok y" for p e and f :: "_ \<Rightarrow> (cvx_brain \<times> brain_decision) res"
    using that by (metis Inl_Inr_False res_bind_simps(1))
  then have "cvx_decide cvxpy b t dn st \<noteq> Err e" for e
    by (auto simp: cvx_decide_def split: prod.splits option.splits)
  then show ?thesis by (cases "cvx_decide cvxpy b t dn st") auto
qed

text \<open>Without the package the brain is PRS.\<close>

lemma cvx_missing: "cvx_decide None b t dn st =
    res_bind (prs_decide (cx_fallback b) t dn st) (\<lambda>(fb, dec). Ok (b\<lparr>cx_fallback := fb\<rparr>, dec))"
  by (simp add: cvx_decide_def)

interpretation cvx_missing: bounded_brain cvx_inv "cvx_decide None" "\<lambda>b. prs_bound (cx_fallback b)"
proof
  fix st b and t :: topology and dn b' dec
  assume wf: "wf_state st" and inv: "cvx_inv b" and dec: "cvx_decide None b t dn st = Ok (b', dec)"
  from dec obtain fb where p: "prs_decide (cx_fallback b) t dn st = Ok (fb, dec)" and b': "b' = b\<lparr>cx_fallback := fb\<rparr>"
    by (auto simp: cvx_missing res_bind_Ok_iff)
  have pi: "prs_inv (cx_fallback b)" using inv by (simp add: cvx_inv_def)
  show "cvx_inv b'" using prs_decide_inv [OF wf pi p] by (simp add: b' cvx_inv_def)
  show "wf_dict (bd_caps dec)" using prs.decide_wf [OF wf pi p] .
  show "set (dkeys (bd_caps dec)) \<subseteq> set (state_gpus st)" using prs.decide_gpus [OF wf pi p] .
  show "0 \<le> v" if "v \<in> set (dvals (bd_caps dec))" for v using prs.decide_nonneg [OF wf pi p that] .
  show "dsum (bd_caps dec) \<le> prs_bound (cx_fallback b) dn w st" if "domain_budget_w t dn = Ok w" for w
    using prs.decide_bound [OF wf pi that p] .
qed (rule cvx_decide_total)

section \<open>Optimal solutions\<close>

definition solver_optimal :: "(lp \<Rightarrow> solver_outcome) \<Rightarrow> lp \<Rightarrow> bool" where
  \<comment> \<open>what the package documents of the status \<open>optimal\<close>\<close>
  "solver_optimal solve p \<longleftrightarrow> (\<forall>xs ms. solve p = Solved ''optimal'' (Some xs) ms \<longrightarrow>
     lp_feasible p xs \<and> (\<forall>ys. lp_feasible p ys \<longrightarrow> lp_value p xs \<le> lp_value p ys))"

lemma sum_list_map_update:
  fixes f :: "nat \<Rightarrow> real"
  assumes "distinct is" "k \<in> set is"
  shows "sum_list (map (f(k := v)) is) = sum_list (map f is) - f k + v"
  using assms
proof (induction "is")
  case (Cons i "is")
  show ?case
  proof (cases "k = i")
    case True
    with Cons.prems have "map (f(k := v)) is = map f is" by (intro map_cong) auto
    then show ?thesis unfolding list.map sum_list.Cons by (simp only: True fun_upd_same)
  next
    case False
    with Cons show ?thesis by (simp add: fun_upd_other del: fun_upd_apply)
  qed
qed simp

lemma sum_list_set:
  fixes xs :: "real list"
  shows "k < length xs \<Longrightarrow> sum_list (xs[k := v]) = sum_list xs - xs ! k + v"
proof (induction xs arbitrary: k)
  case (Cons x xs)
  then show ?case by (cases k) auto
qed simp

lemma exists_nth: "x \<in> set xs \<Longrightarrow> \<exists>i. i < length xs \<and> xs ! i = x"
  by (simp add: in_set_conv_nth)

lemma list_all_update: "list_all P xs \<Longrightarrow> P v \<Longrightarrow> list_all P (xs[k := v])"
  using set_update_subset_insert [of xs k v] by (auto simp: list_all_iff)

text \<open>Lowering one variable to the floor keeps a feasible point feasible.\<close>

lemma lp_feasible_lower:
  assumes f: "lp_feasible p xs" and k: "k < length xs" and floor: "0 \<le> lp_floor p"
    and ceil: "list_all (\<lambda>(i, c). lp_floor p \<le> c) (lp_ceilings p)"
  shows "lp_feasible p (xs[k := lp_floor p])"
proof -
  have le: "lp_floor p \<le> xs ! k" using f k by (simp add: lp_feasible_def list_all_length)
  have "sum_list (xs[k := lp_floor p]) = sum_list xs - xs ! k + lp_floor p"
    using k by (rule sum_list_set)
  with f le have "sum_list (xs[k := lp_floor p]) \<le> lp_budget p" by (simp add: lp_feasible_def)
  moreover have "list_all2 (\<lambda>x m. x \<le> m) (xs[k := lp_floor p]) (lp_max p)"
    using f le k by (auto simp: lp_feasible_def list_all2_conv_all_nth nth_list_update)
  moreover have "list_all (\<lambda>(i, c). xs[k := lp_floor p] ! i \<le> c) (lp_ceilings p)"
    unfolding list_all_iff
  proof (clarify)
    fix i c assume ic: "(i, c) \<in> set (lp_ceilings p)"
    then have "xs ! i \<le> c" "lp_floor p \<le> c" using f ceil by (auto simp: lp_feasible_def list_all_iff)
    then show "xs[k := lp_floor p] ! i \<le> c" using k by (cases "i = k") simp_all
  qed
  ultimately show ?thesis
    using f floor by (auto simp: lp_feasible_def intro!: list_all_update)
qed

lemma lp_value_update:
  assumes "distinct (lp_objective p)" "k \<in> set (lp_objective p)" "k < length xs"
  shows "lp_value p (xs[k := v]) = lp_value p xs - xs ! k + v"
proof -
  have "(\<lambda>i. xs[k := v] ! i) = (\<lambda>i. xs ! i)(k := v)"
    using assms(3) by (auto simp: fun_eq_iff)
  then show ?thesis
    unfolding lp_value_def using sum_list_map_update [OF assms(1,2), of "(!) xs" v] by (simp del: fun_upd_apply)
qed

lemma cvx_problem_sel:
  "lp_max (cvx_problem b e w st) = map (ditem (gpu_max_caps st)) (sorted_gpus st)"
  "lp_budget (cvx_problem b e w st) = w" "lp_floor (cvx_problem b e w st) = cx_min_cap b"
  "distinct (lp_objective (cvx_problem b e w st))"
  "i < length (sorted_gpus st) \<Longrightarrow> cvx_is_hot b e st (sorted_gpus st ! i) \<Longrightarrow> i \<in> set (lp_objective (cvx_problem b e w st))"
  "list_all (\<lambda>(i, c). cx_min_cap b \<le> c) (lp_ceilings (cvx_problem b e w st))"
  by (auto simp: cvx_problem_def Let_def list_all_iff filter_empty_conv)

lemma cvx_decide_solved:
  assumes d: "map_of (domains t) dn = Some d" and len: "length xs = length (sorted_gpus st)"
    and maxes: "\<forall>g \<in> set (state_gpus st). map_of (gpu_max_caps st) g \<noteq> None"
    and out: "solve (cvx_problem b (cvx_ewma b dn st) (pd_budget_w d) st) = Solved ''optimal'' (Some xs) ms"
  shows "\<exists>b' dec. cvx_decide (Some solve) b t dn st = Ok (b', dec) \<and> bd_caps dec = zip (sorted_gpus st) xs"
proof -
  have "set (sorted_gpus st) = set (state_gpus st)" by (simp add: sorted_gpus_def)
  then have none: "\<not> (\<exists>g \<in> set (sorted_gpus st). map_of (gpu_max_caps st) g = None)" using maxes by blast
  then obtain b' dec where "cvx_try solve b t dn st = (b', Some dec)" "bd_caps dec = zip (sorted_gpus st) xs"
    unfolding cvx_try_def Let_def d option.case out if_not_P [OF none]
    by (simp add: len cvx_solved_def Let_def)
  then show ?thesis by (simp add: cvx_decide_def)
qed

text \<open>C39. What an optimum of the program means for the GPUs. The caps respect the budget of the
  domain, the floor and every hardware maximum; but the objective, the sum of the caps of the
  hot GPUs, is smallest at the floor, so every hot GPU is throttled to exactly the floor
  whatever it draws.\<close>

theorem cvx_starves_hot:
  assumes wf: "wf_state st" and d: "map_of (domains t) dn = Some d"
    and maxes: "\<forall>g \<in> set (state_gpus st). map_of (gpu_max_caps st) g \<noteq> None"
    and floor: "0 \<le> cx_min_cap b"
    and opt: "solver_optimal solve (cvx_problem b (cvx_ewma b dn st) (pd_budget_w d) st)"
    and out: "solve (cvx_problem b (cvx_ewma b dn st) (pd_budget_w d) st) = Solved ''optimal'' (Some xs) ms"
  shows "\<exists>b' dec. cvx_decide (Some solve) b t dn st = Ok (b', dec) \<and>
     dsum (bd_caps dec) \<le> pd_budget_w d \<and>
     (\<forall>g \<in> set (state_gpus st). \<exists>c. map_of (bd_caps dec) g = Some c \<and>
        cx_min_cap b \<le> c \<and> c \<le> ditem (gpu_max_caps st) g \<and>
        (cvx_is_hot b (cvx_ewma b dn st) st g \<longrightarrow> c = cx_min_cap b))"
proof -
  let ?p = "cvx_problem b (cvx_ewma b dn st) (pd_budget_w d) st" and ?gs = "sorted_gpus st"
  have f: "lp_feasible ?p xs" and best: "\<And>ys. lp_feasible ?p ys \<Longrightarrow> lp_value ?p xs \<le> lp_value ?p ys"
    using opt out by (auto simp: solver_optimal_def)
  have len: "length xs = length ?gs" using f by (simp add: lp_feasible_def cvx_problem_sel)
  have gs: "set ?gs = set (state_gpus st)" "distinct ?gs"
    using wf by (simp_all add: sorted_gpus_def wf_state_def)
  obtain b' dec where dec: "cvx_decide (Some solve) b t dn st = Ok (b', dec)" and caps: "bd_caps dec = zip ?gs xs"
    using cvx_decide_solved [where solve = solve and dn = dn and b = b, OF d len maxes out] by blast
  have "dsum (zip ?gs xs) = sum_list xs" using len by (simp add: dsum_def)
  then have sum: "dsum (bd_caps dec) \<le> pd_budget_w d"
    using f by (simp add: caps lp_feasible_def cvx_problem_sel)
  have each: "\<exists>c. map_of (bd_caps dec) g = Some c \<and>
        cx_min_cap b \<le> c \<and> c \<le> ditem (gpu_max_caps st) g \<and>
        (cvx_is_hot b (cvx_ewma b dn st) st g \<longrightarrow> c = cx_min_cap b)" if "g \<in> set ?gs" for g
  proof -
    obtain i where i: "i < length ?gs" "?gs ! i = g" using exists_nth [OF \<open>g \<in> set ?gs\<close>] by auto
    have m: "map_of (zip ?gs xs) g = Some (xs ! i)" using i len gs(2) by (metis map_of_zip_nth)
    have lo: "cx_min_cap b \<le> xs ! i" using f i len by (simp add: lp_feasible_def list_all_length cvx_problem_sel)
    have hi: "xs ! i \<le> ditem (gpu_max_caps st) g"
      using f i len by (auto simp: lp_feasible_def list_all2_conv_all_nth cvx_problem_sel)
    have "xs ! i \<le> cx_min_cap b" if hot: "cvx_is_hot b (cvx_ewma b dn st) st g"
    proof -
      have "i < length xs" and obj: "i \<in> set (lp_objective ?p)"
        using i len hot cvx_problem_sel(5) by auto
      then show ?thesis
        using best [OF lp_feasible_lower [OF f, of i]] lp_value_update [OF cvx_problem_sel(4) obj, of xs] floor
        by (simp add: cvx_problem_sel)
    qed
    with m lo hi show ?thesis by (auto simp: caps)
  qed
  show ?thesis using dec sum each unfolding gs(1) by blast
qed

text \<open>A solver that meets the contract: the floor is optimal wherever it is feasible.\<close>

definition floor_solver :: "lp \<Rightarrow> solver_outcome" where
  "floor_solver p =
     (let xs = map (\<lambda>_. lp_floor p) (lp_max p) in
      if lp_feasible p xs then Solved ''optimal'' (Some xs) 1 else Solved ''infeasible'' None 1)"

lemma floor_solver_optimal:
  assumes "\<forall>i \<in> set (lp_objective p). i < length (lp_max p)"
  shows "solver_optimal floor_solver p"
proof -
  let ?xs = "map (\<lambda>_. lp_floor p) (lp_max p)"
  have "lp_value p ?xs \<le> lp_value p ys" if "lp_feasible p ys" for ys
  proof -
    have "sum_list (map ((!) ?xs) (lp_objective p)) \<le> sum_list (map ((!) ys) (lp_objective p))"
      by (rule sum_list_mono) (use assms that in \<open>auto simp: lp_feasible_def list_all_length\<close>)
    then show ?thesis by (simp add: lp_value_def)
  qed
  then show ?thesis by (auto simp: solver_optimal_def floor_solver_def Let_def split: if_splits)
qed

definition demo_cvx :: cvx_brain where
  "demo_cvx = \<lparr>cx_min_cap = 200, cx_alpha = 3/10, cx_threshold = 3/5, cx_idle_ceil = 13/10, cx_ewma = [],
     cx_last_metrics = [], cx_fallback = demo_prs\<rparr>"

lemma demo_cvx_ewma: "cvx_ewma demo_cvx ''d'' demo_state = [(0, 900), (1, 600), (2, 100)]"
  by (simp add: cvx_ewma_def ewma_update_def demo_cvx_def demo_state_def)

lemma demo_sorted: "sorted_gpus demo_state = [0, 1, 2]"
  by (simp add: sorted_gpus_def demo_state_def)

lemma demo_objective_bound:
  "\<forall>i \<in> set (lp_objective (cvx_problem b e w st)). i < length (lp_max (cvx_problem b e w st))"
  by (auto simp: cvx_problem_def Let_def split: if_splits)

lemma cvx_ceiling_index: "(i, c) \<in> set (lp_ceilings (cvx_problem b e w st)) \<Longrightarrow> i < length (sorted_gpus st)"
  by (auto simp: cvx_problem_def Let_def)

lemma floor_feasible:
  assumes "0 \<le> cx_min_cap b" "length (sorted_gpus st) * cx_min_cap b \<le> w"
    and "\<forall>g \<in> set (sorted_gpus st). cx_min_cap b \<le> ditem (gpu_max_caps st) g"
  shows "floor_solver (cvx_problem b e w st) = Solved ''optimal'' (Some (map (\<lambda>_. cx_min_cap b) (sorted_gpus st))) 1"
proof -
  have "map (\<lambda>_. cx_min_cap b) (sorted_gpus st) ! i \<le> c" if "(i, c) \<in> set (lp_ceilings (cvx_problem b e w st))" for i c
    using that cvx_ceiling_index [OF that] cvx_problem_sel(6) [of b e w st] by (auto simp: list_all_iff)
  then have "lp_feasible (cvx_problem b e w st) (map (\<lambda>_. cx_min_cap b) (sorted_gpus st))"
    using assms
    by (auto simp: lp_feasible_def cvx_problem_sel(1-3) list_all_iff list_all2_conv_all_nth sum_list_triv)
  then show ?thesis by (simp add: floor_solver_def cvx_problem_sel(1-3) comp_def)
qed

lemma demo_cvx_solved:
  assumes "600 \<le> w"
  shows "floor_solver (cvx_problem demo_cvx e w demo_state) = Solved ''optimal'' (Some [200, 200, 200]) 1"
  using floor_feasible [of demo_cvx demo_state w e] assms
  by (simp add: demo_sorted) (simp add: demo_cvx_def demo_state_def ditem_def)

lemma demo_maxes: "\<forall>g \<in> set (state_gpus demo_state). map_of (gpu_max_caps demo_state) g \<noteq> None"
  by (simp add: demo_state_def)

theorem cvx_starves_hot_witness:
  "\<exists>b' dec. cvx_decide (Some floor_solver) demo_cvx (demo_domain 1500) ''d'' demo_state = Ok (b', dec) \<and>
     map_of (bd_caps dec) 0 = Some 200"
proof -
  obtain d where d: "map_of (domains (demo_domain 1500)) ''d'' = Some d" "pd_budget_w d = 1500"
    by (simp add: demo_domain_def)
  have hot: "cvx_is_hot demo_cvx (cvx_ewma demo_cvx ''d'' demo_state) demo_state 0"
    by (simp add: demo_cvx_ewma cvx_is_hot_def ditem_def) (simp add: demo_cvx_def demo_state_def)
  have out: "floor_solver (cvx_problem demo_cvx (cvx_ewma demo_cvx ''d'' demo_state) (pd_budget_w d) demo_state)
      = Solved ''optimal'' (Some [200, 200, 200]) 1"
    using demo_cvx_solved [of 1500] d(2) by simp
  have floor: "0 \<le> cx_min_cap demo_cvx" by (simp add: demo_cvx_def)
  have zero: "0 \<in> set (state_gpus demo_state)" by (simp add: demo_gpus)
  from cvx_starves_hot [where solve = floor_solver and dn = "''d''" and b = demo_cvx, OF wf_demo_state d(1)
      demo_maxes floor floor_solver_optimal [OF demo_objective_bound] out]
  obtain b' dec where "cvx_decide (Some floor_solver) demo_cvx (demo_domain 1500) ''d'' demo_state = Ok (b', dec)"
    "map_of (bd_caps dec) 0 = Some (cx_min_cap demo_cvx)"
    using zero hot by metis
  then show ?thesis by (auto simp: demo_cvx_def)
qed

text \<open>The budget the program states is \<open>budget_w\<close> of the domain, not its effective budget: with
  a coordinator budget of 300 W adopted for the domain the brain still hands out 600 W.\<close>

theorem cvx_ignores_adopted_budget:
  "\<exists>b' dec. domain_budget_w (adopt_budget (demo_domain 1500) ''d'' 300) ''d'' = Ok 300 \<and>
     cvx_decide (Some floor_solver) demo_cvx (adopt_budget (demo_domain 1500) ''d'' 300) ''d'' demo_state = Ok (b', dec) \<and>
     dsum (bd_caps dec) = 600"
proof -
  let ?t = "adopt_budget (demo_domain 1500) ''d'' 300"
  obtain d where d: "map_of (domains ?t) ''d'' = Some d" "pd_budget_w d = 1500" "pd_node_overhead_w d = 0"
    by (simp add: demo_domain_def)
  have out: "floor_solver (cvx_problem demo_cvx (cvx_ewma demo_cvx ''d'' demo_state) (pd_budget_w d) demo_state)
      = Solved ''optimal'' (Some [200, 200, 200]) 1"
    using demo_cvx_solved [of 1500] d(2) by simp
  obtain b' dec where "cvx_decide (Some floor_solver) demo_cvx ?t ''d'' demo_state = Ok (b', dec)"
    "bd_caps dec = [(0, 200), (1, 200), (2, 200)]"
    using cvx_decide_solved [where solve = floor_solver and dn = "''d''" and b = demo_cvx,
        OF d(1) _ demo_maxes out] by (auto simp: demo_sorted)
  moreover have "domain_budget_w ?t ''d'' = Ok 300"
    using domain_budget_adopted [OF d(1), of 300] d(3) by simp
  ultimately show ?thesis by auto
qed

end
