(* ===== verification/Brains.thy ===== *)
theory Brains
  imports JobAware Thermal QuotaPrs Cvxpy
begin

text \<open>
  The brain a controller runs (\<open>StandaloneController.__init__\<close> of \<open>controller/standalone.py\<close>):
  one of the seven, chosen by \<open>brain_type\<close>, with the construction errors of each, and the
  cross-check of a quota against the topology. \<open>decide\<close> dispatches on the brain; the whole
  again interprets \<open>cap_brain\<close>.
\<close>

datatype brain =
    Dpm_brain dpm_brain
  | Prs_brain prs_brain
  | Cvxpy_brain cvx_brain
  | Job_brain job_aware_brain
  | Quota_brain quota_brain
  | Priority_brain priority_brain
  | Thermal_brain thermal_brain

section \<open>Construction\<close>

definition stray_gpus :: "power_domain \<Rightarrow> tenant_quota \<Rightarrow> gpu list" where
  "stray_gpus d t = filter (\<lambda>g. g \<notin> set (pd_gpu_indices d)) (tq_gpus t)"

definition validate_quota_against_topology :: "quota_config \<Rightarrow> topology \<Rightarrow> unit res" where
  "validate_quota_against_topology q t =
     (case map_of (domains t) (qc_domain q) of
        None \<Rightarrow> Err (ValueError ''quota domain not in topology'')
      | Some d \<Rightarrow>
          if \<exists>tn \<in> set (qc_tenants q). stray_gpus d tn \<noteq> []
          then Err (ValueError ''tenant references GPUs not in domain'') else Ok ())"

record brain_config =
  bc_type :: string
  bc_ewma_alpha :: real
  bc_cap_raise_rate :: watts
  bc_busy_gpus :: "gpu list"
  bc_priority_boost :: real
  bc_quota :: "quota_config option"
  bc_tiers :: "(gpu, string) dict"
  bc_has_source :: bool

definition default_prs :: "brain_config \<Rightarrow> prs_brain res" where
  \<comment> \<open>\<open>PRSBrain(topology, ewma_alpha=..., cap_raise_rate_w_per_tick=...)\<close>, the rest at its default\<close>
  "default_prs c = prs_init 200 (bc_ewma_alpha c) (3/5) (3/10) (bc_cap_raise_rate c)"

definition new_tracker :: "brain_config \<Rightarrow> string option \<Rightarrow> job_tracker" where
  \<comment> \<open>a fixed busy set, or a started tracker whose GPU table \<open>nvidia-smi\<close> filled\<close>
  "new_tracker c smi =
     (let tr = \<lparr>jt_jobs = [], uuid_to_index = []\<rparr>
      in if bc_busy_gpus c \<noteq> [] then set_busy_gpus tr (bc_busy_gpus c) else refresh_uuid_map smi tr)"

definition make_brain :: "brain_config \<Rightarrow> topology \<Rightarrow> string option \<Rightarrow> brain res" where
  "make_brain c t smi =
     (if bc_type c = ''prs'' then res_bind (default_prs c) (\<lambda>p. Ok (Prs_brain p))
      else if bc_type c = ''cvxpy'' then res_bind (cvx_init 200 (3/10) (3/5) (13/10)) (\<lambda>b. Ok (Cvxpy_brain b))
      else if bc_type c = ''job-prs''
      then res_bind (job_aware_init (new_tracker c smi) (bc_priority_boost c) (default_prs c)) (\<lambda>b. Ok (Job_brain b))
      else if bc_type c = ''quota-prs''
      then (case bc_quota c of
              None \<Rightarrow> Err (ValueError ''--brain quota-prs requires a quota config'')
            | Some q \<Rightarrow> res_bind (validate_quota_against_topology q t) (\<lambda>_.
                res_bind (quota_brain_init q (default_prs c)) (\<lambda>b. Ok (Quota_brain b))))
      else if bc_type c = ''priority-prs''
      then (if bc_tiers c = [] \<and> \<not> bc_has_source c
            then Err (ValueError ''--brain priority-prs requires --gpu-priority-tiers'')
            else res_bind (priority_init (bc_tiers c) (3/5) 200 (default_prs c)) (\<lambda>b. Ok (Priority_brain b)))
      else if bc_type c = ''thermal-prs''
      then res_bind (thermal_init (15/100) 200 (default_prs c)) (\<lambda>b. Ok (Thermal_brain b))
      else Ok (Dpm_brain \<lparr>dpm_min_cap_w = 200\<rparr>))"

section \<open>Decisions\<close>

definition as_brain :: "('b \<Rightarrow> brain) \<Rightarrow> ('b \<times> brain_decision) res \<Rightarrow> (brain \<times> brain_decision) res" where
  "as_brain f r = res_bind r (\<lambda>(b, dec). Ok (f b, dec))"

definition brain_decide :: "(lp \<Rightarrow> solver_outcome) option \<Rightarrow> real \<Rightarrow> brain \<Rightarrow> topology \<Rightarrow> string \<Rightarrow> domain_state \<Rightarrow>
    (brain \<times> brain_decision) res" where
  \<comment> \<open>\<open>self._brain.decide\<close>; the first two arguments are the solver, if installed, and the clock\<close>
  "brain_decide cvxpy now br t dn st =
     (case br of
        Dpm_brain b \<Rightarrow> as_brain Dpm_brain (dpm_decide b t dn st)
      | Prs_brain b \<Rightarrow> as_brain Prs_brain (prs_decide b t dn st)
      | Cvxpy_brain b \<Rightarrow> as_brain Cvxpy_brain (cvx_decide cvxpy b t dn st)
      | Job_brain b \<Rightarrow> as_brain Job_brain (job_aware_decide b t dn st)
      | Quota_brain b \<Rightarrow> as_brain Quota_brain (quota_decide now b t dn st)
      | Priority_brain b \<Rightarrow> as_brain Priority_brain (priority_decide b t dn st)
      | Thermal_brain b \<Rightarrow> as_brain Thermal_brain (thermal_decide b t dn st))"

definition poll_jobs :: "string option \<Rightarrow> brain \<Rightarrow> brain" where
  \<comment> \<open>one round of the job tracker's thread, which shares the tracker with the brain\<close>
  "poll_jobs smi br =
     (case br of Job_brain b \<Rightarrow> Job_brain (b\<lparr>ja_tracker := loop_step smi (ja_tracker b)\<rparr>) | _ \<Rightarrow> br)"

section \<open>Lemmas\<close>

lemma as_brain_Ok: "as_brain f r = Ok (b', dec) \<longleftrightarrow> (\<exists>b. r = Ok (b, dec) \<and> b' = f b)"
  by (auto simp: as_brain_def res_bind_Ok_iff)

text \<open>A solver whose solutions are not negative, which every program the brain builds demands of it
  (\<open>nonneg=True\<close> on the variables).\<close>

definition sane_solver :: "(lp \<Rightarrow> solver_outcome) option \<Rightarrow> bool" where
  "sane_solver cvxpy \<longleftrightarrow> (\<forall>solve p status xs ms. cvxpy = Some solve \<longrightarrow>
     solve p = Solved status (Some xs) ms \<longrightarrow> (\<forall>x \<in> set xs. 0 \<le> x))"

definition brain_inv :: "brain \<Rightarrow> bool" where
  "brain_inv br =
     (case br of Dpm_brain b \<Rightarrow> 0 \<le> dpm_min_cap_w b | Prs_brain b \<Rightarrow> prs_inv b | Cvxpy_brain b \<Rightarrow> cvx_inv b
      | Job_brain b \<Rightarrow> job_aware_inv b | Quota_brain b \<Rightarrow> quota_inv b
      | Priority_brain b \<Rightarrow> priority_inv b | Thermal_brain b \<Rightarrow> thermal_inv b)"

lemma cvx_decide_caps:
  assumes wf: "wf_state st" and inv: "cvx_inv b" and sane: "sane_solver cvxpy"
    and dec: "cvx_decide cvxpy b t dn st = Ok (b', dec)"
  shows "cvx_inv b' \<and> wf_powers (bd_caps dec) \<and> set (dkeys (bd_caps dec)) \<subseteq> set (state_gpus st)"
proof -
  obtain b1 r where r: "(case cvxpy of None \<Rightarrow> (b, None) | Some solve \<Rightarrow> cvx_try solve b t dn st) = (b1, r)"
    by (meson surj_pair)
  show ?thesis
  proof (cases r)
    case None
    then have "cx_fallback b1 = cx_fallback b" using r cvx_try_raised by (auto split: option.splits)
    with dec r None obtain fb where "prs_decide (cx_fallback b) t dn st = Ok (fb, dec)" "b' = b1\<lparr>cx_fallback := fb\<rparr>"
      by (auto simp: cvx_decide_def res_bind_Ok_iff)
    with inv prs.decide_inv [OF wf] prs_decide_powers [OF wf] prs.decide_gpus [OF wf] show ?thesis
      by (simp add: cvx_inv_def)
  next
    case (Some dec')
    with dec r have eq: "dec' = dec" "b1 = b'" by (simp_all add: cvx_decide_def)
    from r Some obtain solve where s: "cvxpy = Some solve" "cvx_try solve b t dn st = (b', Some dec)"
      unfolding eq by (cases cvxpy) auto
    from cvx_try_decided [OF s(2)] show ?thesis
    proof (rule disjE)
      assume "\<exists>fb. prs_decide (cx_fallback b) t dn st = Ok (fb, dec) \<and> cx_fallback b' = fb"
      then obtain fb where "prs_decide (cx_fallback b) t dn st = Ok (fb, dec)" "cx_fallback b' = fb" by (elim exE conjE)
      with inv prs.decide_inv [OF wf] prs_decide_powers [OF wf] prs.decide_gpus [OF wf] show ?thesis
        by (simp add: cvx_inv_def)
    next
      assume "\<exists>d status xs ms. map_of (domains t) dn = Some d \<and>
       solve (cvx_problem b (cvx_ewma b dn st) (pd_budget_w d) st) = Solved status (Some xs) ms \<and>
       (status = ''optimal'' \<or> status = ''optimal_inaccurate'') \<and> length (sorted_gpus st) \<le> length xs \<and>
       bd_caps dec = zip (sorted_gpus st) xs \<and> cx_fallback b' = cx_fallback b"
      then obtain status xs ms and d :: power_domain where *:
        "solve (cvx_problem b (cvx_ewma b dn st) (pd_budget_w d) st) = Solved status (Some xs) ms"
        "length (sorted_gpus st) \<le> length xs" "bd_caps dec = zip (sorted_gpus st) xs" "cx_fallback b' = cx_fallback b"
        by blast
      have "\<forall>x \<in> set xs. 0 \<le> x" using sane *(1) s(1) by (auto simp: sane_solver_def)
      moreover have "dkeys (zip (sorted_gpus st) xs) = sorted_gpus st" using *(2) by (simp add: map_fst_zip_take)
      moreover have "set (dvals (zip (sorted_gpus st) xs)) \<subseteq> set xs" by (auto dest: set_zip_rightD)
      ultimately show ?thesis using * wf inv
        by (auto simp: wf_powers_def cvx_inv_def sorted_gpus_def wf_state_def simp del: set_map)
    qed
  qed
qed

text \<open>What every \<open>cap_brain\<close> gives its caller, through \<open>as_brain\<close>.\<close>

context cap_brain
begin

lemma as_brain_total:
  "map_of (domains t) dn = Some d \<Longrightarrow> wf_state st \<Longrightarrow> inv b \<Longrightarrow> \<exists>r. as_brain f (decide b t dn st) = Ok r"
  using decide_total [of t dn d st b] by (auto simp: as_brain_def)

lemma as_brain_sound:
  assumes "as_brain f (decide b t dn st) = Ok (br', dec)" "wf_state st" "inv b"
  shows "\<exists>b'. br' = f b' \<and> inv b' \<and> wf_powers (bd_caps dec) \<and> set (dkeys (bd_caps dec)) \<subseteq> set (state_gpus st)"
proof -
  obtain b' where b': "decide b t dn st = Ok (b', dec)" "br' = f b'" using assms(1) by (auto simp: as_brain_Ok)
  from b' assms(2,3) show ?thesis
    using decide_inv [OF assms(2,3) b'(1)] decide_wf [OF assms(2,3) b'(1)] decide_gpus [OF assms(2,3) b'(1)]
      decide_nonneg [OF assms(2,3) b'(1)] unfolding wf_powers_def by (intro exI [of _ b']) auto
qed

end

lemma brain_decide_total:
  assumes "map_of (domains t) dn = Some d" "wf_state st" "brain_inv br"
  shows "\<exists>r. brain_decide cvxpy now br t dn st = Ok r"
proof -
  have "\<exists>r. as_brain f (cvx_decide cvxpy b t dn st) = Ok r" for f b
    using cvx_decide_total [OF assms(1), of cvxpy b st] by (auto simp: as_brain_def)
  then show ?thesis
    using assms(3) dpm.as_brain_total [OF assms(1,2)] prs.as_brain_total [OF assms(1,2)]
      job_aware.as_brain_total [OF assms(1,2)] quota.as_brain_total [OF assms(1,2)]
      priority.as_brain_total [OF assms(1,2)] thermal.as_brain_total [OF assms(1,2)]
    by (simp add: brain_inv_def brain_decide_def split: brain.splits)
qed

lemma brain_decide_sound:
  assumes wf: "wf_state st" and inv: "brain_inv br" and sane: "sane_solver cvxpy"
    and dec: "brain_decide cvxpy now br t dn st = Ok (br', dec)"
  shows "brain_inv br' \<and> wf_powers (bd_caps dec) \<and> set (dkeys (bd_caps dec)) \<subseteq> set (state_gpus st)"
proof (cases br)
  case (Dpm_brain b)
  with dec inv show ?thesis
    using dpm.as_brain_sound [OF _ wf, of Dpm_brain b t dn br' dec] by (auto simp: brain_decide_def brain_inv_def simp del: set_map)
next
  case (Prs_brain b)
  with dec inv show ?thesis
    using prs.as_brain_sound [OF _ wf, of Prs_brain b t dn br' dec] by (auto simp: brain_decide_def brain_inv_def simp del: set_map)
next
  case (Cvxpy_brain b)
  then obtain b' where "cvx_decide cvxpy b t dn st = Ok (b', dec)" "br' = Cvxpy_brain b'"
    using dec by (auto simp: brain_decide_def as_brain_Ok)
  with Cvxpy_brain inv cvx_decide_caps [OF wf _ sane, of b t dn b' dec] show ?thesis by (simp add: brain_inv_def del: set_map)
next
  case (Job_brain b)
  with dec inv show ?thesis
    using job_aware.as_brain_sound [OF _ wf, of Job_brain b t dn br' dec] by (auto simp: brain_decide_def brain_inv_def simp del: set_map)
next
  case (Quota_brain b)
  with dec inv show ?thesis
    using quota.as_brain_sound [OF _ wf, of Quota_brain now b t dn br' dec] by (auto simp: brain_decide_def brain_inv_def simp del: set_map)
next
  case (Priority_brain b)
  with dec inv show ?thesis
    using priority.as_brain_sound [OF _ wf, of Priority_brain b t dn br' dec] by (auto simp: brain_decide_def brain_inv_def simp del: set_map)
next
  case (Thermal_brain b)
  with dec inv show ?thesis
    using thermal.as_brain_sound [OF _ wf, of Thermal_brain b t dn br' dec] by (auto simp: brain_decide_def brain_inv_def simp del: set_map)
qed

interpretation brains: cap_brain "\<lambda>br. brain_inv br \<and> sane_solver cvxpy" "brain_decide cvxpy now" for cvxpy now
proof
  show "\<exists>r. brain_decide cvxpy now b t dn st = Ok r"
    if "map_of (domains t) dn = Some d" "wf_state st" "brain_inv b \<and> sane_solver cvxpy" for t :: topology and dn d st b
    using brain_decide_total that by blast
  show "brain_inv b' \<and> sane_solver cvxpy" "wf_dict (bd_caps dec)" "set (dkeys (bd_caps dec)) \<subseteq> set (state_gpus st)"
    if "wf_state st" "brain_inv b \<and> sane_solver cvxpy" "brain_decide cvxpy now b t dn st = Ok (b', dec)" for st b t dn b' dec
    using brain_decide_sound [OF that(1) _ _ that(3)] that(2) unfolding wf_powers_def by blast+
  show "0 \<le> v"
    if "wf_state st" "brain_inv b \<and> sane_solver cvxpy" "brain_decide cvxpy now b t dn st = Ok (b', dec)"
      "v \<in> set (dvals (bd_caps dec))" for st b t dn b' dec v
    using brain_decide_sound [OF that(1) _ _ that(3)] that(2,4) unfolding wf_powers_def by blast
qed

text \<open>The decision a brain returns names the domain it was asked about.\<close>

lemma prs_decide_domain: "prs_decide b t dn st = Ok (b', dec) \<Longrightarrow> bd_domain dec = dn"
  by (auto simp: prs_decide_def Let_def res_bind_Ok_iff case_prod_beta)

lemma cvx_try_domain: "cvx_try solve b t dn st = (b1, Some dec) \<Longrightarrow> bd_domain dec = dn"
  by (auto simp: cvx_try_def Let_def cvx_unsolved_def cvx_solved_def
      split: option.splits if_splits solver_outcome.splits sum.splits prod.splits dest: prs_decide_domain)

lemma cvx_decide_domain: "cvx_decide cvxpy b t dn st = Ok (b', dec) \<Longrightarrow> bd_domain dec = dn"
  by (auto simp: cvx_decide_def res_bind_Ok_iff split: option.splits prod.splits
      dest: prs_decide_domain cvx_try_domain)

lemma brain_decide_domain:
  assumes "brain_decide cvxpy now br t dn st = Ok (br', dec)"
  shows "bd_domain dec = dn"
proof (cases br)
  case (Dpm_brain b)
  with assms show ?thesis by (auto simp: brain_decide_def as_brain_Ok dpm_decide_Ok)
next
  case (Prs_brain b)
  with assms show ?thesis by (auto simp: brain_decide_def as_brain_Ok dest: prs_decide_domain)
next
  case (Cvxpy_brain b)
  with assms show ?thesis by (auto simp: brain_decide_def as_brain_Ok dest: cvx_decide_domain)
next
  case (Job_brain b)
  with assms show ?thesis
    by (auto simp: brain_decide_def as_brain_Ok job_aware_decide_def Let_def res_bind_Ok_iff split: if_splits
        dest: prs_decide_domain)
next
  case (Quota_brain b)
  with assms show ?thesis by (auto simp: brain_decide_def as_brain_Ok quota_decide_def Let_def res_bind_Ok_iff)
next
  case (Priority_brain b)
  with assms show ?thesis
    by (auto simp: brain_decide_def as_brain_Ok priority_decide_def Let_def res_bind_Ok_iff split: if_splits
        dest: prs_decide_domain)
next
  case (Thermal_brain b)
  with assms show ?thesis
    by (auto simp: brain_decide_def as_brain_Ok thermal_decide_def Let_def res_bind_Ok_iff split: if_splits
        dest: prs_decide_domain)
qed

text \<open>
  Every brain \<open>make_brain\<close> builds satisfies its invariant, if the PRS parameters are valid; only
  the quota brain does not check them on construction, as it creates its PRS brains later.
\<close>

lemma make_brain_inv:
  assumes mk: "make_brain c t smi = Ok br" and prs: "bc_type c = ''quota-prs'' \<Longrightarrow> \<exists>p. default_prs c = Ok p"
  shows "brain_inv br"
proof -
  let ?mk = "prs_init 200 (bc_ewma_alpha c) (3/5) (3/10) (bc_cap_raise_rate c)"
  have "?mk = Ok p \<Longrightarrow> prs_inv p" for p by (erule prs_init_inv) simp_all
  moreover have "cvx_init 200 (3/10) (3/5) (13/10) = Ok b \<Longrightarrow> cvx_inv b" for b by (erule cvx_init_inv) simp_all
  moreover have "job_aware_init tr f ?mk = Ok b \<Longrightarrow> job_aware_inv b" for tr f b by (erule job_aware_init_inv) simp_all
  moreover have "quota_brain_init q ?mk = Ok b \<Longrightarrow> ?mk = Ok p \<Longrightarrow> quota_inv b" for q b p by (erule (1) quota_brain_init_inv) simp_all
  moreover have "priority_init ts (3/5) 200 ?mk = Ok b \<Longrightarrow> priority_inv b" for ts b by (erule priority_init_inv) simp_all
  moreover have "thermal_init (15/100) 200 ?mk = Ok b \<Longrightarrow> thermal_inv b" for b by (erule thermal_init_inv) simp_all
  ultimately show ?thesis
    using mk prs unfolding make_brain_def default_prs_def
    by (auto simp: brain_inv_def res_bind_Ok_iff split: if_splits option.splits)
qed

end
