(* ===== verification/Telemetry.thy ===== *)
theory Telemetry
  imports PyJson
begin

text \<open>
  \<open>telemetry/model.py\<close> and \<open>telemetry/prom_client.py\<close>: samples of a node, the two parsers of
  Prometheus answers, and the assembly of a sample from five DCGM series. The HTTP request is
  a parameter: \<open>fetch\<close> gives the parsed JSON body for a query, or the exception it raises.
\<close>

section \<open>Samples\<close>

record gpu_sample =
  gs_index :: gpu
  gs_name :: string
  gs_power_draw_w :: "watts option"
  gs_power_instant_w :: "watts option"
  gs_power_limit_w :: "watts option"
  gs_power_min_limit_w :: "watts option"
  gs_power_max_limit_w :: "watts option"
  gs_sm_clock_mhz :: "int option"
  gs_mem_clock_mhz :: "int option"
  gs_temperature_c :: "int option"
  gs_gpu_util_pct :: "int option"
  gs_mem_util_pct :: "int option"
  gs_energy_j :: "real option"

record node_sample =
  nd_ts :: real
  nd_hostname :: string
  nd_driver_version :: string
  nd_gpus :: "gpu_sample list"

definition total_power_draw_w :: "node_sample \<Rightarrow> watts" where
  "total_power_draw_w n =
     sum_list (map (\<lambda>g. case gs_power_draw_w g of None \<Rightarrow> 0 | Some w \<Rightarrow> w) (nd_gpus n))"

definition opt_json :: "('a \<Rightarrow> json) \<Rightarrow> 'a option \<Rightarrow> json" where
  "opt_json f x = (case x of None \<Rightarrow> JNull | Some v \<Rightarrow> f v)"

definition gpu_to_dict :: "gpu_sample \<Rightarrow> json" where
  "gpu_to_dict g = JObj
     [(''index'', JInt (gs_index g)), (''name'', JStr (gs_name g)),
      (''power_draw_w'', opt_json JFloat (gs_power_draw_w g)),
      (''power_instant_w'', opt_json JFloat (gs_power_instant_w g)),
      (''power_limit_w'', opt_json JFloat (gs_power_limit_w g)),
      (''power_min_limit_w'', opt_json JFloat (gs_power_min_limit_w g)),
      (''power_max_limit_w'', opt_json JFloat (gs_power_max_limit_w g)),
      (''sm_clock_mhz'', opt_json JInt (gs_sm_clock_mhz g)),
      (''mem_clock_mhz'', opt_json JInt (gs_mem_clock_mhz g)),
      (''temperature_c'', opt_json JInt (gs_temperature_c g)),
      (''gpu_util_pct'', opt_json JInt (gs_gpu_util_pct g)),
      (''mem_util_pct'', opt_json JInt (gs_mem_util_pct g)),
      (''energy_j'', opt_json JFloat (gs_energy_j g))]"

definition node_to_dict :: "node_sample \<Rightarrow> json" where
  "node_to_dict n = JObj
     [(''ts'', JFloat (nd_ts n)), (''hostname'', JStr (nd_hostname n)),
      (''driver_version'', JStr (nd_driver_version n)),
      (''total_power_draw_w'', JFloat (total_power_draw_w n)),
      (''gpus'', JList (map gpu_to_dict (nd_gpus n)))]"

section \<open>Answers of Prometheus\<close>

definition json_at :: "json \<Rightarrow> nat \<Rightarrow> json res" where
  \<comment> \<open>\<open>v[i]\<close> with a literal index\<close>
  "json_at v i =
     (case v of
        JList xs \<Rightarrow> if i < length xs then Ok (xs ! i) else Err IndexError
      | JStr s \<Rightarrow> if i < length s then Ok (JStr [s ! i]) else Err IndexError
      | JObj _ \<Rightarrow> Err (KeyError (string_of_nat i))
      | _ \<Rightarrow> Err TypeError)"

record prom_row =
  row_metric :: json
  row_value :: real

record prom_series =
  ser_metric :: json
  ser_values :: "(real \<times> real) list"

definition result_rows :: "json \<Rightarrow> json list res" where
  \<comment> \<open>\<open>data.get("data", {}).get("result", [])\<close>, iterated over\<close>
  "result_rows data =
     res_bind (json_get data ''data'' (JObj [])) (\<lambda>d.
     res_bind (json_get d ''result'' (JList [])) json_list)"

definition vector_row :: "json \<Rightarrow> prom_row res" where
  "vector_row r =
     res_bind (json_item r ''metric'') (\<lambda>m.
     res_bind (res_bind (res_bind (json_item r ''value'') (\<lambda>v. json_at v 1)) json_float) (\<lambda>x.
     Ok \<lparr>row_metric = m, row_value = x\<rparr>))"

definition parse_vector :: "json \<Rightarrow> prom_row list res" where
  "parse_vector data = res_bind (result_rows data) (res_map vector_row)"

definition matrix_pair :: "json \<Rightarrow> (real \<times> real) res" where
  \<comment> \<open>\<open>(float(ts), float(v)) for ts, v in ...\<close>: exactly two elements\<close>
  "matrix_pair p =
     res_bind (json_list p) (\<lambda>xs. case xs of
        [a, b] \<Rightarrow> res_bind (json_float a) (\<lambda>x. res_bind (json_float b) (\<lambda>y. Ok (x, y)))
      | _ \<Rightarrow> Err (ValueError ''unpack''))"

definition matrix_row :: "json \<Rightarrow> prom_series res" where
  "matrix_row r =
     res_bind (json_item r ''metric'') (\<lambda>m.
     res_bind (res_bind (res_bind (json_item r ''values'') json_list) (res_map matrix_pair)) (\<lambda>vs.
     Ok \<lparr>ser_metric = m, ser_values = vs\<rparr>))"

definition parse_matrix :: "json \<Rightarrow> prom_series list res" where
  "parse_matrix data = res_bind (result_rows data) (res_map matrix_row)"

definition prom_query_range :: "(string \<Rightarrow> real \<Rightarrow> real \<Rightarrow> string \<Rightarrow> json res) \<Rightarrow> string \<Rightarrow> real \<Rightarrow> real \<Rightarrow> string \<Rightarrow> prom_series list res" where
  "prom_query_range fetch_range promql start end_ts step = res_bind (fetch_range promql start end_ts step) parse_matrix"

definition prom_query :: "(string \<Rightarrow> json res) \<Rightarrow> string \<Rightarrow> prom_row list res" where
  "prom_query fetch promql = res_bind (fetch promql) parse_vector"

section \<open>A sample from five series\<close>

definition row_on_host :: "string option \<Rightarrow> prom_row \<Rightarrow> bool res" where
  \<comment> \<open>\<open>hn_filter is None or row["metric"].get("hostname") == hn_filter\<close>\<close>
  "row_on_host hn row =
     (case hn of None \<Rightarrow> Ok True
      | Some h \<Rightarrow> res_bind (json_get (row_metric row) ''hostname'' JNull) (\<lambda>v. Ok (v = JStr h)))"

fun index_rows :: "string option \<Rightarrow> prom_row list \<Rightarrow> (string, real) dict \<Rightarrow> (string, real) dict res" where
  \<comment> \<open>\<open>_index\<close>\<close>
  "index_rows hn [] out = Ok out"
| "index_rows hn (row # rows) out =
     res_bind (row_on_host hn row) (\<lambda>here.
       if here
       then res_bind (res_bind (json_get (row_metric row) ''gpu'' (JStr ''0'')) json_str) (\<lambda>g.
              index_rows hn rows (dset g (row_value row) out))
       else index_rows hn rows out)"

fun sample_labels :: "string option \<Rightarrow> prom_row list \<Rightarrow> (string \<times> string) res" where
  \<comment> \<open>host name and model name, from the first power row of the host\<close>
  "sample_labels hn [] = Ok (case hn of None \<Rightarrow> ''unknown'' | Some h \<Rightarrow> if h = [] then ''unknown'' else h, ''unknown'')"
| "sample_labels hn (row # rows) =
     res_bind (row_on_host hn row) (\<lambda>here.
       if here
       then res_bind (res_bind (json_get (row_metric row) ''hostname'' (JStr ''unknown'')) json_str) (\<lambda>h.
            res_bind (res_bind (json_get (row_metric row) ''modelName'' (JStr ''unknown'')) json_str) (\<lambda>m.
            Ok (h, m)))
       else sample_labels hn rows)"

definition gpu_keys :: "(string, real) dict \<Rightarrow> (string, real) dict \<Rightarrow> (string, real) dict \<Rightarrow> (string, real) dict \<Rightarrow> (gpu \<times> string) list res" where
  \<comment> \<open>the sorted union of the keys, each with the index it denotes\<close>
  "gpu_keys draws cap clocks util =
     res_bind (res_map (\<lambda>k. res_bind (py_int k) (\<lambda>i. Ok (i, k)))
                (remdups (dkeys draws @ dkeys cap @ dkeys clocks @ dkeys util)))
       (\<lambda>ks. Ok (sort_key fst ks))"

definition gpu_of_series :: "string \<Rightarrow> (string, real) dict \<Rightarrow> (string, real) dict \<Rightarrow> (string, real) dict \<Rightarrow> (string, real) dict \<Rightarrow>
    (string, real) dict \<Rightarrow> gpu \<times> string \<Rightarrow> gpu_sample" where
  "gpu_of_series model draws cap clocks util temps ik =
     (case ik of (i, k) \<Rightarrow>
        \<lparr>gs_index = i, gs_name = model, gs_power_draw_w = map_of draws k, gs_power_instant_w = None,
         gs_power_limit_w = map_of cap k, gs_power_min_limit_w = None, gs_power_max_limit_w = None,
         gs_sm_clock_mhz = map_option truncate_real (map_of clocks k), gs_mem_clock_mhz = None,
         gs_temperature_c = map_option truncate_real (map_of temps k),
         gs_gpu_util_pct = map_option truncate_real (map_of util k), gs_mem_util_pct = None,
         gs_energy_j = None\<rparr>)"

definition NodeSampleFromProm :: "(string \<Rightarrow> json res) \<Rightarrow> real \<Rightarrow> string option \<Rightarrow> node_sample res" where
  "NodeSampleFromProm fetch now hn =
     res_bind (prom_query fetch ''DCGM_FI_DEV_POWER_USAGE'') (\<lambda>power_rows.
     res_bind (prom_query fetch ''DCGM_FI_DEV_POWER_CAP'') (\<lambda>cap_rows.
     res_bind (prom_query fetch ''DCGM_FI_DEV_SM_CLOCK'') (\<lambda>clock_rows.
     res_bind (prom_query fetch ''DCGM_FI_DEV_GPU_UTIL'') (\<lambda>util_rows.
     res_bind (prom_query fetch ''DCGM_FI_DEV_GPU_TEMP'') (\<lambda>temp_rows.
     res_bind (index_rows hn power_rows []) (\<lambda>draws.
     res_bind (index_rows hn cap_rows []) (\<lambda>cap.
     res_bind (index_rows hn clock_rows []) (\<lambda>clocks.
     res_bind (index_rows hn util_rows []) (\<lambda>util.
     res_bind (index_rows hn temp_rows []) (\<lambda>temps.
     res_bind (sample_labels hn power_rows) (\<lambda>(host, model).
     res_bind (gpu_keys draws cap clocks util) (\<lambda>ks.
     Ok \<lparr>nd_ts = now, nd_hostname = host, nd_driver_version = ''dcgm'',
         nd_gpus = map (gpu_of_series model draws cap clocks util temps) ks\<rparr>))))))))))))"

section \<open>Lemmas\<close>

text \<open>A query for a GPU's last row: later rows of the same GPU overwrite earlier ones.\<close>

lemma index_rows_all:
  assumes "\<forall>row \<in> set rows. json_get (row_metric row) ''gpu'' (JStr ''0'') = Ok (JStr (label row))"
  shows "index_rows None rows out = Ok (foldl (\<lambda>d row. dset (label row) (row_value row) d) out rows)"
  using assms by (induction rows arbitrary: out) (simp_all add: row_on_host_def json_str_def)

lemma index_rows_wf: "index_rows hn rows out = Ok d \<Longrightarrow> wf_dict out \<Longrightarrow> wf_dict d"
  by (induction hn rows out rule: index_rows.induct) (auto simp: res_bind_Ok_iff split: if_splits)

lemma index_rows_vals:
  "index_rows hn rows out = Ok d \<Longrightarrow> map_of d k = Some v \<Longrightarrow>
   map_of out k = Some v \<or> v \<in> row_value ` set rows"
proof (induction hn rows out rule: index_rows.induct)
  case (2 hn row rows out)
  from 2(3) obtain here where here: "row_on_host hn row = Ok here" by (auto simp: res_bind_Ok_iff)
  show ?case
  proof (cases here)
    case True
    with 2(3) here obtain g where
      g: "res_bind (json_get (row_metric row) ''gpu'' (JStr ''0'')) json_str = Ok g"
      and d: "index_rows hn rows (dset g (row_value row) out) = Ok d" by (auto simp: res_bind_Ok_iff)
    from 2(1) [OF True d 2(4)] have
      "map_of (dset g (row_value row) out) k = Some v \<or> v \<in> row_value ` set rows" .
    then show ?thesis by (auto split: if_splits)
  next
    case False
    with 2 here show ?thesis by auto
  qed
qed simp

lemma sample_of_gpu [simp]:
  "gs_index (gpu_of_series m p c cl u t ik) = fst ik"
  "gs_power_max_limit_w (gpu_of_series m p c cl u t ik) = None"
  by (simp_all add: gpu_of_series_def split: prod.split)

text \<open>What a sample built from Prometheus looks like: ascending indices, and no hardware maximum
  for any GPU, since none of the five series carries it.\<close>

lemma prom_sample_shape:
  assumes "NodeSampleFromProm fetch now hn = Ok n"
  shows "sorted (map gs_index (nd_gpus n)) \<and> (\<forall>g \<in> set (nd_gpus n). gs_power_max_limit_w g = None) \<and> nd_ts n = now"
  using assms
  by (auto simp: NodeSampleFromProm_def res_bind_Ok_iff gpu_keys_def comp_def split: prod.splits)

text \<open>Every power a sample reports is a value of some row, so non-negative rows give
  non-negative samples.\<close>

definition sample_nonneg :: "node_sample \<Rightarrow> bool" where
  "sample_nonneg n \<longleftrightarrow> (\<forall>g \<in> set (nd_gpus n).
     (\<forall>w. gs_power_draw_w g = Some w \<longrightarrow> 0 \<le> w) \<and> (\<forall>w. gs_power_limit_w g = Some w \<longrightarrow> 0 \<le> w) \<and>
     (\<forall>w. gs_power_max_limit_w g = Some w \<longrightarrow> 0 \<le> w))"

lemma prom_sample_nonneg:
  assumes "NodeSampleFromProm fetch now hn = Ok n"
    and rows: "\<And>q rows row. prom_query fetch q = Ok rows \<Longrightarrow> row \<in> set rows \<Longrightarrow> 0 \<le> row_value row"
  shows "sample_nonneg n"
proof -
  have nn: "0 \<le> v" if "prom_query fetch q = Ok rs" "index_rows hn rs [] = Ok d" "map_of d k = Some v" for q rs d k v
    using index_rows_vals [OF that(2,3)] rows [OF that(1)] by auto
  from assms(1) show ?thesis
    by (auto simp: NodeSampleFromProm_def res_bind_Ok_iff sample_nonneg_def gpu_of_series_def split: prod.splits)
      (rule nn, assumption, assumption, assumption)+
qed

end
