(* ===== verification/Metrics.thy ===== *)
theory Metrics
  imports Prelude
begin

text \<open>
  \<open>telemetry/metrics.py\<close>: what the controller reports. The Prometheus client is third-party
  code, so the model records the calls the program makes on it, in order; the HTTP servers
  are not modelled. \<open>counter_total\<close> is the sum of the increments a counter was given.
\<close>

datatype metric_call =
    Set_gauge string "string list" real
  | Inc_counter string "string list" real

text \<open>The gauges and the counter with their label names. The client library raises when a metric is
  used with labels other than the declared ones.\<close>

definition gauges :: "(string \<times> string list) list" where
  "gauges =
     [(''opendps_idle_stranded_watts'', [''domain'']), (''opendps_prs_active'', [''domain'']),
      (''opendps_domain_power_draw_watts'', [''domain'']), (''opendps_domain_power_cap_watts'', [''domain'']),
      (''opendps_hot_gpu_count'', [''domain'']), (''opendps_idle_gpu_count'', [''domain'']),
      (''opendps_gpu_power_draw_watts'', [''domain'', ''gpu'']), (''opendps_gpu_power_cap_watts'', [''domain'', ''gpu'']),
      (''opendps_failsafe_trip_total'', [''domain''])]"

definition counters :: "(string \<times> string list) list" where
  "counters = [(''opendps_tenant_energy_kwh_total'', [''domain'', ''tenant''])]"

definition declared :: "metric_call \<Rightarrow> bool" where
  "declared c =
     (case c of
        Set_gauge name labels _ \<Rightarrow> map_option length (map_of gauges name) = Some (length labels)
      | Inc_counter name labels x \<Rightarrow> map_option length (map_of counters name) = Some (length labels) \<and> 0 \<le> x)"

definition add_tenant_energy_kwh :: "string \<Rightarrow> string \<Rightarrow> real \<Rightarrow> metric_call list" where
  "add_tenant_energy_kwh dn tenant delta =
     (if 0 < delta then [Inc_counter ''opendps_tenant_energy_kwh_total'' [dn, tenant] delta] else [])"

record decision_metrics =
  dm_prs_active :: bool
  dm_draw_w :: watts
  dm_cap_w :: watts
  dm_idle_stranded_w :: watts
  dm_hot_count :: nat
  dm_idle_count :: nat
  dm_gpu_draws :: "(gpu, watts) dict option"
  dm_gpu_caps :: "(gpu, watts) dict option"
  dm_failsafe_trips :: "nat option"

definition gpu_gauges :: "string \<Rightarrow> string \<Rightarrow> (gpu, watts) dict option \<Rightarrow> metric_call list" where
  "gpu_gauges name dn ws =
     (case ws of None \<Rightarrow> [] | Some d \<Rightarrow> map (\<lambda>(g, w). Set_gauge name [dn, string_of_int g] w) d)"

definition update_decision_metrics :: "string \<Rightarrow> decision_metrics \<Rightarrow> metric_call list" where
  "update_decision_metrics dn m =
     [Set_gauge ''opendps_prs_active'' [dn] (if dm_prs_active m then 1 else 0),
      Set_gauge ''opendps_domain_power_draw_watts'' [dn] (dm_draw_w m),
      Set_gauge ''opendps_domain_power_cap_watts'' [dn] (dm_cap_w m),
      Set_gauge ''opendps_idle_stranded_watts'' [dn] (dm_idle_stranded_w m),
      Set_gauge ''opendps_hot_gpu_count'' [dn] (real (dm_hot_count m)),
      Set_gauge ''opendps_idle_gpu_count'' [dn] (real (dm_idle_count m))] @
     gpu_gauges ''opendps_gpu_power_draw_watts'' dn (dm_gpu_draws m) @
     gpu_gauges ''opendps_gpu_power_cap_watts'' dn (dm_gpu_caps m) @
     (case dm_failsafe_trips m of None \<Rightarrow> [] | Some n \<Rightarrow> [Set_gauge ''opendps_failsafe_trip_total'' [dn] (real n)])"

text \<open>No call raises: every one names a declared metric with its labels, and no counter goes down.\<close>

lemma declared_gpu_gauges:
  "map_of gauges name = Some [''domain'', ''gpu''] \<Longrightarrow> c \<in> set (gpu_gauges name dn ws) \<Longrightarrow> declared c"
  by (auto simp: gpu_gauges_def declared_def split: option.splits)

lemma declared_calls:
  "c \<in> set (update_decision_metrics dn m) \<Longrightarrow> declared c"
  "c \<in> set (add_tenant_energy_kwh dn t delta) \<Longrightarrow> declared c"
proof -
  have g: "map_of gauges ''opendps_gpu_power_draw_watts'' = Some [''domain'', ''gpu'']"
    "map_of gauges ''opendps_gpu_power_cap_watts'' = Some [''domain'', ''gpu'']"
    by (simp_all add: gauges_def)
  have d: "declared (Set_gauge n [dn] x)"
    if "n \<in> set [''opendps_prs_active'', ''opendps_domain_power_draw_watts'', ''opendps_domain_power_cap_watts'',
      ''opendps_idle_stranded_watts'', ''opendps_hot_gpu_count'', ''opendps_idle_gpu_count'', ''opendps_failsafe_trip_total'']" for n x
    using that by (auto simp: declared_def gauges_def)
  show "c \<in> set (update_decision_metrics dn m) \<Longrightarrow> declared c"
    unfolding update_decision_metrics_def
    by (auto split: option.splits intro: d declared_gpu_gauges [OF g(1)] declared_gpu_gauges [OF g(2)])
  show "c \<in> set (add_tenant_energy_kwh dn t delta) \<Longrightarrow> declared c"
    by (auto simp: add_tenant_energy_kwh_def declared_def counters_def split: if_splits)
qed

section \<open>Liveness\<close>

record http_response =
  hr_status :: nat
  hr_headers :: "(string \<times> string) list"
  hr_body :: string

definition healthz_reply :: http_response where
  \<comment> \<open>\<open>do_GET\<close> of the server on the port above the metrics port\<close>
  "healthz_reply =
     (let body = ''ok'' in \<lparr>hr_status = 200, hr_headers = [(''Content-Length'', string_of_nat (length body))], hr_body = body\<rparr>)"

section \<open>Totals of counters\<close>

definition increment_of :: "string \<Rightarrow> string list \<Rightarrow> metric_call \<Rightarrow> real" where
  "increment_of name labels c =
     (case c of Inc_counter n ls x \<Rightarrow> if n = name \<and> ls = labels then x else 0 | Set_gauge _ _ _ \<Rightarrow> 0)"

definition counter_total :: "string \<Rightarrow> string list \<Rightarrow> metric_call list \<Rightarrow> real" where
  "counter_total name labels cs = sum_list (map (increment_of name labels) cs)"

lemma counter_total_simps [simp]:
  "counter_total name labels [] = 0"
  "counter_total name labels (c # cs) = increment_of name labels c + counter_total name labels cs"
  "counter_total name labels (cs @ cs') = counter_total name labels cs + counter_total name labels cs'"
  by (simp_all add: counter_total_def)

lemma gauges_no_counter [simp]: "counter_total name labels (gpu_gauges g dn ws) = 0"
  by (auto simp: gpu_gauges_def counter_total_def comp_def increment_of_def case_prod_beta split: option.split
      intro!: sum_list_nonneg_eq_0_iff [THEN iffD2])

lemma decision_metrics_no_counter [simp]: "counter_total name labels (update_decision_metrics dn m) = 0"
  by (simp add: update_decision_metrics_def increment_of_def split: option.split)

lemma tenant_energy_counter:
  "0 \<le> delta \<Longrightarrow> counter_total ''opendps_tenant_energy_kwh_total'' [dn', t'] (add_tenant_energy_kwh dn t delta) =
     (if dn' = dn \<and> t' = t then delta else 0)"
  by (simp add: add_tenant_energy_kwh_def increment_of_def)

end
