(* ===== verification/Energy.thy ===== *)
theory Energy
  imports Quota
begin

text \<open>
  \<open>telemetry/energy.py\<close>: energy counters per GPU in joules, from the draws of each tick, and the
  watt-hours of a GPU, of a tenant and of all.
\<close>

type_synonym joules = real

record energy_accountant =
  energy_j :: "(gpu, joules) dict"

definition J_PER_WH :: real where
  "J_PER_WH = 3600"

definition add_sample :: "real \<Rightarrow> (gpu, joules) dict \<times> (gpu, joules) dict \<Rightarrow> gpu \<times> watts option \<Rightarrow>
    (gpu, joules) dict \<times> (gpu, joules) dict" where
  \<comment> \<open>the loop body on the counters and on what is returned\<close>
  "add_sample dt acc p =
     (case (acc, p) of
        ((e, added), (g, Some draw)) \<Rightarrow> (dset g (dget_or e g 0 + draw * dt) e, dset g (draw * dt) added)
      | (_, (_, None)) \<Rightarrow> acc)"

definition add_tick :: "energy_accountant \<Rightarrow> (gpu, watts option) dict \<Rightarrow> real \<Rightarrow> energy_accountant \<times> (gpu, joules) dict" where
  "add_tick a draws dt =
     (if dt \<le> 0 then (a, [])
      else case foldl (add_sample dt) (energy_j a, []) draws of (e, added) \<Rightarrow> (a\<lparr>energy_j := e\<rparr>, added))"

definition gpu_energy_wh :: "energy_accountant \<Rightarrow> gpu \<Rightarrow> real" where
  "gpu_energy_wh a g = dget_or (energy_j a) g 0 / J_PER_WH"

definition tenant_energy_wh :: "energy_accountant \<Rightarrow> gpu list \<Rightarrow> real" where
  "tenant_energy_wh a gs = sum_list (map (\<lambda>g. dget_or (energy_j a) g 0) gs) / J_PER_WH"

definition total_wh :: "energy_accountant \<Rightarrow> real" where
  "total_wh a = dsum (energy_j a) / J_PER_WH"

section \<open>Lemmas\<close>

definition sample_j :: "real \<Rightarrow> (gpu, watts option) dict \<Rightarrow> gpu \<Rightarrow> joules" where
  \<comment> \<open>the joules of one GPU in one tick\<close>
  "sample_j dt draws g =
     (if dt \<le> 0 then 0 else case map_of draws g of Some (Some draw) \<Rightarrow> draw * dt | _ \<Rightarrow> 0)"

lemma add_sample_simps:
  "add_sample dt (e, added) (g, Some draw) = (dset g (dget_or e g 0 + draw * dt) e, dset g (draw * dt) added)"
  "add_sample dt acc (g, None) = acc"
  by (simp_all add: add_sample_def split: prod.split)

lemma foldl_add_sample:
  "wf_dict draws \<Longrightarrow> foldl (add_sample dt) (e, added) draws = (e', added') \<Longrightarrow> 0 < dt \<Longrightarrow>
   dget_or e' g 0 = dget_or e g 0 + sample_j dt draws g \<and>
   map_of added' g = (case map_of draws g of Some (Some draw) \<Rightarrow> Some (draw * dt) | _ \<Rightarrow> map_of added g)"
proof (induction draws arbitrary: e added)
  case Nil
  then show ?case by (simp add: sample_j_def)
next
  case (Cons p draws)
  obtain h d where p: "p = (h, d)" by (cases p)
  have new: "map_of draws h = None" using Cons.prems(1) by (simp add: p map_of_eq_None_iff)
  show ?case
  proof (cases d)
    case None
    with Cons p new show ?thesis by (cases "g = h") (auto simp: add_sample_simps sample_j_def)
  next
    case (Some w)
    have "foldl (add_sample dt) (dset h (dget_or e h 0 + w * dt) e, dset h (w * dt) added) draws = (e', added')"
      using Cons.prems(2) by (simp add: p Some add_sample_simps)
    from Cons.IH [OF _ this Cons.prems(3)] Cons.prems(1,3) new show ?thesis
      by (cases "g = h") (auto simp: p Some sample_j_def split: option.split)
  qed
qed

lemma add_tick_energy:
  "wf_dict draws \<Longrightarrow> add_tick a draws dt = (a', added) \<Longrightarrow>
   dget_or (energy_j a') g 0 = dget_or (energy_j a) g 0 + sample_j dt draws g"
  using foldl_add_sample [of draws dt "energy_j a" "[]" _ _ g]
  by (auto simp: add_tick_def sample_j_def split: if_splits prod.splits)

lemma add_tick_added:
  "wf_dict draws \<Longrightarrow> add_tick a draws dt = (a', added) \<Longrightarrow> dget_or added g 0 = sample_j dt draws g"
  using foldl_add_sample [of draws dt "energy_j a" "[]" _ _ g]
  by (auto simp: add_tick_def sample_j_def dget_or_def split: if_splits prod.splits option.splits)

lemma wf_foldl_add_sample:
  "wf_dict e \<Longrightarrow> foldl (add_sample dt) (e, added) draws = (e', added') \<Longrightarrow> wf_dict e'"
proof (induction draws arbitrary: e added)
  case (Cons p draws)
  obtain e1 added1 where 1: "add_sample dt (e, added) p = (e1, added1)" by (cases "add_sample dt (e, added) p")
  have "wf_dict e1" using 1 Cons.prems(1) by (cases p; cases "snd p") (auto simp: add_sample_def)
  with Cons 1 show ?case by simp
qed simp

lemma wf_add_tick: "wf_dict (energy_j a) \<Longrightarrow> add_tick a draws dt = (a', added) \<Longrightarrow> wf_dict (energy_j a')"
  using wf_foldl_add_sample [of "energy_j a" dt "[]" draws] by (auto simp: add_tick_def split: if_splits prod.splits)

text \<open>A run of ticks.\<close>

fun add_ticks :: "energy_accountant \<Rightarrow> ((gpu, watts option) dict \<times> real) list \<Rightarrow> energy_accountant" where
  "add_ticks a [] = a"
| "add_ticks a ((draws, dt) # ts) = add_ticks (fst (add_tick a draws dt)) ts"

lemma add_ticks_energy:
  "\<forall>(draws, dt) \<in> set ts. wf_dict draws \<Longrightarrow>
   dget_or (energy_j (add_ticks a ts)) g 0 =
     dget_or (energy_j a) g 0 + sum_list (map (\<lambda>(draws, dt). sample_j dt draws g) ts)"
proof (induction ts arbitrary: a)
  case (Cons t ts)
  obtain draws dt where t: "t = (draws, dt)" by (cases t)
  obtain a1 added where 1: "add_tick a draws dt = (a1, added)" by (cases "add_tick a draws dt")
  from Cons.IH [of a1] Cons.prems add_tick_energy [OF _ 1, of g] show ?case by (simp add: t 1)
qed simp

lemma wf_add_ticks: "wf_dict (energy_j a) \<Longrightarrow> wf_dict (energy_j (add_ticks a ts))"
proof (induction ts arbitrary: a)
  case (Cons t ts)
  obtain draws dt where t: "t = (draws, dt)" by (cases t)
  obtain a1 added where 1: "add_tick a draws dt = (a1, added)" by (cases "add_tick a draws dt")
  from Cons wf_add_tick [OF _ 1] show ?case by (simp add: t 1)
qed simp

lemma sample_j_nonneg: "\<forall>d \<in> set (dvals draws). \<forall>w. d = Some w \<longrightarrow> 0 \<le> w \<Longrightarrow> 0 \<le> sample_j dt draws g"
proof (cases "map_of draws g")
  case (Some d)
  assume a: "\<forall>d \<in> set (dvals draws). \<forall>w. d = Some w \<longrightarrow> 0 \<le> w"
  have "d \<in> set (dvals draws)" using map_of_SomeD [OF Some] by force
  with a Some show ?thesis by (auto simp: sample_j_def split: option.split simp del: set_map)
qed (simp add: sample_j_def)

section \<open>Properties\<close>

text \<open>C36. Energy accounting: after any run of ticks the counter of a GPU is what it was plus the sum
  of draw times interval over the ticks with a positive interval in which the GPU reported;
  a tick returns exactly the joules it added; and with draws that are not negative
  no counter ever falls.\<close>

theorem energy_integral:
  assumes wf: "\<forall>(draws, dt) \<in> set ts. wf_dict draws"
  shows "gpu_energy_wh (add_ticks a ts) g =
           gpu_energy_wh a g + sum_list (map (\<lambda>(draws, dt). sample_j dt draws g) ts) / 3600 \<and>
         (\<forall>draws dt a' added. wf_dict draws \<longrightarrow> add_tick a draws dt = (a', added) \<longrightarrow>
            dget_or (energy_j a') g 0 = dget_or (energy_j a) g 0 + dget_or added g 0) \<and>
         ((\<forall>(draws, dt) \<in> set ts. \<forall>d \<in> set (dvals draws). \<forall>w. d = Some w \<longrightarrow> 0 \<le> w) \<longrightarrow>
            gpu_energy_wh a g \<le> gpu_energy_wh (add_ticks a ts) g)"
proof -
  note e = add_ticks_energy [OF wf, of a g]
  have "0 \<le> sum_list (map (\<lambda>(draws, dt). sample_j dt draws g) ts)"
    if "\<forall>(draws, dt) \<in> set ts. \<forall>d \<in> set (dvals draws). \<forall>w. d = Some w \<longrightarrow> 0 \<le> w"
    by (rule sum_list_nonneg) (use that sample_j_nonneg in fastforce)
  then show ?thesis
    using e add_tick_energy add_tick_added by (simp add: gpu_energy_wh_def J_PER_WH_def add_divide_distrib)
qed

theorem energy_integral_witness:
  "gpu_energy_wh (add_ticks \<lparr>energy_j = []\<rparr> [([(0, Some 720), (1, None)], 10), ([(0, Some 360)], -1), ([(0, Some 360)], 10)]) 0 = 3"
  using energy_integral [THEN conjunct1, of "[([(0, Some 720), (1, None)], 10), ([(0, Some 360)], -1), ([(0, Some 360)], 10)]"
      "\<lparr>energy_j = []\<rparr>" 0]
  by (simp add: sample_j_def gpu_energy_wh_def)

text \<open>Disjoint tenants together are charged at most the total.\<close>

lemma tenant_joules: "wf_dict e \<Longrightarrow> distinct gs \<Longrightarrow>
    sum_list (map (\<lambda>g. dget_or e g 0) gs) = dsum (filter (\<lambda>p. fst p \<in> set gs) e)" for e :: "(gpu, joules) dict"
proof (induction e)
  case Nil
  then show ?case by (simp add: sum_list_triv)
next
  case (Cons p e)
  obtain k v where p: "p = (k, v)" by (cases p)
  have "map_of e k = None" using Cons.prems(1) by (simp add: p map_of_eq_None_iff)
  then have other: "dget_or e k 0 = 0" by (simp add: dget_or_def)
  have "sum_list (map (\<lambda>g. dget_or ((k, v) # e) g 0) gs)
      = sum_list (map (\<lambda>g. dget_or e g 0 + (if g = k then v else 0)) gs)"
    by (rule arg_cong [where f = sum_list], rule map_cong) (auto simp: other)
  also have "\<dots> = sum_list (map (\<lambda>g. dget_or e g 0) gs) + sum_list (map (\<lambda>g. if g = k then v else 0) gs)"
    by (rule sum_list_addf)
  also have "sum_list (map (\<lambda>g. if g = k then v else 0) gs) = (if k \<in> set gs then v else 0)"
    using Cons.prems(2) by (induction gs) auto
  finally show ?case using Cons by (simp add: p)
qed

lemma dsum_filter_disjoint:
  "A \<inter> B = {} \<Longrightarrow> dsum (filter (\<lambda>p. fst p \<in> A) e) + dsum (filter (\<lambda>p. fst p \<in> B) e)
     = dsum (filter (\<lambda>p. fst p \<in> A \<union> B) e)"
  by (induction e) auto

lemma dsum_filter_le: "\<forall>v \<in> set (dvals e). 0 \<le> v \<Longrightarrow> dsum (filter P e) \<le> dsum e"
  by (induction e) auto

text \<open>Showback is consistent: tenants without a common GPU are together charged at most the
  total energy of the node, and exactly the total when every metered GPU has a tenant.\<close>

theorem tenants_within_total:
  assumes wf: "wf_dict (energy_j a)" "\<forall>v \<in> set (dvals (energy_j a)). 0 \<le> v"
    and ts: "disjoint_gpus ts" "\<forall>t \<in> set ts. distinct (tq_gpus t)"
  shows "sum_list (map (\<lambda>t. tenant_energy_wh a (tq_gpus t)) ts) \<le> total_wh a \<and>
    (set (dkeys (energy_j a)) \<subseteq> (\<Union>t \<in> set ts. set (tq_gpus t)) \<longrightarrow>
       sum_list (map (\<lambda>t. tenant_energy_wh a (tq_gpus t)) ts) = total_wh a)"
proof -
  let ?e = "energy_j a" and ?all = "\<Union>t \<in> set ts. set (tq_gpus t)"
  have "sum_list (map (\<lambda>t. dsum (filter (\<lambda>p. fst p \<in> set (tq_gpus t)) ?e)) ts) = dsum (filter (\<lambda>p. fst p \<in> ?all) ?e)"
    using ts(1)
  proof (induction ts)
    case (Cons t ts)
    have "set (tq_gpus t) \<inter> (\<Union>t \<in> set ts. set (tq_gpus t)) = {}" using Cons.prems by auto
    from dsum_filter_disjoint [OF this, of ?e] Cons show ?case by simp
  qed simp
  moreover have "tenant_energy_wh a (tq_gpus t) = dsum (filter (\<lambda>p. fst p \<in> set (tq_gpus t)) ?e) / 3600" if "t \<in> set ts" for t
    using tenant_joules [OF wf(1)] ts(2) that by (simp add: tenant_energy_wh_def J_PER_WH_def)
  then have "sum_list (map (\<lambda>t. tenant_energy_wh a (tq_gpus t)) ts)
      = sum_list (map (\<lambda>t. dsum (filter (\<lambda>p. fst p \<in> set (tq_gpus t)) ?e) / 3600 * 1) ts)"
    by (intro arg_cong [where f = sum_list] map_cong) simp_all
  ultimately have sum: "sum_list (map (\<lambda>t. tenant_energy_wh a (tq_gpus t)) ts) = dsum (filter (\<lambda>p. fst p \<in> ?all) ?e) / 3600"
    unfolding sum_list_shares by simp
  have "filter (\<lambda>p. fst p \<in> ?all) ?e = ?e" if "set (dkeys ?e) \<subseteq> ?all"
    by (rule filter_True) (use that in auto)
  then show ?thesis
    unfolding sum total_wh_def J_PER_WH_def using dsum_filter_le [OF wf(2)] by (simp add: divide_right_mono)
qed

theorem tenants_within_total_witness:
  "sum_list (map (\<lambda>t. tenant_energy_wh \<lparr>energy_j = [(0, 3600), (1, 7200), (2, 1800)]\<rparr> (tq_gpus t)) (qc_tenants demo_quota)) = 7 / 2"
  using tenants_within_total [of "\<lparr>energy_j = [(0, 3600), (1, 7200), (2, 1800)]\<rparr>" "qc_tenants demo_quota"]
  by (simp add: demo_quota_def total_wh_def J_PER_WH_def)

end
