(* ===== verification/PriorityConfig.thy ===== *)
theory PriorityConfig
  imports Priority
begin

text \<open>
  \<open>controller/priority_config.py\<close>: the controller polls a ConfigMap in which the operator
  publishes which GPU runs at which priority tier, and keeps the last good snapshot when the
  answer is missing or malformed. The Kubernetes client and \<open>json.loads\<close> are arguments: what
  a read answers, and the parser of the text it carries.
\<close>

section \<open>The environment switch\<close>

definition VALID_TIERS :: "string list" where
  "VALID_TIERS = [''low'', ''normal'', ''high'', ''critical'']"

definition TIER_RANK :: "(string, nat) dict" where
  "TIER_RANK = [(''low'', 0), (''normal'', 1), (''high'', 2), (''critical'', 3)]"

definition dynamic_priority_config_from_env :: "(string, string) dict \<Rightarrow> (bool \<times> string option) res" where
  "dynamic_priority_config_from_env env =
     (let normalized = lower (strip (dget_or env ''OPENDPS_PRIORITY_CONFIG_ENABLED'' ''false'')) in
      if normalized \<noteq> ''true'' \<and> normalized \<noteq> ''false''
      then Err (ValueError ''OPENDPS_PRIORITY_CONFIG_ENABLED'')
      else if normalized \<noteq> ''true'' then Ok (False, None)
      else let node_name = strip (dget_or env ''OPENDPS_NODE_NAME'' []) in
        if node_name = [] then Err (ValueError ''OPENDPS_NODE_NAME'') else Ok (True, Some node_name))"

section \<open>Parsing the assignments\<close>

datatype candidate = Candidate (cand_rank: nat) (cand_boost: real) (cand_tier: string)

definition json_is_one :: "json \<Rightarrow> bool" where
  \<comment> \<open>\<open>v == 1\<close>, which also holds of \<open>1.0\<close> and \<open>True\<close>\<close>
  "json_is_one v = (case v of JInt i \<Rightarrow> i = 1 | JFloat r \<Rightarrow> r = 1 | JBool b \<Rightarrow> b | _ \<Rightarrow> False)"

definition gpu_index_of :: "json \<Rightarrow> gpu res" where
  "gpu_index_of v =
     (case v of
        JInt i \<Rightarrow> if i < 0 then Err (ValueError ''gpuIndex must be non-negative'') else Ok i
      | _ \<Rightarrow> Err (ValueError ''gpuIndex must be an integer''))"

definition tier_of :: "json \<Rightarrow> string res" where
  \<comment> \<open>a list or an object is not hashable\<close>
  "tier_of v =
     (case v of
        JStr s \<Rightarrow> if s \<in> set VALID_TIERS then Ok s else Err (ValueError ''invalid priorityClass'')
      | JList _ \<Rightarrow> Err TypeError
      | JObj _ \<Rightarrow> Err TypeError
      | _ \<Rightarrow> Err (ValueError ''invalid priorityClass''))"

definition boost_of :: "json \<Rightarrow> real res" where
  "boost_of v =
     (case v of
        JInt _ \<Rightarrow> json_float v
      | JFloat r \<Rightarrow> Ok r
      | _ \<Rightarrow> Err (ValueError ''gpuBoostPct must be a number''))"

definition parse_assignment :: "string \<Rightarrow> json \<Rightarrow> (gpu \<times> candidate) option res" where
  "parse_assignment node a =
     (case a of
        JObj d \<Rightarrow>
          if dget_or d ''nodeName'' JNull \<noteq> JStr node then Ok None
          else
            res_bind (gpu_index_of (dget_or d ''gpuIndex'' JNull)) (\<lambda>gpu.
            res_bind (tier_of (dget_or d ''priorityClass'' JNull)) (\<lambda>tier.
            res_bind (boost_of (dget_or d ''gpuBoostPct'' JNull)) (\<lambda>boost.
            Ok (Some (gpu, Candidate (ditem TIER_RANK tier) boost tier)))))
      | _ \<Rightarrow> Err (ValueError ''each assignment must be an object''))"

definition better :: "candidate \<Rightarrow> candidate \<Rightarrow> bool" where
  \<comment> \<open>\<open>candidate[:2] > current[:2]\<close>\<close>
  "better c c' = (case c of Candidate r b _ \<Rightarrow> case c' of Candidate r' b' _ \<Rightarrow> r' < r \<or> (r = r' \<and> b' < b))"

definition select_better :: "(gpu, candidate) dict \<Rightarrow> gpu \<Rightarrow> candidate \<Rightarrow> (gpu, candidate) dict" where
  "select_better m g c =
     (case map_of m g of
        None \<Rightarrow> dset g c m
      | Some c' \<Rightarrow> if better c c' then dset g c m else m)"

fun select_loop :: "string \<Rightarrow> json list \<Rightarrow> (gpu, candidate) dict \<Rightarrow> (gpu, candidate) dict res" where
  "select_loop node [] m = Ok m"
| "select_loop node (a # as) m =
     res_bind (parse_assignment node a) (\<lambda>r.
       select_loop node as (case r of None \<Rightarrow> m | Some (g, c) \<Rightarrow> select_better m g c))"

definition parse_config :: "(string \<Rightarrow> json res) \<Rightarrow> string \<Rightarrow> string option \<Rightarrow> (gpu, string) dict res" where
  "parse_config loads node raw =
     (case raw of
        None \<Rightarrow> Err (ValueError ''missing data key'')
      | Some text \<Rightarrow>
          res_bind (loads text) (\<lambda>payload.
            case payload of
              JObj d \<Rightarrow>
                if \<not> json_is_one (dget_or d ''schemaVersion'' JNull) then Err (ValueError ''unsupported schemaVersion'')
                else (case dget_or d ''assignments'' JNull of
                        JList as \<Rightarrow>
                          res_bind (select_loop node as []) (\<lambda>sel.
                            Ok (map_ran (\<lambda>g. cand_tier) sel))
                      | _ \<Rightarrow> Err (ValueError ''assignments must be a list''))
            | _ \<Rightarrow> Err (ValueError ''payload must be an object'')))"

section \<open>Polling\<close>

record priority_source =
  ps_node_name :: string
  ps_baseline :: "(gpu, string) dict"
  ps_snapshot :: "(gpu, string) dict"
  ps_resource_version :: "string option"
  ps_has_api :: bool
  ps_reported_unavailable :: bool

definition priority_source_init :: "string \<Rightarrow> (gpu, string) dict \<Rightarrow> bool \<Rightarrow> priority_source" where
  "priority_source_init node baseline has_api =
     \<lparr>ps_node_name = node, ps_baseline = baseline, ps_snapshot = baseline, ps_resource_version = None,
      ps_has_api = has_api, ps_reported_unavailable = False\<rparr>"

datatype read_answer =
    Read_failed "int option" \<comment> \<open>the HTTP status of the exception, if it has one\<close>
  | Read_map "string option" "string option" \<comment> \<open>resource version and the text under the data key\<close>

definition get_api :: "bool \<Rightarrow> priority_source \<Rightarrow> priority_source" where
  \<comment> \<open>the first argument: loading the in-cluster client succeeds\<close>
  "get_api loadable s =
     (if ps_has_api s then s
      else if loadable then s\<lparr>ps_has_api := True\<rparr>
      else s\<lparr>ps_reported_unavailable := True\<rparr>)"

definition poll_read :: "(string \<Rightarrow> json res) \<Rightarrow> read_answer \<Rightarrow> priority_source \<Rightarrow> priority_source \<times> pyerr option" where
  "poll_read loads answer s =
     (case answer of
        Read_failed status \<Rightarrow>
          if status = Some 404
          then (s\<lparr>ps_resource_version := None, ps_snapshot := ps_baseline s\<rparr>, None)
          else if status = Some 401 \<or> status = Some 403
          then (s\<lparr>ps_reported_unavailable := True\<rparr>, None)
          else (s, None)
      | Read_map version raw \<Rightarrow>
          if version \<noteq> None \<and> version \<noteq> Some [] \<and> version = ps_resource_version s
          then (s\<lparr>ps_reported_unavailable := False\<rparr>, None)
          else (case parse_config loads (ps_node_name s) raw of
                  Inr tiers \<Rightarrow>
                    (s\<lparr>ps_snapshot := dmerge (ps_baseline s) tiers, ps_resource_version := version,
                       ps_reported_unavailable := False\<rparr>, None)
                | Inl TypeError \<Rightarrow> (s\<lparr>ps_reported_unavailable := True\<rparr>, None)
                | Inl (ValueError _) \<Rightarrow> (s\<lparr>ps_reported_unavailable := True\<rparr>, None)
                | Inl e \<Rightarrow> (s, Some e)))"

definition poll_config :: "(string \<Rightarrow> json res) \<Rightarrow> bool \<Rightarrow> read_answer \<Rightarrow> priority_source \<Rightarrow> priority_source \<times> (gpu, string) dict res" where
  "poll_config loads loadable answer s =
     (let s1 = get_api loadable s in
      if \<not> ps_has_api s1 then (s1, Ok (ps_snapshot s1))
      else case poll_read loads answer s1 of
        (s2, Some e) \<Rightarrow> (s2, Err e)
      | (s2, None) \<Rightarrow> (s2, Ok (ps_snapshot s2)))"

text \<open>The source over time: any sequence of answers from the API server.\<close>

inductive poll_step :: "(string \<Rightarrow> json res) \<Rightarrow> priority_source \<Rightarrow> priority_source \<Rightarrow> bool"
  for loads where
  poll: "poll_config loads loadable answer s = (s', r) \<Longrightarrow> poll_step loads s s'"

inductive_simps poll_step_iff: "poll_step loads s s'"

section \<open>Lemmas\<close>

lemma tier_of_valid: "tier_of v = Ok t \<Longrightarrow> t \<in> set VALID_TIERS"
  by (auto simp: tier_of_def split: json.splits if_splits)

lemma VALID_TIERS_weights: "set VALID_TIERS = set (dkeys TIER_WEIGHTS)"
  by (auto simp: VALID_TIERS_def TIER_WEIGHTS_def)

lemma parse_assignment_tier:
  "parse_assignment node a = Ok (Some (g, Candidate r b t)) \<Longrightarrow> t \<in> set VALID_TIERS \<and> r = ditem TIER_RANK t \<and> 0 \<le> g"
  by (auto simp: parse_assignment_def res_bind_Ok_iff gpu_index_of_def split: json.splits if_splits
           dest: tier_of_valid)

text \<open>The candidates of a list of assignments, in order.\<close>

definition candidates :: "string \<Rightarrow> json list \<Rightarrow> (gpu \<times> candidate) set" where
  "candidates node as = {(g, c). \<exists>a \<in> set as. parse_assignment node a = Ok (Some (g, c))}"

lemma candidates_simps [simp]:
  "candidates node [] = {}"
  "candidates node (a # as) = (case parse_assignment node a of Inr (Some p) \<Rightarrow> {p} | _ \<Rightarrow> {}) \<union> candidates node as"
  by (auto simp: candidates_def split: sum.split option.split)

lemma better_trans: "better a b \<Longrightarrow> \<not> better c b \<Longrightarrow> \<not> better c a"
  by (cases a; cases b; cases c) (auto simp: better_def)

lemma better_irrefl: "\<not> better a a"
  by (cases a) (simp add: better_def)

lemma not_better_trans: "\<not> better a b \<Longrightarrow> \<not> better b c \<Longrightarrow> \<not> better a c"
  by (cases a; cases b; cases c) (auto simp: better_def)

text \<open>What the table holds: for each GPU a candidate that no candidate seen is better than.\<close>

definition best_of :: "(gpu, candidate) dict \<Rightarrow> (gpu \<times> candidate) set \<Rightarrow> bool" where
  "best_of m C \<longleftrightarrow>
     (\<forall>g c. map_of m g = Some c \<longrightarrow> (g, c) \<in> C \<and> (\<forall>c'. (g, c') \<in> C \<longrightarrow> \<not> better c' c)) \<and>
     (\<forall>g c. (g, c) \<in> C \<longrightarrow> map_of m g \<noteq> None)"

lemma best_of_select:
  assumes "best_of m C"
  shows "best_of (select_better m g c) (insert (g, c) C)"
proof (cases "map_of m g")
  case None
  then have "(g, c') \<notin> C" for c' using assms unfolding best_of_def by blast
  with None assms show ?thesis
    unfolding best_of_def select_better_def
    by (auto simp: better_irrefl)
next
  case (Some c0)
  then have c0: "(g, c0) \<in> C" "\<And>c'. (g, c') \<in> C \<Longrightarrow> \<not> better c' c0"
    using assms unfolding best_of_def by blast+
  show ?thesis
  proof (cases "better c c0")
    case True
    then have "\<not> better c' c" if "(g, c') \<in> C" for c' using better_trans c0(2) [OF that] by blast
    with True Some assms show ?thesis
      unfolding best_of_def select_better_def
      by (auto simp: better_irrefl)
  next
    case False
    with Some assms show ?thesis unfolding best_of_def select_better_def by auto
  qed
qed

lemma select_loop_best:
  "select_loop node as m = Ok m' \<Longrightarrow> best_of m C \<Longrightarrow> best_of m' (C \<union> candidates node as)"
proof (induction as arbitrary: m C)
  case Nil
  then show ?case by simp
next
  case (Cons a as)
  from Cons.prems(1) obtain r where r: "parse_assignment node a = Ok r"
    and rest: "select_loop node as (case r of None \<Rightarrow> m | Some (g, c) \<Rightarrow> select_better m g c) = Ok m'"
    by (auto simp: res_bind_Ok_iff)
  show ?case
  proof (cases r)
    case None
    with r rest Cons show ?thesis by simp
  next
    case (Some p)
    obtain g c where p: "p = (g, c)" by (cases p)
    have "best_of (select_better m g c) (insert (g, c) C)" by (rule best_of_select [OF Cons.prems(2)])
    from Cons.IH [OF _ this] rest r Some p show ?thesis by simp
  qed
qed

lemma wf_select_better: "wf_dict m \<Longrightarrow> wf_dict (select_better m g c)"
  by (simp add: select_better_def split: option.split)

lemma wf_select_loop: "select_loop node as m = Ok m' \<Longrightarrow> wf_dict m \<Longrightarrow> wf_dict m'"
  by (induction as arbitrary: m) (auto simp: res_bind_Ok_iff wf_select_better split: option.splits prod.splits)

text \<open>A parsed configuration: the tiers are valid and each GPU has the best of its assignments.\<close>

lemma parse_config_Ok:
  assumes "parse_config loads node raw = Ok m"
  obtains js d as sel where "raw = Some js" "loads js = Ok (JObj d)" "map_of d ''assignments'' = Some (JList as)"
    "json_is_one (dget_or d ''schemaVersion'' JNull)" "select_loop node as [] = Ok sel"
    "m = map_ran (\<lambda>g. cand_tier) sel"
proof -
  from assms obtain js payload where t: "raw = Some js" "loads js = Ok payload"
    by (auto simp: parse_config_def res_bind_Ok_iff split: option.splits)
  with assms obtain d where d: "payload = JObj d" "json_is_one (dget_or d ''schemaVersion'' JNull)"
    by (auto simp: parse_config_def split: json.splits if_split_asm)
  with assms t obtain as sel where "dget_or d ''assignments'' JNull = JList as" "select_loop node as [] = Ok sel"
    "m = map_ran (\<lambda>g. cand_tier) sel"
    by (cases "dget_or d ''assignments'' JNull") (auto simp: parse_config_def res_bind_Ok_iff)
  with t d that show thesis by (auto simp: dget_or_def split: option.splits)
qed

lemma parse_config_best:
  assumes "parse_config loads node raw = Ok m" and g: "map_of m g = Some tier"
  shows "\<exists>js d as b. raw = Some js \<and> loads js = Ok (JObj d) \<and> map_of d ''assignments'' = Some (JList as) \<and>
     (g, Candidate (ditem TIER_RANK tier) b tier) \<in> candidates node as \<and>
     (\<forall>c'. (g, c') \<in> candidates node as \<longrightarrow> \<not> better c' (Candidate (ditem TIER_RANK tier) b tier)) \<and> tier \<in> set VALID_TIERS"
proof -
  from parse_config_Ok [OF assms(1)] obtain js d as sel where
    t: "raw = Some js" "loads js = Ok (JObj d)" "map_of d ''assignments'' = Some (JList as)" and
    sel: "select_loop node as [] = Ok sel" and m: "m = map_ran (\<lambda>g. cand_tier) sel" by metis
  have best: "best_of sel (candidates node as)"
    using select_loop_best [OF sel, of "{}"] by (simp add: best_of_def)
  from g obtain c0 where "map_of sel g = Some c0" "cand_tier c0 = tier" by (auto simp: m map_ran_conv)
  then obtain r b where c: "map_of sel g = Some (Candidate r b tier)" by (cases c0) simp
  then have in_c: "(g, Candidate r b tier) \<in> candidates node as" using best unfolding best_of_def by blast
  then have "tier \<in> set VALID_TIERS \<and> r = ditem TIER_RANK tier"
    unfolding candidates_def using parse_assignment_tier by blast
  then show ?thesis using t in_c c best unfolding best_of_def by blast
qed

lemma valid_tiers_map: "wf_dict m \<Longrightarrow> valid_tiers m \<longleftrightarrow> (\<forall>g t. map_of m g = Some t \<longrightarrow> t \<in> set VALID_TIERS)"
  unfolding valid_tiers_def VALID_TIERS_weights by (rule wf_map_of_vals)

lemma parse_config_wf: "parse_config loads node raw = Ok m \<Longrightarrow> wf_dict m"
  by (erule parse_config_Ok) (auto dest: wf_select_loop)

lemma valid_tiers_merge:
  assumes "wf_dict b" "valid_tiers b" "parse_config loads node raw = Ok m"
  shows "wf_dict (dmerge b m) \<and> valid_tiers (dmerge b m)"
proof -
  have m: "wf_dict m" by (rule parse_config_wf [OF assms(3)])
  have "t \<in> set VALID_TIERS" if "map_of m g = Some t" for g t
    using parse_config_best [OF assms(3) that] by blast
  moreover have "t \<in> set VALID_TIERS" if "map_of b g = Some t" for g t
    using assms(1,2) that valid_tiers_map by blast
  ultimately show ?thesis
    using assms(1) m by (auto simp: valid_tiers_map split: option.splits)
qed

text \<open>The invariant of the source: baseline and snapshot name valid tiers only.\<close>

definition source_ok :: "priority_source \<Rightarrow> bool" where
  "source_ok s \<longleftrightarrow> wf_dict (ps_baseline s) \<and> valid_tiers (ps_baseline s) \<and>
     wf_dict (ps_snapshot s) \<and> valid_tiers (ps_snapshot s)"

lemma get_api_sel [simp]:
  "ps_baseline (get_api l s) = ps_baseline s" "ps_snapshot (get_api l s) = ps_snapshot s"
  "ps_node_name (get_api l s) = ps_node_name s" "ps_resource_version (get_api l s) = ps_resource_version s"
  by (simp_all add: get_api_def)

lemma poll_read_cases:
  "poll_read loads answer s = (s', e) \<Longrightarrow>
     ps_baseline s' = ps_baseline s \<and> ps_node_name s' = ps_node_name s \<and>
     (ps_snapshot s' = ps_snapshot s \<or>
      ps_snapshot s' = ps_baseline s \<and> answer = Read_failed (Some 404) \<or>
      (\<exists>version raw tiers. answer = Read_map version raw \<and> parse_config loads (ps_node_name s) raw = Ok tiers \<and>
         ps_snapshot s' = dmerge (ps_baseline s) tiers \<and> ps_resource_version s' = version))"
  unfolding poll_read_def
  by (auto split: read_answer.splits if_split_asm sum.splits pyerr.splits)

lemma poll_config_source:
  "poll_config loads l answer s = (s', r) \<Longrightarrow> s' = get_api l s \<or> (\<exists>e. poll_read loads answer (get_api l s) = (s', e))"
  by (auto simp: poll_config_def Let_def split: if_split_asm prod.splits option.splits)

lemma poll_step_ok:
  assumes "poll_step loads s s'" "source_ok s"
  shows "source_ok s'"
proof -
  from assms(1) obtain l answer r where "poll_config loads l answer s = (s', r)" by (auto simp: poll_step_iff)
  from poll_config_source [OF this] show ?thesis
  proof
    assume "s' = get_api l s"
    with assms(2) show ?thesis by (simp add: source_ok_def)
  next
    assume "\<exists>e. poll_read loads answer (get_api l s) = (s', e)"
    then obtain e where "poll_read loads answer (get_api l s) = (s', e)" ..
    from poll_read_cases [OF this] assms(2) valid_tiers_merge show ?thesis
      unfolding source_ok_def get_api_sel by metis
  qed
qed

section \<open>Properties\<close>

lemma poll_steps_ok:
  "(poll_step loads)\<^sup>*\<^sup>* s s' \<Longrightarrow> source_ok s \<Longrightarrow> source_ok s' \<and> ps_baseline s' = ps_baseline s"
proof (induction rule: rtranclp_induct)
  case (step s1 s2)
  have "ps_baseline s2 = ps_baseline s1"
    using step(2) by (auto simp: poll_step_iff dest!: poll_config_source poll_read_cases)
  with step poll_step_ok [OF step(2)] show ?case by simp
qed simp

text \<open>Whatever the API server answers, poll after poll, the tiers the source exposes are valid,
  so replacing the tiers of the brain by a snapshot never raises; and the baseline given on
  the command line is never changed.\<close>

theorem snapshots_always_valid:
  assumes run: "(poll_step loads)\<^sup>*\<^sup>* (priority_source_init node baseline has_api) s"
    and base: "wf_dict baseline" "valid_tiers baseline"
  shows "set_tiers b (ps_snapshot s) = Ok (b\<lparr>pr_tiers := ps_snapshot s\<rparr>) \<and> ps_baseline s = baseline"
proof -
  have "source_ok (priority_source_init node baseline has_api)"
    using base by (simp add: source_ok_def priority_source_init_def)
  from poll_steps_ok [OF run this] show ?thesis
    by (simp add: set_tiers_def source_ok_def priority_source_init_def)
qed

definition demo_assignment :: "string \<Rightarrow> int \<Rightarrow> string \<Rightarrow> json \<Rightarrow> json" where
  "demo_assignment node g tier boost = JObj [(''nodeName'', JStr node), (''gpuIndex'', JInt g),
     (''priorityClass'', JStr tier), (''gpuBoostPct'', boost)]"

definition demo_payload :: json where
  "demo_payload = JObj [(''schemaVersion'', JInt 1), (''assignments'', JList
     [demo_assignment ''n0'' 0 ''high'' (JInt 20), demo_assignment ''n1'' 0 ''critical'' (JInt 20),
      demo_assignment ''n0'' 0 ''normal'' (JInt 90)])]"

lemma demo_parse: "parse_config (\<lambda>_. Ok demo_payload) ''n0'' (Some ''x'') = Ok [(0, ''high'')]"
  using float_overflow_small [of 20] float_overflow_small [of 90]
  by (simp add: parse_config_def demo_payload_def demo_assignment_def json_is_one_def parse_assignment_def
      gpu_index_of_def tier_of_def boost_of_def json_float_def VALID_TIERS_def TIER_RANK_def ditem_def
      select_better_def better_def)

lemma demo_baseline: "wf_dict [(1, ''low'')]" "valid_tiers [(1, ''low'')]"
  by (simp_all add: valid_tiers_def TIER_WEIGHTS_def)

lemma demo_poll: "poll_config (\<lambda>_. Ok demo_payload) True (Read_map (Some ''7'') (Some ''x''))
      (priority_source_init ''n0'' [(1, ''low'')] True)
    = (\<lparr>ps_node_name = ''n0'', ps_baseline = [(1, ''low'')], ps_snapshot = [(1, ''low''), (0, ''high'')],
        ps_resource_version = Some ''7'', ps_has_api = True, ps_reported_unavailable = False\<rparr>,
       Ok [(1, ''low''), (0, ''high'')])"
  by (simp add: poll_config_def get_api_def priority_source_init_def poll_read_def demo_parse dmerge_def)

theorem snapshots_always_valid_witness:
  "\<exists>s. (poll_step (\<lambda>_. Ok demo_payload))\<^sup>*\<^sup>* (priority_source_init ''n0'' [(1, ''low'')] True) s \<and>
     ps_snapshot s = [(1, ''low''), (0, ''high'')] \<and>
     set_tiers demo_priority (ps_snapshot s) = Ok (demo_priority\<lparr>pr_tiers := ps_snapshot s\<rparr>)"
proof -
  let ?s = "fst (poll_config (\<lambda>_. Ok demo_payload) True (Read_map (Some ''7'') (Some ''x''))
      (priority_source_init ''n0'' [(1, ''low'')] True))"
  have "poll_step (\<lambda>_. Ok demo_payload) (priority_source_init ''n0'' [(1, ''low'')] True) ?s"
    unfolding poll_step_iff by (metis prod.collapse)
  then have run: "(poll_step (\<lambda>_. Ok demo_payload))\<^sup>*\<^sup>* (priority_source_init ''n0'' [(1, ''low'')] True) ?s" by blast
  moreover have "ps_snapshot ?s = [(1, ''low''), (0, ''high'')]" by (simp add: demo_poll)
  ultimately show ?thesis using snapshots_always_valid [OF run demo_baseline, of demo_priority] by blast
qed

text \<open>C32. One poll: a missing ConfigMap restores the baseline; an unreadable one, or a text that is
  not an object of the right schema, keeps the last good snapshot; a good one gives every GPU
  it assigns on this node the tier of its best assignment, by tier and then by boost, over
  the baseline, which every other GPU keeps; and a poll that does not raise returns what
  \<open>snapshot\<close> then returns.\<close>

theorem poll_outcomes:
  assumes api: "ps_has_api s" and poll: "poll_config loads loadable answer s = (s', r)"
  shows "(answer = Read_failed (Some 404) \<longrightarrow> ps_snapshot s' = ps_baseline s) \<and>
    (\<forall>code. answer = Read_failed code \<longrightarrow> code \<noteq> Some 404 \<longrightarrow> ps_snapshot s' = ps_snapshot s) \<and>
    (\<forall>version raw e. answer = Read_map version raw \<longrightarrow> parse_config loads (ps_node_name s) raw = Err e \<longrightarrow>
       ps_snapshot s' = ps_snapshot s \<and> ps_resource_version s' = ps_resource_version s) \<and>
    (\<forall>version raw tiers. answer = Read_map version raw \<longrightarrow> parse_config loads (ps_node_name s) raw = Ok tiers \<longrightarrow>
       \<not> (version \<noteq> None \<and> version \<noteq> Some [] \<and> version = ps_resource_version s) \<longrightarrow>
       (\<forall>g. map_of tiers g = None \<longrightarrow> map_of (ps_snapshot s') g = map_of (ps_baseline s) g) \<and>
       (\<forall>g tier. map_of tiers g = Some tier \<longrightarrow> map_of (ps_snapshot s') g = Some tier \<and>
          (\<exists>js d as b. raw = Some js \<and> loads js = Ok (JObj d) \<and> map_of d ''assignments'' = Some (JList as) \<and>
             (g, Candidate (ditem TIER_RANK tier) b tier) \<in> candidates (ps_node_name s) as \<and>
             (\<forall>c'. (g, c') \<in> candidates (ps_node_name s) as \<longrightarrow> \<not> better c' (Candidate (ditem TIER_RANK tier) b tier))))) \<and>
    (\<forall>m. r = Ok m \<longrightarrow> m = ps_snapshot s')"
proof -
  have s1: "get_api loadable s = s" using api by (simp add: get_api_def)
  obtain s2 e where e2: "poll_read loads answer s = (s2, e)" by (cases "poll_read loads answer s")
  then have e: "poll_read loads answer s = (s', e)" and ret: "r = Ok m \<Longrightarrow> m = ps_snapshot s'" for m
    using poll api by (auto simp: poll_config_def s1 split: option.splits)
  have keep: "ps_snapshot s' = ps_snapshot s \<and> ps_resource_version s' = ps_resource_version s"
    if "answer = Read_map version raw" "parse_config loads (ps_node_name s) raw = Err x" for version raw x
    using e that by (auto simp: poll_read_def split: if_split_asm pyerr.splits)
  have good: "ps_snapshot s' = dmerge (ps_baseline s) tiers"
    if "answer = Read_map version raw" "parse_config loads (ps_node_name s) raw = Ok tiers"
      "\<not> (version \<noteq> None \<and> version \<noteq> Some [] \<and> version = ps_resource_version s)" for version raw tiers
    using e that by (auto simp: poll_read_def split: if_split_asm)
  let ?best = "\<lambda>raw tiers. (\<forall>g. map_of tiers g = None \<longrightarrow> map_of (ps_snapshot s') g = map_of (ps_baseline s) g) \<and>
       (\<forall>g tier. map_of tiers g = Some tier \<longrightarrow> map_of (ps_snapshot s') g = Some tier \<and>
          (\<exists>js d as b. raw = Some js \<and> loads js = Ok (JObj d) \<and> map_of d ''assignments'' = Some (JList as) \<and>
             (g, Candidate (ditem TIER_RANK tier) b tier) \<in> candidates (ps_node_name s) as \<and>
             (\<forall>c'. (g, c') \<in> candidates (ps_node_name s) as \<longrightarrow> \<not> better c' (Candidate (ditem TIER_RANK tier) b tier))))"
  have best: "?best raw tiers"
    if a: "answer = Read_map version raw" "parse_config loads (ps_node_name s) raw = Ok tiers"
      "\<not> (version \<noteq> None \<and> version \<noteq> Some [] \<and> version = ps_resource_version s)" for version raw tiers
  proof -
    have snap: "map_of (ps_snapshot s') g = (case map_of tiers g of None \<Rightarrow> map_of (ps_baseline s) g | Some v \<Rightarrow> Some v)" for g
      by (simp only: good [OF a] map_of_dmerge [OF parse_config_wf [OF a(2)]])
    show ?thesis
    proof (intro conjI allI impI)
      fix g tier assume "map_of tiers g = Some tier"
      then show "\<exists>js d as b. raw = Some js \<and> loads js = Ok (JObj d) \<and> map_of d ''assignments'' = Some (JList as) \<and>
             (g, Candidate (ditem TIER_RANK tier) b tier) \<in> candidates (ps_node_name s) as \<and>
             (\<forall>c'. (g, c') \<in> candidates (ps_node_name s) as \<longrightarrow> \<not> better c' (Candidate (ditem TIER_RANK tier) b tier))"
        using parse_config_best [OF a(2)] by blast
    qed (simp_all add: snap)
  qed
  have missing: "answer = Read_failed (Some 404) \<longrightarrow> ps_snapshot s' = ps_baseline s"
    and failed: "answer = Read_failed code \<longrightarrow> code \<noteq> Some 404 \<longrightarrow> ps_snapshot s' = ps_snapshot s" for code
    using e by (auto simp: poll_read_def split: if_split_asm)
  have "\<forall>code. answer = Read_failed code \<longrightarrow> code \<noteq> Some 404 \<longrightarrow> ps_snapshot s' = ps_snapshot s"
    using failed by blast
  moreover have "\<forall>version raw e. answer = Read_map version raw \<longrightarrow> parse_config loads (ps_node_name s) raw = Err e \<longrightarrow>
       ps_snapshot s' = ps_snapshot s \<and> ps_resource_version s' = ps_resource_version s"
    using keep by blast
  moreover have "\<forall>version raw tiers. answer = Read_map version raw \<longrightarrow> parse_config loads (ps_node_name s) raw = Ok tiers \<longrightarrow>
       \<not> (version \<noteq> None \<and> version \<noteq> Some [] \<and> version = ps_resource_version s) \<longrightarrow> ?best raw tiers"
    by (intro allI impI, rule best)
  moreover have "\<forall>m. r = Ok m \<longrightarrow> m = ps_snapshot s'" using ret by simp
  ultimately show ?thesis using missing by (intro conjI)
qed

theorem poll_outcomes_witness:
  "\<exists>b. (0, Candidate (ditem TIER_RANK ''high'') b ''high'') \<in> candidates ''n0''
      [demo_assignment ''n0'' 0 ''high'' (JInt 20), demo_assignment ''n1'' 0 ''critical'' (JInt 20),
       demo_assignment ''n0'' 0 ''normal'' (JInt 90)]"
proof -
  let ?s = "priority_source_init ''n0'' [(1, ''low'')] True"
  have "ps_has_api ?s" and n: "ps_node_name ?s = ''n0''" and v: "ps_resource_version ?s = None"
    by (simp_all add: priority_source_init_def)
  note best = poll_outcomes [OF this(1) demo_poll, THEN conjunct2, THEN conjunct2, THEN conjunct2, THEN conjunct1,
      THEN spec, THEN spec, THEN spec, THEN mp, OF refl, unfolded n v, of "[(0, ''high'')]"]
  have "\<exists>js d as b. Some ''x'' = Some js \<and> Ok demo_payload = (Ok (JObj d) :: json res) \<and> map_of d ''assignments'' = Some (JList as) \<and>
       (0, Candidate (ditem TIER_RANK ''high'') b ''high'') \<in> candidates ''n0'' as"
    using best [THEN mp, OF demo_parse, THEN mp, THEN conjunct2, THEN spec, THEN spec, of 0 "''high''"] by auto
  then show ?thesis by (auto simp: demo_payload_def)
qed

text \<open>Bad data can still end the loop that polls: a boost with more digits than a float can hold
  raises \<open>OverflowError\<close>, which is not among the exceptions the poll handles.\<close>

theorem poll_overflow_escapes:
  assumes "loads txt = Ok (JObj [(''schemaVersion'', JInt 1), (''assignments'', JList [demo_assignment ''n0'' 0 ''high'' (JInt (10 ^ 400))])])"
  shows "poll_config loads True (Read_map (Some ''7'') (Some txt)) (priority_source_init ''n0'' baseline True)
    = (priority_source_init ''n0'' baseline True, Err OverflowError)"
proof -
  have "(2 :: real) ^ 1024 \<le> 2 ^ 1200" by (rule power_increasing) simp_all
  also have "\<dots> = 8 ^ 400" using power_mult [of "2 :: real" 3 400] by simp
  also have "\<dots> \<le> 10 ^ 400" by (rule power_mono) simp_all
  finally have "(2 :: real) ^ 1024 \<le> 10 ^ 400" .
  moreover have "0 \<le> (2 :: real) ^ 970" by (rule zero_le_power) simp
  ultimately have big: "float_overflow \<le> 10 ^ 400" unfolding float_overflow_def by linarith
  have ov: "json_float (JInt (10 ^ 400)) = Err OverflowError"
    using big unfolding json_float_def json.case by (simp only: of_int_power power_abs of_int_numeral abs_numeral if_True)
  have "parse_assignment ''n0'' (demo_assignment ''n0'' 0 ''high'' (JInt (10 ^ 400))) = Err OverflowError"
    unfolding parse_assignment_def demo_assignment_def json.case dget_or_simps
    by (simp add: gpu_index_of_def tier_of_def VALID_TIERS_def boost_of_def ov del: power_numeral)
  then have "parse_config loads ''n0'' (Some txt) = Err OverflowError"
    unfolding parse_config_def option.case assms res_bind_simps json.case dget_or_simps
    by (simp add: json_is_one_def del: power_numeral)
  then show ?thesis
    by (simp add: poll_config_def get_api_def priority_source_init_def poll_read_def)
qed

theorem poll_overflow_escapes_witness:
  "snd (poll_config (\<lambda>_. Ok (JObj [(''schemaVersion'', JInt 1), (''assignments'', JList [demo_assignment ''n0'' 0 ''high'' (JInt (10 ^ 400))])]))
     True (Read_map (Some ''7'') (Some ''x'')) (priority_source_init ''n0'' [] True)) = Err OverflowError"
  by (subst poll_overflow_escapes) (rule refl, rule snd_conv)

end
