(* ===== verification/Sim.thy ===== *)
theory Sim
  imports Prelude
begin

text \<open>
  \<open>sim/protocol.py\<close>, \<open>sim/backend.py\<close> and \<open>sim/presets.py\<close>: the actuator protocol as the locale
  \<open>actuator\<close>, and the simulated GPU fleet that interprets it. The random generator is a state
  and a function that draws a number in [0, 1) from it; \<open>uniform\<close> is the library's formula
  over that draw.
\<close>

section \<open>The actuator protocol\<close>

text \<open>The laws the control code relies on: a cap set is what is read back, clamped to what the
  hardware allows, other GPUs are not touched, and an index the fleet does not have raises.\<close>

locale actuator =
  fixes inv :: "'s \<Rightarrow> bool"
    and set_power_cap :: "'s \<Rightarrow> gpu \<Rightarrow> watts \<Rightarrow> 's res"
    and get_power_cap :: "'s \<Rightarrow> gpu \<Rightarrow> watts res"
    and get_power_draw :: "'s \<Rightarrow> gpu \<Rightarrow> watts res"
    and known :: "'s \<Rightarrow> gpu \<Rightarrow> bool"
  assumes set_known: "inv s \<Longrightarrow> known s g \<Longrightarrow> \<exists>s' c. set_power_cap s g w = Ok s' \<and> get_power_cap s' g = Ok c \<and> c \<le> max 0 w"
    and set_inv: "inv s \<Longrightarrow> set_power_cap s g w = Ok s' \<Longrightarrow> inv s'"
    and set_other: "set_power_cap s g w = Ok s' \<Longrightarrow> g' \<noteq> g \<Longrightarrow>
      get_power_cap s' g' = get_power_cap s g' \<and> get_power_draw s' g' = get_power_draw s g'"
    and set_knows: "set_power_cap s g w = Ok s' \<Longrightarrow> known s' g' \<longleftrightarrow> known s g'"
    and read_known: "inv s \<Longrightarrow> known s g \<Longrightarrow> \<exists>c d. get_power_cap s g = Ok c \<and> get_power_draw s g = Ok d"
    and unknown: "\<not> known s g \<Longrightarrow> (\<exists>e. get_power_draw s g = Err e) \<and> (\<exists>e. set_power_cap s g w = Err e)"

text \<open>An actuator whose GPUs never draw more than their cap.\<close>

locale capped_actuator = actuator +
  assumes draw_le_cap: "inv s \<Longrightarrow> get_power_cap s g = Ok c \<Longrightarrow> get_power_draw s g = Ok d \<Longrightarrow> d \<le> c"

section \<open>Simulated GPUs\<close>

definition LOAD_EFFICIENCY :: real where
  "LOAD_EFFICIENCY = 85 / 100"

definition IDLE_POWER_W :: watts where
  "IDLE_POWER_W = 50"

record load_profile =
  base_util_pct :: real
  util_noise :: real
  idle_fraction :: real

type_synonym 'r rng = "'r \<Rightarrow> real \<times> 'r"

definition uniform :: "'r rng \<Rightarrow> real \<Rightarrow> real \<Rightarrow> 'r \<Rightarrow> real \<times> 'r" where
  \<comment> \<open>\<open>rng.uniform(a, b)\<close>\<close>
  "uniform rand a b r = (case rand r of (u, r') \<Rightarrow> (a + (b - a) * u, r'))"

definition sample_util :: "'r rng \<Rightarrow> load_profile \<Rightarrow> 'r \<Rightarrow> real \<times> 'r" where
  "sample_util rand p r =
     (let (idle, r1) =
        (if 0 < idle_fraction p then (case rand r of (u, r') \<Rightarrow> (u < idle_fraction p, r')) else (False, r))
      in if idle then (case uniform rand 2 8 r1 of (x, r2) \<Rightarrow> (max 0 x, r2))
         else (case uniform rand (- util_noise p) (util_noise p) r1 of
                 (noise, r2) \<Rightarrow> (max 0 (min 100 (base_util_pct p + noise)), r2)))"

record 'r sim_gpu =
  sg_index :: gpu
  sg_cap_w :: watts
  sg_max_cap_w :: watts
  sg_load :: load_profile
  sg_rng :: 'r
  sg_current_util :: real

definition sim_gpu_init :: "'r rng \<Rightarrow> gpu \<Rightarrow> watts \<Rightarrow> watts \<Rightarrow> load_profile \<Rightarrow> 'r \<Rightarrow> 'r sim_gpu" where
  "sim_gpu_init rand i cap max_cap load r =
     (case sample_util rand load r of (u, r') \<Rightarrow>
        \<lparr>sg_index = i, sg_cap_w = cap, sg_max_cap_w = max_cap, sg_load = load, sg_rng = r', sg_current_util = u\<rparr>)"

definition resample :: "'r rng \<Rightarrow> 'r sim_gpu \<Rightarrow> 'r sim_gpu" where
  "resample rand g =
     (case sample_util rand (sg_load g) (sg_rng g) of (u, r') \<Rightarrow> g\<lparr>sg_current_util := u, sg_rng := r'\<rparr>)"

definition power_draw_w :: "'r sim_gpu \<Rightarrow> watts" where
  "power_draw_w g =
     min (sg_cap_w g * (sg_current_util g / 100) * LOAD_EFFICIENCY + IDLE_POWER_W) (sg_cap_w g)"

section \<open>The backend\<close>

type_synonym 'r sim = "(gpu, 'r sim_gpu) dict"

definition sim_backend :: "'r sim_gpu list \<Rightarrow> 'r sim" where
  "sim_backend gs = foldl (\<lambda>d g. dset (sg_index g) g d) [] gs"

definition sim_item :: "'r sim \<Rightarrow> gpu \<Rightarrow> 'r sim_gpu res" where
  "sim_item s i = (case map_of s i of None \<Rightarrow> Err (KeyError (string_of_int i)) | Some g \<Rightarrow> Ok g)"

definition sim_set_power_cap :: "'r sim \<Rightarrow> gpu \<Rightarrow> watts \<Rightarrow> 'r sim res" where
  "sim_set_power_cap s i w =
     res_bind (sim_item s i) (\<lambda>g. Ok (dset i (g\<lparr>sg_cap_w := min (max 0 w) (sg_max_cap_w g)\<rparr>) s))"

definition sim_get_power_cap :: "'r sim \<Rightarrow> gpu \<Rightarrow> watts res" where
  "sim_get_power_cap s i = res_bind (sim_item s i) (\<lambda>g. Ok (sg_cap_w g))"

definition sim_get_power_draw :: "'r sim \<Rightarrow> gpu \<Rightarrow> watts res" where
  "sim_get_power_draw s i = res_bind (sim_item s i) (\<lambda>g. Ok (power_draw_w g))"

definition sim_get_util_pct :: "'r sim \<Rightarrow> gpu \<Rightarrow> real res" where
  "sim_get_util_pct s i = res_bind (sim_item s i) (\<lambda>g. Ok (sg_current_util g))"

definition sim_get_max_cap_w :: "'r sim \<Rightarrow> gpu \<Rightarrow> watts res" where
  "sim_get_max_cap_w s i = res_bind (sim_item s i) (\<lambda>g. Ok (sg_max_cap_w g))"

definition sim_gpu_count :: "'r sim \<Rightarrow> nat" where
  "sim_gpu_count s = length s"

definition sim_tick :: "'r rng \<Rightarrow> 'r sim \<Rightarrow> 'r sim" where
  "sim_tick rand s = map_ran (\<lambda>_ g. resample rand g) s"

record gpu_reading =
  gr_index :: gpu
  gr_power_draw_w :: watts
  gr_cap_w :: watts
  gr_util_pct :: real

definition sim_snapshot :: "'r sim \<Rightarrow> gpu_reading list" where
  "sim_snapshot s =
     map (\<lambda>g. \<lparr>gr_index = sg_index g, gr_power_draw_w = power_draw_w g, gr_cap_w = sg_cap_w g,
               gr_util_pct = sg_current_util g\<rparr>) (sort_key sg_index (dvals s))"

section \<open>Scenarios\<close>

definition oversub_scenario :: "'r rng \<Rightarrow> (int \<Rightarrow> 'r) \<Rightarrow> nat \<Rightarrow> watts \<Rightarrow> real \<Rightarrow> int \<Rightarrow> 'r sim" where
  \<comment> \<open>the second argument is \<open>random.Random\<close>, from seeds to generators\<close>
  "oversub_scenario rand seeded n_gpus cap_w hot_fraction seed =
     (let n_hot = round_half_even (real n_gpus * hot_fraction) in
      sim_backend (map (\<lambda>i.
        sim_gpu_init rand (int i) cap_w cap_w
          (if int i < n_hot then \<lparr>base_util_pct = 90, util_noise = 5, idle_fraction = 0\<rparr>
           else \<lparr>base_util_pct = 10, util_noise = 3, idle_fraction = 0\<rparr>)
          (seeded (seed + int i))) [0..<n_gpus]))"

definition uniform_load :: "'r rng \<Rightarrow> (int \<Rightarrow> 'r) \<Rightarrow> nat \<Rightarrow> watts \<Rightarrow> real \<Rightarrow> int \<Rightarrow> 'r sim" where
  "uniform_load rand seeded n_gpus cap_w util_pct seed =
     sim_backend (map (\<lambda>i.
       sim_gpu_init rand (int i) cap_w cap_w \<lparr>base_util_pct = util_pct, util_noise = 5, idle_fraction = 0\<rparr>
         (seeded (seed + int i))) [0..<n_gpus])"

section \<open>Invariant\<close>

definition sim_gpu_ok :: "'r sim_gpu \<Rightarrow> bool" where
  "sim_gpu_ok g \<longleftrightarrow> 0 \<le> sg_cap_w g \<and> sg_cap_w g \<le> sg_max_cap_w g \<and>
     0 \<le> sg_current_util g \<and> sg_current_util g \<le> 100"

definition sim_inv :: "'r sim \<Rightarrow> bool" where
  "sim_inv s \<longleftrightarrow> wf_dict s \<and> (\<forall>(i, g) \<in> set s. sg_index g = i \<and> sim_gpu_ok g)"

definition good_rng :: "'r rng \<Rightarrow> bool" where
  "good_rng rand \<longleftrightarrow> (\<forall>r. 0 \<le> fst (rand r) \<and> fst (rand r) < 1)"

lemma uniform_range: "good_rng rand \<Longrightarrow> a \<le> b \<Longrightarrow> a \<le> fst (uniform rand a b r) \<and> fst (uniform rand a b r) \<le> b"
proof -
  assume g: "good_rng rand" and ab: "a \<le> b"
  obtain u r' where u: "rand r = (u, r')" by (cases "rand r")
  have "0 \<le> u" "u \<le> 1" using g u unfolding good_rng_def by (metis fst_conv less_imp_le)+
  then have "0 \<le> (b - a) * u" "(b - a) * u \<le> (b - a) * 1" using ab by (simp, intro mult_left_mono) simp_all
  then show ?thesis by (simp add: uniform_def u)
qed

lemma sample_util_range:
  assumes "good_rng rand"
  shows "0 \<le> fst (sample_util rand p r) \<and> fst (sample_util rand p r) \<le> 100"
proof -
  obtain idle r1 where i: "(if 0 < idle_fraction p then (case rand r of (u, r') \<Rightarrow> (u < idle_fraction p, r')) else (False, r)) = (idle, r1)"
    by (cases "if 0 < idle_fraction p then (case rand r of (u, r') \<Rightarrow> (u < idle_fraction p, r')) else (False, r)")
  obtain x r2 where x: "uniform rand 2 8 r1 = (x, r2)" by (cases "uniform rand 2 8 r1")
  obtain y r3 where y: "uniform rand (- util_noise p) (util_noise p) r1 = (y, r3)"
    by (cases "uniform rand (- util_noise p) (util_noise p) r1")
  have "x \<le> 8" using uniform_range [OF assms, of 2 8 r1] x by simp
  then show ?thesis by (simp add: sample_util_def i x y)
qed

lemma power_draw_le_cap: "power_draw_w g \<le> sg_cap_w g"
  by (simp add: power_draw_w_def)

lemma power_draw_nonneg: "sim_gpu_ok g \<Longrightarrow> 0 \<le> power_draw_w g"
  by (simp add: power_draw_w_def sim_gpu_ok_def LOAD_EFFICIENCY_def IDLE_POWER_W_def add_nonneg_nonneg)

lemma sim_item_Ok: "sim_item s i = Ok g \<longleftrightarrow> map_of s i = Some g"
  by (auto simp: sim_item_def split: option.split)

lemma sim_inv_item: "sim_inv s \<Longrightarrow> map_of s i = Some g \<Longrightarrow> sg_index g = i \<and> sim_gpu_ok g"
  by (auto simp: sim_inv_def dest: map_of_SomeD)

lemma sim_invI:
  "wf_dict s \<Longrightarrow> (\<And>i g. map_of s i = Some g \<Longrightarrow> sg_index g = i \<and> sim_gpu_ok g) \<Longrightarrow> sim_inv s"
  by (auto simp: sim_inv_def)

lemma sim_set_inv:
  assumes "sim_inv s" "sim_set_power_cap s i w = Ok s'"
  shows "sim_inv s'"
proof -
  from assms(2) obtain g where g: "map_of s i = Some g"
    and s': "s' = dset i (g\<lparr>sg_cap_w := min (max 0 w) (sg_max_cap_w g)\<rparr>) s"
    by (auto simp: sim_set_power_cap_def res_bind_Ok_iff sim_item_Ok)
  have "sg_index g = i \<and> sim_gpu_ok g" by (rule sim_inv_item [OF assms(1) g])
  then have "sim_gpu_ok (g\<lparr>sg_cap_w := min (max 0 w) (sg_max_cap_w g)\<rparr>)" "sg_index g = i"
    by (auto simp: sim_gpu_ok_def)
  then show ?thesis
    unfolding s' using assms(1) sim_inv_item [OF assms(1)]
    by (intro sim_invI) (auto simp: sim_inv_def split: if_splits)
qed

lemma sim_tick_inv:
  assumes "sim_inv s" "good_rng rand"
  shows "sim_inv (sim_tick rand s)"
proof (rule sim_invI)
  show "wf_dict (sim_tick rand s)" using assms(1) by (simp add: sim_tick_def sim_inv_def)
  fix i g assume "map_of (sim_tick rand s) i = Some g"
  then obtain g0 where g0: "map_of s i = Some g0" and g: "g = resample rand g0" by (auto simp: sim_tick_def map_ran_conv)
  obtain u r' where u: "sample_util rand (sg_load g0) (sg_rng g0) = (u, r')" by (cases "sample_util rand (sg_load g0) (sg_rng g0)")
  have "0 \<le> u \<and> u \<le> 100" using sample_util_range [OF assms(2), of "sg_load g0" "sg_rng g0"] u by simp
  then show "sg_index g = i \<and> sim_gpu_ok g"
    using sim_inv_item [OF assms(1) g0] by (simp add: g resample_def u sim_gpu_ok_def)
qed

lemma sim_init_ok: "good_rng rand \<Longrightarrow> 0 \<le> cap \<Longrightarrow> cap \<le> m \<Longrightarrow>
    sim_gpu_ok (sim_gpu_init rand i cap m load r) \<and> sg_index (sim_gpu_init rand i cap m load r) = i"
proof -
  assume "good_rng rand" and c: "0 \<le> cap" "cap \<le> m"
  then have "0 \<le> fst (sample_util rand load r) \<and> fst (sample_util rand load r) \<le> 100" by (intro sample_util_range)
  with c show ?thesis by (cases "sample_util rand load r") (simp add: sim_gpu_init_def sim_gpu_ok_def)
qed

lemma sim_backend_inv: "\<forall>g \<in> set gs. sim_gpu_ok g \<Longrightarrow> sim_inv (sim_backend gs)"
proof -
  assume ok: "\<forall>g \<in> set gs. sim_gpu_ok g"
  have "sim_inv d \<Longrightarrow> sim_inv (foldl (\<lambda>d g. dset (sg_index g) g d) d gs)" for d
    using ok
  proof (induction gs arbitrary: d)
    case (Cons g gs)
    have "sim_inv (dset (sg_index g) g d)"
      using Cons.prems sim_inv_item [OF Cons.prems(1)] by (intro sim_invI) (auto simp: sim_inv_def split: if_splits)
    with Cons show ?case by simp
  qed simp
  from this [of "[]"] show ?thesis by (simp add: sim_backend_def sim_inv_def)
qed

interpretation sim: capped_actuator sim_inv sim_set_power_cap sim_get_power_cap sim_get_power_draw "\<lambda>s g. g \<in> set (dkeys s)"
proof
  fix s :: "'r sim" and g w
  assume "g \<in> set (dkeys s)"
  from dkey_some [OF this] obtain x where x: "map_of s g = Some x" ..
  show "\<exists>s' c. sim_set_power_cap s g w = Ok s' \<and> sim_get_power_cap s' g = Ok c \<and> c \<le> max 0 w"
    by (simp add: sim_set_power_cap_def sim_get_power_cap_def sim_item_def x)
next
  fix s :: "'r sim" and g
  assume "g \<in> set (dkeys s)"
  from dkey_some [OF this] obtain x where x: "map_of s g = Some x" ..
  show "\<exists>c d. sim_get_power_cap s g = Ok c \<and> sim_get_power_draw s g = Ok d"
    by (simp add: sim_get_power_cap_def sim_get_power_draw_def sim_item_def x)
next
  fix s :: "'r sim" and g w
  assume "g \<notin> set (dkeys s)"
  then have "map_of s g = None" by (simp add: map_of_eq_None_iff)
  then show "(\<exists>e. sim_get_power_draw s g = Err e) \<and> (\<exists>e. sim_set_power_cap s g w = Err e)"
    by (simp add: sim_get_power_draw_def sim_set_power_cap_def sim_item_def)
next
  fix s s' :: "'r sim" and g w g'
  assume "sim_set_power_cap s g w = Ok s'"
  then obtain x where x: "map_of s g = Some x" and s': "s' = dset g (x\<lparr>sg_cap_w := min (max 0 w) (sg_max_cap_w x)\<rparr>) s"
    by (auto simp: sim_set_power_cap_def res_bind_Ok_iff sim_item_Ok)
  have "g \<in> set (dkeys s)" by (rule map_of_some_key [OF x])
  then show "g' \<in> set (dkeys s') \<longleftrightarrow> g' \<in> set (dkeys s)" by (auto simp: s' simp del: set_map)
  show "sim_get_power_cap s' g' = sim_get_power_cap s g' \<and> sim_get_power_draw s' g' = sim_get_power_draw s g'" if "g' \<noteq> g"
    using that by (simp add: s' sim_get_power_cap_def sim_get_power_draw_def sim_item_def)
next
  fix s :: "'r sim" and g c d
  assume "sim_get_power_cap s g = Ok c" "sim_get_power_draw s g = Ok d"
  then show "d \<le> c"
    using power_draw_le_cap by (auto simp: sim_get_power_cap_def sim_get_power_draw_def res_bind_Ok_iff sim_item_Ok)
qed (rule sim_set_inv)

section \<open>Properties\<close>

text \<open>The simulator over time: ticks, and caps set by whoever controls it.\<close>

inductive sim_step :: "'r rng \<Rightarrow> 'r sim \<Rightarrow> 'r sim \<Rightarrow> bool" for rand where
  tick: "sim_step rand s (sim_tick rand s)"
| cap: "sim_set_power_cap s g w = Ok s' \<Longrightarrow> sim_step rand s s'"

lemma sim_steps_inv: "(sim_step rand)\<^sup>*\<^sup>* s s' \<Longrightarrow> good_rng rand \<Longrightarrow> sim_inv s \<Longrightarrow> sim_inv s'"
proof (induction rule: rtranclp_induct)
  case (step s1 s2)
  then show ?case by (auto elim!: sim_step.cases intro: sim_tick_inv sim_set_inv)
qed simp

lemma dkeys_dset_present: "map_of d k = Some v \<Longrightarrow> dkeys (dset k w d) = dkeys d"
  by (induction d) auto

lemma sim_steps_keys: "(sim_step rand)\<^sup>*\<^sup>* s s' \<Longrightarrow> dkeys s' = dkeys s"
proof (induction rule: rtranclp_induct)
  case (step s1 s2)
  then show ?case
    by (auto elim!: sim_step.cases simp: sim_tick_def sim_set_power_cap_def res_bind_Ok_iff sim_item_Ok
        dkeys_dset_present simp del: set_map)
qed simp

lemma known_in_backend: "g \<in> set (dkeys (sim_backend gs)) \<longleftrightarrow> g \<in> sg_index ` set gs"
proof -
  have "set (dkeys (foldl (\<lambda>d g. dset (sg_index g) g d) d gs)) = set (dkeys d) \<union> sg_index ` set gs" for d
    by (induction gs arbitrary: d) (auto simp: dom_update)
  from this [of "[]"] show ?thesis by (simp add: sim_backend_def)
qed

lemma oversub_known: "g \<in> set (dkeys (oversub_scenario rand seeded n cap hot seed)) \<longleftrightarrow> 0 \<le> g \<and> g < int n"
proof -
  have "sg_index (sim_gpu_init rand i c m l r) = i" for i c m l r by (simp add: sim_gpu_init_def split: prod.split)
  then have "g \<in> set (dkeys (oversub_scenario rand seeded n cap hot seed)) \<longleftrightarrow> g \<in> int ` {0..<n}"
    unfolding oversub_scenario_def Let_def known_in_backend by (simp add: image_image)
  then show ?thesis by (auto simp: image_iff intro: bexI [of _ "nat g"])
qed

text \<open>The digital twin is physically sane: from either demo scenario, after any sequence of ticks
  and cap changes, every GPU has a cap between zero and its hardware maximum, a utilisation
  between 0 and 100 and a draw between zero and its cap, and the fleet still has its GPUs.\<close>

theorem sim_fleet_sane:
  assumes rng: "good_rng rand" and cap: "0 \<le> cap_w"
    and start: "s0 = oversub_scenario rand seeded n cap_w hot seed \<or> s0 = uniform_load rand seeded n cap_w util seed"
    and run: "(sim_step rand)\<^sup>*\<^sup>* s0 s"
  shows "dkeys s = dkeys s0 \<and> (\<forall>g \<in> set (dkeys s0).
     \<exists>c d u m. sim_get_power_cap s g = Ok c \<and> sim_get_power_draw s g = Ok d \<and> sim_get_util_pct s g = Ok u \<and>
        sim_get_max_cap_w s g = Ok m \<and> 0 \<le> d \<and> d \<le> c \<and> c \<le> m \<and> 0 \<le> u \<and> u \<le> 100)"
proof (intro conjI ballI)
  show keys: "dkeys s = dkeys s0" by (rule sim_steps_keys [OF run])
  fix g assume "g \<in> set (dkeys s0)"
  then obtain x where x: "map_of s g = Some x"
    unfolding keys [symmetric] by (cases "map_of s g") (auto simp: map_of_eq_None_iff)
  have "sim_inv s0"
    using start sim_init_ok [OF rng cap] unfolding oversub_scenario_def uniform_load_def Let_def
    by (elim disjE) (auto intro!: sim_backend_inv)
  from sim_inv_item [OF sim_steps_inv [OF run rng this] x] power_draw_nonneg [of x] power_draw_le_cap [of x]
  show "\<exists>c d u m. sim_get_power_cap s g = Ok c \<and> sim_get_power_draw s g = Ok d \<and> sim_get_util_pct s g = Ok u \<and>
        sim_get_max_cap_w s g = Ok m \<and> 0 \<le> d \<and> d \<le> c \<and> c \<le> m \<and> 0 \<le> u \<and> u \<le> 100"
    by (simp add: sim_get_power_cap_def sim_get_power_draw_def sim_get_util_pct_def sim_get_max_cap_w_def
        sim_item_def x sim_gpu_ok_def)
qed

definition half_rng :: "unit rng" where
  "half_rng u = (1 / 2, u)"

theorem sim_fleet_sane_witness:
  "\<exists>d. sim_get_power_draw (sim_tick half_rng (uniform_load half_rng (\<lambda>_. ()) 1 1000 70 42)) 0 = Ok d \<and> 0 \<le> d"
proof -
  let ?s0 = "uniform_load half_rng (\<lambda>_. ()) 1 1000 70 42"
  have rng: "good_rng half_rng" by (simp add: good_rng_def half_rng_def)
  have g: "0 \<in> set (dkeys ?s0)"
    by (simp add: uniform_load_def sim_backend_def sim_gpu_init_def split: prod.split)
  have "(sim_step half_rng)\<^sup>*\<^sup>* ?s0 (sim_tick half_rng ?s0)" by (blast intro: tick)
  from conjunct2 [OF sim_fleet_sane [OF rng _ disjI2 [OF refl] this], THEN bspec, OF _ g] show ?thesis by auto
qed

end
