(* ===== verification/AgentBridge.thy ===== *)
theory AgentBridge
  imports Sim PyJson
begin

text \<open>
  \<open>controller/agent_bridge.py\<close>: the client of the Rust agent and the actuator over it. The
  network is a state \<open>'w\<close> with two parameters: \<open>send\<close> delivers the lines of one connection
  (some of them, if it fails half way) and says whether no \<open>OSError\<close> was raised; \<open>ask\<close> is the
  parsed answer to \<open>get_draws\<close>, or the exception the exchange raises.
\<close>

datatype agent_command = Set_cap gpu watts

record 'w agent =
  ag_connected :: bool
  ag_last_caps :: "(gpu, watts) dict"
  ag_net :: 'w

type_synonym 'w sender = "'w \<Rightarrow> agent_command list \<Rightarrow> 'w \<times> bool"

definition agent_init :: "'w \<Rightarrow> 'w agent" where
  "agent_init w = \<lparr>ag_connected = False, ag_last_caps = [], ag_net = w\<rparr>"

definition push_caps :: "'w sender \<Rightarrow> (gpu, watts) dict \<Rightarrow> 'w agent \<Rightarrow> 'w agent \<times> bool" where
  "push_caps send caps a =
     (case send (ag_net a) (map (\<lambda>(g, w). Set_cap g w) caps) of
        (w, ok) \<Rightarrow> (a\<lparr>ag_net := w, ag_connected := ok\<rparr>, ok))"

definition draw_entry :: "string \<times> json \<Rightarrow> (gpu \<times> watts) res" where
  "draw_entry kv = (case kv of (k, v) \<Rightarrow> res_bind (py_int k) (\<lambda>i. res_bind (json_float v) (\<lambda>w. Ok (i, w))))"

definition get_draws :: "('w \<Rightarrow> json res) \<Rightarrow> 'w agent \<Rightarrow> (gpu, watts) dict option" where
  \<comment> \<open>any exception gives \<open>None\<close>\<close>
  "get_draws ask a =
     (case res_bind (ask (ag_net a)) (\<lambda>resp.
             res_bind (res_bind (json_get resp ''draws'' (JObj [])) json_items) (res_map draw_entry)) of
        Inl _ \<Rightarrow> None
      | Inr ps \<Rightarrow> Some (foldl (\<lambda>d (i, w). dset i w d) [] ps))"

definition agent_set_power_cap :: "'w sender \<Rightarrow> 'w agent \<Rightarrow> gpu \<Rightarrow> watts \<Rightarrow> 'w agent res" where
  "agent_set_power_cap send a i w =
     Ok (fst (push_caps send [(i, w)] (a\<lparr>ag_last_caps := dset i w (ag_last_caps a)\<rparr>)))"

definition agent_push_all_caps :: "'w sender \<Rightarrow> 'w agent \<Rightarrow> (gpu, watts) dict \<Rightarrow> 'w agent \<times> bool" where
  "agent_push_all_caps send a caps = push_caps send caps (a\<lparr>ag_last_caps := caps\<rparr>)"

definition agent_get_power_cap :: "'w agent \<Rightarrow> gpu \<Rightarrow> watts res" where
  "agent_get_power_cap a i = Ok (dget_or (ag_last_caps a) i 0)"

definition agent_get_power_draw :: "('w \<Rightarrow> json res) \<Rightarrow> 'w agent \<Rightarrow> gpu \<Rightarrow> watts res" where
  "agent_get_power_draw ask a i = Ok (case get_draws ask a of None \<Rightarrow> 0 | Some d \<Rightarrow> dget_or d i 0)"

definition agent_get_util_pct :: "'w agent \<Rightarrow> gpu \<Rightarrow> real" where
  "agent_get_util_pct a i = 0"

definition agent_gpu_count :: "'w agent \<Rightarrow> nat" where
  "agent_gpu_count a = 0"

definition agent_is_connected :: "'w agent \<Rightarrow> bool" where
  "agent_is_connected a = ag_connected a"

section \<open>Lemmas\<close>

lemma push_caps_last [simp]: "ag_last_caps (fst (push_caps send caps a)) = ag_last_caps a"
  by (simp add: push_caps_def split: prod.split)

lemma push_caps_ok: "snd (push_caps send caps a) = ag_connected (fst (push_caps send caps a))"
  by (simp add: push_caps_def split: prod.split)

text \<open>The actuator reads its caps back from its own record, so what it reports does not depend on
  whether the agent was reached.\<close>

lemma agent_cap_after_push:
  "agent_get_power_cap (fst (agent_push_all_caps send a caps)) i = Ok (dget_or caps i 0)"
  by (simp add: agent_get_power_cap_def agent_push_all_caps_def)

text \<open>The bridge as an actuator: every GPU is known to it and nothing raises, and the caps it holds
  are not negative if those it is given are not.\<close>

definition agent_inv :: "'w agent \<Rightarrow> bool" where
  "agent_inv a \<longleftrightarrow> (\<forall>g v. map_of (ag_last_caps a) g = Some v \<longrightarrow> 0 \<le> v)"

lemma agent_inv_cap: "agent_inv a \<Longrightarrow> agent_get_power_cap a g = Ok w \<Longrightarrow> 0 \<le> w"
  by (auto simp: agent_inv_def agent_get_power_cap_def dget_or_def split: option.splits)

lemma agent_inv_set: "agent_inv a \<Longrightarrow> 0 \<le> w \<Longrightarrow> agent_set_power_cap send a i w = Ok a' \<Longrightarrow> agent_inv a'"
  by (auto simp: agent_inv_def agent_set_power_cap_def split: if_splits)

lemma agent_inv_push: "(\<forall>g v. map_of caps g = Some v \<longrightarrow> 0 \<le> v) \<Longrightarrow> agent_inv (fst (agent_push_all_caps send a caps))"
  by (simp add: agent_inv_def agent_push_all_caps_def)

end
