(* ===== verification/Controller.thy ===== *)
theory Controller
  imports Brains Telemetry Metrics Energy PriorityConfig AgentBridge
begin

text \<open>
  The control loop of \<open>controller/standalone.py\<close>: one tick reads telemetry, adopts the budget
  the cluster coordinator published, lets the brain decide for every managed domain, meters
  energy, pushes the caps and reports. A tick that raises keeps the changes made up to then,
  since \<open>run\<close> swallows the exception and goes on; so every step here returns the controller
  also when it fails. The actuator is a record of operations; those that only some actuators
  have (\<open>hasattr\<close> in the code) are options.
\<close>

section \<open>Configuration and state\<close>

record 'a actuator_ops =
  op_draw :: "'a \<Rightarrow> gpu \<Rightarrow> watts res"
  op_cap :: "'a \<Rightarrow> gpu \<Rightarrow> watts res"
  op_max_cap :: "('a \<Rightarrow> gpu \<Rightarrow> watts res) option"
  op_set :: "'a \<Rightarrow> gpu \<Rightarrow> watts \<Rightarrow> 'a res"
  op_push_all :: "('a \<Rightarrow> (gpu, watts) dict \<Rightarrow> 'a) option"
  op_tick :: "('a \<Rightarrow> 'a) option"

record controller_config =
  cc_interval_s :: real
  cc_domain_names :: "string list"
  cc_dry_run :: bool
  cc_sim_mode :: bool
  cc_metrics_port :: "nat option"
  cc_telemetry :: string
  cc_brain :: brain_config
  cc_thermal_gpus :: "gpu list"
  cc_thermal_temp_c :: real
  cc_node_id :: string
  cc_adopted_min_w :: watts

record 'a controller =
  ct_topology :: topology
  ct_brain :: brain
  ct_energy :: energy_accountant
  ct_actuator :: 'a
  ct_metrics :: "metric_call list"
  ct_printed :: "brain_decision list"
  ct_source :: "priority_source option"

text \<open>What the outside world contributes to one tick: the clock, the linked store's answers (if a
  store is linked), the Prometheus sample, the LP solver.\<close>

record tick_env =
  te_now :: real
  te_store :: "(string \<Rightarrow> string \<Rightarrow> watts option res) option"
  te_sample :: "node_sample res"
  te_cvxpy :: "(lp \<Rightarrow> solver_outcome) option"

definition controller_init :: "controller_config \<Rightarrow> topology \<Rightarrow> 'a \<Rightarrow> priority_source option \<Rightarrow> string option \<Rightarrow> 'a controller res" where
  "controller_init cfg t act source smi =
     res_bind (make_brain (cc_brain cfg) t smi) (\<lambda>b.
       Ok \<lparr>ct_topology = t, ct_brain = b, ct_energy = \<lparr>energy_j = []\<rparr>, ct_actuator = act,
           ct_metrics = [], ct_printed = [], ct_source = source\<rparr>)"

definition server_ports :: "controller_config \<Rightarrow> nat list" where
  \<comment> \<open>the metrics server and the liveness server the constructor starts\<close>
  "server_ports cfg = (case cc_metrics_port cfg of None \<Rightarrow> [] | Some port \<Rightarrow> [port, port + 1])"

definition managed_domains :: "controller_config \<Rightarrow> topology \<Rightarrow> string list" where
  "managed_domains cfg t = (if cc_domain_names cfg \<noteq> [] then cc_domain_names cfg else dkeys (domains t))"

definition reads_actuator :: "controller_config \<Rightarrow> bool" where
  "reads_actuator cfg \<longleftrightarrow> cc_sim_mode cfg \<or> cc_telemetry cfg = ''actuator''"

section \<open>One domain\<close>

definition adopt_step :: "controller_config \<Rightarrow> tick_env \<Rightarrow> string \<Rightarrow> topology \<Rightarrow> topology" where
  "adopt_step cfg env dn t =
     (case te_store env of
        None \<Rightarrow> t
      | Some read \<Rightarrow>
          (case (case read (cc_node_id cfg) dn of Inl _ \<Rightarrow> None | Inr adopted \<Rightarrow> adopted) of
             None \<Rightarrow> release_budget t dn
           | Some w \<Rightarrow> if cc_adopted_min_w cfg \<le> w then adopt_budget t dn w else release_budget t dn))"

datatype gpu_power = Gpu_power (gp_draw: watts) (gp_cap: watts) (gp_max: watts)

record readings =
  rd_draws :: "(gpu, watts) dict"
  rd_caps :: "(gpu, watts) dict"
  rd_max_caps :: "(gpu, watts) dict"

definition add_reading :: "gpu \<Rightarrow> gpu_power \<Rightarrow> readings \<Rightarrow> readings" where
  "add_reading i p r =
     r\<lparr>rd_draws := dset i (gp_draw p) (rd_draws r), rd_caps := dset i (gp_cap p) (rd_caps r),
       rd_max_caps := dset i (gp_max p) (rd_max_caps r)\<rparr>"

definition reading_of_actuator :: "'a actuator_ops \<Rightarrow> 'a \<Rightarrow> watts \<Rightarrow> gpu \<Rightarrow> gpu_power option res" where
  "reading_of_actuator ops s fallback i =
     res_bind (op_draw ops s i) (\<lambda>draw.
     res_bind (op_cap ops s i) (\<lambda>cap.
     res_bind (case op_max_cap ops of None \<Rightarrow> Ok fallback | Some f \<Rightarrow> f s i) (\<lambda>mx.
     Ok (Some (Gpu_power draw cap mx)))))"

definition reading_of_sample :: "(gpu, gpu_sample) dict \<Rightarrow> watts \<Rightarrow> gpu \<Rightarrow> gpu_power option res" where
  \<comment> \<open>a GPU that is not in the sample is skipped\<close>
  "reading_of_sample gpus fallback i =
     Ok (case map_of gpus i of
           None \<Rightarrow> None
         | Some g \<Rightarrow>
             Some (Gpu_power (case gs_power_draw_w g of None \<Rightarrow> 0 | Some w \<Rightarrow> w)
                             (case gs_power_limit_w g of None \<Rightarrow> fallback | Some w \<Rightarrow> w)
                             (case gs_power_max_limit_w g of None \<Rightarrow> fallback | Some w \<Rightarrow> w)))"

fun read_gpus :: "(gpu \<Rightarrow> gpu_power option res) \<Rightarrow> gpu list \<Rightarrow> readings \<Rightarrow> readings res" where
  "read_gpus rd [] r = Ok r"
| "read_gpus rd (i # is) r =
     res_bind (rd i) (\<lambda>p. read_gpus rd is (case p of None \<Rightarrow> r | Some x \<Rightarrow> add_reading i x r))"

definition is_hot_gpu :: "controller_config \<Rightarrow> (gpu, gpu_sample) dict option \<Rightarrow> gpu \<Rightarrow> bool" where
  "is_hot_gpu cfg gpus i \<longleftrightarrow>
     i \<in> set (cc_thermal_gpus cfg) \<or>
     (case gpus of None \<Rightarrow> False
      | Some d \<Rightarrow> (case map_of d i of None \<Rightarrow> False
          | Some g \<Rightarrow> (case gs_temperature_c g of None \<Rightarrow> False
              | Some temp \<Rightarrow> cc_thermal_temp_c cfg \<le> real_of_int temp)))"

definition thermal_flags :: "controller_config \<Rightarrow> (gpu, gpu_sample) dict option \<Rightarrow> (gpu, watts) dict \<Rightarrow> (gpu, bool) dict" where
  "thermal_flags cfg gpus draws = dcomp (\<lambda>_. True) (filter (is_hot_gpu cfg gpus) (dkeys draws))"

definition fallback_cap :: "topology \<Rightarrow> string \<Rightarrow> power_domain \<Rightarrow> watts res" where
  "fallback_cap t dn d =
     res_bind (domain_budget_w t dn) (\<lambda>b. Ok (b / real (max (length (pd_gpu_indices d)) 1)))"

definition build_state :: "controller_config \<Rightarrow> 'a actuator_ops \<Rightarrow> 'a \<Rightarrow> topology \<Rightarrow> real \<Rightarrow> (gpu, gpu_sample) dict option \<Rightarrow>
    string \<Rightarrow> power_domain \<Rightarrow> domain_state res" where
  \<comment> \<open>\<open>gpus\<close> is \<open>gpu_by_index\<close>, \<open>None\<close> when the actuator is read\<close>
  "build_state cfg ops s t ts gpus dn d =
     res_bind (fallback_cap t dn d) (\<lambda>fallback.
     res_bind (read_gpus (case gpus of None \<Rightarrow> reading_of_actuator ops s fallback
                                     | Some g \<Rightarrow> reading_of_sample g fallback)
                 (pd_gpu_indices d) \<lparr>rd_draws = [], rd_caps = [], rd_max_caps = []\<rparr>) (\<lambda>r.
     Ok \<lparr>ds_domain_name = dn, gpu_draws = rd_draws r, gpu_caps = rd_caps r, ds_ts = ts,
         gpu_max_caps = rd_max_caps r, gpu_thermal_throttled = thermal_flags cfg gpus (rd_draws r)\<rparr>))"

definition tenant_kwh :: "(gpu, joules) dict \<Rightarrow> tenant_quota \<Rightarrow> real" where
  "tenant_kwh added t = sum_list (map (\<lambda>g. dget_or added g 0) (tq_gpus t)) / 3600000"

definition tenant_calls :: "controller_config \<Rightarrow> string \<Rightarrow> (gpu, joules) dict \<Rightarrow> metric_call list" where
  "tenant_calls cfg dn added =
     (case bc_quota (cc_brain cfg) of
        None \<Rightarrow> []
      | Some q \<Rightarrow>
          concat (map (\<lambda>t. add_tenant_energy_kwh dn (tq_id t) (tenant_kwh added t))
                      (filter (\<lambda>t. tq_domain t = dn) (qc_tenants q))))"

fun push_each :: "('a \<Rightarrow> gpu \<Rightarrow> watts \<Rightarrow> 'a res) \<Rightarrow> (gpu, watts) dict \<Rightarrow> 'a \<Rightarrow> 'a \<times> pyerr option" where
  "push_each setc [] s = (s, None)"
| "push_each setc ((g, w) # caps) s =
     (case setc s g w of Inl e \<Rightarrow> (s, Some e) | Inr s' \<Rightarrow> push_each setc caps s')"

definition push_decision :: "controller_config \<Rightarrow> 'a actuator_ops \<Rightarrow> (gpu, watts) dict \<Rightarrow> 'a \<Rightarrow> 'a \<times> pyerr option" where
  "push_decision cfg ops caps s =
     (if cc_dry_run cfg then (s, None)
      else case op_push_all ops of
             Some f \<Rightarrow> (f s caps, None)
           | None \<Rightarrow> push_each (op_set ops) caps s)"

record domain_stats =
  sd_idle_stranded :: watts
  sd_hot :: nat
  sd_idle :: nat
  sd_draw :: watts
  sd_cap :: watts

definition runs_idle :: "(gpu, watts) dict \<Rightarrow> gpu \<times> watts \<Rightarrow> bool" where
  \<comment> \<open>the draw is below 0.6 of the cap, or the cap is zero\<close>
  "runs_idle draws gc =
     (case gc of (g, c) \<Rightarrow> (if 0 < c then dget_or draws g 0 / c else 0) < 6 / 10)"

definition domain_stats :: "(gpu, watts) dict \<Rightarrow> (gpu, watts) dict \<Rightarrow> domain_stats" where
  "domain_stats draws caps =
     \<lparr>sd_idle_stranded = sum_list (map (\<lambda>(g, c). max 0 (c - dget_or draws g 0)) (filter (runs_idle draws) caps)),
      sd_hot = length (filter (\<lambda>x. \<not> runs_idle draws x) caps), sd_idle = length (filter (runs_idle draws) caps),
      sd_draw = dsum draws, sd_cap = dsum caps\<rparr>"

definition gauge_calls :: "controller_config \<Rightarrow> string \<Rightarrow> (gpu, watts) dict \<Rightarrow> (gpu, watts) dict \<Rightarrow> metric_call list" where
  "gauge_calls cfg dn draws caps =
     (case cc_metrics_port cfg of
        None \<Rightarrow> []
      | Some _ \<Rightarrow>
          (let st = domain_stats draws caps
           in update_decision_metrics dn
                \<lparr>dm_prs_active = bc_type (cc_brain cfg) \<in>
                   {''prs'', ''job-prs'', ''quota-prs'', ''priority-prs'', ''thermal-prs''},
                 dm_draw_w = sd_draw st, dm_cap_w = sd_cap st, dm_idle_stranded_w = sd_idle_stranded st,
                 dm_hot_count = sd_hot st, dm_idle_count = sd_idle st,
                 dm_gpu_draws = Some draws, dm_gpu_caps = Some caps, dm_failsafe_trips = None\<rparr>))"

definition domain_step :: "controller_config \<Rightarrow> 'a actuator_ops \<Rightarrow> tick_env \<Rightarrow> real \<Rightarrow> (gpu, gpu_sample) dict option \<Rightarrow>
    string \<Rightarrow> 'a controller \<Rightarrow> 'a controller \<times> brain_decision res" where
  \<comment> \<open>the body of the loop over the managed domains\<close>
  "domain_step cfg ops env ts gpus dn c =
     (case map_of (domains (ct_topology c)) dn of
        None \<Rightarrow> (c, Err (KeyError dn))
      | Some d \<Rightarrow>
          (let t = adopt_step cfg env dn (ct_topology c); c1 = c\<lparr>ct_topology := t\<rparr>
           in case build_state cfg ops (ct_actuator c) t ts gpus dn d of
                Inl e \<Rightarrow> (c1, Err e)
              | Inr st \<Rightarrow>
                  (case brain_decide (te_cvxpy env) (te_now env) (ct_brain c) t dn st of
                     Inl e \<Rightarrow> (c1, Err e)
                   | Inr (b, dec) \<Rightarrow>
                       (case add_tick (ct_energy c) (map (\<lambda>(g, w). (g, Some w)) (gpu_draws st)) (cc_interval_s cfg) of
                          (en, added) \<Rightarrow>
                            (let c2 = c1\<lparr>ct_brain := b, ct_energy := en,
                                        ct_metrics := ct_metrics c @ tenant_calls cfg dn added\<rparr>
                             in case push_decision cfg ops (bd_caps dec) (ct_actuator c) of
                                  (a, Some e) \<Rightarrow> (c2\<lparr>ct_actuator := a\<rparr>, Err e)
                                | (a, None) \<Rightarrow>
                                    (c2\<lparr>ct_actuator := a,
                                       ct_metrics := ct_metrics c2 @ gauge_calls cfg dn (gpu_draws st) (bd_caps dec),
                                       ct_printed := ct_printed c @ [dec]\<rparr>, Ok dec))))))"

section \<open>One tick\<close>

fun domains_loop :: "controller_config \<Rightarrow> 'a actuator_ops \<Rightarrow> tick_env \<Rightarrow> real \<Rightarrow> (gpu, gpu_sample) dict option \<Rightarrow>
    string list \<Rightarrow> 'a controller \<Rightarrow> 'a controller \<times> brain_decision list res" where
  "domains_loop cfg ops env ts gpus [] c = (c, Ok [])"
| "domains_loop cfg ops env ts gpus (dn # dns) c =
     (case domain_step cfg ops env ts gpus dn c of
        (c', Inl e) \<Rightarrow> (c', Err e)
      | (c', Inr dec) \<Rightarrow>
          (case domains_loop cfg ops env ts gpus dns c' of
             (c'', Inl e) \<Rightarrow> (c'', Err e)
           | (c'', Inr decs) \<Rightarrow> (c'', Ok (dec # decs))))"

definition index_samples :: "gpu_sample list \<Rightarrow> (gpu, gpu_sample) dict" where
  \<comment> \<open>\<open>{g.index: g for g in node_sample.gpus}\<close>\<close>
  "index_samples gs = foldl (\<lambda>d g. dset (gs_index g) g d) [] gs"

definition telemetry_of :: "controller_config \<Rightarrow> tick_env \<Rightarrow> (real \<times> (gpu, gpu_sample) dict option) res" where
  "telemetry_of cfg env =
     (if reads_actuator cfg then Ok (te_now env, None)
      else res_bind (te_sample env) (\<lambda>n. Ok (nd_ts n, Some (index_samples (nd_gpus n)))))"

definition advance_sim :: "controller_config \<Rightarrow> 'a actuator_ops \<Rightarrow> 'a controller \<Rightarrow> 'a controller" where
  "advance_sim cfg ops c =
     (if cc_sim_mode cfg
      then case op_tick ops of None \<Rightarrow> c | Some f \<Rightarrow> c\<lparr>ct_actuator := f (ct_actuator c)\<rparr>
      else c)"

definition run_once :: "controller_config \<Rightarrow> 'a actuator_ops \<Rightarrow> tick_env \<Rightarrow> 'a controller \<Rightarrow> 'a controller \<times> brain_decision list res" where
  "run_once cfg ops env c =
     (case telemetry_of cfg env of
        Inl e \<Rightarrow> (c, Err e)
      | Inr (ts, gpus) \<Rightarrow>
          (case domains_loop cfg ops env ts gpus (managed_domains cfg (ct_topology c)) c of
             (c', Inl e) \<Rightarrow> (c', Err e)
           | (c', Inr decs) \<Rightarrow> (advance_sim cfg ops c', Ok decs)))"

definition energy_showback :: "controller_config \<Rightarrow> 'a controller \<Rightarrow> (string, real) dict" where
  "energy_showback cfg c =
     (case bc_quota (cc_brain cfg) of
        None \<Rightarrow> []
      | Some q \<Rightarrow> foldl (\<lambda>r t. dset (tq_id t) (tenant_energy_wh (ct_energy c) (tq_gpus t) / 1000) r) [] (qc_tenants q))"

definition refresh_tiers :: "(string \<Rightarrow> json res) \<Rightarrow> bool \<Rightarrow> read_answer \<Rightarrow> 'a controller \<Rightarrow> 'a controller \<times> pyerr option" where
  \<comment> \<open>\<open>set_tiers(priority_source.poll())\<close> of the loop in \<open>run\<close>; only the priority brain has \<open>set_tiers\<close>\<close>
  "refresh_tiers loads loadable answer c =
     (case ct_source c of
        None \<Rightarrow> (c, None)
      | Some s \<Rightarrow>
          (case ct_brain c of
             Priority_brain b \<Rightarrow>
               (case poll_config loads loadable answer s of
                  (s', Inl e) \<Rightarrow> (c\<lparr>ct_source := Some s'\<rparr>, Some e)
                | (s', Inr tiers) \<Rightarrow>
                    (case set_tiers b tiers of
                       Inl e \<Rightarrow> (c\<lparr>ct_source := Some s'\<rparr>, Some e)
                     | Inr b' \<Rightarrow> (c\<lparr>ct_source := Some s', ct_brain := Priority_brain b'\<rparr>, None)))
           | _ \<Rightarrow> (c, Some TypeError)))"

definition run_iteration :: "(string \<Rightarrow> json res) \<Rightarrow> controller_config \<Rightarrow> 'a actuator_ops \<Rightarrow> bool \<Rightarrow> read_answer \<Rightarrow> tick_env \<Rightarrow>
    'a controller \<Rightarrow> 'a controller" where
  \<comment> \<open>one round of \<open>run\<close>: whatever is raised is logged and swallowed\<close>
  "run_iteration loads cfg ops loadable answer env c =
     (case refresh_tiers loads loadable answer c of
        (c', Some _) \<Rightarrow> c'
      | (c', None) \<Rightarrow> fst (run_once cfg ops env c'))"

text \<open>The controller over time: rounds of \<open>run\<close> in any environment, and the rounds of the job
  tracker's thread between them.\<close>

inductive ctl_step :: "(string \<Rightarrow> json res) \<Rightarrow> controller_config \<Rightarrow> 'a actuator_ops \<Rightarrow> (tick_env \<Rightarrow> bool) \<Rightarrow>
    'a controller \<Rightarrow> 'a controller \<Rightarrow> bool" for loads cfg ops ok_env where
  round: "ok_env env \<Longrightarrow> ctl_step loads cfg ops ok_env c (run_iteration loads cfg ops loadable answer env c)"
| jobs: "ctl_step loads cfg ops ok_env c (c\<lparr>ct_brain := poll_jobs smi (ct_brain c)\<rparr>)"

inductive_simps ctl_step_iff: "ctl_step loads cfg ops ok_env c c'"

end
