(* ===== verification/Nvml.thy ===== *)
theory Nvml
  imports PyJson
begin

text \<open>
  \<open>agent/nvml_agent.py\<close>: the actuator on real GPUs. The calls of \<open>pynvml\<close> are arguments: on a
  device state and a handle they answer, or \<open>None\<close> for an \<open>NVMLError\<close>, which the actuator logs
  and turns into 0. Watts become whole milliwatts on the way out.
\<close>

definition py_nth :: "'a list \<Rightarrow> int \<Rightarrow> 'a res" where
  \<comment> \<open>\<open>xs[i]\<close>, counting from the end for a negative index\<close>
  "py_nth xs i =
     (let j = (if i < 0 then i + int (length xs) else i) in
      if 0 \<le> j \<and> j < int (length xs) then Ok (xs ! nat j) else Err IndexError)"

definition milliwatts :: "watts \<Rightarrow> int" where
  "milliwatts w = truncate_real (w * 1000)"

definition nvml_init :: "('w \<Rightarrow> nat option) \<Rightarrow> ('w \<Rightarrow> nat \<Rightarrow> 'h option) \<Rightarrow> 'w \<Rightarrow> 'h list option" where
  \<comment> \<open>the handles, one per device; \<open>None\<close> when a call raised\<close>
  "nvml_init device_count handle_by_index w =
     (case device_count w of
        None \<Rightarrow> None
      | Some n \<Rightarrow> those (map (handle_by_index w) [0..<n]))"

definition nvml_set_power_cap :: "('w \<Rightarrow> 'h \<Rightarrow> int \<Rightarrow> 'w option) \<Rightarrow> 'h list \<Rightarrow> 'w \<Rightarrow> gpu \<Rightarrow> watts \<Rightarrow> 'w res" where
  "nvml_set_power_cap set_limit handles w i watts =
     res_bind (py_nth handles i) (\<lambda>h.
       Ok (case set_limit w h (milliwatts watts) of None \<Rightarrow> w | Some w' \<Rightarrow> w'))"

definition nvml_read :: "('w \<Rightarrow> 'h \<Rightarrow> int option) \<Rightarrow> 'h list \<Rightarrow> 'w \<Rightarrow> gpu \<Rightarrow> watts res" where
  \<comment> \<open>the shape of \<open>get_power_cap\<close>, \<open>get_power_draw\<close> and \<open>get_max_cap_w\<close>\<close>
  "nvml_read query handles w i =
     res_bind (py_nth handles i) (\<lambda>h.
       Ok (case query w h of None \<Rightarrow> 0 | Some mw \<Rightarrow> real_of_int mw / 1000))"

definition nvml_get_power_cap :: "('w \<Rightarrow> 'h \<Rightarrow> int option) \<Rightarrow> 'h list \<Rightarrow> 'w \<Rightarrow> gpu \<Rightarrow> watts res" where
  "nvml_get_power_cap get_limit = nvml_read get_limit"

definition nvml_get_power_draw :: "('w \<Rightarrow> 'h \<Rightarrow> int option) \<Rightarrow> 'h list \<Rightarrow> 'w \<Rightarrow> gpu \<Rightarrow> watts res" where
  "nvml_get_power_draw get_usage = nvml_read get_usage"

definition nvml_get_max_cap_w :: "('w \<Rightarrow> 'h \<Rightarrow> (int \<times> int) option) \<Rightarrow> 'h list \<Rightarrow> 'w \<Rightarrow> gpu \<Rightarrow> watts res" where
  "nvml_get_max_cap_w constraints = nvml_read (\<lambda>w h. map_option snd (constraints w h))"

definition nvml_get_util_pct :: "('w \<Rightarrow> 'h \<Rightarrow> int option) \<Rightarrow> 'h list \<Rightarrow> 'w \<Rightarrow> gpu \<Rightarrow> real res" where
  "nvml_get_util_pct utilization handles w i =
     res_bind (py_nth handles i) (\<lambda>h. Ok (case utilization w h of None \<Rightarrow> 0 | Some u \<Rightarrow> real_of_int u))"

definition nvml_gpu_count :: "'h list \<Rightarrow> nat" where
  "nvml_gpu_count handles = length handles"

definition nvml_get_name :: "('w \<Rightarrow> 'h \<Rightarrow> string option) \<Rightarrow> 'h list \<Rightarrow> 'w \<Rightarrow> gpu \<Rightarrow> string res" where
  \<comment> \<open>the library's name as text, or a placeholder\<close>
  "nvml_get_name name handles w i =
     res_bind (py_nth handles i) (\<lambda>h. Ok (case name w h of None \<Rightarrow> ''gpu-'' @ string_of_int i | Some s \<Rightarrow> s))"

definition nvml_shutdown :: "('w \<Rightarrow> 'w option) \<Rightarrow> 'w \<Rightarrow> 'w" where
  "nvml_shutdown release w = (case release w of None \<Rightarrow> w | Some w' \<Rightarrow> w')"

section \<open>Lemmas\<close>

lemma milliwatts_bounds: "\<bar>real_of_int (milliwatts w) / 1000 - w\<bar> < 1 / 1000 \<and>
    (0 \<le> w \<longrightarrow> 0 \<le> milliwatts w \<and> real_of_int (milliwatts w) / 1000 \<le> w)"
proof (cases "0 \<le> w")
  case True
  have m: "milliwatts w = \<lfloor>w * 1000\<rfloor>" using True by (simp add: milliwatts_def truncate_real_def)
  have "real_of_int (milliwatts w) \<le> w * 1000" "w * 1000 < real_of_int (milliwatts w) + 1"
    unfolding m by linarith+
  moreover have "0 \<le> milliwatts w" using True by (simp add: m)
  ultimately show ?thesis unfolding abs_less_iff by linarith
next
  case False
  have m: "milliwatts w = \<lceil>w * 1000\<rceil>" using False by (simp add: milliwatts_def truncate_real_def)
  have "w * 1000 \<le> real_of_int (milliwatts w)" "real_of_int (milliwatts w) < w * 1000 + 1"
    unfolding m by linarith+
  then show ?thesis using False unfolding abs_less_iff by linarith
qed

lemma py_nth_nat: "i < length xs \<Longrightarrow> py_nth xs (int i) = Ok (xs ! i)"
  by (simp add: py_nth_def)

section \<open>Properties\<close>

text \<open>Caps survive the unit conversion: with a library that reports the limit it accepted, the cap
  read back after setting \<open>watts\<close> differs from it by less than a milliwatt and never exceeds
  it; when the library refuses, the device is left as it was; and a failed read is reported
  as 0 W.\<close>

theorem nvml_cap_roundtrip:
  assumes i: "i < length handles"
    and lib: "\<And>w h mw w'. set_limit w h mw = Some w' \<Longrightarrow> get_limit w' h = Some mw"
    and pos: "0 \<le> watts"
  shows "(\<forall>w'. set_limit w (handles ! i) (milliwatts watts) = Some w' \<longrightarrow>
            (\<exists>c. nvml_set_power_cap set_limit handles w (int i) watts = Ok w' \<and>
                 nvml_get_power_cap get_limit handles w' (int i) = Ok c \<and> c \<le> watts \<and> watts - c < 1 / 1000)) \<and>
         (set_limit w (handles ! i) (milliwatts watts) = None \<longrightarrow>
            nvml_set_power_cap set_limit handles w (int i) watts = Ok w) \<and>
         (get_limit w (handles ! i) = None \<longrightarrow> nvml_get_power_cap get_limit handles w (int i) = Ok 0)"
proof -
  let ?c = "real_of_int (milliwatts watts) / 1000"
  have c: "?c \<le> watts" "watts - ?c < 1 / 1000" using milliwatts_bounds [of watts] pos unfolding abs_less_iff by linarith+
  have "nvml_get_power_cap get_limit handles w' (int i) = Ok ?c"
    if "set_limit w (handles ! i) (milliwatts watts) = Some w'" for w'
    using lib [OF that] by (simp add: nvml_get_power_cap_def nvml_read_def py_nth_nat [OF i])
  with c show ?thesis
    by (auto simp: nvml_set_power_cap_def nvml_get_power_cap_def nvml_read_def py_nth_nat [OF i])
qed

theorem nvml_cap_roundtrip_witness:
  "\<exists>c. nvml_get_power_cap (\<lambda>w h. Some w) [()] (milliwatts 850) 0 = Ok c \<and> c \<le> 850 \<and> 850 - c < 1 / 1000"
  using nvml_cap_roundtrip [of 0 "[()]" "\<lambda>w h mw. Some mw" "\<lambda>w h. Some w" 850 0] by auto

end
