(* ===== verification/ControlLoop.thy ===== *)
theory ControlLoop
  imports Controller Nvml
begin

text \<open>
  The control loop of \<open>Controller\<close> over time. The locale \<open>control_target\<close> states what the loop
  needs of an actuator (powers that are not negative, an invariant its operations keep); inside
  it every tick, in any environment and also when it fails half way, keeps the controller's
  invariant. The simulated fleet, the NVML backend and the bridge to the agent interpret it.
\<close>

section \<open>States the controller builds\<close>

definition sample_ok :: "(gpu, gpu_sample) dict option \<Rightarrow> bool" where
  "sample_ok gpus \<longleftrightarrow> (\<forall>d i g. gpus = Some d \<longrightarrow> map_of d i = Some g \<longrightarrow>
     (\<forall>w. gs_power_draw_w g = Some w \<longrightarrow> 0 \<le> w) \<and> (\<forall>w. gs_power_limit_w g = Some w \<longrightarrow> 0 \<le> w) \<and>
     (\<forall>w. gs_power_max_limit_w g = Some w \<longrightarrow> 0 \<le> w))"

lemma index_samples_in: "map_of (index_samples gs) i = Some g \<Longrightarrow> g \<in> set gs"
proof -
  have "map_of (foldl (\<lambda>d g. dset (gs_index g) g d) d gs) i = Some g \<Longrightarrow> map_of d i = Some g \<or> g \<in> set gs" for d
    by (induction gs arbitrary: d) (fastforce split: if_splits)+
  from this [of "[]"] show "map_of (index_samples gs) i = Some g \<Longrightarrow> g \<in> set gs" by (simp add: index_samples_def)
qed

lemma sample_ok_index: "sample_nonneg n \<Longrightarrow> sample_ok (Some (index_samples (nd_gpus n)))"
  by (auto simp: sample_ok_def sample_nonneg_def dest!: index_samples_in)

definition power_ok :: "gpu_power \<Rightarrow> bool" where
  "power_ok p \<longleftrightarrow> 0 \<le> gp_draw p \<and> 0 \<le> gp_cap p \<and> 0 \<le> gp_max p"

definition readings_ok :: "gpu set \<Rightarrow> readings \<Rightarrow> bool" where
  "readings_ok gs r \<longleftrightarrow> wf_powers (rd_draws r) \<and> wf_powers (rd_caps r) \<and> wf_powers (rd_max_caps r) \<and>
     set (dkeys (rd_draws r)) \<subseteq> gs"

lemma wf_powers_dset: "wf_powers d \<Longrightarrow> 0 \<le> v \<Longrightarrow> wf_powers (dset k v d)"
  by (rule wf_powersI) (auto simp: wf_powers_def dest: wf_powers_map_of [unfolded wf_powers_def] split: if_splits)

lemma add_reading_ok: "readings_ok gs r \<Longrightarrow> power_ok p \<Longrightarrow> i \<in> gs \<Longrightarrow> readings_ok gs (add_reading i p r)"
  by (auto simp: readings_ok_def add_reading_def power_ok_def wf_powers_dset simp del: set_map)

lemma read_gpus_ok:
  assumes "read_gpus rd is r0 = Ok r" "readings_ok gs r0" "set is \<subseteq> gs"
    and "\<And>i p. i \<in> set is \<Longrightarrow> rd i = Ok (Some p) \<Longrightarrow> power_ok p"
  shows "readings_ok gs r"
  using assms
proof (induction rd "is" r0 rule: read_gpus.induct)
  case (2 rd i "is" r0)
  then obtain q where q: "rd i = Ok q" "read_gpus rd is (case q of None \<Rightarrow> r0 | Some x \<Rightarrow> add_reading i x r0) = Ok r"
    by (auto simp: res_bind_Ok_iff)
  have "readings_ok gs (case q of None \<Rightarrow> r0 | Some x \<Rightarrow> add_reading i x r0)"
    using 2(3-5) q(1) by (auto intro: add_reading_ok split: option.split)
  then show ?case using 2 q by auto
qed simp

lemma wf_state_readings:
  assumes "readings_ok gs r"
  shows "wf_state \<lparr>ds_domain_name = dn, gpu_draws = rd_draws r, gpu_caps = rd_caps r, ds_ts = ts,
           gpu_max_caps = rd_max_caps r, gpu_thermal_throttled = th\<rparr>"
  using assms by (simp add: readings_ok_def wf_powers_def wf_state_def)

section \<open>The loop over an actuator\<close>

locale control_target =
  fixes inv :: "'a \<Rightarrow> bool" and ops :: "'a actuator_ops"
  assumes draw_nonneg: "inv s \<Longrightarrow> op_draw ops s g = Ok w \<Longrightarrow> 0 \<le> w"
    and cap_nonneg: "inv s \<Longrightarrow> op_cap ops s g = Ok w \<Longrightarrow> 0 \<le> w"
    and max_nonneg: "inv s \<Longrightarrow> op_max_cap ops = Some f \<Longrightarrow> f s g = Ok w \<Longrightarrow> 0 \<le> w"
    and set_inv: "inv s \<Longrightarrow> 0 \<le> w \<Longrightarrow> op_set ops s g w = Ok s' \<Longrightarrow> inv s'"
    and push_inv: "inv s \<Longrightarrow> wf_powers caps \<Longrightarrow> op_push_all ops = Some h \<Longrightarrow> inv (h s caps)"
    and tick_inv: "inv s \<Longrightarrow> op_tick ops = Some k \<Longrightarrow> inv (k s)"

definition energy_ok :: "energy_accountant \<Rightarrow> bool" where
  "energy_ok a \<longleftrightarrow> wf_dict (energy_j a) \<and> (\<forall>g. 0 \<le> dget_or (energy_j a) g 0)"

definition decision_ok :: "topology \<Rightarrow> brain_decision \<Rightarrow> bool" where
  "decision_ok t dec \<longleftrightarrow> (\<exists>d. map_of (domains t) (bd_domain dec) = Some d \<and> wf_powers (bd_caps dec) \<and>
     set (dkeys (bd_caps dec)) \<subseteq> set (pd_gpu_indices d))"

definition ctl_inv :: "('a \<Rightarrow> bool) \<Rightarrow> 'a controller \<Rightarrow> bool" where
  "ctl_inv aok c \<longleftrightarrow> brain_inv (ct_brain c) \<and> aok (ct_actuator c) \<and> energy_ok (ct_energy c) \<and>
     (\<forall>s. ct_source c = Some s \<longrightarrow> source_ok s) \<and> (\<forall>dec \<in> set (ct_printed c). decision_ok (ct_topology c) dec) \<and>
     (\<forall>call \<in> set (ct_metrics c). declared call)"

lemma calls_declared:
  "call \<in> set (tenant_calls cfg dn added) \<Longrightarrow> declared call"
  "call \<in> set (gauge_calls cfg dn draws caps) \<Longrightarrow> declared call"
  by (auto simp: tenant_calls_def gauge_calls_def Let_def intro: declared_calls split: option.splits)

lemma adopt_step_domains [simp]: "domains (adopt_step cfg env dn t) = domains t"
  by (simp add: adopt_step_def split: option.split sum.split)

lemma decision_ok_adopt [simp]: "decision_ok (adopt_step cfg env dn t) = decision_ok t"
  by (simp add: decision_ok_def fun_eq_iff)

lemma energy_ok_tick:
  assumes "energy_ok a" "add_tick a (map (\<lambda>(g, w). (g, Some w)) draws) dt = (a', added)" "wf_powers draws"
  shows "energy_ok a' \<and> (\<forall>g. dget_or (energy_j a') g 0 = dget_or (energy_j a) g 0 + dget_or added g 0 \<and>
    0 \<le> dget_or added g 0)"
proof -
  let ?ds = "map (\<lambda>(g, w). (g, Some w)) draws"
  have keys: "dkeys ?ds = dkeys draws" by (simp add: comp_def case_prod_beta)
  then have wf: "wf_dict ?ds" using assms(3) by (simp only: wf_powers_def)
  have "\<forall>d \<in> set (dvals ?ds). \<forall>w. d = Some w \<longrightarrow> 0 \<le> w"
    using assms(3) by (auto simp: wf_powers_def)
  then have nn: "0 \<le> sample_j dt ?ds g" for g by (rule sample_j_nonneg)
  from add_tick_energy [OF wf assms(2)] add_tick_added [OF wf assms(2)] wf_add_tick [OF _ assms(2)] assms(1) nn
  show ?thesis by (simp add: energy_ok_def)
qed

lemma push_each_inv:
  assumes "push_each setc caps s = (s', r)" "P s" "\<forall>v \<in> set (dvals caps). 0 \<le> v"
    and "\<And>s g w s'. P s \<Longrightarrow> 0 \<le> w \<Longrightarrow> setc s g w = Ok s' \<Longrightarrow> P s'"
  shows "P s'"
  using assms by (induction setc caps s rule: push_each.induct) (auto split: sum.splits)

text \<open>The outcomes of the step for one domain.\<close>

lemma domain_step_cases:
  assumes step: "domain_step cfg ops env ts gpus dn c = (c', r)"
  obtains (unknown) "map_of (domains (ct_topology c)) dn = None" "c' = c" "r = Err (KeyError dn)"
  | (failed) d e where "map_of (domains (ct_topology c)) dn = Some d"
      "c' = c\<lparr>ct_topology := adopt_step cfg env dn (ct_topology c)\<rparr>" "r = Err e"
      "build_state cfg ops (ct_actuator c) (adopt_step cfg env dn (ct_topology c)) ts gpus dn d = Err e \<or>
       (\<exists>st. build_state cfg ops (ct_actuator c) (adopt_step cfg env dn (ct_topology c)) ts gpus dn d = Ok st \<and>
          brain_decide (te_cvxpy env) (te_now env) (ct_brain c) (adopt_step cfg env dn (ct_topology c)) dn st = Err e)"
  | (decided) d st b dec en added a err where "map_of (domains (ct_topology c)) dn = Some d"
      "build_state cfg ops (ct_actuator c) (adopt_step cfg env dn (ct_topology c)) ts gpus dn d = Ok st"
      "brain_decide (te_cvxpy env) (te_now env) (ct_brain c) (adopt_step cfg env dn (ct_topology c)) dn st = Ok (b, dec)"
      "add_tick (ct_energy c) (map (\<lambda>(g, w). (g, Some w)) (gpu_draws st)) (cc_interval_s cfg) = (en, added)"
      "push_decision cfg ops (bd_caps dec) (ct_actuator c) = (a, err)"
      "c' = c\<lparr>ct_topology := adopt_step cfg env dn (ct_topology c), ct_brain := b, ct_energy := en, ct_actuator := a,
             ct_metrics := ct_metrics c @ tenant_calls cfg dn added @
               (if err = None then gauge_calls cfg dn (gpu_draws st) (bd_caps dec) else []),
             ct_printed := ct_printed c @ (if err = None then [dec] else [])\<rparr>"
      "r = (case err of Some e \<Rightarrow> Err e | None \<Rightarrow> Ok dec)"
proof (cases "map_of (domains (ct_topology c)) dn")
  case None
  with step show ?thesis by (intro unknown) (simp_all add: domain_step_def)
next
  case d: (Some d)
  let ?t = "adopt_step cfg env dn (ct_topology c)"
  show ?thesis
  proof (cases "build_state cfg ops (ct_actuator c) ?t ts gpus dn d")
    case (Inl e)
    with step d show ?thesis by (intro failed [of d e]) (simp_all add: domain_step_def Let_def)
  next
    case st: (Inr st)
    show ?thesis
    proof (cases "brain_decide (te_cvxpy env) (te_now env) (ct_brain c) ?t dn st")
      case (Inl e)
      with step d st show ?thesis by (intro failed [of d e]) (simp_all add: domain_step_def Let_def)
    next
      case (Inr bd)
      obtain b dec where bd: "bd = (b, dec)" by (cases bd)
      obtain en added where en: "add_tick (ct_energy c) (map (\<lambda>(g, w). (g, Some w)) (gpu_draws st)) (cc_interval_s cfg) = (en, added)"
        by (rule prod.exhaust)
      obtain a err where a: "push_decision cfg ops (bd_caps dec) (ct_actuator c) = (a, err)" by (rule prod.exhaust)
      show ?thesis
        by (rule decided [OF d st Inr [unfolded bd] en a])
          (use step d st Inr bd en a in \<open>auto simp: domain_step_def Let_def split: option.splits\<close>)
    qed
  qed
qed

text \<open>The environments considered: a sample, if there is one, has no negative power, and neither has a
  solution of the LP solver.\<close>

definition good_env :: "tick_env \<Rightarrow> bool" where
  "good_env env \<longleftrightarrow> (\<forall>n. te_sample env = Ok n \<longrightarrow> sample_nonneg n) \<and> sane_solver (te_cvxpy env)"

context control_target
begin

lemma push_decision_inv:
  assumes "push_decision cfg ops caps s = (s', r)" "inv s" "wf_powers caps"
  shows "inv s'"
proof (cases "cc_dry_run cfg \<or> op_push_all ops \<noteq> None")
  case True
  then show ?thesis using assms push_inv [OF assms(2,3)] by (auto simp: push_decision_def split: if_splits)
next
  case False
  then have "push_each (op_set ops) caps s = (s', r)" using assms(1) by (simp add: push_decision_def)
  then show ?thesis using assms(2,3) push_each_inv [where P = inv, OF \<open>push_each _ _ _ = _\<close>] set_inv unfolding wf_powers_def by blast
qed

lemma build_state_ok:
  assumes st: "build_state cfg ops s t ts gpus dn d = Ok st" and inv: "inv s" and smp: "sample_ok gpus"
  shows "wf_state st \<and> set (state_gpus st) \<subseteq> set (pd_gpu_indices d)"
proof -
  from st obtain fb r where fb: "fallback_cap t dn d = Ok fb"
    and r: "read_gpus (case gpus of None \<Rightarrow> reading_of_actuator ops s fb | Some g \<Rightarrow> reading_of_sample g fb)
        (pd_gpu_indices d) \<lparr>rd_draws = [], rd_caps = [], rd_max_caps = []\<rparr> = Ok r"
    and st': "st = \<lparr>ds_domain_name = dn, gpu_draws = rd_draws r, gpu_caps = rd_caps r, ds_ts = ts,
         gpu_max_caps = rd_max_caps r, gpu_thermal_throttled = thermal_flags cfg gpus (rd_draws r)\<rparr>"
    by (auto simp: build_state_def res_bind_Ok_iff)
  have "0 \<le> fb" using fb domain_budget_nonneg [of t dn] by (auto simp: fallback_cap_def res_bind_Ok_iff)
  then have pw: "power_ok p"
    if "(case gpus of None \<Rightarrow> reading_of_actuator ops s fb | Some g \<Rightarrow> reading_of_sample g fb) i = Ok (Some p)" for i p
    using that smp draw_nonneg [OF inv] cap_nonneg [OF inv] max_nonneg [OF inv]
    by (auto simp: reading_of_actuator_def reading_of_sample_def power_ok_def res_bind_Ok_iff sample_ok_def
        split: option.splits)
  have "readings_ok (set (pd_gpu_indices d)) r"
    by (rule read_gpus_ok [OF r]) (use pw in \<open>auto simp: readings_ok_def\<close>)
  with wf_state_readings show ?thesis unfolding st' by (simp add: readings_ok_def del: set_map)
qed

lemma domain_step_inv:
  assumes step: "domain_step cfg ops env ts gpus dn c = (c', r)" and ok: "ctl_inv inv c"
    and smp: "sample_ok gpus" and sane: "sane_solver (te_cvxpy env)"
  shows "ctl_inv inv c' \<and> domains (ct_topology c') = domains (ct_topology c)"
  using step
proof (cases rule: domain_step_cases)
  case unknown
  with ok show ?thesis by simp
next
  case (failed d e)
  with ok show ?thesis by (simp add: ctl_inv_def)
next
  case (decided d st b dec en added a err)
  from ok have br: "brain_inv (ct_brain c)" "inv (ct_actuator c)" "energy_ok (ct_energy c)"
    by (simp_all add: ctl_inv_def)
  from build_state_ok [OF decided(2) br(2) smp] have
    st: "wf_state st" "set (state_gpus st) \<subseteq> set (pd_gpu_indices d)" by simp_all
  from brain_decide_sound [OF st(1) br(1) sane decided(3)] have
    dec: "brain_inv b" "wf_powers (bd_caps dec)" "set (dkeys (bd_caps dec)) \<subseteq> set (state_gpus st)" by simp_all
  have "wf_powers (gpu_draws st)" using st(1) by (simp add: wf_state_def wf_powers_def)
  from energy_ok_tick [OF br(3) decided(4) this] have "energy_ok en" by simp
  moreover have "inv a" by (rule push_decision_inv [OF decided(5) br(2) dec(2)])
  moreover have "decision_ok (ct_topology c) dec"
    using decided(1) dec(2,3) st(2) brain_decide_domain [OF decided(3)] by (auto simp: decision_ok_def simp del: set_map)
  ultimately show ?thesis using ok dec(1) by (auto simp: ctl_inv_def decided(6) dest: calls_declared)
qed

lemma domains_loop_inv:
  assumes "domains_loop cfg ops env ts gpus dns c = (c', r)" "ctl_inv inv c"
    and smp: "sample_ok gpus" and sane: "sane_solver (te_cvxpy env)"
  shows "ctl_inv inv c' \<and> domains (ct_topology c') = domains (ct_topology c)"
  using assms(1,2)
proof (induction dns arbitrary: c c' r)
  case (Cons dn dns)
  obtain c1 r1 where 1: "domain_step cfg ops env ts gpus dn c = (c1, r1)" by (rule prod.exhaust)
  obtain c2 r2 where 2: "domains_loop cfg ops env ts gpus dns c1 = (c2, r2)" by (rule prod.exhaust)
  from domain_step_inv [OF 1 Cons.prems(2) smp sane] Cons.IH [OF 2] Cons.prems(1) 1 2
  show ?case by (auto split: sum.splits)
qed simp

lemma run_once_inv:
  assumes once: "run_once cfg ops env c = (c', r)" and ok: "ctl_inv inv c"
    and smp: "\<And>n. te_sample env = Ok n \<Longrightarrow> sample_nonneg n" and sane: "sane_solver (te_cvxpy env)"
  shows "ctl_inv inv c' \<and> domains (ct_topology c') = domains (ct_topology c)"
proof (cases "telemetry_of cfg env")
  case (Inl e)
  with once ok show ?thesis by (simp add: run_once_def)
next
  case (Inr tg)
  obtain ts gpus where tg: "tg = (ts, gpus)" by (cases tg)
  have "sample_ok gpus"
    using Inr smp sample_ok_index
    by (auto simp: telemetry_of_def tg res_bind_Ok_iff sample_ok_def split: if_splits)
  moreover obtain c1 r1 where 1: "domains_loop cfg ops env ts gpus (managed_domains cfg (ct_topology c)) c = (c1, r1)"
    by (rule prod.exhaust)
  ultimately have "ctl_inv inv c1 \<and> domains (ct_topology c1) = domains (ct_topology c)"
    using domains_loop_inv [OF 1 ok _ sane] by blast
  with once Inr 1 tick_inv show ?thesis
    by (auto simp: run_once_def tg advance_sim_def ctl_inv_def split: sum.splits option.splits if_splits)
qed

lemma refresh_tiers_inv:
  assumes "refresh_tiers loads loadable answer c = (c', e)" "ctl_inv inv c"
  shows "ctl_inv inv c' \<and> ct_topology c' = ct_topology c"
proof (cases "ct_source c")
  case None
  with assms show ?thesis by (simp add: refresh_tiers_def)
next
  case (Some s)
  obtain s' r where p: "poll_config loads loadable answer s = (s', r)" by (rule prod.exhaust)
  then have "poll_step loads s s'" by (auto simp: poll_step_iff)
  then have "source_ok s'" using poll_step_ok assms(2) Some by (auto simp: ctl_inv_def)
  then show ?thesis
    using assms Some p
    by (auto simp: refresh_tiers_def ctl_inv_def brain_inv_def split: brain.splits sum.splits dest: set_tiers_inv)
qed

lemma run_iteration_inv:
  assumes ok: "ctl_inv inv c" and smp: "\<And>n. te_sample env = Ok n \<Longrightarrow> sample_nonneg n" and sane: "sane_solver (te_cvxpy env)"
  shows "ctl_inv inv (run_iteration loads cfg ops loadable answer env c) \<and>
    domains (ct_topology (run_iteration loads cfg ops loadable answer env c)) = domains (ct_topology c)"
proof -
  obtain c1 e where 1: "refresh_tiers loads loadable answer c = (c1, e)" by (rule prod.exhaust)
  obtain c2 r where 2: "run_once cfg ops env c1 = (c2, r)" by (rule prod.exhaust)
  from refresh_tiers_inv [OF 1 ok] run_once_inv [OF 2 _ smp sane] 1 2 show ?thesis
    by (auto simp: run_iteration_def split: option.split)
qed

lemma reachable_inv:
  assumes "(ctl_step loads cfg ops good_env)\<^sup>*\<^sup>* c c'"
    and "ctl_inv inv c"
  shows "ctl_inv inv c' \<and> domains (ct_topology c') = domains (ct_topology c)"
  using assms(1)
proof (induction rule: rtranclp_induct)
  case base
  with assms(2) show ?case by simp
next
  case (step c1 c2)
  from step(2) show ?case
  proof (cases rule: ctl_step.cases)
    case (round env loadable answer)
    with run_iteration_inv [of c1 env] step.IH show ?thesis by (auto simp: good_env_def)
  next
    case (jobs smi)
    with step.IH show ?thesis
      by (auto simp: ctl_inv_def brain_inv_def poll_jobs_def job_aware_inv_def split: brain.split)
  qed
qed

end

section \<open>The actuators\<close>

definition sim_ops :: "'r rng \<Rightarrow> 'r sim actuator_ops" where
  "sim_ops rand = \<lparr>op_draw = sim_get_power_draw, op_cap = sim_get_power_cap, op_max_cap = Some sim_get_max_cap_w,
     op_set = sim_set_power_cap, op_push_all = None, op_tick = Some (sim_tick rand)\<rparr>"

definition agent_ops :: "'w sender \<Rightarrow> ('w \<Rightarrow> json res) \<Rightarrow> 'w agent actuator_ops" where
  "agent_ops send ask = \<lparr>op_draw = agent_get_power_draw ask, op_cap = agent_get_power_cap, op_max_cap = None,
     op_set = agent_set_power_cap send, op_push_all = Some (\<lambda>a caps. fst (agent_push_all_caps send a caps)),
     op_tick = None\<rparr>"

lemma sim_ops_sel [simp]:
  "op_draw (sim_ops rand) = sim_get_power_draw" "op_cap (sim_ops rand) = sim_get_power_cap"
  "op_max_cap (sim_ops rand) = Some sim_get_max_cap_w" "op_set (sim_ops rand) = sim_set_power_cap"
  "op_push_all (sim_ops rand) = None" "op_tick (sim_ops rand) = Some (sim_tick rand)"
  by (simp_all add: sim_ops_def)

lemma agent_ops_sel [simp]:
  "op_draw (agent_ops send ask) = agent_get_power_draw ask" "op_cap (agent_ops send ask) = agent_get_power_cap"
  "op_max_cap (agent_ops send ask) = None" "op_set (agent_ops send ask) = agent_set_power_cap send"
  "op_push_all (agent_ops send ask) = Some (\<lambda>a caps. fst (agent_push_all_caps send a caps))"
  "op_tick (agent_ops send ask) = None"
  by (simp_all add: agent_ops_def)

interpretation sim_target: control_target "\<lambda>s. sim_inv s \<and> good_rng rand" "sim_ops rand" for rand
proof
  fix s :: "'a sim" and g w
  assume inv: "sim_inv s \<and> good_rng rand"
  show "op_draw (sim_ops rand) s g = Ok w \<Longrightarrow> 0 \<le> w"
    using inv sim_inv_item [of s g] power_draw_nonneg
    by (auto simp: sim_get_power_draw_def res_bind_Ok_iff sim_item_Ok sim_gpu_ok_def)
  show "op_cap (sim_ops rand) s g = Ok w \<Longrightarrow> 0 \<le> w"
    using inv sim_inv_item [of s g]
    by (auto simp: sim_get_power_cap_def res_bind_Ok_iff sim_item_Ok sim_gpu_ok_def)
next
  fix s :: "'a sim" and g w f
  assume "sim_inv s \<and> good_rng rand" "op_max_cap (sim_ops rand) = Some f" "f s g = Ok w"
  then show "0 \<le> w"
    using sim_inv_item [of s g] by (auto simp: sim_get_max_cap_w_def res_bind_Ok_iff sim_item_Ok sim_gpu_ok_def)
next
  fix s s' :: "'a sim" and g w
  assume "sim_inv s \<and> good_rng rand" "op_set (sim_ops rand) s g w = Ok s'"
  then show "sim_inv s' \<and> good_rng rand" by (auto intro: sim_set_inv)
qed (auto intro: sim_tick_inv)

text \<open>An agent that reports no negative draw.\<close>

definition ask_ok :: "('w \<Rightarrow> json res) \<Rightarrow> bool" where
  "ask_ok ask \<longleftrightarrow> (\<forall>a g w. agent_get_power_draw ask a g = Ok w \<longrightarrow> 0 \<le> w)"

interpretation agent_target: control_target "\<lambda>a. agent_inv a \<and> ask_ok ask" "agent_ops send ask" for send ask
proof
  fix s :: "'a agent" and g w s'
  assume inv: "agent_inv s \<and> ask_ok ask"
  show "op_draw (agent_ops send ask) s g = Ok w \<Longrightarrow> 0 \<le> w" using inv by (simp add: ask_ok_def)
  show "op_cap (agent_ops send ask) s g = Ok w \<Longrightarrow> 0 \<le> w" using inv agent_inv_cap by auto
  show "0 \<le> w \<Longrightarrow> op_set (agent_ops send ask) s g w = Ok s' \<Longrightarrow> agent_inv s' \<and> ask_ok ask"
    using inv agent_inv_set by auto
next
  fix s :: "'a agent" and caps h
  assume "agent_inv s \<and> ask_ok ask" "wf_powers caps" "op_push_all (agent_ops send ask) = Some h"
  then show "agent_inv (h s caps) \<and> ask_ok ask"
    by (auto intro!: agent_inv_push dest: wf_powers_map_of)
qed simp_all

text \<open>The NVML backend, on a driver that reports no negative milliwatts.\<close>

definition nvml_ops :: "('w \<Rightarrow> 'h \<Rightarrow> int \<Rightarrow> 'w option) \<Rightarrow> ('w \<Rightarrow> 'h \<Rightarrow> int option) \<Rightarrow> ('w \<Rightarrow> 'h \<Rightarrow> int option) \<Rightarrow>
    ('w \<Rightarrow> 'h \<Rightarrow> (int \<times> int) option) \<Rightarrow> 'h list \<Rightarrow> 'w actuator_ops" where
  "nvml_ops set_limit get_limit get_usage constraints handles =
     \<lparr>op_draw = nvml_get_power_draw get_usage handles, op_cap = nvml_get_power_cap get_limit handles,
      op_max_cap = Some (nvml_get_max_cap_w constraints handles), op_set = nvml_set_power_cap set_limit handles,
      op_push_all = None, op_tick = None\<rparr>"

definition driver_ok :: "('w \<Rightarrow> 'h \<Rightarrow> int option) \<Rightarrow> ('w \<Rightarrow> 'h \<Rightarrow> int option) \<Rightarrow> ('w \<Rightarrow> 'h \<Rightarrow> (int \<times> int) option) \<Rightarrow> bool" where
  "driver_ok get_limit get_usage constraints \<longleftrightarrow>
     (\<forall>w h mw. get_limit w h = Some mw \<longrightarrow> 0 \<le> mw) \<and> (\<forall>w h mw. get_usage w h = Some mw \<longrightarrow> 0 \<le> mw) \<and>
     (\<forall>w h lo mw. constraints w h = Some (lo, mw) \<longrightarrow> 0 \<le> mw)"

lemma nvml_read_nonneg:
  assumes "nvml_read query handles w i = Ok v" "\<And>h mw. query w h = Some mw \<Longrightarrow> 0 \<le> mw"
  shows "0 \<le> v"
proof -
  obtain h where "v = (case query w h of None \<Rightarrow> 0 | Some mw \<Rightarrow> real_of_int mw / 1000)"
    using assms(1) by (auto simp: nvml_read_def res_bind_Ok_iff)
  with assms(2) show ?thesis by (simp split: option.split)
qed

interpretation nvml_target: control_target "\<lambda>_. driver_ok get_limit get_usage constraints"
  "nvml_ops set_limit get_limit get_usage constraints handles" for set_limit get_limit get_usage constraints handles
proof
  fix s g w f
  assume d: "driver_ok get_limit get_usage constraints"
  show "op_draw (nvml_ops set_limit get_limit get_usage constraints handles) s g = Ok w \<Longrightarrow> 0 \<le> w"
    using d by (auto simp: nvml_ops_def nvml_get_power_draw_def driver_ok_def elim!: nvml_read_nonneg)
  show "op_cap (nvml_ops set_limit get_limit get_usage constraints handles) s g = Ok w \<Longrightarrow> 0 \<le> w"
    using d by (auto simp: nvml_ops_def nvml_get_power_cap_def driver_ok_def elim!: nvml_read_nonneg)
  show "op_max_cap (nvml_ops set_limit get_limit get_usage constraints handles) = Some f \<Longrightarrow> f s g = Ok w \<Longrightarrow> 0 \<le> w"
    using d by (auto simp: nvml_ops_def nvml_get_max_cap_w_def driver_ok_def elim!: nvml_read_nonneg)
qed (simp_all add: nvml_ops_def)

end
