(* ===== verification/Enforcement.thy ===== *)
theory Enforcement
  imports ControlLoop
begin

text \<open>
  From the decision to the hardware: on the simulated fleet a tick always completes, every cap a
  brain decided is enforced at the end of it, and the energy reported per tenant is the energy
  metered on its GPUs.
\<close>

section \<open>Pushing caps to an actuator\<close>

context actuator
begin

lemma push_each_enforces:
  assumes "inv s" "\<forall>g \<in> set (dkeys caps). known s g" "wf_powers caps"
  shows "\<exists>s'. push_each set_power_cap caps s = (s', None) \<and> inv s' \<and> (\<forall>g. known s' g \<longleftrightarrow> known s g) \<and>
    (\<forall>g w. map_of caps g = Some w \<longrightarrow> (\<exists>p. get_power_cap s' g = Ok p \<and> p \<le> w)) \<and>
    (\<forall>g. g \<notin> set (dkeys caps) \<longrightarrow> get_power_cap s' g = get_power_cap s g)"
  using assms
proof (induction caps arbitrary: s)
  case (Cons x caps)
  obtain g w where x: "x = (g, w)" by (cases x)
  have "known s g" "0 \<le> w" using Cons.prems by (auto simp: x wf_powers_def)
  then obtain s1 p where s1: "set_power_cap s g w = Ok s1" "get_power_cap s1 g = Ok p" "p \<le> w"
    using set_known [OF Cons.prems(1), of g w] by auto
  have "inv s1" "\<forall>g \<in> set (dkeys caps). known s1 g" "wf_powers caps"
    using set_inv [OF Cons.prems(1) s1(1)] set_knows [OF s1(1)] Cons.prems by (auto simp: x wf_powers_def)
  from Cons.IH [OF this] obtain s' where s': "push_each set_power_cap caps s1 = (s', None)" "inv s'"
    "\<forall>g. known s' g \<longleftrightarrow> known s1 g" "\<forall>g w. map_of caps g = Some w \<longrightarrow> (\<exists>p. get_power_cap s' g = Ok p \<and> p \<le> w)"
    "\<forall>g. g \<notin> set (dkeys caps) \<longrightarrow> get_power_cap s' g = get_power_cap s1 g" by blast
  have new: "g \<notin> set (dkeys caps)" using Cons.prems(3) by (simp add: x wf_powers_def)
  with s'(5) s1 have "get_power_cap s' g = Ok p" by simp
  moreover have "get_power_cap s' h = get_power_cap s h" if "h \<notin> set (dkeys (x # caps))" for h
    using that s'(5) set_other [OF s1(1), of h] by (auto simp: x)
  ultimately show ?case using s' s1 set_knows [OF s1(1)] by (intro exI [of _ s']) (auto simp: x)
qed simp

end

section \<open>A tick of the simulated fleet\<close>

lemma read_gpus_total: "(\<And>i. i \<in> set is \<Longrightarrow> \<exists>p. rd i = Ok p) \<Longrightarrow> \<exists>r'. read_gpus rd is r = Ok r'"
  by (induction rd "is" r rule: read_gpus.induct) (force simp: res_bind_def split: sum.splits)+

lemma sim_build_total:
  assumes "map_of (domains t) dn = Some d" "set (pd_gpu_indices d) \<subseteq> set (dkeys s)"
  shows "\<exists>st. build_state cfg (sim_ops rand) s t ts None dn d = Ok st"
proof -
  obtain b where b: "domain_budget_w t dn = Ok b" using domain_budget_total [OF assms(1)] by auto
  then obtain fb where fb: "fallback_cap t dn d = Ok fb" by (simp add: fallback_cap_def)
  have "\<exists>p. reading_of_actuator (sim_ops rand) s fb i = Ok p" if i: "i \<in> set (pd_gpu_indices d)" for i
  proof -
    have "i \<in> set (dkeys s)" using i assms(2) by blast
    from dkey_some [OF this] obtain x where "map_of s i = Some x" ..
    then show ?thesis
      by (simp add: reading_of_actuator_def sim_get_power_draw_def sim_get_power_cap_def sim_get_max_cap_w_def sim_item_def)
  qed
  from read_gpus_total [where r = "\<lparr>rd_draws = [], rd_caps = [], rd_max_caps = []\<rparr>", OF this] obtain r where
    "read_gpus (reading_of_actuator (sim_ops rand) s fb) (pd_gpu_indices d) \<lparr>rd_draws = [], rd_caps = [], rd_max_caps = []\<rparr> = Ok r" ..
  then show ?thesis by (simp add: build_state_def fb)
qed

text \<open>A decision is in force on a fleet: no GPU it names has a higher cap.\<close>

definition in_force :: "'r sim \<Rightarrow> brain_decision \<Rightarrow> bool" where
  "in_force s dec \<longleftrightarrow> (\<forall>g w. map_of (bd_caps dec) g = Some w \<longrightarrow> (\<exists>p. sim_get_power_cap s g = Ok p \<and> p \<le> w))"

abbreviation sim_ctl_inv :: "'r rng \<Rightarrow> 'r sim controller \<Rightarrow> bool" where
  "sim_ctl_inv rand \<equiv> ctl_inv (\<lambda>s. sim_inv s \<and> good_rng rand)"

abbreviation domain_gpus :: "topology \<Rightarrow> string \<Rightarrow> gpu set" where
  "domain_gpus t dn \<equiv> (case map_of (domains t) dn of None \<Rightarrow> {} | Some d \<Rightarrow> set (pd_gpu_indices d))"

text \<open>The domains are in the topology and the fleet has their GPUs.\<close>

definition fleet_has :: "topology \<Rightarrow> 'r sim \<Rightarrow> string list \<Rightarrow> bool" where
  "fleet_has t s dns \<longleftrightarrow> (\<forall>dn \<in> set dns. map_of (domains t) dn \<noteq> None \<and> domain_gpus t dn \<subseteq> set (dkeys s))"

lemma sim_domain_step:
  assumes inv: "sim_ctl_inv rand c" and sane: "sane_solver (te_cvxpy env)" and wet: "\<not> cc_dry_run cfg"
    and has: "fleet_has (ct_topology c) (ct_actuator c) [dn]"
  shows "\<exists>c' dec. domain_step cfg (sim_ops rand) env ts None dn c = (c', Ok dec) \<and> bd_domain dec = dn \<and>
    sim_ctl_inv rand c' \<and> domains (ct_topology c') = domains (ct_topology c) \<and>
    set (dkeys (ct_actuator c')) = set (dkeys (ct_actuator c)) \<and> in_force (ct_actuator c') dec \<and>
    set (dkeys (bd_caps dec)) \<subseteq> domain_gpus (ct_topology c) dn \<and>
    (\<forall>g. g \<notin> domain_gpus (ct_topology c) dn \<longrightarrow>
       sim_get_power_cap (ct_actuator c') g = sim_get_power_cap (ct_actuator c) g)"
proof -
  obtain c' r where step: "domain_step cfg (sim_ops rand) env ts None dn c = (c', r)" by (rule prod.exhaust)
  obtain d where d: "map_of (domains (ct_topology c)) dn = Some d" "set (pd_gpu_indices d) \<subseteq> set (dkeys (ct_actuator c))"
    using has by (auto simp: fleet_has_def split: option.splits)
  have smp: "sample_ok None" by (simp add: sample_ok_def)
  have act: "sim_inv (ct_actuator c) \<and> good_rng rand" and br: "brain_inv (ct_brain c)" using inv by (simp_all add: ctl_inv_def)
  let ?t = "adopt_step cfg env dn (ct_topology c)"
  have build: "\<exists>st. build_state cfg (sim_ops rand) (ct_actuator c) ?t ts None dn d = Ok st"
    by (rule sim_build_total) (simp_all add: d del: set_map)
  note sound = sim_target.build_state_ok [OF _ act smp]
  from step show ?thesis
  proof (cases rule: domain_step_cases)
    case unknown
    with d show ?thesis by simp
  next
    case (failed d' e)
    with d build have "\<exists>st. build_state cfg (sim_ops rand) (ct_actuator c) ?t ts None dn d = Ok st \<and>
        brain_decide (te_cvxpy env) (te_now env) (ct_brain c) ?t dn st = Err e" by auto
    then obtain st where st: "build_state cfg (sim_ops rand) (ct_actuator c) ?t ts None dn d = Ok st"
      "brain_decide (te_cvxpy env) (te_now env) (ct_brain c) ?t dn st = Err e" by blast
    have "map_of (domains ?t) dn = Some d" using d by simp
    from brain_decide_total [OF this conjunct1 [OF sound [OF st(1)]] br] st(2) show ?thesis
      by (metis Inl_Inr_False)
  next
    case (decided d' st b dec en added a err)
    with d have [simp]: "d' = d" by simp
    from sound [OF decided(2)] have st: "wf_state st" "set (state_gpus st) \<subseteq> set (pd_gpu_indices d)" by simp_all
    from brain_decide_sound [OF st(1) br sane decided(3)] have
      dec: "wf_powers (bd_caps dec)" "set (dkeys (bd_caps dec)) \<subseteq> set (pd_gpu_indices d)" using st(2) by blast+
    have "\<forall>g \<in> set (dkeys (bd_caps dec)). g \<in> set (dkeys (ct_actuator c))" using dec(2) d(2) by blast
    from sim.push_each_enforces [OF conjunct1 [OF act] this dec(1)] obtain a' where
      a': "push_each sim_set_power_cap (bd_caps dec) (ct_actuator c) = (a', None)"
      "\<forall>g. g \<in> set (dkeys a') \<longleftrightarrow> g \<in> set (dkeys (ct_actuator c))"
      "\<forall>g w. map_of (bd_caps dec) g = Some w \<longrightarrow> (\<exists>p. sim_get_power_cap a' g = Ok p \<and> p \<le> w)"
      "\<forall>g. g \<notin> set (dkeys (bd_caps dec)) \<longrightarrow> sim_get_power_cap a' g = sim_get_power_cap (ct_actuator c) g" by blast
    with decided(5) wet have [simp]: "a = a'" "err = None" by (simp_all add: push_decision_def)
    from sim_target.domain_step_inv [OF step inv smp sane] have "sim_ctl_inv rand c'" by simp
    moreover have "bd_domain dec = dn" by (rule brain_decide_domain [OF decided(3)])
    moreover have "set (dkeys a') = set (dkeys (ct_actuator c))" using a'(2) by blast
    ultimately show ?thesis
      using step decided(6,7) a'(3,4) dec(2) d by (intro exI [of _ c'] exI [of _ dec]) (auto simp: in_force_def simp del: set_map)
  qed
qed

text \<open>Later domains leave the caps of earlier ones alone, as their GPUs are others.\<close>

definition domains_apart :: "topology \<Rightarrow> string list \<Rightarrow> bool" where
  "domains_apart t dns \<longleftrightarrow> distinct dns \<and>
     (\<forall>a \<in> set dns. \<forall>b \<in> set dns. a \<noteq> b \<longrightarrow> domain_gpus t a \<inter> domain_gpus t b = {})"

lemma in_force_cong:
  "in_force s dec \<Longrightarrow> (\<And>g. g \<in> set (dkeys (bd_caps dec)) \<Longrightarrow> sim_get_power_cap s' g = sim_get_power_cap s g) \<Longrightarrow> in_force s' dec"
  unfolding in_force_def by (metis map_of_some_key)

lemma sim_domains_loop:
  assumes "sim_ctl_inv rand c" "fleet_has (ct_topology c) (ct_actuator c) dns" "domains_apart (ct_topology c) dns"
    and sane: "sane_solver (te_cvxpy env)" and wet: "\<not> cc_dry_run cfg"
  shows "\<exists>c' decs. domains_loop cfg (sim_ops rand) env ts None dns c = (c', Ok decs) \<and> map bd_domain decs = dns \<and>
    sim_ctl_inv rand c' \<and> domains (ct_topology c') = domains (ct_topology c) \<and>
    (\<forall>dec \<in> set decs. in_force (ct_actuator c') dec) \<and>
    (\<forall>g. g \<notin> (\<Union>dn \<in> set dns. domain_gpus (ct_topology c) dn) \<longrightarrow>
       sim_get_power_cap (ct_actuator c') g = sim_get_power_cap (ct_actuator c) g)"
  using assms(1-3)
proof (induction dns arbitrary: c)
  case (Cons dn dns)
  have "fleet_has (ct_topology c) (ct_actuator c) [dn]" using Cons.prems(2) by (simp add: fleet_has_def del: set_map)
  from sim_domain_step [OF Cons.prems(1) sane wet this, of ts] obtain c1 dec where
    1: "domain_step cfg (sim_ops rand) env ts None dn c = (c1, Ok dec)" "bd_domain dec = dn" "sim_ctl_inv rand c1"
      "domains (ct_topology c1) = domains (ct_topology c)" "set (dkeys (ct_actuator c1)) = set (dkeys (ct_actuator c))"
      "in_force (ct_actuator c1) dec" "set (dkeys (bd_caps dec)) \<subseteq> domain_gpus (ct_topology c) dn"
      "\<forall>g. g \<notin> domain_gpus (ct_topology c) dn \<longrightarrow>
         sim_get_power_cap (ct_actuator c1) g = sim_get_power_cap (ct_actuator c) g" by blast
  have "fleet_has (ct_topology c1) (ct_actuator c1) dns" "domains_apart (ct_topology c1) dns"
    using Cons.prems(2,3) by (simp_all add: fleet_has_def domains_apart_def 1(4,5) del: set_map)
  from Cons.IH [OF 1(3) this] obtain c2 decs where
    2: "domains_loop cfg (sim_ops rand) env ts None dns c1 = (c2, Ok decs)" "map bd_domain decs = dns" "sim_ctl_inv rand c2"
      "domains (ct_topology c2) = domains (ct_topology c)" "\<forall>dec \<in> set decs. in_force (ct_actuator c2) dec"
      "\<forall>g. g \<notin> (\<Union>dn \<in> set dns. domain_gpus (ct_topology c) dn) \<longrightarrow>
         sim_get_power_cap (ct_actuator c2) g = sim_get_power_cap (ct_actuator c1) g"
    unfolding 1(4) by blast
  have "domain_gpus (ct_topology c) dn \<inter> (\<Union>dn \<in> set dns. domain_gpus (ct_topology c) dn) = {}"
    using Cons.prems(3) by (force simp: domains_apart_def)
  then have "in_force (ct_actuator c2) dec" using 1(7) 2(6) by (intro in_force_cong [OF 1(6)]) blast
  with 1 2 show ?case by (intro exI [of _ c2] exI [of _ "dec # decs"]) simp
qed simp

lemma sim_tick_cap [simp]: "sim_get_power_cap (sim_tick rand s) g = sim_get_power_cap s g"
  by (simp add: sim_tick_def sim_get_power_cap_def sim_item_def map_ran_conv resample_def res_bind_def
      split: option.split prod.split)

lemma sim_draw_le_cap:
  "sim_get_power_cap s g = Ok p \<Longrightarrow> \<exists>d. sim_get_power_draw s g = Ok d \<and> d \<le> p"
  using power_draw_le_cap
  by (auto simp: sim_get_power_draw_def sim_get_power_cap_def res_bind_Ok_iff sim_item_Ok)

section \<open>Properties\<close>

text \<open>C2. A control tick on the simulated fleet always completes and is enforced: whatever brain runs,
  if the managed domains are known, their GPUs are in the fleet and no two domains share a GPU,
  \<open>run_once\<close> returns one decision per managed domain, in order, and when it returns every GPU
  of every decision has a cap of at most what was decided for it and draws no more than that.\<close>

theorem tick_enforces_caps:
  assumes inv: "sim_ctl_inv rand c" and sane: "sane_solver (te_cvxpy env)"
    and cfg: "reads_actuator cfg" "\<not> cc_dry_run cfg"
    and has: "fleet_has (ct_topology c) (ct_actuator c) (managed_domains cfg (ct_topology c))"
    and apart: "domains_apart (ct_topology c) (managed_domains cfg (ct_topology c))"
  shows "\<exists>c' decs. run_once cfg (sim_ops rand) env c = (c', Ok decs) \<and>
    map bd_domain decs = managed_domains cfg (ct_topology c) \<and>
    (\<forall>dec \<in> set decs. \<forall>g w. map_of (bd_caps dec) g = Some w \<longrightarrow>
       (\<exists>p d. sim_get_power_cap (ct_actuator c') g = Ok p \<and> sim_get_power_draw (ct_actuator c') g = Ok d \<and>
          p \<le> w \<and> d \<le> p))"
proof -
  from sim_domains_loop [OF inv has apart sane cfg(2), of "te_now env"] obtain c1 decs where
    1: "domains_loop cfg (sim_ops rand) env (te_now env) None (managed_domains cfg (ct_topology c)) c = (c1, Ok decs)"
      "map bd_domain decs = managed_domains cfg (ct_topology c)" "\<forall>dec \<in> set decs. in_force (ct_actuator c1) dec"
    by blast
  let ?c' = "advance_sim cfg (sim_ops rand) c1"
  have "run_once cfg (sim_ops rand) env c = (?c', Ok decs)"
    using cfg(1) 1(1) by (simp add: run_once_def telemetry_of_def)
  moreover have caps: "sim_get_power_cap (ct_actuator ?c') g = sim_get_power_cap (ct_actuator c1) g" for g
    by (simp add: advance_sim_def)
  moreover have "\<exists>p d. sim_get_power_cap (ct_actuator ?c') g = Ok p \<and> sim_get_power_draw (ct_actuator ?c') g = Ok d \<and>
      p \<le> w \<and> d \<le> p" if "dec \<in> set decs" "map_of (bd_caps dec) g = Some w" for dec g w
  proof -
    from 1(3) that have "\<exists>p. sim_get_power_cap (ct_actuator ?c') g = Ok p \<and> p \<le> w"
      unfolding caps in_force_def by blast
    then obtain p where p: "sim_get_power_cap (ct_actuator ?c') g = Ok p" "p \<le> w" by blast
    with sim_draw_le_cap [OF p(1)] show ?thesis by blast
  qed
  ultimately show ?thesis using 1(2) by blast
qed

text \<open>Four GPUs at 70 percent load under PRS, one domain of 1500 W.\<close>

definition demo_brain_config :: brain_config where
  "demo_brain_config = \<lparr>bc_type = ''prs'', bc_ewma_alpha = 3/10, bc_cap_raise_rate = 0, bc_busy_gpus = [],
     bc_priority_boost = 15/100, bc_quota = None, bc_tiers = [], bc_has_source = False\<rparr>"

definition demo_cfg :: controller_config where
  "demo_cfg = \<lparr>cc_interval_s = 5, cc_domain_names = [], cc_dry_run = False, cc_sim_mode = True,
     cc_metrics_port = None, cc_telemetry = ''prom'', cc_brain = demo_brain_config, cc_thermal_gpus = [],
     cc_thermal_temp_c = 85, cc_node_id = ''node0'', cc_adopted_min_w = 100\<rparr>"

definition demo_env :: tick_env where
  "demo_env = \<lparr>te_now = 0, te_store = None, te_sample = Err (RuntimeError ''no prometheus''), te_cvxpy = None\<rparr>"

definition demo_fleet :: "unit sim" where
  "demo_fleet = uniform_load half_rng (\<lambda>_. ()) 4 1000 70 42"

definition demo_ctl :: "unit sim controller" where
  "demo_ctl = \<lparr>ct_topology = demo_domain 1500, ct_brain = Prs_brain demo_prs, ct_energy = \<lparr>energy_j = []\<rparr>,
     ct_actuator = demo_fleet, ct_metrics = [], ct_printed = [], ct_source = None\<rparr>"

lemma demo_fleet_keys: "dkeys demo_fleet = [0, 1, 2, 3]"
  by (simp add: demo_fleet_def uniform_load_def sim_backend_def sim_gpu_init_def upt_rec split: prod.split)

lemma good_half_rng: "good_rng half_rng"
  by (simp add: good_rng_def half_rng_def)

lemma demo_fleet_inv: "sim_inv demo_fleet"
  unfolding demo_fleet_def uniform_load_def Let_def
  by (rule sim_backend_inv) (use sim_init_ok [OF good_half_rng] in auto)

lemma demo_ctl_inv: "sim_ctl_inv half_rng demo_ctl"
  by (simp add: ctl_inv_def demo_ctl_def brain_inv_def energy_ok_def demo_fleet_inv good_half_rng)

theorem tick_enforces_caps_witness:
  "\<exists>c' dec. run_once demo_cfg (sim_ops half_rng) demo_env demo_ctl = (c', Ok [dec]) \<and> bd_domain dec = ''d''"
proof -
  have m: "managed_domains demo_cfg (ct_topology demo_ctl) = [''d'']"
    by (simp add: managed_domains_def demo_cfg_def demo_ctl_def demo_domain_def)
  have "fleet_has (ct_topology demo_ctl) (ct_actuator demo_ctl) [''d'']"
    by (simp add: fleet_has_def demo_ctl_def demo_fleet_keys demo_domain_def del: set_map)
  moreover have "domains_apart (ct_topology demo_ctl) [''d'']" by (simp add: domains_apart_def)
  ultimately show ?thesis
    using tick_enforces_caps [OF demo_ctl_inv, of demo_env demo_cfg, unfolded m]
    by (auto simp: sane_solver_def demo_env_def reads_actuator_def demo_cfg_def Cons_eq_map_conv map_eq_Cons_conv)
qed

end
