(* ===== verification/Showback.thy ===== *)
theory Showback
  imports Enforcement
begin

text \<open>
  Two histories of the controller: what it decided, and the energy it charged. The Prometheus
  counter of a tenant is fed tick by tick with the joules the accountant has just added; the
  showback report integrates the accountant's totals. They agree in every reachable state.
\<close>

section \<open>Counters and totals\<close>

abbreviation kwh_counter :: "string \<Rightarrow> string \<Rightarrow> metric_call list \<Rightarrow> real" where
  "kwh_counter dn tid \<equiv> counter_total ''opendps_tenant_energy_kwh_total'' [dn, tid]"

text \<open>A quota whose tenants own GPUs of the quota's domain, which no other managed domain has.\<close>

definition quota_fits :: "topology \<Rightarrow> string list \<Rightarrow> quota_config \<Rightarrow> bool" where
  "quota_fits t dns q \<longleftrightarrow> distinct (map tq_id (qc_tenants q)) \<and>
     (\<forall>tn \<in> set (qc_tenants q). tq_domain tn = qc_domain q \<and>
        (\<forall>dn \<in> set dns. dn \<noteq> qc_domain q \<longrightarrow> set (tq_gpus tn) \<inter> domain_gpus t dn = {}))"

definition showback_inv :: "quota_config \<Rightarrow> 'a controller \<Rightarrow> bool" where
  "showback_inv q c \<longleftrightarrow> (\<forall>tn \<in> set (qc_tenants q).
     kwh_counter (qc_domain q) (tq_id tn) (ct_metrics c) = tenant_energy_wh (ct_energy c) (tq_gpus tn) / 1000)"

lemma counter_concat: "counter_total n ls (concat xss) = sum_list (map (counter_total n ls) xss)"
  by (induction xss) simp_all

lemma sum_list_one_id:
  assumes "distinct (map f xs)" "x \<in> set xs"
  shows "sum_list (map (\<lambda>y. if f y = f x then h y else 0) xs) = (h x :: real)"
  using assms
proof (induction xs)
  case (Cons y ys)
  have "sum_list (map (\<lambda>z. if f z = f x then h z else 0) ys) = 0" if "x = y"
    using Cons.prems(1) that by (intro sum_list_nonneg_eq_0_iff [THEN iffD2]) (force simp: image_iff)+
  with Cons show ?case by (auto simp: image_iff)
qed simp

text \<open>The increments of one domain step: the tenant's own joules in its domain, nothing elsewhere.\<close>

lemma tenant_calls_counter:
  assumes q: "bc_quota (cc_brain cfg) = Some q" "distinct (map tq_id (qc_tenants q))"
      "\<forall>tn \<in> set (qc_tenants q). tq_domain tn = qc_domain q"
    and tn: "tn \<in> set (qc_tenants q)" and nn: "\<forall>g. 0 \<le> dget_or added g 0"
  shows "kwh_counter (qc_domain q) (tq_id tn) (tenant_calls cfg dn added) =
    (if dn = qc_domain q then tenant_kwh added tn else 0)"
proof (cases "dn = qc_domain q")
  case True
  have f: "filter (\<lambda>t. tq_domain t = dn) (qc_tenants q) = qc_tenants q" using q(3) True by (simp add: filter_id_conv)
  note f' = f [unfolded True]
  have "0 \<le> tenant_kwh added t" for t using nn by (auto simp: tenant_kwh_def intro!: sum_list_nonneg)
  then have "kwh_counter (qc_domain q) (tq_id tn) (tenant_calls cfg dn added) =
      sum_list (map (\<lambda>t. if tq_id t = tq_id tn then tenant_kwh added t else 0) (qc_tenants q))"
    using q(1) True unfolding tenant_calls_def
    by (auto simp: counter_concat f' tenant_energy_counter comp_def intro!: arg_cong [where f = sum_list] map_cong)
  also have "\<dots> = tenant_kwh added tn" by (rule sum_list_one_id [OF q(2) tn])
  finally show ?thesis using True by simp
next
  case False
  then have "filter (\<lambda>t. tq_domain t = dn) (qc_tenants q) = []" using q(3) by (auto simp: filter_empty_conv)
  then show ?thesis using q(1) False by (simp add: tenant_calls_def)
qed

lemma tenant_wh_add:
  assumes "\<forall>g \<in> set gs. dget_or (energy_j a') g 0 = dget_or (energy_j a) g 0 + dget_or added g 0"
  shows "tenant_energy_wh a' gs = tenant_energy_wh a gs + sum_list (map (\<lambda>g. dget_or added g 0) gs) / 3600"
proof -
  have "sum_list (map (\<lambda>g. dget_or (energy_j a') g 0) gs) =
      sum_list (map (\<lambda>g. dget_or (energy_j a) g 0) gs) + sum_list (map (\<lambda>g. dget_or added g 0) gs)"
    using assms by (induction gs) auto
  then show ?thesis by (simp add: tenant_energy_wh_def J_PER_WH_def add_divide_distrib)
qed

lemma added_only_draws:
  assumes "add_tick a (map (\<lambda>(g, w). (g, Some w)) draws) dt = (a', added)" "wf_dict draws" "g \<notin> set (dkeys draws)"
  shows "dget_or added g 0 = 0"
proof -
  let ?ds = "map (\<lambda>(g, w). (g, Some w)) draws"
  have keys: "dkeys ?ds = dkeys draws" by (simp add: comp_def case_prod_beta)
  then have "map_of ?ds g = None" using assms(3) by (simp only: map_of_eq_None_iff) (metis list.set_map)
  moreover have "wf_dict ?ds" using assms(2) by (simp only: keys)
  ultimately show ?thesis using add_tick_added [OF _ assms(1)] by (simp add: sample_j_def)
qed

context control_target
begin

lemma domain_step_showback:
  assumes step: "domain_step cfg ops env ts gpus dn c = (c', r)" and ok: "ctl_inv inv c"
    and smp: "sample_ok gpus" and sane: "sane_solver (te_cvxpy env)"
    and q: "bc_quota (cc_brain cfg) = Some q" "quota_fits (ct_topology c) dns q" "dn \<in> set dns" and sb: "showback_inv q c"
  shows "showback_inv q c'"
  using step
proof (cases rule: domain_step_cases)
  case unknown
  with sb show ?thesis by simp
next
  case (failed d e)
  with sb show ?thesis by (simp add: showback_inv_def)
next
  case (decided d st b dec en added a err)
  have inv': "inv (ct_actuator c)" "energy_ok (ct_energy c)" using ok by (simp_all add: ctl_inv_def)
  from build_state_ok [OF decided(2) inv'(1) smp] have
    st: "wf_state st" "set (state_gpus st) \<subseteq> set (pd_gpu_indices d)" by simp_all
  have pw: "wf_powers (gpu_draws st)" using st(1) by (simp add: wf_state_def wf_powers_def)
  from energy_ok_tick [OF inv'(2) decided(4) pw] have
    en: "\<And>g. dget_or (energy_j en) g 0 = dget_or (energy_j (ct_energy c)) g 0 + dget_or added g 0"
    and nn: "\<forall>g. 0 \<le> dget_or added g 0" by simp_all
  have outside: "dget_or added g 0 = 0" if "g \<notin> set (pd_gpu_indices d)" for g
    using added_only_draws [OF decided(4)] pw that st(2) unfolding wf_powers_def by blast
  show ?thesis unfolding showback_inv_def
  proof
    fix tn assume tn: "tn \<in> set (qc_tenants q)"
    have calls: "kwh_counter (qc_domain q) (tq_id tn) (tenant_calls cfg dn added) =
        (if dn = qc_domain q then tenant_kwh added tn else 0)"
      by (rule tenant_calls_counter [OF q(1) _ _ tn nn]) (use q(2) in \<open>auto simp: quota_fits_def\<close>)
    have "sum_list (map (\<lambda>g. dget_or added g 0) (tq_gpus tn)) = 0" if "dn \<noteq> qc_domain q"
    proof -
      have "set (tq_gpus tn) \<inter> set (pd_gpu_indices d) = {}"
        using q(2,3) tn that by (force simp: quota_fits_def decided(1) dest!: bspec [where x = dn] bspec [where x = tn])
      then have "\<forall>g \<in> set (tq_gpus tn). dget_or added g 0 = 0" using outside by blast
      then show ?thesis by (induction "tq_gpus tn" rule: list.induct) (auto simp: sum_list_nonneg_eq_0_iff cong: map_cong)
    qed
    then have "tenant_energy_wh en (tq_gpus tn) / 1000 =
        tenant_energy_wh (ct_energy c) (tq_gpus tn) / 1000 + (if dn = qc_domain q then tenant_kwh added tn else 0)"
      using tenant_wh_add [of "tq_gpus tn" en "ct_energy c" added] en by (auto simp: tenant_kwh_def)
    with sb tn calls show "kwh_counter (qc_domain q) (tq_id tn) (ct_metrics c') = tenant_energy_wh (ct_energy c') (tq_gpus tn) / 1000"
      by (simp add: decided(6) showback_inv_def gauge_calls_def Let_def split: option.split)
  qed
qed

lemma domains_loop_showback:
  assumes "domains_loop cfg ops env ts gpus dns' c = (c', r)" "ctl_inv inv c" "showback_inv q c" "quota_fits (ct_topology c) dns q"
    "set dns' \<subseteq> set dns"
    and smp: "sample_ok gpus" and sane: "sane_solver (te_cvxpy env)" and q: "bc_quota (cc_brain cfg) = Some q"
  shows "showback_inv q c'"
  using assms(1-5)
proof (induction dns' arbitrary: c c' r)
  case (Cons dn dns')
  obtain c1 r1 where 1: "domain_step cfg ops env ts gpus dn c = (c1, r1)" by (rule prod.exhaust)
  obtain c2 r2 where 2: "domains_loop cfg ops env ts gpus dns' c1 = (c2, r2)" by (rule prod.exhaust)
  have inv1: "ctl_inv inv c1" "domains (ct_topology c1) = domains (ct_topology c)"
    using domain_step_inv [OF 1 Cons.prems(2) smp sane] by simp_all
  have sb: "showback_inv q c1"
    by (rule domain_step_showback [OF 1 Cons.prems(2) smp sane q Cons.prems(4) _ Cons.prems(3)]) (use Cons.prems(5) in simp)
  have "quota_fits (ct_topology c1) dns q" using Cons.prems(4) by (simp add: quota_fits_def inv1(2))
  from Cons.IH [OF 2 inv1(1) sb this] Cons.prems(1,5) 1 2 sb show ?case by (auto split: sum.splits)
qed simp

lemma run_iteration_showback:
  assumes ok: "ctl_inv inv c" and sb: "showback_inv q c" and q: "bc_quota (cc_brain cfg) = Some q"
    and fits: "quota_fits (ct_topology c) (managed_domains cfg (ct_topology c)) q"
    and smp: "\<And>n. te_sample env = Ok n \<Longrightarrow> sample_nonneg n" and sane: "sane_solver (te_cvxpy env)"
  shows "showback_inv q (run_iteration loads cfg ops loadable answer env c)"
proof -
  obtain c1 e where 1: "refresh_tiers loads loadable answer c = (c1, e)" by (rule prod.exhaust)
  have c1: "ctl_inv inv c1" "ct_topology c1 = ct_topology c" using refresh_tiers_inv [OF 1 ok] by simp_all
  have "ct_metrics c1 = ct_metrics c \<and> ct_energy c1 = ct_energy c"
    using 1 by (auto simp: refresh_tiers_def split: option.splits brain.splits sum.splits prod.splits)
  then have sb1: "showback_inv q c1" using sb by (simp add: showback_inv_def)
  have fits1: "quota_fits (ct_topology c1) (managed_domains cfg (ct_topology c1)) q" using fits by (simp add: c1(2))
  have "showback_inv q (fst (run_once cfg ops env c1))"
  proof (cases "telemetry_of cfg env")
    case (Inl e)
    with sb1 show ?thesis by (simp add: run_once_def)
  next
    case (Inr tg)
    obtain ts gpus where tg: "tg = (ts, gpus)" by (cases tg)
    have gpus: "sample_ok gpus"
      using Inr smp sample_ok_index by (auto simp: telemetry_of_def tg res_bind_Ok_iff sample_ok_def split: if_splits)
    obtain c2 r where 2: "domains_loop cfg ops env ts gpus (managed_domains cfg (ct_topology c1)) c1 = (c2, r)"
      by (rule prod.exhaust)
    have "showback_inv q c2" by (rule domains_loop_showback [OF 2 c1(1) sb1 fits1 subset_refl gpus sane q])
    then show ?thesis
      using Inr 2 by (auto simp: run_once_def tg advance_sim_def showback_inv_def split: sum.split option.split)
  qed
  with sb1 1 show ?thesis by (simp add: run_iteration_def split: option.split)
qed

lemma reachable_showback:
  assumes run: "(ctl_step loads cfg ops good_env)\<^sup>*\<^sup>* c c'"
    and ok: "ctl_inv inv c" and sb: "showback_inv q c" and q: "bc_quota (cc_brain cfg) = Some q"
    and fits: "quota_fits (ct_topology c) (managed_domains cfg (ct_topology c)) q"
  shows "showback_inv q c'"
  using run
proof (induction rule: rtranclp_induct)
  case base
  show ?case by (rule sb)
next
  case (step c1 c2)
  have c1: "ctl_inv inv c1" "domains (ct_topology c1) = domains (ct_topology c)"
    using reachable_inv [OF step(1) ok] by simp_all
  have fits1: "quota_fits (ct_topology c1) (managed_domains cfg (ct_topology c1)) q"
    using fits by (simp add: quota_fits_def managed_domains_def c1(2))
  from step(2) show ?case
  proof (cases rule: ctl_step.cases)
    case (round env loadable answer)
    with run_iteration_showback [OF c1(1) step.IH q fits1] show ?thesis by (auto simp: good_env_def)
  next
    case (jobs smi)
    with step.IH show ?thesis by (simp add: showback_inv_def)
  qed
qed

end

lemma foldl_dset_keyed:
  "distinct (map k xs) \<Longrightarrow> x \<in> set xs \<Longrightarrow> map_of (foldl (\<lambda>r y. dset (k y) (v y) r) d xs) (k x) = Some (v x)"
proof (induction xs arbitrary: d)
  case (Cons y ys)
  have "map_of (foldl (\<lambda>r y. dset (k y) (v y) r) d ys) a = map_of d a" if "a \<notin> k ` set ys" for d a
    using that by (induction ys arbitrary: d) auto
  with Cons show ?case by auto
qed simp

section \<open>Properties\<close>

lemma controller_init_ok:
  assumes init: "controller_init cfg t act source smi = Ok c0"
    and prs: "bc_type (cc_brain cfg) = ''quota-prs'' \<Longrightarrow> \<exists>p. default_prs (cc_brain cfg) = Ok p"
    and src: "\<And>s. source = Some s \<Longrightarrow> source_ok s" and act: "aok act"
  shows "ctl_inv aok c0 \<and> ct_topology c0 = t \<and> ct_printed c0 = [] \<and> ct_metrics c0 = [] \<and> energy_j (ct_energy c0) = []"
  using init make_brain_inv [OF _ prs] src act
  by (auto simp: controller_init_def res_bind_Ok_iff ctl_inv_def energy_ok_def)

text \<open>C4. The controller stays sane over its whole life: after any number of rounds of \<open>run\<close>, in any
  environment (telemetry that fails or reports non-negative powers, any store, any API server,
  any LP solver that respects non-negativity, an agent that may be unreachable at any time),
  every decision it ever published names a domain of the topology, caps only GPUs of that
  domain, each once and never below zero; no GPU's energy counter is negative; every call on the
  Prometheus client names a metric that \<open>telemetry/metrics.py\<close> declares, with as many labels, and
  lowers no counter (the client library raises otherwise); and the topology's domains are those
  it started with.\<close>

theorem controller_always_sane:
  assumes init: "controller_init cfg t act source smi = Ok c0" "agent_inv act" "ask_ok ask"
    and prs: "bc_type (cc_brain cfg) = ''quota-prs'' \<longrightarrow> (\<exists>p. default_prs (cc_brain cfg) = Ok p)"
    and src: "\<forall>s. source = Some s \<longrightarrow> source_ok s"
    and run: "(ctl_step loads cfg (agent_ops send ask)
      good_env)\<^sup>*\<^sup>* c0 c"
  shows "(\<forall>dec \<in> set (ct_printed c). \<exists>d. map_of (domains t) (bd_domain dec) = Some d \<and>
      wf_dict (bd_caps dec) \<and> set (dkeys (bd_caps dec)) \<subseteq> set (pd_gpu_indices d) \<and>
      (\<forall>w \<in> set (dvals (bd_caps dec)). 0 \<le> w)) \<and>
    (\<forall>g. 0 \<le> gpu_energy_wh (ct_energy c) g) \<and> (\<forall>call \<in> set (ct_metrics c). declared call) \<and>
    domains (ct_topology c) = domains t"
proof -
  have c0: "ctl_inv (\<lambda>a. agent_inv a \<and> ask_ok ask) c0" "ct_topology c0 = t"
    using controller_init_ok [OF init(1), of "\<lambda>a. agent_inv a \<and> ask_ok ask"] prs src init(2,3) by auto
  from agent_target.reachable_inv [OF run c0(1)] show ?thesis
    by (auto simp: ctl_inv_def decision_ok_def wf_powers_def energy_ok_def gpu_energy_wh_def J_PER_WH_def c0(2))
qed

lemma demo_make_brain: "make_brain demo_brain_config t smi = Ok (Prs_brain
    \<lparr>prs_min_cap_w = 200, prs_alpha = 3/10, prs_threshold = 3/5, prs_margin = 3/10, prs_cap_raise_rate = 0,
     prs_ewma = [], prs_last_caps = [], prs_last_metrics = []\<rparr>)"
  by (simp add: make_brain_def demo_brain_config_def default_prs_def prs_init_def)

theorem controller_always_sane_witness:
  "\<exists>c0. controller_init demo_cfg (demo_domain 1500) (agent_init ()) None None = Ok c0 \<and>
     (\<forall>dec \<in> set (ct_printed (run_iteration (\<lambda>_. Err TypeError) demo_cfg (agent_ops (\<lambda>w _. (w, False)) (\<lambda>_. Err TypeError))
        True (Read_failed None) demo_env c0)). bd_domain dec = ''d'')"
proof -
  let ?ask = "\<lambda>_ :: unit. Err TypeError :: json res" and ?send = "\<lambda>(w :: unit) (_ :: agent_command list). (w, False)"
  obtain c0 where c0: "controller_init demo_cfg (demo_domain 1500) (agent_init ()) None None = Ok c0"
    by (simp add: controller_init_def demo_cfg_def demo_make_brain)
  have env: "good_env demo_env" by (simp add: good_env_def demo_env_def sane_solver_def)
  have "(ctl_step (\<lambda>_. Err TypeError) demo_cfg (agent_ops ?send ?ask) good_env)\<^sup>*\<^sup>* c0
      (run_iteration (\<lambda>_. Err TypeError) demo_cfg (agent_ops ?send ?ask) True (Read_failed None) demo_env c0)"
    by (rule r_into_rtranclp, rule ctl_step.round, rule env)
  note * = controller_always_sane [OF c0 _ _ _ _ this]
  have "agent_inv (agent_init ())" "ask_ok ?ask"
    by (simp_all add: agent_inv_def agent_init_def ask_ok_def agent_get_power_draw_def get_draws_def)
  from * [OF this] c0 show ?thesis
    by (auto simp: demo_cfg_def demo_brain_config_def demo_domain_def split: if_splits)
qed

text \<open>C12. Chargeback is exact: over the whole life of the controller, on any of its actuators (the
  simulated fleet, the NVML backend, the agent over its protocol: whatever reports no negative
  power, now or after its own operations) and in any environment whose samples and LP solutions
  are not negative, also through ticks that fail, the Prometheus counter of a tenant
  (the sum of the increments it was given) equals the energy \<open>energy_showback\<close> reports for it,
  for a quota whose tenants have distinct names, are of the quota's domain, and own no GPU of
  another managed domain.\<close>

theorem showback_agrees:
  assumes target: "control_target aok ops"
    and init: "controller_init cfg t act source smi = Ok c0" "aok act"
    and prs: "bc_type (cc_brain cfg) = ''quota-prs'' \<longrightarrow> (\<exists>p. default_prs (cc_brain cfg) = Ok p)"
    and src: "\<forall>s. source = Some s \<longrightarrow> source_ok s"
    and q: "bc_quota (cc_brain cfg) = Some q" "quota_fits t (managed_domains cfg t) q"
    and run: "(ctl_step loads cfg ops good_env)\<^sup>*\<^sup>* c0 c"
  shows "\<forall>tn \<in> set (qc_tenants q).
     map_of (energy_showback cfg c) (tq_id tn) = Some (kwh_counter (qc_domain q) (tq_id tn) (ct_metrics c))"
proof
  fix tn assume tn: "tn \<in> set (qc_tenants q)"
  have c0: "ctl_inv aok c0" "ct_topology c0 = t" "ct_metrics c0 = []" "energy_j (ct_energy c0) = []"
    using controller_init_ok [OF init(1), of aok] prs src init(2) by auto
  have sb0: "showback_inv q c0"
    by (simp add: showback_inv_def c0(3,4) tenant_energy_wh_def sum_list_triv)
  have "showback_inv q c"
    by (rule control_target.reachable_showback [OF target run c0(1) sb0 q(1)]) (simp add: c0(2) q(2))
  then have "kwh_counter (qc_domain q) (tq_id tn) (ct_metrics c) = tenant_energy_wh (ct_energy c) (tq_gpus tn) / 1000"
    using tn by (simp add: showback_inv_def)
  moreover have "distinct (map tq_id (qc_tenants q))" using q(2) by (simp add: quota_fits_def)
  then have "map_of (energy_showback cfg c) (tq_id tn) = Some (tenant_energy_wh (ct_energy c) (tq_gpus tn) / 1000)"
    using foldl_dset_keyed [of tq_id "qc_tenants q" tn "\<lambda>t. tenant_energy_wh (ct_energy c) (tq_gpus t) / 1000" "[]"] tn q(1)
    by (simp add: energy_showback_def)
  ultimately show "map_of (energy_showback cfg c) (tq_id tn) = Some (kwh_counter (qc_domain q) (tq_id tn) (ct_metrics c))"
    by simp
qed

definition demo_tenant_cfg :: controller_config where
  "demo_tenant_cfg = demo_cfg\<lparr>cc_brain := demo_brain_config\<lparr>bc_quota := Some demo_quota\<rparr>\<rparr>"

theorem showback_agrees_witness:
  "\<exists>c0. controller_init demo_tenant_cfg (demo_domain 1500) demo_fleet None None = Ok c0 \<and>
     (\<forall>tn \<in> set (qc_tenants demo_quota).
        map_of (energy_showback demo_tenant_cfg (run_iteration (\<lambda>_. Err TypeError) demo_tenant_cfg (sim_ops half_rng) True (Read_failed None) demo_env c0)) (tq_id tn) =
        Some (kwh_counter ''d'' (tq_id tn)
          (ct_metrics (run_iteration (\<lambda>_. Err TypeError) demo_tenant_cfg (sim_ops half_rng) True (Read_failed None) demo_env c0))))"
proof -
  have mk: "\<exists>b. make_brain (cc_brain demo_tenant_cfg) (demo_domain 1500) None = Ok b"
    by (simp add: demo_tenant_cfg_def make_brain_def demo_brain_config_def default_prs_def prs_init_def)
  then obtain c0 where c0: "controller_init demo_tenant_cfg (demo_domain 1500) demo_fleet None None = Ok c0"
    by (auto simp: controller_init_def)
  have env: "good_env demo_env" by (simp add: good_env_def demo_env_def sane_solver_def)
  have run: "(ctl_step (\<lambda>_. Err TypeError) demo_tenant_cfg (sim_ops half_rng) good_env)\<^sup>*\<^sup>* c0
      (run_iteration (\<lambda>_. Err TypeError) demo_tenant_cfg (sim_ops half_rng) True (Read_failed None) demo_env c0)"
    by (rule r_into_rtranclp, rule ctl_step.round, rule env)
  have "bc_quota (cc_brain demo_tenant_cfg) = Some demo_quota" "bc_type (cc_brain demo_tenant_cfg) = ''prs''"
    by (simp_all add: demo_tenant_cfg_def demo_brain_config_def)
  moreover have "quota_fits (demo_domain 1500) (managed_domains demo_tenant_cfg (demo_domain 1500)) demo_quota"
    by (simp add: quota_fits_def demo_quota_def managed_domains_def demo_tenant_cfg_def demo_cfg_def demo_domain_def)
  ultimately show ?thesis
    using showback_agrees [OF sim_target.control_target_axioms c0 conjI [OF demo_fleet_inv good_half_rng] _ _ _ _ run] c0 by (auto simp: demo_quota_def)
qed

end
