(* ===== verification/Cluster.thy ===== *)
theory Cluster
  imports Coordinator Showback
begin

text \<open>
  The coordinator and the controllers together: budgets published by a rebalance, read back by
  each node's controller in its next tick, in force in the node's topology whatever else the
  tick meets.
\<close>

section \<open>The budget in force after a tick\<close>

lemma domain_step_topology:
  assumes step: "domain_step cfg ops env ts gpus dn c = (c', r)" and d: "map_of (domains (ct_topology c)) dn = Some d"
  shows "ct_topology c' = adopt_step cfg env dn (ct_topology c)"
  using step by (cases rule: domain_step_cases) (simp_all add: d)

lemma advance_sim_topology [simp]: "ct_topology (advance_sim cfg ops c) = ct_topology c"
  by (simp add: advance_sim_def split: option.split)

text \<open>One managed domain and telemetry that answers: after the tick, completed or not, the budget the
  store gave is adopted.\<close>

lemma run_once_topology:
  assumes tel: "telemetry_of cfg env = Ok tg" and m: "managed_domains cfg (ct_topology c) = [dn]"
    and d: "map_of (domains (ct_topology c)) dn = Some d"
  shows "ct_topology (fst (run_once cfg ops env c)) = adopt_step cfg env dn (ct_topology c)"
proof -
  obtain ts gpus where tg: "tg = (ts, gpus)" by (cases tg)
  obtain c1 r where 1: "domain_step cfg ops env ts gpus dn c = (c1, r)" by (rule prod.exhaust)
  from domain_step_topology [OF 1 d] 1 show ?thesis
    by (cases r) (simp_all add: run_once_def tel tg m)
qed

lemma adopted_budget:
  assumes "te_store env = Some read" "read (cc_node_id cfg) dn = Ok (Some w)" "cc_adopted_min_w cfg \<le> w"
    and "map_of (domains t) dn = Some d"
  shows "domain_budget_w (adopt_step cfg env dn t) dn = Ok (max 0 (w - pd_node_overhead_w d))"
  using assms by (simp add: adopt_step_def domain_budget_w_def getitem_def)

section \<open>What the brains decide under the budget\<close>

text \<open>The PRS brain a brain builds on. The others do not keep the caps to the domain budget by
  themselves: \<open>dpm\<close> caps at the hardware maxima while the domain draws less than its budget,
  \<open>cvxpy\<close> and \<open>quota-prs\<close> divide the configured budget of the domain, not the one in force.\<close>

definition inner_prs :: "brain \<Rightarrow> prs_brain option" where
  "inner_prs br =
     (case br of Prs_brain b \<Rightarrow> Some b | Job_brain b \<Rightarrow> Some (ja_prs b) | Priority_brain b \<Rightarrow> Some (pr_prs b)
      | Thermal_brain b \<Rightarrow> Some (th_prs b) | Dpm_brain _ \<Rightarrow> None | Cvxpy_brain _ \<Rightarrow> None | Quota_brain _ \<Rightarrow> None)"

lemma prs_bound_ge:
  "w \<le> prs_bound p dn w st"
proof -
  have "0 \<le> hot_floor_excess p dn w st" unfolding hot_floor_excess_def by (rule sum_list_nonneg) auto
  then show ?thesis by (simp add: prs_bound_def)
qed

lemma job_aware_bound:
  assumes wf: "wf_state st" and inv: "job_aware_inv b" and w: "domain_budget_w t dn = Ok w" "0 < w"
    and dec: "job_aware_decide b t dn st = Ok (b', dec)"
  shows "dsum (bd_caps dec) \<le> prs_bound (ja_prs b) dn w st"
proof -
  from job_aware_decideD [OF dec] w(1) obtain p pdec where p: "prs_decide (ja_prs b) t dn st = Ok (p, pdec)"
    and cases: "dec = pdec \<or> dec = pdec\<lparr>bd_caps := job_aware_caps b w st (bd_caps pdec)\<rparr>" by (metis sum.inject(2))
  have "prs_inv (ja_prs b)" using inv by (simp add: job_aware_inv_def)
  from prs.decide_bound [OF wf this w(1) p] cases prs_bound_ge [of w "ja_prs b" dn st]
    cap_to_budget_sum [OF w(2), of "boost_busy b st (bd_caps pdec)"]
  show ?thesis by (auto simp: job_aware_caps_def)
qed

lemma priority_bound:
  assumes wf: "wf_state st" and inv: "priority_inv b" and w: "domain_budget_w t dn = Ok w" "0 < w"
    and dec: "priority_decide b t dn st = Ok (b', dec)"
  shows "dsum (bd_caps dec) \<le> prs_bound (pr_prs b) dn w st"
proof -
  from priority_decideD [OF dec] w(1) obtain p pdec where p: "prs_decide (pr_prs b) t dn st = Ok (p, pdec)"
    and cases: "dec = pdec \<or> bd_caps dec = priority_caps b w st (bd_caps pdec)" by (metis sum.inject(2))
  have "prs_inv (pr_prs b)" using inv by (simp add: priority_inv_def)
  from prs.decide_bound [OF wf this w(1) p] cases prs_bound_ge [of w "pr_prs b" dn st]
    cap_to_budget_sum [OF w(2), of "tier_split b w st (bd_caps pdec)"]
  show ?thesis by (auto simp: priority_caps_def)
qed

lemma brain_decide_bound:
  assumes wf: "wf_state st" and inv: "brain_inv br" and w: "domain_budget_w t dn = Ok w" "0 < w"
    and p: "inner_prs br = Some p" and dec: "brain_decide cvxpy now br t dn st = Ok (br', dec)"
  shows "dsum (bd_caps dec) \<le> prs_bound p dn w st"
  using inv p dec prs.decide_bound [OF wf _ w(1)] thermal.decide_bound [OF wf _ w(1)]
    job_aware_bound [OF wf _ w] priority_bound [OF wf _ w]
  by (auto simp: inner_prs_def brain_inv_def brain_decide_def as_brain_Ok split: brain.splits)

text \<open>The caps a completed tick decided, altogether, and how far the floors of the node's
  PRS brain reach beyond the budget \<open>w\<close> in the state the tick builds.\<close>

definition decided_w :: "brain_decision list res \<Rightarrow> watts" where
  "decided_w r = (case r of Inl _ \<Rightarrow> 0 | Inr decs \<Rightarrow> sum_list (map (\<lambda>dec. dsum (bd_caps dec)) decs))"

definition floors_beyond :: "prs_brain \<Rightarrow> string \<Rightarrow> watts \<Rightarrow> domain_state res \<Rightarrow> watts" where
  "floors_beyond p dn w r = (case r of Inl _ \<Rightarrow> 0 | Inr st \<Rightarrow> prs_bound p dn w st - w)"

lemma floors_fit:
  assumes "idle_total p dn w st \<le> w" "\<forall>g \<in> set (hot_of p dn w st). prs_min_cap_w p \<le> hot_raw p dn w st g"
  shows "floors_beyond p dn w (Ok st) = 0"
proof -
  have "hot_floor_excess p dn w st = 0"
    unfolding hot_floor_excess_def using assms(2) by (intro sum_list_nonneg_eq_0_iff [THEN iffD2]) auto
  with assms(1) show ?thesis by (simp add: floors_beyond_def prs_bound_def)
qed

lemma floors_beyond_nonneg [simp]: "0 \<le> floors_beyond p dn w r"
  by (simp add: floors_beyond_def prs_bound_ge split: sum.split)

definition in_force_w :: "controller_config \<Rightarrow> 'a actuator_ops \<Rightarrow> tick_env \<Rightarrow> 'a controller \<Rightarrow> string \<Rightarrow> watts" where
  \<comment> \<open>the budget of a domain in the controller's topology after a tick\<close>
  "in_force_w cfg ops env c dn =
     (case domain_budget_w (ct_topology (fst (run_once cfg ops env c))) dn of Inl _ \<Rightarrow> 0 | Inr w \<Rightarrow> w)"

definition beyond_w :: "controller_config \<Rightarrow> 'a actuator_ops \<Rightarrow> tick_env \<Rightarrow> 'a controller \<Rightarrow> prs_brain \<Rightarrow>
    real \<times> (gpu, gpu_sample) dict option \<Rightarrow> power_domain \<Rightarrow> string \<Rightarrow> watts" where
  \<comment> \<open>the floors beyond that budget, in the state the tick builds from its telemetry\<close>
  "beyond_w cfg ops env c p tel d dn =
     floors_beyond p dn (in_force_w cfg ops env c dn)
       (build_state cfg ops (ct_actuator c) (ct_topology (fst (run_once cfg ops env c))) (fst tel) (snd tel) dn d)"

context control_target
begin

lemma domain_step_bound:
  assumes step: "domain_step cfg ops env ts gpus dn c = (c', Ok dec)" and ok: "ctl_inv inv c"
    and smp: "sample_ok gpus" and d: "map_of (domains (ct_topology c)) dn = Some d"
    and w: "domain_budget_w (adopt_step cfg env dn (ct_topology c)) dn = Ok w" "0 < w"
    and p: "inner_prs (ct_brain c) = Some p"
  shows "dsum (bd_caps dec) \<le> w + floors_beyond p dn w
    (build_state cfg ops (ct_actuator c) (adopt_step cfg env dn (ct_topology c)) ts gpus dn d)"
  using step
proof (cases rule: domain_step_cases)
  case (decided d' st b dec' en added a err)
  then have [simp]: "d' = d" "dec' = dec" using d by (simp_all split: option.splits)
  from ok have br: "brain_inv (ct_brain c)" "inv (ct_actuator c)" by (simp_all add: ctl_inv_def)
  have "wf_state st" using build_state_ok [OF decided(2) br(2) smp] by simp
  from brain_decide_bound [OF this br(1) w p] decided(2,3) show ?thesis by (simp add: floors_beyond_def)
qed simp_all

lemma run_once_bound:
  assumes tel: "telemetry_of cfg env = Ok (ts, gpus)" and m: "managed_domains cfg (ct_topology c) = [dn]"
    and env: "good_env env" and ok: "ctl_inv inv c" and d: "map_of (domains (ct_topology c)) dn = Some d"
    and w: "domain_budget_w (ct_topology (fst (run_once cfg ops env c))) dn = Ok w" "0 < w"
    and p: "inner_prs (ct_brain c) = Some p"
  shows "decided_w (snd (run_once cfg ops env c)) \<le> w + floors_beyond p dn w
    (build_state cfg ops (ct_actuator c) (ct_topology (fst (run_once cfg ops env c))) ts gpus dn d)"
proof -
  have top: "ct_topology (fst (run_once cfg ops env c)) = adopt_step cfg env dn (ct_topology c)"
    by (rule run_once_topology [OF tel m d])
  have smp: "sample_ok gpus"
    using tel env sample_ok_index
    by (auto simp: telemetry_of_def res_bind_Ok_iff sample_ok_def good_env_def split: if_splits)
  obtain c1 r where 1: "domain_step cfg ops env ts gpus dn c = (c1, r)" by (rule prod.exhaust)
  show ?thesis
  proof (cases r)
    case (Inl e)
    have "0 \<le> w + floors_beyond p dn w x" for x using w(2) floors_beyond_nonneg [of p dn w x] by linarith
    with Inl 1 show ?thesis by (simp add: run_once_def tel m decided_w_def)
  next
    case (Inr dec)
    from domain_step_bound [OF 1 [unfolded Inr] ok smp d w(1) [unfolded top] w(2) p] 1 Inr top
    show ?thesis by (simp add: run_once_def tel m decided_w_def)
  qed
qed

end

section \<open>Properties\<close>

text \<open>C1. The cluster budget reaches the caps of every node. After a rebalance and one tick of every
  node's controller, each managing its published domain: the budgets in force in the controllers
  sum to at most the cluster budget, even if ticks fail after telemetry was read, provided no
  node's share is below the threshold under which a controller ignores an adopted budget; and
  where every node runs PRS or a brain on top of it (\<open>prs\<close>, \<open>job-prs\<close>, \<open>priority-prs\<close>,
  \<open>thermal-prs\<close>) and its overhead is below half a fair share (the least a node is given), the caps
  decided in all the ticks that completed sum to at most the cluster budget plus what the brains' floors (idle GPUs, minimum caps)
  reach beyond the nodes' budgets; so, where the floors of every node fit its budget, the whole
  cluster is capped within the cluster budget. It holds on any actuator whose reported powers
  are not negative, whatever happened to the controllers before. It does not hold for the
  other brains: \<open>quota-prs\<close> and \<open>cvxpy\<close> divide the configured budget and ignore the adopted
  one, \<open>dpm\<close> caps at the hardware maxima while the domain draws less than its budget.\<close>

theorem cluster_budget_reaches_nodes:
  assumes store: "mem_inv store" "rebalance mem_get_all mem_set_adopted co store = (co', store', budgets)"
      "0 \<le> co_budget co" "\<forall>x \<in> set (mem_get_all store). 0 \<le> ns_draw_w x"
    and node: "\<forall>x \<in> set (mem_get_all store).
      cc_node_id (cfg x) = ns_node_id x \<and> managed_domains (cfg x) (ct_topology (ctl x)) = [ns_domain_name x] \<and>
      map_of (domains (ct_topology (ctl x))) (ns_domain_name x) = Some (dm x) \<and> 0 \<le> pd_node_overhead_w (dm x) \<and>
      te_store (env x) = Some (\<lambda>n d. Ok (mem_get_adopted store' n d)) \<and> telemetry_of (cfg x) (env x) = Ok (tel x) \<and>
      cc_adopted_min_w (cfg x) \<le> co_budget co / length (mem_get_all store) / 2"
  shows "sum_list (map (\<lambda>x. in_force_w (cfg x) ops (env x) (ctl x) (ns_domain_name x)) (mem_get_all store)) \<le> co_budget co \<and>
    (control_target aok ops \<and>
     (\<forall>x \<in> set (mem_get_all store). inner_prs (ct_brain (ctl x)) = Some (prs x) \<and> ctl_inv aok (ctl x) \<and>
        good_env (env x) \<and> pd_node_overhead_w (dm x) < co_budget co / length (mem_get_all store) / 2) \<longrightarrow>
       sum_list (map (\<lambda>x. decided_w (snd (run_once (cfg x) ops (env x) (ctl x)))) (mem_get_all store))
         \<le> co_budget co + sum_list (map (\<lambda>x. beyond_w (cfg x) ops (env x) (ctl x) (prs x) (tel x) (dm x) (ns_domain_name x))
             (mem_get_all store)) \<and>
       ((\<forall>x \<in> set (mem_get_all store). beyond_w (cfg x) ops (env x) (ctl x) (prs x) (tel x) (dm x) (ns_domain_name x) = 0) \<longrightarrow>
         sum_list (map (\<lambda>x. decided_w (snd (run_once (cfg x) ops (env x) (ctl x)))) (mem_get_all store)) \<le> co_budget co))"
proof (cases "mem_get_all store = []")
  case True
  with store(3) show ?thesis by simp
next
  case False
  let ?ss = "mem_get_all store" and ?B = "node_budget (co_budget co)"
  let ?W = "\<lambda>x. in_force_w (cfg x) ops (env x) (ctl x) (ns_domain_name x)"
  let ?D = "\<lambda>x. decided_w (snd (run_once (cfg x) ops (env x) (ctl x)))"
  let ?E = "\<lambda>x. beyond_w (cfg x) ops (env x) (ctl x) (prs x) (tel x) (dm x) (ns_domain_name x)"
  have wf: "wf_states ?ss" using mem.ids [OF store(1)] store(4) by (simp add: wf_states_def)
  have share: "fair_share (co_budget co) ?ss / 2 \<le> ?B ?ss x" "0 \<le> fair_share (co_budget co) ?ss" if "x \<in> set ?ss" for x
    using node_budget_bounds [OF wf that store(3)] store(3) by (simp_all add: fair_share_def)
  have w: "domain_budget_w (ct_topology (fst (run_once (cfg x) ops (env x) (ctl x)))) (ns_domain_name x) = Ok (?W x)"
    "?W x = max 0 (?B ?ss x - pd_node_overhead_w (dm x))" if x: "x \<in> set ?ss" for x
  proof -
    note nx = bspec [OF node x]
    have "mem_get_adopted store' (ns_node_id x) (ns_domain_name x) = Some (?B ?ss x)"
      using mem.rebalance_published [OF store(1,2) x] by simp
    then have "domain_budget_w (ct_topology (fst (run_once (cfg x) ops (env x) (ctl x)))) (ns_domain_name x) =
        Ok (max 0 (?B ?ss x - pd_node_overhead_w (dm x)))"
      using nx share [OF x] run_once_topology [of "cfg x" "env x" "tel x" "ctl x" "ns_domain_name x" "dm x" ops]
      by (simp add: adopted_budget [where w = "?B ?ss x" and d = "dm x"] fair_share_def)
    then show "domain_budget_w (ct_topology (fst (run_once (cfg x) ops (env x) (ctl x)))) (ns_domain_name x) = Ok (?W x)"
      "?W x = max 0 (?B ?ss x - pd_node_overhead_w (dm x))" by (simp_all add: in_force_w_def)
  qed
  have "?W x \<le> ?B ?ss x" if "x \<in> set ?ss" for x
    using w(2) [OF that] share [OF that] bspec [OF node that] by auto
  then have "sum_list (map ?W ?ss) \<le> sum_list (map (?B ?ss) ?ss)" by (rule sum_list_mono)
  also have "\<dots> \<le> co_budget co" by (rule node_budgets_sum [OF wf False store(3)])
  finally have budgets: "sum_list (map ?W ?ss) \<le> co_budget co" .
  have "sum_list (map ?D ?ss) \<le> co_budget co + sum_list (map ?E ?ss)"
    if target: "control_target aok ops" and prs: "\<forall>x \<in> set ?ss. inner_prs (ct_brain (ctl x)) = Some (prs x) \<and>
      ctl_inv aok (ctl x) \<and> good_env (env x) \<and> pd_node_overhead_w (dm x) < co_budget co / length ?ss / 2"
  proof -
    have "?D x \<le> ?W x + ?E x" if x: "x \<in> set ?ss" for x
    proof -
      have "0 < ?W x" using w(2) [OF x] share [OF x] bspec [OF prs x] by (simp add: fair_share_def)
      with control_target.run_once_bound [OF target _ _ _ _ _ w(1) [OF x], of "fst (tel x)" "snd (tel x)" "dm x" "prs x"]
        bspec [OF node x] bspec [OF prs x] show ?thesis by (simp add: beyond_w_def)
    qed
    then have "sum_list (map ?D ?ss) \<le> sum_list (map (\<lambda>x. ?W x + ?E x) ?ss)" by (rule sum_list_mono)
    with budgets show ?thesis by (simp add: sum_list_addf)
  qed
  moreover have "sum_list (map ?E ?ss) = 0" if "\<forall>x \<in> set ?ss. ?E x = 0"
    using that by (simp add: sum_list_triv cong: map_cong)
  ultimately show ?thesis using budgets by force
qed

definition demo_node :: "string \<Rightarrow> watts \<Rightarrow> node_state" where
  "demo_node n w = \<lparr>ns_node_id = n, ns_domain_name = ''d'', ns_draw_w = w, ns_cap_w = w, ns_budget_w = 0, ns_ts = 0\<rparr>"

definition demo_cluster :: mem_store where
  "demo_cluster = mem_publish (mem_publish mem_empty (demo_node ''n0'' 1200)) (demo_node ''n1'' 300)"

lemma demo_cluster_states: "mem_get_all demo_cluster = [demo_node ''n0'' 1200, demo_node ''n1'' 300]"
  by (simp add: demo_cluster_def mem_get_all_def mem_publish_def mem_empty_def demo_node_def)

text \<open>Each node runs PRS on four simulated GPUs; both ticks stay within the floors, so the cluster's
  caps fit its 2000 W.\<close>

abbreviation demo_gpus_domain :: power_domain where
  "demo_gpus_domain \<equiv> \<lparr>pd_name = ''d'', pd_budget_w = 1500, pd_gpu_indices = [0, 1, 2, 3], pd_pdu_name = ''pdu0'',
     pd_priority = 0, pd_node_overhead_w = 0, pd_rack_name = None\<rparr>"

abbreviation demo_state_of :: "(gpu, watts) dict \<Rightarrow> (gpu, watts) dict \<Rightarrow> domain_state" where
  "demo_state_of draws caps \<equiv> \<lparr>ds_domain_name = ''d'', gpu_draws = draws, gpu_caps = caps, ds_ts = 0,
     gpu_max_caps = caps, gpu_thermal_throttled = []\<rparr>"

lemma demo_gpu: "sim_gpu_init half_rng g 1000 1000 \<lparr>base_util_pct = 70, util_noise = 5, idle_fraction = 0\<rparr> r =
    \<lparr>sg_index = g, sg_cap_w = 1000, sg_max_cap_w = 1000, sg_load = \<lparr>base_util_pct = 70, util_noise = 5, idle_fraction = 0\<rparr>,
      sg_rng = r, sg_current_util = 70\<rparr>"
  by (simp add: sim_gpu_init_def sample_util_def uniform_def half_rng_def)

lemma demo_item:
  assumes "g \<in> {0, 1, 2, 3}"
  shows "sim_get_power_draw demo_fleet g = Ok 645" "sim_get_power_cap demo_fleet g = Ok 1000"
    "sim_get_max_cap_w demo_fleet g = Ok 1000"
  using assms by (auto simp: demo_fleet_def uniform_load_def demo_gpu sim_backend_def upt_rec sim_get_power_draw_def
      sim_get_power_cap_def sim_get_max_cap_w_def sim_item_def power_draw_w_def
      LOAD_EFFICIENCY_def IDLE_POWER_W_def)

lemma demo_build:
  assumes "domain_budget_w t ''d'' = Ok w"
  shows "build_state (demo_cfg\<lparr>cc_node_id := n\<rparr>) (sim_ops half_rng) demo_fleet t 0 None ''d'' demo_gpus_domain =
    Ok (demo_state_of [(0, 645), (1, 645), (2, 645), (3, 645)] [(0, 1000), (1, 1000), (2, 1000), (3, 1000)])"
  using assms by (simp add: build_state_def fallback_cap_def reading_of_actuator_def demo_item add_reading_def
      thermal_flags_def is_hot_gpu_def demo_cfg_def dcomp_def)

lemma demo_floors:
  assumes "400 \<le> w"
  shows "floors_beyond demo_prs ''d'' w
    (Ok (demo_state_of [(0, 645), (1, 645), (2, 645), (3, 645)] [(0, 1000), (1, 1000), (2, 1000), (3, 1000)])) = 0"
  by (rule floors_fit)
    (use assms in \<open>simp_all add: hot_of_def idle_total_def idle_of_def hot_raw_def hot_share_def is_hot_def domain_ewma_def ewma_update_def
      demo_prs_def ditem_def\<close>)

abbreviation demo_node_cfg :: "node_state \<Rightarrow> controller_config" where
  "demo_node_cfg x \<equiv> demo_cfg\<lparr>cc_node_id := ns_node_id x\<rparr>"

abbreviation demo_store_env :: "mem_store \<Rightarrow> tick_env" where
  "demo_store_env store \<equiv> demo_env\<lparr>te_store := Some (\<lambda>n d. Ok (mem_get_adopted store n d))\<rparr>"

lemma demo_nothing_beyond:
  assumes "mem_get_adopted store n ''d'' = Some w" "400 \<le> w"
  shows "beyond_w (demo_cfg\<lparr>cc_node_id := n\<rparr>) (sim_ops half_rng) (demo_store_env store) demo_ctl demo_prs (0, None) demo_gpus_domain ''d'' = 0"
proof -
  let ?t = "ct_topology (fst (run_once (demo_cfg\<lparr>cc_node_id := n\<rparr>) (sim_ops half_rng) (demo_store_env store) demo_ctl))"
  have d: "map_of (domains (ct_topology demo_ctl)) ''d'' = Some demo_gpus_domain" by (simp add: demo_ctl_def demo_domain_def)
  have "?t = adopt_step (demo_cfg\<lparr>cc_node_id := n\<rparr>) (demo_store_env store) ''d'' (ct_topology demo_ctl)"
    by (rule run_once_topology [OF _ _ d, of _ _ "(0, None)"])
      (simp_all add: managed_domains_def demo_cfg_def demo_ctl_def demo_domain_def demo_env_def telemetry_of_def reads_actuator_def)
  then have w: "domain_budget_w ?t ''d'' = Ok w"
    using assms adopted_budget [OF _ _ _ d, of "demo_store_env store" "\<lambda>n d. Ok (mem_get_adopted store n d)" "demo_cfg\<lparr>cc_node_id := n\<rparr>" w]
    by (simp add: demo_cfg_def)
  have "ct_actuator demo_ctl = demo_fleet" by (simp add: demo_ctl_def)
  then show ?thesis using demo_build [OF w] demo_floors [OF assms(2)] w by (simp add: beyond_w_def in_force_w_def)
qed

theorem cluster_budget_reaches_nodes_witness:
  "\<exists>co' store' budgets. rebalance mem_get_all mem_set_adopted (coordinator_init 2000) demo_cluster = (co', store', budgets) \<and>
     decided_w (snd (run_once (demo_node_cfg (demo_node ''n0'' 1200)) (sim_ops half_rng) (demo_store_env store') demo_ctl)) +
     decided_w (snd (run_once (demo_node_cfg (demo_node ''n1'' 300)) (sim_ops half_rng) (demo_store_env store') demo_ctl)) \<le> 2000"
proof -
  obtain co' store' budgets where
    r: "rebalance mem_get_all mem_set_adopted (coordinator_init 2000) demo_cluster = (co', store', budgets)"
    by (cases "rebalance mem_get_all mem_set_adopted (coordinator_init 2000) demo_cluster")
  have inv: "mem_inv demo_cluster" unfolding demo_cluster_def by (intro mem.inv_publish mem_inv_empty)
  let ?E = "\<lambda>x. beyond_w (demo_node_cfg x) (sim_ops half_rng) (demo_store_env store') demo_ctl demo_prs (0, None)
    demo_gpus_domain (ns_domain_name x)"
  have fits: "\<forall>x \<in> set (mem_get_all demo_cluster). ?E x = 0"
    using mem.rebalance_published [OF inv r, of "demo_node ''n0'' 1200"] mem.rebalance_published [OF inv r, of "demo_node ''n1'' 300"]
    by (simp add: demo_cluster_states node_budget_def coordinator_init_def)
      (simp add: demo_node_def demo_nothing_beyond [of _ "''n0''" 1300] demo_nothing_beyond [of _ "''n1''" 700])
  have prs: "\<forall>x \<in> set (mem_get_all demo_cluster). inner_prs (ct_brain demo_ctl) = Some demo_prs \<and>
      sim_ctl_inv half_rng demo_ctl \<and> good_env (demo_store_env store') \<and>
      pd_node_overhead_w demo_gpus_domain < co_budget (coordinator_init 2000) / length (mem_get_all demo_cluster) / 2"
    using demo_ctl_inv by (simp add: demo_cluster_states coordinator_init_def good_env_def demo_env_def sane_solver_def)
      (simp add: demo_ctl_def inner_prs_def)
  have "sum_list (map (\<lambda>x. decided_w (snd (run_once (demo_node_cfg x) (sim_ops half_rng) (demo_store_env store') demo_ctl)))
      (mem_get_all demo_cluster)) \<le> co_budget (coordinator_init 2000)"
    by (rule cluster_budget_reaches_nodes [where cfg = demo_node_cfg and env = "\<lambda>_. demo_store_env store'" and
        ctl = "\<lambda>_. demo_ctl" and dm = "\<lambda>_. demo_gpus_domain" and tel = "\<lambda>_. (0, None)" and
        prs = "\<lambda>_. demo_prs", OF inv r, THEN conjunct2, THEN mp, OF _ _ _ conjI [OF sim_target.control_target_axioms prs],
        THEN conjunct2, THEN mp, OF _ _ _ fits])
      (auto simp: coordinator_init_def demo_cluster_states demo_node_def managed_domains_def demo_cfg_def demo_ctl_def
         demo_domain_def demo_env_def telemetry_of_def reads_actuator_def)
  with r show ?thesis by (simp add: demo_cluster_states coordinator_init_def)
qed

text \<open>A share below the threshold is not in force: a coordinator that can only give a node 75 W is
  ignored (the default threshold is 100 W) and the controller works with its full 1500 W.\<close>

lemma small_share_ignored:
  "domain_budget_w (adopt_step demo_cfg
     (demo_env\<lparr>te_store := Some (\<lambda>_ _. Ok (Some 75))\<rparr>) ''d'' (demo_domain 1500)) ''d'' = Ok 1500"
  by (simp add: adopt_step_def demo_env_def demo_cfg_def demo_domain_def domain_budget_w_def getitem_def
      rack_for_domain_def release_budget_def)

end
