(* ===== verification/Failsafe.thy ===== *)
theory Failsafe
  imports Sim Nvml
begin

text \<open>
  \<open>agent/failsafe.py\<close>: a thread, independent of the brain, that scans the GPUs and puts the
  emergency cap on any whose draw is above the threshold. It works on any actuator, so the
  actuator's operations are arguments; an exception of the actuator is logged and the scan
  goes on. Its steps interleave with the rest of the system: the thread polls one GPU at a
  time.
\<close>

record failsafe =
  fs_threshold :: watts
  fs_emergency_cap :: watts
  fs_trip_count :: nat

definition failsafe_init :: "watts \<Rightarrow> watts \<Rightarrow> failsafe res" where
  "failsafe_init threshold emergency_cap =
     (if threshold \<le> emergency_cap then Err (ValueError ''emergency_cap_w must be less than emergency_threshold_w'')
      else Ok \<lparr>fs_threshold = threshold, fs_emergency_cap = emergency_cap, fs_trip_count = 0\<rparr>)"

definition failsafe_poll :: "('s \<Rightarrow> gpu \<Rightarrow> watts \<Rightarrow> 's res) \<Rightarrow> ('s \<Rightarrow> gpu \<Rightarrow> watts res) \<Rightarrow>
    gpu \<Rightarrow> failsafe \<times> 's \<Rightarrow> failsafe \<times> 's" where
  \<comment> \<open>the body of the \<open>for\<close> loop, with its \<open>try\<close>\<close>
  "failsafe_poll set_cap get_draw i fs =
     (case fs of (f, s) \<Rightarrow>
        (case get_draw s i of
           Inl _ \<Rightarrow> (f, s)
         | Inr draw \<Rightarrow>
             if fs_threshold f < draw
             then (case set_cap s i (fs_emergency_cap f) of
                     Inl _ \<Rightarrow> (f, s)
                   | Inr s' \<Rightarrow> (f\<lparr>fs_trip_count := fs_trip_count f + 1\<rparr>, s'))
             else (f, s)))"

definition failsafe_scan :: "('s \<Rightarrow> gpu \<Rightarrow> watts \<Rightarrow> 's res) \<Rightarrow> ('s \<Rightarrow> gpu \<Rightarrow> watts res) \<Rightarrow>
    nat \<Rightarrow> failsafe \<times> 's \<Rightarrow> failsafe \<times> 's" where
  "failsafe_scan set_cap get_draw n fs =
     foldl (\<lambda>fs i. failsafe_poll set_cap get_draw (int i) fs) fs [0..<n]"

text \<open>The thread among others: the index it polls next, the failsafe, the actuator. \<open>other\<close> is what
  the rest of the system may do to the actuator.\<close>

inductive failsafe_run :: "('s \<Rightarrow> gpu \<Rightarrow> watts \<Rightarrow> 's res) \<Rightarrow> ('s \<Rightarrow> gpu \<Rightarrow> watts res) \<Rightarrow> nat \<Rightarrow> ('s \<Rightarrow> 's \<Rightarrow> bool) \<Rightarrow>
    nat \<times> failsafe \<times> 's \<Rightarrow> nat \<times> failsafe \<times> 's \<Rightarrow> bool"
  for set_cap get_draw n other where
  poll: "i < n \<Longrightarrow> failsafe_run set_cap get_draw n other (i, f, s) (Suc i, failsafe_poll set_cap get_draw (int i) (f, s))"
| wait: "failsafe_run set_cap get_draw n other (n, f, s) (0, f, s)"
| other: "other s s' \<Longrightarrow> failsafe_run set_cap get_draw n other (i, f, s) (i, f, s')"

section \<open>On an actuator\<close>

lemma failsafe_poll_params [simp]:
  "fs_threshold (fst (failsafe_poll set_cap get_draw i fs)) = fs_threshold (fst fs)"
  "fs_emergency_cap (fst (failsafe_poll set_cap get_draw i fs)) = fs_emergency_cap (fst fs)"
  by (cases fs; simp add: failsafe_poll_def split: sum.split)+

lemma failsafe_poll_quiet:
  "(\<And>d. get_draw s i = Ok d \<Longrightarrow> d \<le> fs_threshold f) \<Longrightarrow> failsafe_poll set_cap get_draw i (f, s) = (f, s)"
  by (auto simp: failsafe_poll_def not_less split: sum.split)

context actuator
begin

lemma poll_other:
  assumes "failsafe_poll set_power_cap get_power_draw i (f, s) = (f', s')" "g \<noteq> i"
  shows "get_power_cap s' g = get_power_cap s g \<and> get_power_draw s' g = get_power_draw s g"
  using assms set_other [of s i "fs_emergency_cap f" s' g]
  by (auto simp: failsafe_poll_def split: sum.splits if_splits)

lemma poll_inv:
  assumes "failsafe_poll set_power_cap get_power_draw i (f, s) = (f', s')" "inv s"
  shows "inv s' \<and> (\<forall>g. known s' g \<longleftrightarrow> known s g)"
  using assms set_inv set_knows by (auto simp: failsafe_poll_def split: sum.splits if_splits)

lemma poll_trip:
  assumes p: "failsafe_poll set_power_cap get_power_draw i (f, s) = (f', s')" and inv: "inv s" and k: "known s i"
    and d: "get_power_draw s i = Ok d"
  shows "if fs_threshold f < d
         then fs_trip_count f' = Suc (fs_trip_count f) \<and> (\<exists>c. get_power_cap s' i = Ok c \<and> c \<le> max 0 (fs_emergency_cap f))
         else f' = f \<and> s' = s"
proof -
  obtain s1 c where "set_power_cap s i (fs_emergency_cap f) = Ok s1" "get_power_cap s1 i = Ok c" "c \<le> max 0 (fs_emergency_cap f)"
    using set_known [OF inv k, of "fs_emergency_cap f"] by blast
  with p d show ?thesis by (auto simp: failsafe_poll_def split: if_splits)
qed

end

context capped_actuator
begin

lemma poll_lowers:
  assumes p: "failsafe_poll set_power_cap get_power_draw i (f, s) = (f', s')" and inv: "inv s"
    and cfg: "fs_emergency_cap f < fs_threshold f" "0 \<le> fs_emergency_cap f"
    and c: "get_power_cap s g = Ok c" and c': "get_power_cap s' g = Ok c'"
  shows "c' \<le> c"
proof (cases "g = i")
  case False
  then show ?thesis using poll_other [OF p] c c' by simp
next
  case True
  show ?thesis
  proof (cases "known s i")
    case False
    then have "s' = s" using p unknown [OF False, of "fs_emergency_cap f"] by (auto simp: failsafe_poll_def)
    with c c' show ?thesis by simp
  next
    case known: True
    then obtain d where d: "get_power_draw s i = Ok d" using read_known [OF inv] by blast
    have "d \<le> c" using draw_le_cap [OF inv] c d True by blast
    with poll_trip [OF p inv known d] c c' cfg True show ?thesis by (auto split: if_splits)
  qed
qed

text \<open>After its poll a GPU draws no more than the threshold.\<close>

lemma poll_settles:
  assumes p: "failsafe_poll set_power_cap get_power_draw i (f, s) = (f', s')" and inv: "inv s"
    and cfg: "fs_emergency_cap f < fs_threshold f" "0 \<le> fs_emergency_cap f"
    and k: "known s g" and d: "get_power_draw s' g = Ok d'"
    and settled: "g = i \<or> (\<forall>d. get_power_draw s g = Ok d \<longrightarrow> d \<le> fs_threshold f)"
  shows "d' \<le> fs_threshold f"
proof (cases "g = i")
  case False
  then show ?thesis using poll_other [OF p] d settled by simp
next
  case True
  obtain d0 where d0: "get_power_draw s i = Ok d0" using read_known [OF inv k] True by blast
  from poll_trip [OF p inv _ d0] k True have t: "if fs_threshold f < d0
         then fs_trip_count f' = Suc (fs_trip_count f) \<and> (\<exists>c. get_power_cap s' i = Ok c \<and> c \<le> max 0 (fs_emergency_cap f))
         else f' = f \<and> s' = s" by simp
  have "inv s'" using poll_inv [OF p inv] by blast
  then show ?thesis using t draw_le_cap [of s' i _ d'] d d0 True cfg by (force split: if_splits)
qed

lemma scan_settles:
  assumes inv: "inv s" and cfg: "fs_emergency_cap f < fs_threshold f" "0 \<le> fs_emergency_cap f"
    and scan: "failsafe_scan set_power_cap get_power_draw n (f, s) = (f', s')"
  shows "inv s' \<and> (\<forall>g. known s' g \<longleftrightarrow> known s g) \<and> fs_threshold f' = fs_threshold f \<and> fs_emergency_cap f' = fs_emergency_cap f \<and>
    (\<forall>i < n. \<forall>d. known s (int i) \<longrightarrow> get_power_draw s' (int i) = Ok d \<longrightarrow> d \<le> fs_threshold f)"
  using scan
proof (induction n arbitrary: f' s')
  case 0
  then show ?case using inv by (simp add: failsafe_scan_def)
next
  case (Suc n)
  obtain f1 s1 where 1: "failsafe_scan set_power_cap get_power_draw n (f, s) = (f1, s1)"
    by (cases "failsafe_scan set_power_cap get_power_draw n (f, s)")
  from Suc.prems 1 have p: "failsafe_poll set_power_cap get_power_draw (int n) (f1, s1) = (f', s')"
    by (simp add: failsafe_scan_def)
  from Suc.IH [OF 1] have ih: "inv s1" "\<And>g. known s1 g \<longleftrightarrow> known s g" "fs_threshold f1 = fs_threshold f"
    "fs_emergency_cap f1 = fs_emergency_cap f"
    "\<And>i d. i < n \<Longrightarrow> known s (int i) \<Longrightarrow> get_power_draw s1 (int i) = Ok d \<Longrightarrow> d \<le> fs_threshold f" by auto
  have "d \<le> fs_threshold f" if "i < Suc n" "known s (int i)" "get_power_draw s' (int i) = Ok d" for i d
  proof (cases "i = n")
    case True
    then show ?thesis using poll_settles [OF p ih(1), of "int i" d] ih(2-4) cfg that by simp
  next
    case False
    then have "i < n" "int i \<noteq> int n" using that(1) by simp_all
    then show ?thesis using poll_other [OF p, of "int i"] ih(5) [of i d] that by simp
  qed
  moreover have "fs_threshold f' = fs_threshold f1" "fs_emergency_cap f' = fs_emergency_cap f1"
    using failsafe_poll_params [of set_power_cap get_power_draw "int n" "(f1, s1)"] p by simp_all
  ultimately show ?case using poll_inv [OF p ih(1)] ih by simp
qed

lemma scan_lowers:
  assumes inv: "inv s" and cfg: "fs_emergency_cap f < fs_threshold f" "0 \<le> fs_emergency_cap f"
    and scan: "failsafe_scan set_power_cap get_power_draw n (f, s) = (f', s')" and k: "known s g"
    and c: "get_power_cap s g = Ok c"
  shows "\<exists>c'. get_power_cap s' g = Ok c' \<and> c' \<le> c"
  using scan
proof (induction n arbitrary: f' s')
  case 0
  then show ?case using c by (simp add: failsafe_scan_def)
next
  case (Suc n)
  obtain f1 s1 where 1: "failsafe_scan set_power_cap get_power_draw n (f, s) = (f1, s1)"
    by (cases "failsafe_scan set_power_cap get_power_draw n (f, s)")
  from Suc.prems 1 have p: "failsafe_poll set_power_cap get_power_draw (int n) (f1, s1) = (f', s')"
    by (simp add: failsafe_scan_def)
  from scan_settles [OF inv cfg 1] have s1: "inv s1" "known s1 g" "fs_emergency_cap f1 < fs_threshold f1" "0 \<le> fs_emergency_cap f1"
    using k cfg by simp_all
  obtain c1 where c1: "get_power_cap s1 g = Ok c1" "c1 \<le> c" using Suc.IH [OF 1] by blast
  have "inv s'" "known s' g" using poll_inv [OF p s1(1)] s1(2) by simp_all
  then obtain c2 where c2: "get_power_cap s' g = Ok c2" using read_known by blast
  with poll_lowers [OF p s1(1) s1(3,4) c1(1) c2] c1 show ?case by (meson order_trans)
qed

text \<open>Any interleaving with a rest of the system that keeps the fleet.\<close>

lemma run_keeps:
  assumes other: "\<And>s s'. other s s' \<Longrightarrow> inv s \<Longrightarrow> inv s' \<and> (\<forall>g. known s' g \<longleftrightarrow> known s g)"
    and run: "(failsafe_run set_power_cap get_power_draw n other)\<^sup>*\<^sup>* (i, f, s) (i', f', s')" and inv: "inv s"
  shows "inv s' \<and> (\<forall>g. known s' g \<longleftrightarrow> known s g) \<and> fs_threshold f' = fs_threshold f \<and> fs_emergency_cap f' = fs_emergency_cap f"
  using run
proof (induction "(i', f', s')" arbitrary: i' f' s' rule: rtranclp_induct)
  case base
  then show ?case using inv by simp
next
  case (step y)
  obtain i1 f1 s1 where y: "y = (i1, f1, s1)" by (cases y)
  from step.hyps(3) [OF y] have ih: "inv s1" "\<forall>g. known s1 g \<longleftrightarrow> known s g" "fs_threshold f1 = fs_threshold f"
    "fs_emergency_cap f1 = fs_emergency_cap f" by auto
  from step.hyps(2) [unfolded y] show ?case
  proof cases
    case poll
    then have p: "failsafe_poll set_power_cap get_power_draw (int i1) (f1, s1) = (f', s')" by simp
    show ?thesis
      using poll_inv [OF p ih(1)] failsafe_poll_params [of set_power_cap get_power_draw "int i1" "(f1, s1)"] p ih by simp
  next
    case other
    with assms(1) [OF other(3) ih(1)] ih show ?thesis by simp
  qed (use ih in simp)
qed

text \<open>Any interleaving with a rest of the system that keeps the caps.\<close>

lemma run_lowers:
  assumes other: "\<And>s s'. other s s' \<Longrightarrow> inv s \<Longrightarrow> inv s' \<and> (\<forall>g. get_power_cap s' g = get_power_cap s g \<and> (known s' g \<longleftrightarrow> known s g))"
    and run: "(failsafe_run set_power_cap get_power_draw n other)\<^sup>*\<^sup>* (i, f, s) (i', f', s')"
    and inv: "inv s" and cfg: "fs_emergency_cap f < fs_threshold f" "0 \<le> fs_emergency_cap f"
    and k: "known s g" and c: "get_power_cap s g = Ok c"
  shows "inv s' \<and> known s' g \<and> fs_threshold f' = fs_threshold f \<and> fs_emergency_cap f' = fs_emergency_cap f \<and>
    (\<exists>c'. get_power_cap s' g = Ok c' \<and> c' \<le> c)"
  using run
proof (induction "(i', f', s')" arbitrary: i' f' s' rule: rtranclp_induct)
  case base
  then show ?case using inv k c by simp
next
  case (step y)
  obtain i1 f1 s1 where y: "y = (i1, f1, s1)" by (cases y)
  from step.hyps(3) [OF y] have ih: "inv s1" "known s1 g" "fs_threshold f1 = fs_threshold f"
    "fs_emergency_cap f1 = fs_emergency_cap f" and c1: "\<exists>c'. get_power_cap s1 g = Ok c' \<and> c' \<le> c" by auto
  from step.hyps(2) [unfolded y] show ?case
  proof cases
    case poll
    then have p: "failsafe_poll set_power_cap get_power_draw (int i1) (f1, s1) = (f', s')" by simp
    have par: "fs_threshold f' = fs_threshold f1" "fs_emergency_cap f' = fs_emergency_cap f1"
      using failsafe_poll_params [of set_power_cap get_power_draw "int i1" "(f1, s1)"] p by simp_all
    have s': "inv s'" "known s' g" using poll_inv [OF p ih(1)] ih(2) by simp_all
    then obtain c2 where c2: "get_power_cap s' g = Ok c2" using read_known by blast
    obtain c0 where c0: "get_power_cap s1 g = Ok c0" "c0 \<le> c" using c1 by blast
    have "c2 \<le> c0" by (rule poll_lowers [OF p ih(1) _ _ c0(1) c2]) (use ih cfg in simp_all)
    with c0 c2 s' par ih show ?thesis by auto
  next
    case wait
    with ih c1 show ?thesis by simp
  next
    case other
    with assms(1) [OF other(3) ih(1)] ih c1 show ?thesis by simp
  qed
qed

end

section \<open>Properties\<close>

lemma failsafe_init_Ok: "failsafe_init thr em = Ok f \<longleftrightarrow>
    em < thr \<and> f = \<lparr>fs_threshold = thr, fs_emergency_cap = em, fs_trip_count = 0\<rparr>"
  by (auto simp: failsafe_init_def)

text \<open>C31. Hard protection on the simulated fleet, for an emergency cap that is not negative: after one
  scan of the fleet every scanned GPU draws no more than the threshold, whatever the brain had
  set and however often the failsafe tripped before, and no GPU's cap is higher than it was. It
  rests on what the simulator does with a cap (no GPU draws more than its cap); on NVML the draw
  follows when the driver takes the limit, and a GPU that draws more than its cap may be given a
  higher one.\<close>

theorem failsafe_scan_protects:
  assumes cfg: "failsafe_init thr em = Ok f0" "0 \<le> em" and inv: "sim_inv s"
    and scan: "failsafe_scan sim_set_power_cap sim_get_power_draw n (f0\<lparr>fs_trip_count := k\<rparr>, s) = (f', s')"
  shows "(\<forall>i d. i < n \<longrightarrow> sim_get_power_draw s' (int i) = Ok d \<longrightarrow> d \<le> thr) \<and>
    (\<forall>g c. sim_get_power_cap s g = Ok c \<longrightarrow> (\<exists>c'. sim_get_power_cap s' g = Ok c' \<and> c' \<le> c))"
proof -
  let ?f = "f0\<lparr>fs_trip_count := k\<rparr>"
  have f: "fs_emergency_cap ?f < fs_threshold ?f" "0 \<le> fs_emergency_cap ?f" "fs_threshold ?f = thr"
    using cfg by (auto simp: failsafe_init_Ok)
  have known: "g \<in> set (dkeys s)" if "map_of s g = Some x" for g x using map_of_some_key [OF that] .
  note settled = sim.scan_settles [OF inv f(1,2) scan]
  have "d \<le> thr" if i: "i < n" and d: "sim_get_power_draw s' (int i) = Ok d" for i d
  proof -
    obtain x where "map_of s' (int i) = Some x"
      using d by (auto simp: sim_get_power_draw_def res_bind_Ok_iff sim_item_Ok)
    then have "int i \<in> set (dkeys s')" by (rule map_of_some_key)
    with settled i d f(3) show ?thesis by (simp del: set_map)
  qed
  moreover have "\<exists>c'. sim_get_power_cap s' g = Ok c' \<and> c' \<le> c" if c: "sim_get_power_cap s g = Ok c" for g c
  proof -
    obtain x where "map_of s g = Some x" using c by (auto simp: sim_get_power_cap_def res_bind_Ok_iff sim_item_Ok)
    from sim.scan_lowers [OF inv f(1,2) scan known [OF this] c] show ?thesis .
  qed
  ultimately show ?thesis by blast
qed

definition hot_fleet :: "unit sim" where
  "hot_fleet = [(0, \<lparr>sg_index = 0, sg_cap_w = 1000, sg_max_cap_w = 1000,
     sg_load = \<lparr>base_util_pct = 90, util_noise = 5, idle_fraction = 0\<rparr>, sg_rng = (), sg_current_util = 100\<rparr>)]"

theorem failsafe_scan_protects_witness:
  "sim_get_power_draw hot_fleet 0 = Ok 900 \<and>
   (\<exists>f s d. failsafe_scan sim_set_power_cap sim_get_power_draw 1 (\<lparr>fs_threshold = 800, fs_emergency_cap = 600, fs_trip_count = 0\<rparr>, hot_fleet) = (f, s) \<and>
      sim_get_power_draw s 0 = Ok d \<and> d \<le> 800)"
proof -
  let ?f = "\<lparr>fs_threshold = 800, fs_emergency_cap = 600, fs_trip_count = 0\<rparr>"
  have init: "failsafe_init 800 600 = Ok ?f" by (simp add: failsafe_init_def)
  have inv: "sim_inv hot_fleet" by (simp add: sim_inv_def hot_fleet_def sim_gpu_ok_def)
  have draw: "sim_get_power_draw hot_fleet 0 = Ok 900"
    by (simp add: sim_get_power_draw_def sim_item_def hot_fleet_def power_draw_w_def LOAD_EFFICIENCY_def IDLE_POWER_W_def)
  obtain f s where scan: "failsafe_scan sim_set_power_cap sim_get_power_draw 1 (?f\<lparr>fs_trip_count := 0\<rparr>, hot_fleet) = (f, s)"
    by (cases "failsafe_scan sim_set_power_cap sim_get_power_draw 1 (?f\<lparr>fs_trip_count := 0\<rparr>, hot_fleet)")
  have c: "sim_get_power_cap hot_fleet 0 = Ok 1000" by (simp add: sim_get_power_cap_def sim_item_def hot_fleet_def)
  have em: "0 \<le> (600 :: watts)" by simp
  from failsafe_scan_protects [OF init em inv scan] c obtain c' where "sim_get_power_cap s 0 = Ok c'" by blast
  then obtain d where d: "sim_get_power_draw s 0 = Ok d"
    by (auto simp: sim_get_power_cap_def sim_get_power_draw_def res_bind_Ok_iff)
  with failsafe_scan_protects [OF init em inv scan] have "d \<le> 800" by fastforce
  with draw d scan show ?thesis by auto
qed

text \<open>Cap-lower-only on the simulator: in any interleaving of the failsafe thread with ticks of the
  fleet, in which only the failsafe sets caps, no GPU's cap ever rises.\<close>

theorem failsafe_lower_only:
  assumes cfg: "failsafe_init thr em = Ok f" "0 \<le> em" and inv: "sim_inv s" and rng: "good_rng rand"
    and run: "(failsafe_run sim_set_power_cap sim_get_power_draw n (\<lambda>s s'. s' = sim_tick rand s))\<^sup>*\<^sup>* (0, f, s) (i, f', s')"
    and c: "sim_get_power_cap s g = Ok c"
  shows "\<exists>c'. sim_get_power_cap s' g = Ok c' \<and> c' \<le> c"
proof -
  have f: "fs_emergency_cap f < fs_threshold f" "0 \<le> fs_emergency_cap f" using cfg by (auto simp: failsafe_init_Ok)
  obtain x where x: "map_of s g = Some x" using c by (auto simp: sim_get_power_cap_def res_bind_Ok_iff sim_item_Ok)
  have cap: "sg_cap_w (resample rand y) = sg_cap_w y" for y
    by (simp add: resample_def split: prod.split)
  have "sim_get_power_cap (sim_tick rand s1) g1 = sim_get_power_cap s1 g1" for s1 g1
    by (simp add: sim_get_power_cap_def sim_item_def sim_tick_def map_ran_conv cap split: option.split)
  moreover have "dkeys (sim_tick rand s1) = dkeys s1" for s1 by (simp add: sim_tick_def)
  ultimately show ?thesis
    using sim.run_lowers [OF _ run inv f map_of_some_key [OF x] c] sim_tick_inv [OF _ rng] by simp
qed

theorem failsafe_lower_only_witness:
  "\<exists>f' s' c'. (failsafe_run sim_set_power_cap sim_get_power_draw 1 (\<lambda>s s'. s' = sim_tick half_rng s))\<^sup>*\<^sup>*
      (0, \<lparr>fs_threshold = 800, fs_emergency_cap = 600, fs_trip_count = 0\<rparr>, hot_fleet) (1, f', s') \<and>
     sim_get_power_cap s' 0 = Ok c' \<and> c' \<le> 1000"
proof -
  let ?f = "\<lparr>fs_threshold = 800, fs_emergency_cap = 600, fs_trip_count = 0\<rparr>"
  let ?run = "failsafe_run sim_set_power_cap sim_get_power_draw 1 (\<lambda>s s'. s' = sim_tick half_rng s)"
  obtain f' s' where p: "failsafe_poll sim_set_power_cap sim_get_power_draw (int 0) (?f, hot_fleet) = (f', s')"
    by (cases "failsafe_poll sim_set_power_cap sim_get_power_draw (int 0) (?f, hot_fleet)")
  have "?run (0, ?f, hot_fleet) (Suc 0, failsafe_poll sim_set_power_cap sim_get_power_draw (int 0) (?f, hot_fleet))"
    by (rule failsafe_run.poll) simp
  then have run: "?run\<^sup>*\<^sup>* (0, ?f, hot_fleet) (1, f', s')" using p by auto
  have "failsafe_init 800 600 = Ok ?f" by (simp add: failsafe_init_def)
  moreover have "sim_inv hot_fleet" by (simp add: sim_inv_def hot_fleet_def sim_gpu_ok_def)
  moreover have "good_rng half_rng" by (simp add: good_rng_def half_rng_def)
  moreover have "sim_get_power_cap hot_fleet 0 = Ok 1000" by (simp add: sim_get_power_cap_def sim_item_def hot_fleet_def)
  ultimately have "\<exists>c'. sim_get_power_cap s' 0 = Ok c' \<and> c' \<le> 1000"
    using failsafe_lower_only [OF _ _ _ _ run, of 800 600 0 1000] by simp
  with run show ?thesis by blast
qed

text \<open>On hardware whose draw can overshoot its limit the failsafe can raise a cap: a GPU limited
  to 300 W that momentarily draws 450 W is put on the emergency cap of 400 W.\<close>

theorem failsafe_can_raise:
  "\<exists>f. failsafe_init 420 400 = Ok f \<and>
     nvml_get_power_cap (\<lambda>(limit, usage) h. Some limit) [()] (300000, 450000) 0 = Ok 300 \<and>
     (case failsafe_poll (nvml_set_power_cap (\<lambda>(limit, usage) h mw. Some (mw, usage)) [()])
             (nvml_get_power_draw (\<lambda>(limit, usage) h. Some usage) [()]) 0 (f, (300000, 450000)) of
        (f', dev) \<Rightarrow> nvml_get_power_cap (\<lambda>(limit, usage) h. Some limit) [()] dev 0 = Ok 400 \<and> fs_trip_count f' = 1)"
  by (simp add: failsafe_init_def failsafe_poll_def nvml_get_power_cap_def nvml_get_power_draw_def nvml_read_def
      nvml_set_power_cap_def py_nth_def milliwatts_def truncate_real_def)

end
