(* ===== verification/JsonText.thy ===== *)
theory JsonText
  imports PyJson "HOL-Library.List_Lexorder" "HOL-Library.Char_ord"
begin

text \<open>
  Python's \<open>json\<close> module as the program uses it: \<open>json.dumps\<close> indented or on one line, with and without
  \<open>sort_keys\<close>, and \<open>json.loads\<close>. Strings are sequences of code points below 256; an escape
  for a larger one, and the non-finite literals the parser also accepts, are \<open>OutOfModel\<close>.
  The text of a float, \<open>float.__repr__\<close>, is the argument \<open>repr\<close>: the model has real numbers
  and no binary64 format, and only needs that the text reads back as the number. The last
  section shows that a printed document is read back as it was.
\<close>

section \<open>Printing\<close>

abbreviation QUOTE :: char where "QUOTE \<equiv> CHR 0x22"
abbreviation BACKSLASH :: char where "BACKSLASH \<equiv> CHR 0x5C"
abbreviation NEWLINE :: char where "NEWLINE \<equiv> CHR 0x0A"

definition hex_char :: "nat \<Rightarrow> char" where
  "hex_char d = char_of (if d < 10 then 48 + d else 87 + d)"

definition hex_val :: "char \<Rightarrow> nat option" where
  "hex_val c =
     (let n = (of_char c :: nat) in
      if 48 \<le> n \<and> n \<le> 57 then Some (n - 48)
      else if 97 \<le> n \<and> n \<le> 102 then Some (n - 87)
      else if 65 \<le> n \<and> n \<le> 70 then Some (n - 55)
      else None)"

definition escape_char :: "char \<Rightarrow> string" where
  "escape_char c =
     (let n = (of_char c :: nat) in
      if c = QUOTE \<or> c = BACKSLASH then [BACKSLASH, c]
      else if 32 \<le> n \<and> n < 127 then [c]
      else if n = 8 then [BACKSLASH, CHR ''b'']
      else if n = 9 then [BACKSLASH, CHR ''t'']
      else if n = 10 then [BACKSLASH, CHR ''n'']
      else if n = 12 then [BACKSLASH, CHR ''f'']
      else if n = 13 then [BACKSLASH, CHR ''r'']
      else [BACKSLASH, CHR ''u'', CHR ''0'', CHR ''0'', hex_char (n div 16), hex_char (n mod 16)])"

definition quote_text :: "string \<Rightarrow> string" where
  "quote_text s = QUOTE # concat (map escape_char s) @ [QUOTE]"

text \<open>A layout is the nesting level of an indented document, or one of the two layouts of a document on
  one line: the default separators, or \<open>separators=(',', ':')\<close>.\<close>

datatype layout = Indented nat | Spaced | Compact

definition new_line :: "layout \<Rightarrow> string" where
  "new_line l = (case l of Indented k \<Rightarrow> NEWLINE # replicate (2 * k) (CHR '' '') | _ \<Rightarrow> [])"

definition after_comma :: "layout \<Rightarrow> string" where
  "after_comma l = (case l of Spaced \<Rightarrow> '' '' | _ \<Rightarrow> new_line l)"

definition after_colon :: "layout \<Rightarrow> string" where
  "after_colon l = (case l of Compact \<Rightarrow> [] | _ \<Rightarrow> '' '')"

definition deeper :: "layout \<Rightarrow> layout" where
  "deeper l = (case l of Indented k \<Rightarrow> Indented (Suc k) | _ \<Rightarrow> l)"

fun json_text :: "(real \<Rightarrow> string) \<Rightarrow> layout \<Rightarrow> json \<Rightarrow> string" where
  "json_text repr l JNull = ''null''"
| "json_text repr l (JBool b) = (if b then ''true'' else ''false'')"
| "json_text repr l (JInt i) = string_of_int i"
| "json_text repr l (JFloat r) = repr r"
| "json_text repr l (JStr s) = quote_text s"
| "json_text repr l (JList xs) =
     (if xs = [] then ''[]''
      else CHR ''['' # new_line (deeper l)
           @ join (CHR '','' # after_comma (deeper l)) (map (json_text repr (deeper l)) xs)
           @ new_line l @ '']'')"
| "json_text repr l (JObj d) =
     (if d = [] then ''{}''
      else CHR ''{'' # new_line (deeper l)
           @ join (CHR '','' # after_comma (deeper l))
               (map (\<lambda>p. quote_text (fst p) @ CHR '':'' # after_colon (deeper l) @ json_text repr (deeper l) (snd p)) d)
           @ new_line l @ ''}'')"

text \<open>\<open>sort_keys\<close> orders the members of every object by key.\<close>

fun sort_json :: "json \<Rightarrow> json" where
  "sort_json (JList xs) = JList (map sort_json xs)"
| "sort_json (JObj d) = JObj (sort_key fst (map (\<lambda>p. (fst p, sort_json (snd p))) d))"
| "sort_json v = v"

definition json_dumps :: "(real \<Rightarrow> string) \<Rightarrow> json \<Rightarrow> string" where
  \<comment> \<open>\<open>json.dumps(v, indent=2)\<close>\<close>
  "json_dumps repr v = json_text repr (Indented 0) v"

definition json_dumps_line :: "(real \<Rightarrow> string) \<Rightarrow> json \<Rightarrow> string" where
  \<comment> \<open>\<open>json.dumps(v)\<close>\<close>
  "json_dumps_line repr v = json_text repr Spaced v"

definition json_dumps_compact :: "(real \<Rightarrow> string) \<Rightarrow> json \<Rightarrow> string" where
  \<comment> \<open>\<open>json.dumps(v, separators=(',', ':'))\<close>\<close>
  "json_dumps_compact repr v = json_text repr Compact v"

definition json_dumps_sorted :: "(real \<Rightarrow> string) \<Rightarrow> json \<Rightarrow> string" where
  \<comment> \<open>\<open>json.dumps(v, indent=2, sort_keys=True, separators=(',', ': '))\<close>\<close>
  "json_dumps_sorted repr v = json_text repr (Indented 0) (sort_json v)"

section \<open>\<open>str\<close> and \<open>repr\<close>\<close>

text \<open>\<open>str(v)\<close> of a parsed value, with \<open>repr\<close> for what is inside a container.\<close>

definition repr_char :: "char \<Rightarrow> char \<Rightarrow> string" where
  "repr_char q c =
     (let n = (of_char c :: nat) in
      if c = q \<or> c = BACKSLASH then [BACKSLASH, c]
      else if n = 9 then [BACKSLASH, CHR ''t'']
      else if n = 10 then [BACKSLASH, CHR ''n'']
      else if n = 13 then [BACKSLASH, CHR ''r'']
      else if 32 \<le> n \<and> n < 127 \<or> 161 \<le> n \<and> n \<noteq> 173 then [c]
      else [BACKSLASH, CHR ''x'', hex_char (n div 16), hex_char (n mod 16)])"

definition repr_str :: "string \<Rightarrow> string" where
  "repr_str s =
     (let q = (if CHR 0x27 \<in> set s \<and> QUOTE \<notin> set s then QUOTE else CHR 0x27) in
      q # concat (map (repr_char q) s) @ [q])"

fun py_repr :: "(real \<Rightarrow> string) \<Rightarrow> json \<Rightarrow> string" where
  "py_repr repr JNull = ''None''"
| "py_repr repr (JBool b) = (if b then ''True'' else ''False'')"
| "py_repr repr (JInt i) = string_of_int i"
| "py_repr repr (JFloat r) = repr r"
| "py_repr repr (JStr s) = repr_str s"
| "py_repr repr (JList xs) = ''['' @ join '', '' (map (py_repr repr) xs) @ '']''"
| "py_repr repr (JObj d) = ''{'' @ join '', '' (map (\<lambda>p. repr_str (fst p) @ '': '' @ py_repr repr (snd p)) d) @ ''}''"

definition py_str :: "(real \<Rightarrow> string) \<Rightarrow> json \<Rightarrow> string" where
  "py_str repr v = (case v of JStr s \<Rightarrow> s | _ \<Rightarrow> py_repr repr v)"

section \<open>Parsing\<close>

definition json_ws :: "char \<Rightarrow> bool" where
  "json_ws c \<longleftrightarrow> c = CHR '' '' \<or> c = CHR 0x09 \<or> c = NEWLINE \<or> c = CHR 0x0D"

definition skip_ws :: "string \<Rightarrow> string" where
  "skip_ws s = dropWhile json_ws s"

definition unescape :: "char \<Rightarrow> char option" where
  "unescape c =
     (if c = QUOTE \<or> c = BACKSLASH \<or> c = CHR ''/'' then Some c
      else if c = CHR ''b'' then Some (CHR 0x08)
      else if c = CHR ''t'' then Some (CHR 0x09)
      else if c = CHR ''n'' then Some NEWLINE
      else if c = CHR ''f'' then Some (CHR 0x0C)
      else if c = CHR ''r'' then Some (CHR 0x0D)
      else None)"

fun hex4 :: "string \<Rightarrow> nat option" where
  "hex4 (a # b # c # d # r) =
     (case (hex_val a, hex_val b, hex_val c, hex_val d) of
        (Some w, Some x, Some y, Some z) \<Rightarrow> Some (4096 * w + 256 * x + 16 * y + z)
      | _ \<Rightarrow> None)"
| "hex4 _ = None"

abbreviation decode_error :: "'a res" where
  \<comment> \<open>\<open>json.JSONDecodeError\<close>, a \<open>ValueError\<close>\<close>
  "decode_error \<equiv> Err (ValueError ''json'')"

definition add_char :: "char \<Rightarrow> (string \<times> string) res \<Rightarrow> (string \<times> string) res" where
  "add_char c m = res_bind m (\<lambda>(t, r). Ok (c # t, r))"

text \<open>The characters of a string up to its closing quote, and what follows.\<close>

fun scan_string :: "string \<Rightarrow> (string \<times> string) res" where
  "scan_string [] = decode_error"
| "scan_string (c # s) =
     (if c = QUOTE then Ok ([], s)
      else if c \<noteq> BACKSLASH then
        (if (of_char c :: nat) < 32 then decode_error else add_char c (scan_string s))
      else (case s of
              [] \<Rightarrow> decode_error
            | e # r \<Rightarrow>
                if e = CHR ''u'' then
                  (case hex4 r of
                     None \<Rightarrow> decode_error
                   | Some n \<Rightarrow> if n < 256 then add_char (char_of n) (scan_string (drop 4 r)) else Err OutOfModel)
                else (case unescape e of
                        None \<Rightarrow> decode_error
                      | Some x \<Rightarrow> add_char x (scan_string r))))"

definition int_part :: "string \<Rightarrow> (string \<times> string) option" where
  "int_part s =
     (case s of
        [] \<Rightarrow> None
      | c # r \<Rightarrow>
          if c = CHR ''0'' then Some ([c], r)
          else if is_digit c then Some (takeWhile is_digit s, dropWhile is_digit s)
          else None)"

definition frac_part :: "string \<Rightarrow> string \<times> string" where
  "frac_part s =
     (case s of
        [] \<Rightarrow> ([], [])
      | c # r \<Rightarrow>
          if c = CHR ''.'' \<and> takeWhile is_digit r \<noteq> [] then (c # takeWhile is_digit r, dropWhile is_digit r)
          else ([], s))"

definition exp_sign :: "string \<Rightarrow> string \<times> string" where
  "exp_sign s =
     (case s of [] \<Rightarrow> ([], []) | c # r \<Rightarrow> if c = CHR ''+'' \<or> c = CHR ''-'' then ([c], r) else ([], s))"

definition exp_part :: "string \<Rightarrow> string \<times> string" where
  "exp_part s =
     (case s of
        [] \<Rightarrow> ([], [])
      | c # r \<Rightarrow>
          (case exp_sign r of (sg, t) \<Rightarrow>
             if (c = CHR ''e'' \<or> c = CHR ''E'') \<and> takeWhile is_digit t \<noteq> []
             then (c # sg @ takeWhile is_digit t, dropWhile is_digit t)
             else ([], s)))"

definition minus_sign :: "string \<Rightarrow> string \<times> string" where
  "minus_sign s = (case s of [] \<Rightarrow> ([], []) | c # r \<Rightarrow> if c = CHR ''-'' then ([c], r) else ([], s))"

definition scan_number :: "string \<Rightarrow> (json \<times> string) res" where
  "scan_number s =
     (case minus_sign s of (sg, s1) \<Rightarrow>
      (case int_part s1 of
         None \<Rightarrow> decode_error
       | Some (i, s2) \<Rightarrow>
           (case frac_part s2 of (f, s3) \<Rightarrow>
            (case exp_part s3 of (e, s4) \<Rightarrow>
               if f = [] \<and> e = [] then res_bind (py_int (sg @ i)) (\<lambda>n. Ok (JInt n, s4))
               else res_bind (py_float (sg @ i @ f @ e)) (\<lambda>x.
                 case x of Fin q \<Rightarrow> Ok (JFloat q, s4) | _ \<Rightarrow> Err OutOfModel)))))"

definition after_prefix :: "string \<Rightarrow> string \<Rightarrow> string option" where
  "after_prefix p s = (if take (length p) s = p then Some (drop (length p) s) else None)"

definition scan_literal :: "string \<Rightarrow> (json \<times> string) res" where
  "scan_literal s =
     (case after_prefix ''null'' s of Some r \<Rightarrow> Ok (JNull, r) | None \<Rightarrow>
      (case after_prefix ''true'' s of Some r \<Rightarrow> Ok (JBool True, r) | None \<Rightarrow>
       (case after_prefix ''false'' s of Some r \<Rightarrow> Ok (JBool False, r) | None \<Rightarrow>
        if after_prefix ''NaN'' s \<noteq> None \<or> after_prefix ''Infinity'' s \<noteq> None \<or> after_prefix ''-Infinity'' s \<noteq> None
        then Err OutOfModel else decode_error)))"

text \<open>
  The scanner by recursive descent. The first argument bounds the depth of the recursion; every
  second call consumes a character, so twice the length of the text is enough.
\<close>

fun scan_value :: "nat \<Rightarrow> string \<Rightarrow> (json \<times> string) res"
  and scan_elements :: "nat \<Rightarrow> string \<Rightarrow> (json list \<times> string) res"
  and scan_members :: "nat \<Rightarrow> string \<Rightarrow> ((string \<times> json) list \<times> string) res" where
  "scan_value 0 s = Err OutOfModel"
| "scan_value (Suc n) s =
     (case s of
        [] \<Rightarrow> decode_error
      | c # r \<Rightarrow>
          if c = QUOTE then res_bind (scan_string r) (\<lambda>(t, r'). Ok (JStr t, r'))
          else if c = CHR ''['' then
            (case skip_ws r of
               [] \<Rightarrow> decode_error
             | d # r' \<Rightarrow>
                 if d = CHR '']'' then Ok (JList [], r')
                 else res_bind (scan_elements n (d # r')) (\<lambda>(vs, q). Ok (JList vs, q)))
          else if c = CHR ''{'' then
            (case skip_ws r of
               [] \<Rightarrow> decode_error
             | d # r' \<Rightarrow>
                 if d = CHR ''}'' then Ok (JObj [], r')
                 else res_bind (scan_members n (d # r')) (\<lambda>(ps, q). Ok (JObj (dmerge [] ps), q)))
          else if is_digit c \<or> c = CHR ''-'' \<and> after_prefix ''-Infinity'' s = None then scan_number s
          else scan_literal s)"
| "scan_elements 0 s = Err OutOfModel"
| "scan_elements (Suc n) s =
     res_bind (scan_value n s) (\<lambda>(v, r).
       case skip_ws r of
         [] \<Rightarrow> decode_error
       | c # r' \<Rightarrow>
           if c = CHR '']'' then Ok ([v], r')
           else if c = CHR '','' then res_bind (scan_elements n (skip_ws r')) (\<lambda>(vs, q). Ok (v # vs, q))
           else decode_error)"
| "scan_members 0 s = Err OutOfModel"
| "scan_members (Suc n) s =
     (case s of
        [] \<Rightarrow> decode_error
      | c # r \<Rightarrow>
          if c \<noteq> QUOTE then decode_error
          else res_bind (scan_string r) (\<lambda>(k, r1).
            case skip_ws r1 of
              [] \<Rightarrow> decode_error
            | d # r2 \<Rightarrow>
                if d \<noteq> CHR '':'' then decode_error
                else res_bind (scan_value n (skip_ws r2)) (\<lambda>(v, r3).
                  case skip_ws r3 of
                    [] \<Rightarrow> decode_error
                  | e # r4 \<Rightarrow>
                      if e = CHR ''}'' then Ok ([(k, v)], r4)
                      else if e = CHR '','' then res_bind (scan_members n (skip_ws r4)) (\<lambda>(ps, q). Ok ((k, v) # ps, q))
                      else decode_error)))"

definition json_loads :: "string \<Rightarrow> json res" where
  "json_loads s =
     res_bind (scan_value (Suc (2 * length s)) (skip_ws s)) (\<lambda>(v, r).
       if skip_ws r = [] then Ok v else decode_error)"

section \<open>Reading back what was printed\<close>

subsection \<open>Strings\<close>

lemma hex_val_char: "d < 16 \<Longrightarrow> hex_val (hex_char d) = Some d"
  by (auto simp: hex_val_def hex_char_def Let_def)

lemma scan_string_escape:
  "scan_string (escape_char c @ s) = add_char c (scan_string s)"
proof -
  have n: "of_char c < (256 :: nat)" by simp
  then have "of_char c div 16 < (16 :: nat)" "of_char c mod 16 < (16 :: nat)" by linarith+
  then have hex: "hex4 (CHR ''0'' # CHR ''0'' # hex_char (of_char c div 16) # hex_char (of_char c mod 16) # s) = Some (of_char c)"
    by (simp add: hex_val_char) (simp add: hex_val_def)
  have "of_char c = (8 :: nat) \<Longrightarrow> c = CHR 0x08" "of_char c = (9 :: nat) \<Longrightarrow> c = CHR 0x09"
    "of_char c = (10 :: nat) \<Longrightarrow> c = NEWLINE" "of_char c = (12 :: nat) \<Longrightarrow> c = CHR 0x0C"
    "of_char c = (13 :: nat) \<Longrightarrow> c = CHR 0x0D"
    by (simp_all flip: of_char_eq_iff [where ?'a = nat])
  with hex n show ?thesis
    by (auto simp: escape_char_def Let_def unescape_def)
qed

lemma scan_string_quoted:
  "scan_string (concat (map escape_char t) @ QUOTE # s) = Ok (t, s)"
  by (induction t) (simp_all add: scan_string_escape add_char_def)

subsection \<open>Numbers\<close>

definition number_end :: "string \<Rightarrow> bool" where
  \<comment> \<open>what follows cannot be read as more of the number\<close>
  "number_end r \<longleftrightarrow> r = [] \<or> \<not> is_digit (hd r) \<and> hd r \<notin> {CHR ''.'', CHR ''e'', CHR ''E'', CHR ''+'', CHR ''-''}"

lemma digits_append:
  assumes "number_end r"
  shows "takeWhile is_digit (s @ r) = takeWhile is_digit s"
    and "dropWhile is_digit (s @ r) = dropWhile is_digit s @ r"
  using assms by (induction s) (cases r; auto simp: number_end_def)+

lemma int_part_append:
  assumes "number_end r" "int_part s = Some (i, s')"
  shows "int_part (s @ r) = Some (i, s' @ r)"
  using assms(2) digits_append [OF assms(1)] by (auto simp: int_part_def split: list.splits if_splits)

lemma frac_part_append:
  assumes "number_end r"
  shows "frac_part (s @ r) = (fst (frac_part s), snd (frac_part s) @ r)"
  using assms digits_append [OF assms] by (cases r) (auto simp: frac_part_def number_end_def split: list.split)

lemma exp_sign_append:
  assumes "number_end r"
  shows "exp_sign (s @ r) = (fst (exp_sign s), snd (exp_sign s) @ r)"
  using assms by (cases r) (auto simp: exp_sign_def number_end_def split: list.split)

lemma exp_part_append:
  assumes "number_end r"
  shows "exp_part (s @ r) = (fst (exp_part s), snd (exp_part s) @ r)"
proof (cases s)
  case Nil
  with assms show ?thesis by (cases r) (auto simp: exp_part_def number_end_def split: prod.split)
next
  case (Cons c t)
  then show ?thesis
    using digits_append [OF assms, of "snd (exp_sign t)"] exp_sign_append [OF assms, of t]
    by (cases "exp_sign t") (simp add: exp_part_def)
qed

lemma minus_sign_append:
  "s \<noteq> [] \<Longrightarrow> minus_sign (s @ r) = (fst (minus_sign s), snd (minus_sign s) @ r)"
  by (cases s) (auto simp: minus_sign_def)

lemma scan_number_append:
  assumes "number_end r" "scan_number s = Ok (v, [])"
  shows "scan_number (s @ r) = Ok (v, r)"
proof -
  obtain sg s1 where sg: "minus_sign s = (sg, s1)" by (cases "minus_sign s")
  from assms(2) sg obtain i s2 where i: "int_part s1 = Some (i, s2)"
    by (auto simp: scan_number_def split: option.splits)
  obtain f s3 where f: "frac_part s2 = (f, s3)" by (cases "frac_part s2")
  obtain e s4 where e: "exp_part s3 = (e, s4)" by (cases "exp_part s3")
  have "s \<noteq> []" using i sg by (auto simp: minus_sign_def int_part_def)
  then have "minus_sign (s @ r) = (sg, s1 @ r)" using minus_sign_append sg by simp
  moreover have "int_part (s1 @ r) = Some (i, s2 @ r)" by (rule int_part_append [OF assms(1) i])
  moreover have "frac_part (s2 @ r) = (f, s3 @ r)" using frac_part_append [OF assms(1)] f by simp
  moreover have "exp_part (s3 @ r) = (e, s4 @ r)" using exp_part_append [OF assms(1)] e by simp
  ultimately show ?thesis
    using assms(2) sg i f e
    by (auto simp: scan_number_def res_bind_Ok_iff split: if_splits pyfloat.splits)
qed

lemma string_of_nat_digits: "c \<in> set (string_of_nat n) \<Longrightarrow> is_digit c"
proof (induction n rule: string_of_nat.induct)
  case (1 n)
  have "n mod 10 < 10" by simp
  with 1 show ?case
    using digit_char by (cases "n < 10") (auto simp: string_of_nat.simps [of n])
qed

lemma char_of_48: "d < 10 \<Longrightarrow> char_of (48 + d) = CHR ''0'' \<longleftrightarrow> d = 0" for d :: nat
proof -
  assume "d < 10"
  then have "(of_char (char_of (48 + d)) :: nat) = 48 + d" by simp
  moreover have "(of_char CHR ''0'' :: nat) = 48" by simp
  ultimately show ?thesis by (metis add_cancel_left_right of_char_eq_iff)
qed

lemma string_of_nat_no_zero: "0 < n \<Longrightarrow> \<exists>c r. string_of_nat n = c # r \<and> c \<noteq> CHR ''0''"
proof (induction n rule: string_of_nat.induct)
  case (1 n)
  then show ?case
  proof (cases "n < 10")
    case True
    with 1 show ?thesis using char_of_48 [of n] by (auto simp: string_of_nat.simps [of n])
  next
    case False
    then have "0 < n div 10" by auto
    with 1 False obtain c r where "string_of_nat (n div 10) = c # r" "c \<noteq> CHR ''0''" by blast
    with False show ?thesis by (simp add: string_of_nat.simps [of n])
  qed
qed

lemma is_digit_facts:
  assumes "is_digit c"
  shows "\<not> is_ws c" "c \<noteq> CHR ''-''" "c \<noteq> CHR ''+''" "\<not> json_ws c" "c \<noteq> QUOTE" "c \<noteq> CHR ''[''" "c \<noteq> CHR ''{''"
    "c \<noteq> CHR '']''" "c \<noteq> CHR ''}''" "c \<noteq> CHR '',''"
  using assms by (auto simp: is_digit_def is_ws_def json_ws_def Let_def)

lemma strip_plain:
  assumes "s \<noteq> []" "\<not> is_ws (hd s)" "\<not> is_ws (last s)"
  shows "strip s = s"
proof -
  have "dropWhile is_ws s = s" using assms by (cases s) auto
  moreover have "dropWhile is_ws (rev s) = rev s" using assms by (cases s rule: rev_cases) auto
  ultimately show ?thesis by (simp add: strip_def lstrip_def rstrip_def)
qed

lemma py_int_digits:
  assumes sg: "sg = (if neg then ''-'' else [])"
  shows "py_int (sg @ string_of_nat n) = Ok (if neg then - int n else int n)"
proof -
  obtain c r where c: "string_of_nat n = c # r" "is_digit c" using string_of_nat_head by blast
  have "is_digit (last (string_of_nat n))" using c by (intro string_of_nat_digits [of _ n] last_in_set) simp
  then have "strip (sg @ string_of_nat n) = sg @ string_of_nat n"
    using c is_digit_facts [OF c(2)] sg is_digit_facts(1) by (intro strip_plain) (auto simp: is_ws_def Let_def)
  moreover have "sign_of (sg @ string_of_nat n) = (neg, string_of_nat n)"
    using c is_digit_facts [OF c(2)] sg by (simp add: sign_of_def)
  moreover obtain k where "digits_of (string_of_nat n) = Some (n, k)"
    using udigits_string_of_nat by (auto simp: digits_of_def)
  ultimately show ?thesis by (simp add: py_int_def)
qed

text \<open>\<open>int(str(i)) = i\<close>\<close>

lemma string_of_int_reads: "py_int (string_of_int i) = Ok i"
  using py_int_digits [of "''-''" True "nat (- i)"] py_int_digits [of "[]" False "nat i"] by (simp add: string_of_int_def)

lemma string_of_int_inj: "string_of_int i = string_of_int j \<longleftrightarrow> i = j"
  using string_of_int_reads by (metis sum.inject(2))

lemma scan_number_digits:
  assumes sg: "sg = (if neg then ''-'' else [])"
  shows "scan_number (sg @ string_of_nat n) = Ok (JInt (if neg then - int n else int n), [])"
proof -
  obtain c r where c: "string_of_nat n = c # r" "is_digit c" using string_of_nat_head by blast
  have "minus_sign (sg @ string_of_nat n) = (sg, string_of_nat n)"
    using c is_digit_facts [OF c(2)] sg by (simp add: minus_sign_def)
  moreover have "int_part (string_of_nat n) = Some (string_of_nat n, [])"
  proof (cases "n = 0")
    case True
    then show ?thesis using char_of_48 [of 0] by (simp add: string_of_nat.simps [of 0] int_part_def)
  next
    case False
    then have "c \<noteq> CHR ''0''" using string_of_nat_no_zero [of n] c by auto
    moreover have "takeWhile is_digit (string_of_nat n) = string_of_nat n"
      "dropWhile is_digit (string_of_nat n) = []"
      using string_of_nat_digits [of _ n] by (simp_all add: takeWhile_eq_all_conv dropWhile_eq_Nil_conv)
    ultimately show ?thesis using c by (simp add: int_part_def)
  qed
  moreover have "frac_part [] = ([], [])" "exp_part [] = ([], [])"
    by (simp_all add: frac_part_def exp_part_def)
  ultimately show ?thesis using py_int_digits [OF sg, of n] by (simp add: scan_number_def)
qed

lemma scan_number_int: "scan_number (string_of_int i) = Ok (JInt i, [])"
  using scan_number_digits [of "''-''" True "nat (- i)"] scan_number_digits [of "[]" False "nat i"]
  by (simp add: string_of_int_def)

lemma scan_number_head:
  assumes "scan_number s = Ok (v, r)"
  obtains c t where "s = c # t" "is_digit c \<or> c = CHR ''-''" "after_prefix ''-Infinity'' s = None"
proof -
  have d: "is_digit CHR ''0''" "\<not> is_digit CHR ''I''" by (simp_all add: is_digit_def)
  obtain sg s1 where sg: "minus_sign s = (sg, s1)" by (cases "minus_sign s")
  with assms obtain i s2 where "int_part s1 = Some (i, s2)"
    by (auto simp: scan_number_def split: option.splits)
  then obtain c' t' where c': "s1 = c' # t'" "is_digit c'"
    using d by (auto simp: int_part_def split: list.splits if_splits)
  with sg obtain c t where c: "s = c # t" by (cases s) (auto simp: minus_sign_def)
  with sg c' d is_digit_facts(2) have "is_digit c \<or> c = CHR ''-''" "after_prefix ''-Infinity'' s = None"
    by (auto simp: minus_sign_def after_prefix_def split: if_splits)
  with c that show thesis by blast
qed

subsection \<open>Documents\<close>

text \<open>Documents Python can hold: objects have distinct keys, and floats have a text that reads back.\<close>

fun printable :: "(real \<Rightarrow> string) \<Rightarrow> json \<Rightarrow> bool" where
  "printable repr (JFloat q) \<longleftrightarrow> scan_number (repr q) = Ok (JFloat q, [])"
| "printable repr (JList xs) \<longleftrightarrow> (\<forall>x \<in> set xs. printable repr x)"
| "printable repr (JObj d) \<longleftrightarrow> distinct (map fst d) \<and> (\<forall>p \<in> set d. printable repr (snd p))"
| "printable repr _ \<longleftrightarrow> True"

lemma json_ws_digit: "is_digit c \<or> c = CHR ''-'' \<Longrightarrow> \<not> json_ws c \<and> c \<noteq> CHR '']'' \<and> c \<noteq> CHR ''}''"
  by (auto simp: json_ws_def is_digit_def)

lemma json_text_head:
  assumes "printable repr v"
  obtains c t where "json_text repr l v = c # t" "\<not> json_ws c" "c \<noteq> CHR '']''" "c \<noteq> CHR ''}''"
proof -
  have "\<exists>c t. json_text repr l v = c # t \<and> \<not> json_ws c \<and> c \<noteq> CHR '']'' \<and> c \<noteq> CHR ''}''"
  proof (cases v)
    case (JInt i)
    show ?thesis using scan_number_head [OF scan_number_int [of i]] json_ws_digit unfolding JInt json_text.simps by metis
  next
    case (JFloat q)
    with assms have "scan_number (repr q) = Ok (JFloat q, [])" by simp
    from scan_number_head [OF this] show ?thesis using json_ws_digit unfolding JFloat json_text.simps by metis
  qed (simp_all add: json_ws_def quote_text_def)
  with that show thesis by blast
qed

lemma skip_ws_layout [simp]: "skip_ws (new_line l @ s) = skip_ws s" "skip_ws (after_comma l @ s) = skip_ws s"
  "skip_ws (after_colon l @ s) = skip_ws s"
proof -
  have "dropWhile json_ws (replicate k (CHR '' '') @ s) = dropWhile json_ws s" for k
    by (induction k) (simp_all add: json_ws_def)
  then show "skip_ws (new_line l @ s) = skip_ws s" "skip_ws (after_comma l @ s) = skip_ws s"
    "skip_ws (after_colon l @ s) = skip_ws s"
    by (simp_all add: skip_ws_def new_line_def after_comma_def after_colon_def json_ws_def split: layout.split)
qed

lemma skip_ws_plain: "\<not> json_ws c \<Longrightarrow> skip_ws (c # s) = c # s"
  by (simp add: skip_ws_def)

lemma skip_ws_simps [simp]:
  "skip_ws (CHR '','' # s) = CHR '','' # s" "skip_ws (CHR '':'' # s) = CHR '':'' # s"
  "skip_ws (CHR '']'' # s) = CHR '']'' # s" "skip_ws (CHR ''}'' # s) = CHR ''}'' # s"
  "skip_ws (QUOTE # s) = QUOTE # s" "skip_ws (CHR '' '' # s) = skip_ws s" "skip_ws [] = []"
  by (simp_all add: skip_ws_def json_ws_def)

lemma skip_ws_text: "printable repr v \<Longrightarrow> skip_ws (json_text repr l v @ s) = json_text repr l v @ s"
  by (rule json_text_head [of repr v l]) (simp_all add: skip_ws_def)

lemma number_end_simps [simp]:
  "number_end []" "number_end (CHR '','' # s)" "number_end (new_line l @ CHR '']'' # s)" "number_end (new_line l @ CHR ''}'' # s)"
  by (simp_all add: number_end_def new_line_def is_digit_def split: layout.split)

text \<open>What the scanner does on one printed value, in any context.\<close>

definition scans :: "(json \<Rightarrow> string) \<Rightarrow> json \<Rightarrow> bool" where
  "scans tx v \<longleftrightarrow> (\<forall>r n. number_end r \<longrightarrow> 2 * length (tx v) \<le> n \<longrightarrow> scan_value n (tx v @ r) = Ok (v, r))"

lemma scansD: "scans tx v \<Longrightarrow> number_end r \<Longrightarrow> 2 * length (tx v) \<le> n \<Longrightarrow> scan_value n (tx v @ r) = Ok (v, r)"
  by (simp add: scans_def)

lemma scansI:
  assumes "\<And>m r. scan_value (Suc m) (tx v @ r) = Ok (v, r)" "tx v \<noteq> []"
  shows "scans tx v"
  unfolding scans_def
proof (intro allI impI)
  fix r n assume "2 * length (tx v) \<le> n"
  with assms(2) obtain m where "n = Suc m" by (cases n) auto
  with assms(1) show "scan_value n (tx v @ r) = Ok (v, r)" by simp
qed

lemma scan_elements_join:
  assumes "xs \<noteq> []" "\<forall>v \<in> set xs. scans (json_text repr l') v \<and> printable repr v"
    and "2 * length (join (CHR '','' # after_comma l') (map (json_text repr l') xs)) < n"
  shows "scan_elements n (join (CHR '','' # after_comma l') (map (json_text repr l') xs) @ new_line l @ CHR '']'' # r) = Ok (xs, r)"
  using assms
proof (induction xs arbitrary: n rule: induct_list012)
  case (2 v)
  then obtain m where n: "n = Suc m" "2 * length (json_text repr l' v) \<le> m" by (cases n) auto
  with 2 scansD [of "json_text repr l'" v "new_line l @ CHR '']'' # r" m] show ?case by simp
next
  case (3 v w xs)
  let ?rest = "join (CHR '','' # after_comma l') (map (json_text repr l') (w # xs))"
  from 3(5) obtain m where n: "n = Suc m" "2 * length (json_text repr l' v) \<le> m" "2 * length ?rest < m"
    by (cases n) (auto simp: join_Cons)
  have "scan_value m (json_text repr l' v @ CHR '','' # after_comma l' @ ?rest @ new_line l @ CHR '']'' # r)
      = Ok (v, CHR '','' # after_comma l' @ ?rest @ new_line l @ CHR '']'' # r)"
    using 3(4) n by (intro scansD) simp_all
  moreover have "scan_elements m (?rest @ new_line l @ CHR '']'' # r) = Ok (w # xs, r)"
    using 3(4) n by (intro 3(2)) simp_all
  moreover have "skip_ws (?rest @ new_line l @ CHR '']'' # r) = ?rest @ new_line l @ CHR '']'' # r"
    using 3(4) skip_ws_text [of repr w l'] by (cases xs) (simp_all add: join_Cons)
  ultimately show ?case by (simp add: n(1) join_Cons)
qed simp

abbreviation member_text :: "(real \<Rightarrow> string) \<Rightarrow> layout \<Rightarrow> string \<times> json \<Rightarrow> string" where
  "member_text repr l p \<equiv> quote_text (fst p) @ CHR '':'' # after_colon l @ json_text repr l (snd p)"

lemma scan_members_join:
  assumes "d \<noteq> []" "\<forall>p \<in> set d. scans (json_text repr l') (snd p) \<and> printable repr (snd p)"
    and "2 * length (join (CHR '','' # after_comma l') (map (member_text repr l') d)) < n"
  shows "scan_members n (join (CHR '','' # after_comma l') (map (member_text repr l') d) @ new_line l @ CHR ''}'' # r) = Ok (d, r)"
  using assms
proof (induction d arbitrary: n rule: induct_list012)
  case (2 p)
  then obtain m where n: "n = Suc m" "2 * length (json_text repr l' (snd p)) \<le> m" by (cases n) auto
  with 2 scansD [of "json_text repr l'" "snd p" "new_line l @ CHR ''}'' # r" m] show ?case
    by (simp add: quote_text_def scan_string_quoted skip_ws_text)
next
  case (3 p q d)
  let ?rest = "join (CHR '','' # after_comma l') (map (member_text repr l') (q # d))"
  from 3(5) obtain m where n: "n = Suc m" "2 * length (json_text repr l' (snd p)) \<le> m" "2 * length ?rest < m"
    by (cases n) (auto simp: join_Cons)
  have "scan_value m (json_text repr l' (snd p) @ CHR '','' # after_comma l' @ ?rest @ new_line l @ CHR ''}'' # r)
      = Ok (snd p, CHR '','' # after_comma l' @ ?rest @ new_line l @ CHR ''}'' # r)"
    using 3(4) n by (intro scansD) simp_all
  moreover have "scan_members m (?rest @ new_line l @ CHR ''}'' # r) = Ok (q # d, r)"
    using 3(4) n by (intro 3(2)) simp_all
  moreover have "skip_ws (?rest @ new_line l @ CHR ''}'' # r) = ?rest @ new_line l @ CHR ''}'' # r"
    by (cases d) (simp_all add: join_Cons quote_text_def)
  ultimately show ?case using 3(4) by (simp add: n(1) join_Cons quote_text_def scan_string_quoted skip_ws_text)
qed simp

lemma scan_number_value:
  assumes "scan_number s = Ok (v, [])" "number_end r" "2 * length s \<le> n"
  shows "scan_value n (s @ r) = Ok (v, r)"
proof -
  note s = scan_number_append [OF assms(2,1)]
  from scan_number_head [OF s] obtain c t where c: "s @ r = c # t" "is_digit c \<or> c = CHR ''-''"
    "after_prefix ''-Infinity'' (s @ r) = None" by blast
  have "s \<noteq> []" using assms(1) by (auto simp: scan_number_def minus_sign_def int_part_def)
  with assms(3) obtain m where "n = Suc m" by (cases n) auto
  moreover have "c \<noteq> QUOTE" "c \<noteq> CHR ''[''" "c \<noteq> CHR ''{''" using c(2) is_digit_facts(5-7) by auto
  ultimately show ?thesis using c s by auto
qed

lemma scans_json_text: "printable repr v \<Longrightarrow> scans (json_text repr l) v"
proof (induction repr l v rule: json_text.induct)
  case (6 repr l xs)
  have IH: "\<forall>v \<in> set xs. scans (json_text repr (deeper l)) v \<and> printable repr v"
    using 6 by (cases "xs = []") auto
  show ?case
    unfolding scans_def
  proof (intro allI impI)
    fix r n assume "number_end r" and n: "2 * length (json_text repr l (JList xs)) \<le> n"
    show "scan_value n (json_text repr l (JList xs) @ r) = Ok (JList xs, r)"
    proof (cases "xs = []")
      case True
      with n show ?thesis by (cases n) simp_all
    next
      case False
      let ?b = "join (CHR '','' # after_comma (deeper l)) (map (json_text repr (deeper l)) xs)"
      from n False obtain m where m: "n = Suc m" "2 * length ?b < m" by (cases n) (auto simp: new_line_def)
      obtain x xs' where x: "xs = x # xs'" using False by (cases xs) auto
      then have p: "printable repr x" using IH by simp
      obtain c t where c: "?b = c # t" "\<not> json_ws c" "c \<noteq> CHR '']''"
      proof (rule json_text_head [OF p, of "deeper l"])
        fix c t assume "json_text repr (deeper l) x = c # t" "\<not> json_ws c" "c \<noteq> CHR '']''"
        then show thesis using that by (cases xs') (auto simp: x join_Cons)
      qed
      have "scan_elements m (?b @ new_line l @ CHR '']'' # r) = Ok (xs, r)"
        by (rule scan_elements_join [OF False IH m(2)])
      with c False m(1) show ?thesis by (simp add: skip_ws_plain)
    qed
  qed
next
  case (7 repr l d)
  have IH: "\<forall>p \<in> set d. scans (json_text repr (deeper l)) (snd p) \<and> printable repr (snd p)"
    using 7 by (cases "d = []") auto
  have d: "dmerge [] d = d" using 7 by (simp add: dmerge_disjoint)
  show ?case
    unfolding scans_def
  proof (intro allI impI)
    fix r n assume "number_end r" and n: "2 * length (json_text repr l (JObj d)) \<le> n"
    show "scan_value n (json_text repr l (JObj d) @ r) = Ok (JObj d, r)"
    proof (cases "d = []")
      case True
      with n show ?thesis by (cases n) simp_all
    next
      case False
      let ?b = "join (CHR '','' # after_comma (deeper l)) (map (member_text repr (deeper l)) d)"
      from n False obtain m where m: "n = Suc m" "2 * length ?b < m" by (cases n) (auto simp: new_line_def)
      obtain t where c: "?b = QUOTE # t" using False by (cases d rule: remdups_adj.cases) (simp_all add: join_Cons quote_text_def)
      have "scan_members m (?b @ new_line l @ CHR ''}'' # r) = Ok (d, r)"
        by (rule scan_members_join [OF False IH m(2)])
      with c False m(1) d show ?thesis by simp
    qed
  qed
next
  case (3 repr l i)
  then show ?case unfolding scans_def using scan_number_value [OF scan_number_int] by simp
next
  case (4 repr l q)
  then show ?case unfolding scans_def using scan_number_value by simp
qed (auto intro!: scansI split: if_splits simp: quote_text_def scan_string_quoted scan_literal_def after_prefix_def is_digit_def)

text \<open>\<open>json.loads(json.dumps(v)) = v\<close>; with \<open>sort_keys\<close> the members come back sorted.\<close>

lemma json_loads_text:
  assumes "printable repr v"
  shows "json_loads (json_text repr l v) = Ok v"
proof -
  have "scan_value (Suc (2 * length (json_text repr l v))) (json_text repr l v @ []) = Ok (v, [])"
    by (rule scansD [OF scans_json_text [OF assms]]) simp_all
  then show ?thesis using skip_ws_text [OF assms, of l "[]"] by (simp add: json_loads_def)
qed

lemma json_loads_dumps: "printable repr v \<Longrightarrow> json_loads (json_dumps repr v) = Ok v"
  and json_loads_line: "printable repr v \<Longrightarrow> json_loads (json_dumps_line repr v) = Ok v"
  and json_loads_compact: "printable repr v \<Longrightarrow> json_loads (json_dumps_compact repr v) = Ok v"
  by (simp_all add: json_dumps_def json_dumps_line_def json_dumps_compact_def json_loads_text)

lemma printable_sort: "printable repr v \<Longrightarrow> printable repr (sort_json v)"
proof (induction v rule: sort_json.induct)
  case (2 d)
  have "distinct (map fst (map (\<lambda>p. (fst p, sort_json (snd p))) d))" using 2 by (simp add: comp_def)
  then have "distinct (map fst (sort_key fst (map (\<lambda>p. (fst p, sort_json (snd p))) d)))"
    by (simp only: distinct_map distinct_sort set_sort)
  with 2 show ?case by auto
qed auto

lemma json_loads_dumps_sorted:
  "printable repr v \<Longrightarrow> json_loads (json_dumps_sorted repr v) = Ok (sort_json v)"
  using json_loads_dumps [OF printable_sort] by (simp add: json_dumps_sorted_def json_dumps_def)

subsection \<open>A document on one line\<close>

definition number_char :: "char \<Rightarrow> bool" where
  "number_char c \<longleftrightarrow> is_digit c \<or> c \<in> set ''-+.eE''"

lemma number_parts:
  "minus_sign s = (p, r) \<Longrightarrow> s = p @ r \<and> list_all number_char p"
  "int_part s = Some (p, r) \<Longrightarrow> s = p @ r \<and> list_all number_char p"
  "frac_part s = (p, r) \<Longrightarrow> s = p @ r \<and> list_all number_char p"
  "exp_sign s = (p, r) \<Longrightarrow> s = p @ r \<and> list_all number_char p"
proof -
  have t: "list_all number_char (takeWhile is_digit s)" for s
    by (auto simp: list_all_iff number_char_def dest: set_takeWhileD)
  have z: "is_digit CHR ''0''" by (simp add: is_digit_def)
  show "minus_sign s = (p, r) \<Longrightarrow> s = p @ r \<and> list_all number_char p"
    by (auto simp: minus_sign_def number_char_def split: list.splits if_splits)
  show "int_part s = Some (p, r) \<Longrightarrow> s = p @ r \<and> list_all number_char p"
    using t z by (auto simp: int_part_def number_char_def split: list.splits if_splits)
  show "frac_part s = (p, r) \<Longrightarrow> s = p @ r \<and> list_all number_char p"
    using t by (auto simp: frac_part_def number_char_def split: list.splits if_splits)
  show "exp_sign s = (p, r) \<Longrightarrow> s = p @ r \<and> list_all number_char p"
    by (auto simp: exp_sign_def number_char_def split: list.splits if_splits)
qed

lemma exp_part_chars: "exp_part s = (p, r) \<Longrightarrow> s = p @ r \<and> list_all number_char p"
  using number_parts(4)
  by (fastforce simp: exp_part_def number_char_def list_all_iff dest: set_takeWhileD split: list.splits prod.splits if_splits)

lemma scan_number_chars:
  assumes "scan_number s = Ok (v, [])"
  shows "list_all number_char s"
proof -
  obtain sg s1 where 1: "minus_sign s = (sg, s1)" by (cases "minus_sign s")
  with assms obtain i s2 where 2: "int_part s1 = Some (i, s2)"
    by (auto simp: scan_number_def split: option.splits)
  obtain f s3 where 3: "frac_part s2 = (f, s3)" by (cases "frac_part s2")
  obtain e s4 where 4: "exp_part s3 = (e, s4)" by (cases "exp_part s3")
  have "s4 = []" using assms
    by (auto simp: scan_number_def 1 2 3 4 res_bind_Ok_iff split: if_splits pyfloat.splits) (metis pyfloat.exhaust)+
  with number_parts(1) [OF 1] number_parts(2) [OF 2] number_parts(3) [OF 3] exp_part_chars [OF 4] show ?thesis
    by simp
qed

lemma escape_char_newline: "NEWLINE \<notin> set (escape_char c)"
proof -
  have hex: "NEWLINE \<noteq> hex_char d" if "d < 16" for d
  proof -
    have "hex_val NEWLINE = None" by (simp add: hex_val_def)
    then show ?thesis using hex_val_char [OF that] by (metis option.distinct(1))
  qed
  have "of_char c < (256 :: nat)" by simp
  then have "of_char c div 16 < (16 :: nat)" "of_char c mod 16 < (16 :: nat)" by linarith+
  from this [THEN hex] show ?thesis by (auto simp: escape_char_def Let_def)
qed

lemma join_notin: "x \<notin> set sep \<Longrightarrow> \<forall>s \<in> set ss. x \<notin> set s \<Longrightarrow> x \<notin> set (join sep ss)"
  by (induction ss rule: induct_list012) (auto simp: join_Cons)

text \<open>A line break occurs only in an indented document: strings escape it, numbers have none.\<close>

lemma number_no_newline: "list_all number_char s \<Longrightarrow> NEWLINE \<notin> set s"
  by (auto simp: list_all_iff number_char_def is_digit_def)

lemma one_line_layout:
  assumes "new_line l = []"
  shows "deeper l = l" "NEWLINE \<notin> set (after_comma l)" "NEWLINE \<notin> set (after_colon l)"
  using assms by (auto simp: new_line_def after_comma_def after_colon_def deeper_def split: layout.splits)

lemma json_text_line:
  assumes "printable repr v" "new_line l = []"
  shows "NEWLINE \<notin> set (json_text repr l v)"
  using assms
proof (induction repr l v rule: json_text.induct)
  case (3 repr l i)
  then show ?case using number_no_newline [OF scan_number_chars [OF scan_number_int]] by simp
next
  case (4 repr l q)
  then show ?case using number_no_newline [OF scan_number_chars] by simp
next
  case (6 repr l xs)
  then show ?case by (simp add: one_line_layout join_notin)
next
  case (7 repr l d)
  have "NEWLINE \<notin> set (member_text repr l (a, b))" if "(a, b) \<in> set d" for a b
    using 7 that by (fastforce simp: one_line_layout quote_text_def escape_char_newline)
  then have "NEWLINE \<notin> set (member_text repr l p)" if "p \<in> set d" for p using that by (cases p) blast
  with 7 show ?case by (simp add: one_line_layout join_notin)
qed (auto simp: quote_text_def escape_char_newline)

subsection \<open>Parsed documents are well formed\<close>

lemma dmerge_values:
  "(k, v) \<in> set (dmerge d ps) \<Longrightarrow> (k, v) \<in> set d \<or> (k, v) \<in> set ps"
proof (induction ps arbitrary: d)
  case Nil
  then show ?case by (simp add: dmerge_def)
next
  case (Cons p ps)
  obtain k' v' where p: "p = (k', v')" by (rule prod.exhaust)
  have "set (dset k' v' d) \<subseteq> insert (k', v') (set d)" by (induction d) auto
  moreover have "dmerge d (p # ps) = dmerge (dset k' v' d) ps" by (simp add: dmerge_def p)
  ultimately show ?case using Cons by (auto simp: p)
qed

lemma finite_Ok_iff:
  "(case x of Fin q \<Rightarrow> Ok (f q) | PosInf \<Rightarrow> Err e | NegInf \<Rightarrow> Err e | NaN \<Rightarrow> Err e) = Ok y \<longleftrightarrow> (\<exists>q. x = Fin q \<and> y = f q)"
  by (cases x) auto

lemma scan_number_wf: "scan_number s = Ok (v, r) \<Longrightarrow> wf_json v"
  by (auto simp: scan_number_def res_bind_Ok_iff finite_Ok_iff split: prod.splits option.splits if_splits)

lemma scan_literal_wf: "scan_literal s = Ok (v, r) \<Longrightarrow> wf_json v"
  by (auto simp: scan_literal_def split: option.splits if_splits)

lemma wf_json_members: "(\<And>p. p \<in> set ps \<Longrightarrow> wf_json (snd p)) \<Longrightarrow> wf_json (JObj (dmerge [] ps))"
  using dmerge_values [of _ _ "[]" ps] by force

lemma scan_wf:
  "scan_value n s = Ok (v, r) \<Longrightarrow> wf_json v"
  "scan_elements n s = Ok (vs, r) \<Longrightarrow> x \<in> set vs \<Longrightarrow> wf_json x"
  "scan_members n s = Ok (ps, r) \<Longrightarrow> p \<in> set ps \<Longrightarrow> wf_json (snd p)"
proof (induction n s and n s and n s arbitrary: v r and vs r x and ps r p rule: scan_value_scan_elements_scan_members.induct)
  case (2 n s)
  then obtain c t where s: "s = c # t" by (cases s) auto
  show ?case
  proof (cases "c = CHR ''[''")
    case True
    with 2 s show ?thesis by (auto simp: res_bind_Ok_iff split: list.splits if_splits)
  next
    case no_list: False
    show ?thesis
    proof (cases "c = CHR ''{''")
      case True
      with "2.prems" s consider "v = JObj []" | d t' ps where "skip_ws t = d # t'" "d \<noteq> CHR ''}''" "scan_members n (d # t') = Ok (ps, r)" "v = JObj (dmerge [] ps)"
        by (auto simp: res_bind_Ok_iff split: list.splits if_splits)
      then show ?thesis
      proof cases
        case (2 d t' ps)
        then have "wf_json (snd p)" if "p \<in> set ps" for p
          using that "2.IH"(2) s True by auto
        with 2 show ?thesis using wf_json_members by blast
      qed simp
    next
      case False
      with no_list "2.prems" s scan_number_wf scan_literal_wf show ?thesis
        by (auto simp: res_bind_Ok_iff split: if_split_asm)
    qed
  qed
next
  case (4 n s)
  from "4.prems"(1) obtain v r0 where v: "scan_value n s = Ok (v, r0)"
    and rest: "(case skip_ws r0 of [] \<Rightarrow> decode_error
       | c # r' \<Rightarrow> if c = CHR '']'' then Ok ([v], r')
           else if c = CHR '','' then res_bind (scan_elements n (skip_ws r')) (\<lambda>(vs, q). Ok (v # vs, q)) else decode_error) = Ok (vs, r)"
    by (auto simp: res_bind_Ok_iff)
  obtain c r' where c: "skip_ws r0 = c # r'" using rest by (cases "skip_ws r0") auto
  have "wf_json v" by (rule "4.IH"(1) [OF v])
  moreover have "wf_json x" if "scan_elements n (skip_ws r') = Ok (vs', r)" "x \<in> set vs'" "c \<noteq> CHR '']''" "c = CHR '',''" for vs'
    by (rule "4.IH"(2) [OF c that(3,4,1,2)])
  ultimately show ?case using rest "4.prems"(2) unfolding c list.case by (auto simp: res_bind_Ok_iff split: if_split_asm)
next
  case (6 n s)
  from "6.prems"(1) obtain s' where s: "s = QUOTE # s'" by (auto split: list.splits if_split_asm)
  from "6.prems"(1) obtain k r1 where k: "scan_string s' = Ok (k, r1)"
    and rest: "(case skip_ws r1 of [] \<Rightarrow> decode_error
        | d # r2 \<Rightarrow> if d \<noteq> CHR '':'' then decode_error
            else res_bind (scan_value n (skip_ws r2)) (\<lambda>(v, r3).
              case skip_ws r3 of [] \<Rightarrow> decode_error
              | e # r4 \<Rightarrow> if e = CHR ''}'' then Ok ([(k, v)], r4)
                  else if e = CHR '','' then res_bind (scan_members n (skip_ws r4)) (\<lambda>(ps, q). Ok ((k, v) # ps, q))
                  else decode_error)) = Ok (ps, r)"
    unfolding s by (auto simp: res_bind_Ok_iff)
  obtain d r2 where d: "skip_ws r1 = d # r2" using rest by (cases "skip_ws r1") auto
  have dc: "\<not> d \<noteq> CHR '':''" using rest by (auto simp: d split: if_split_asm)
  with rest obtain v r3 where v: "scan_value n (skip_ws r2) = Ok (v, r3)"
    and rest': "(case skip_ws r3 of [] \<Rightarrow> decode_error
        | e # r4 \<Rightarrow> if e = CHR ''}'' then Ok ([(k, v)], r4)
            else if e = CHR '','' then res_bind (scan_members n (skip_ws r4)) (\<lambda>(ps, q). Ok ((k, v) # ps, q))
            else decode_error) = Ok (ps, r)"
    by (auto simp: d res_bind_Ok_iff)
  obtain e r4 where e: "skip_ws r3 = e # r4" using rest' by (cases "skip_ws r3") auto
  have "wf_json v" by (rule "6.IH"(1) [OF s _ d dc v]) simp
  moreover have "wf_json (snd p)" if "scan_members n (skip_ws r4) = Ok (ps', r)" "p \<in> set ps'" "e \<noteq> CHR ''}''" "e = CHR '',''" for ps'
    by (rule "6.IH"(2) [OF s _ d dc e that(3,4,1,2)]) simp
  ultimately show ?case using rest' "6.prems"(2) unfolding e list.case by (auto simp: res_bind_Ok_iff split: if_split_asm)
qed simp_all

lemma json_loads_wf:
  assumes "json_loads s = Ok v"
  shows "wf_json v"
proof -
  from assms obtain p where p: "scan_value (Suc (2 * length s)) (skip_ws s) = Ok p"
    "(case p of (v', r) \<Rightarrow> if skip_ws r = [] then Ok v' else decode_error) = Ok v"
    unfolding json_loads_def res_bind_Ok_iff by (elim exE conjE)
  obtain v' r where vr: "p = (v', r)" by (rule prod.exhaust)
  with p(2) have "v' = v" by (simp split: if_split_asm)
  with p(1) vr scan_wf(1) show ?thesis by blast
qed

text \<open>A text for the floats of the examples.\<close>

definition demo_repr :: "real \<Rightarrow> string" where
  "demo_repr r =
     (if r = 15 then ''15.0'' else if r = 18 then ''18.0'' else if r = 5 then ''5.0'' else if r = 1 then ''1.0'' else ''0.0'')"

lemma demo_repr_reads:
  "r \<in> {0, 1, 5, 15, 18} \<Longrightarrow> scan_number (demo_repr r) = Ok (JFloat r, [])"
  by (auto simp: demo_repr_def scan_number_def minus_sign_def int_part_def is_digit_def frac_part_def
      exp_part_def py_float_def sign_of_def strip_def lstrip_def rstrip_def is_ws_def lower_def lower_char_def
      split_first_def mantissa_of_def digits_of_def digit_val_def exponent_of_def scale10_def Let_def)

end
