(* ===== verification/ControllerMain.thy ===== *)
theory ControllerMain
  imports Controller Failsafe JsonText
begin

text \<open>
  The two command lines: \<open>main\<close> of \<open>controller/standalone.py\<close> and of \<open>agent/process.py\<close>. The
  arguments are what \<open>argparse\<close> hands over; files, the environment, the NVML driver and the
  first answer of Kubernetes are the outside world. A command ends in a usage error, in an
  exception nobody catches, in an exit code, or it starts: then the model returns what the
  control loop is started with.
\<close>

section \<open>The outside world\<close>

datatype file_content = File_text string | File_missing | File_unreadable

record outside =
  out_files :: "string \<Rightarrow> file_content"
  out_env :: "(string, string) dict"
  out_nvml :: bool \<comment> \<open>the constructor of the NVML actuator succeeds\<close>
  out_smi :: "string option"
  out_kube_loadable :: bool
  out_first_read :: read_answer

datatype main_exit = Usage_error string | Uncaught pyerr | Exit_code int

type_synonym 'a startup = "main_exit + 'a"

definition su_bind :: "'a startup \<Rightarrow> ('a \<Rightarrow> 'b startup) \<Rightarrow> 'b startup" where
  "su_bind m f = (case m of Inl e \<Rightarrow> Inl e | Inr x \<Rightarrow> f x)"

definition su_guard :: "bool \<Rightarrow> string \<Rightarrow> unit startup" where
  \<comment> \<open>\<open>if cond: parser.error(msg)\<close>\<close>
  "su_guard bad msg = (if bad then Inl (Usage_error msg) else Inr ())"

definition uncaught :: "'a res \<Rightarrow> 'a startup" where
  "uncaught r = (case r of Inl e \<Rightarrow> Inl (Uncaught e) | Inr x \<Rightarrow> Inr x)"

definition usage_on :: "(pyerr \<Rightarrow> bool) \<Rightarrow> string \<Rightarrow> 'a res \<Rightarrow> 'a startup" where
  \<comment> \<open>\<open>try: ... except (...): parser.error(msg)\<close>\<close>
  "usage_on caught msg r =
     (case r of Inl e \<Rightarrow> Inl (if caught e then Usage_error msg else Uncaught e) | Inr x \<Rightarrow> Inr x)"

definition is_ValueError :: "pyerr \<Rightarrow> bool" where
  "is_ValueError e = (case e of ValueError _ \<Rightarrow> True | _ \<Rightarrow> False)"

definition read_json :: "outside \<Rightarrow> string \<Rightarrow> json res" where
  "read_json out path = (case out_files out path of File_text s \<Rightarrow> json_loads s | _ \<Rightarrow> Err OSError)"

definition sibling :: "string \<Rightarrow> string \<Rightarrow> string" where
  \<comment> \<open>\<open>Path(path).parent / name\<close> of a path to a file\<close>
  "sibling path name = rev (dropWhile (\<lambda>c. c \<noteq> CHR ''/'') (rev path)) @ name"

section \<open>The files next to the topology\<close>

definition load_brain_params :: "outside \<Rightarrow> string \<Rightarrow> (string, json) dict res" where
  "load_brain_params out config_path =
     (case read_json out (sibling config_path ''params.json'') of
        Inr (JObj d) \<Rightarrow> Ok d
      | Inr _ \<Rightarrow> Ok []
      | Inl e \<Rightarrow> if e = OSError \<or> is_ValueError e then Ok [] else Err e)"

definition load_quota_config :: "outside \<Rightarrow> string \<Rightarrow> string option \<Rightarrow> quota_config option res" where
  "load_quota_config out config_path explicit_path =
     (let load = (\<lambda>path. res_bind (res_bind (read_json out path) quota_from_dict) (\<lambda>q. Ok (Some q)));
          dflt = (let path = sibling config_path ''quota.json'' in if out_files out path = File_missing then Ok None else load path) in
      case explicit_path of
        None \<Rightarrow> dflt
      | Some path \<Rightarrow>
          if path = [] then dflt
          else if out_files out path = File_missing then Err (ValueError ''--quota-config file not found'')
          else load path)"

section \<open>The controller\<close>

record cli =
  cl_config :: string
  cl_interval :: real
  cl_dry_run :: bool
  cl_sim :: bool
  cl_brain :: string
  cl_hot_gpus :: string
  cl_thermal_temp_c :: pyfloat
  cl_tiers :: "string option"
  cl_metrics_port :: "nat option"
  cl_actuator :: string
  cl_agent_host :: string
  cl_agent_port :: int
  cl_cap_raise_rate :: real
  cl_ewma_alpha :: real
  cl_busy_gpus :: string
  cl_priority_boost :: "real option"
  cl_telemetry :: string
  cl_quota_config :: "string option"

text \<open>What \<open>argparse\<close> hands over when only \<open>--config\<close> is given, and what it lets through of the
  arguments with a fixed set of choices.\<close>

definition default_cli :: "string \<Rightarrow> cli" where
  "default_cli config =
     \<lparr>cl_config = config, cl_interval = 5, cl_dry_run = False, cl_sim = False, cl_brain = ''prs'', cl_hot_gpus = [],
      cl_thermal_temp_c = Fin 85, cl_tiers = None, cl_metrics_port = None, cl_actuator = ''sim'',
      cl_agent_host = ''127.0.0.1'', cl_agent_port = 9500, cl_cap_raise_rate = 0, cl_ewma_alpha = 3/10,
      cl_busy_gpus = [], cl_priority_boost = None, cl_telemetry = ''prom'', cl_quota_config = None\<rparr>"

definition cli_choices_ok :: "cli \<Rightarrow> bool" where
  "cli_choices_ok a \<longleftrightarrow>
     cl_brain a \<in> set [''dpm'', ''prs'', ''cvxpy'', ''job-prs'', ''quota-prs'', ''priority-prs'', ''thermal-prs''] \<and>
     cl_actuator a \<in> set [''sim'', ''nvml'', ''agent''] \<and> cl_telemetry a \<in> set [''prom'', ''actuator'']"

datatype actuator_choice = Sim_fleet nat | Nvml_driver | Agent_at string int

record started =
  sd_config :: controller_config
  sd_topology :: topology
  sd_actuator :: actuator_choice
  sd_source :: "priority_source option"
  sd_brain :: brain

definition index_list :: "string \<Rightarrow> int list res" where
  "index_list s = res_map py_int (filter (\<lambda>x. strip x \<noteq> []) (split_on (CHR '','') s))"

definition sim_only_indices :: "string \<Rightarrow> bool \<Rightarrow> int list startup" where
  "sim_only_indices s sim =
     su_bind (usage_on is_ValueError ''must be a comma-separated list of GPU indices'' (index_list s)) (\<lambda>gpus.
     su_bind (su_guard (gpus \<noteq> [] \<and> \<not> sim) ''is a sim/demo-only override'') (\<lambda>_. Inr gpus))"

definition given :: "string option \<Rightarrow> bool" where
  "given x = (case x of None \<Rightarrow> False | Some s \<Rightarrow> s \<noteq> [])"

definition load_quota :: "outside \<Rightarrow> cli \<Rightarrow> quota_config option startup" where
  "load_quota out a =
     su_bind (su_guard (given (cl_quota_config a) \<and> cl_brain a \<noteq> ''quota-prs'') ''--quota-config is only valid with --brain quota-prs'') (\<lambda>_.
       if cl_brain a = ''quota-prs'' \<or> given (cl_quota_config a)
       then su_bind (usage_on (\<lambda>e. is_ValueError e \<or> e = OSError) ''quota config'' (load_quota_config out (cl_config a) (cl_quota_config a))) (\<lambda>q.
            su_bind (su_guard (cl_brain a = ''quota-prs'' \<and> q = None) ''--brain quota-prs requires a quota config'') (\<lambda>_.
            Inr q))
       else Inr None)"

definition parse_tiers :: "(real \<Rightarrow> string) \<Rightarrow> string \<Rightarrow> (gpu, string) dict res" where
  \<comment> \<open>\<open>{int(k): str(v) for k, v in json.loads(text).items()}\<close>\<close>
  "parse_tiers repr s =
     res_bind (res_bind (json_loads s) json_items) (\<lambda>items.
     res_bind (res_map (\<lambda>(k, v). res_bind (py_int k) (\<lambda>g. Ok (g, py_str repr v))) items) (\<lambda>ps.
     Ok (dmerge [] ps)))"

definition topology_gpus :: "topology \<Rightarrow> gpu list" where
  "topology_gpus t = concat (map pd_gpu_indices (dvals (domains t)))"

definition load_tiers :: "(real \<Rightarrow> string) \<Rightarrow> cli \<Rightarrow> bool \<Rightarrow> topology \<Rightarrow> (gpu, string) dict startup" where
  "load_tiers repr a dynamic t =
     su_bind (su_guard (cl_tiers a \<noteq> None \<and> cl_brain a \<noteq> ''priority-prs'') ''--gpu-priority-tiers is only used by --brain priority-prs'') (\<lambda>_.
     su_bind (su_guard (cl_brain a = ''priority-prs'' \<and> \<not> given (cl_tiers a) \<and> \<not> dynamic) ''--brain priority-prs requires --gpu-priority-tiers'') (\<lambda>_.
       if cl_brain a = ''priority-prs'' \<and> given (cl_tiers a)
       then su_bind (usage_on (\<lambda>e. is_ValueError e \<or> e = TypeError \<or> e = AttributeError) ''--gpu-priority-tiers must be a JSON object''
                (parse_tiers repr (the (cl_tiers a)))) (\<lambda>tiers.
            su_bind (su_guard (tiers = []) ''--gpu-priority-tiers must map at least one GPU to a tier'') (\<lambda>_.
            su_bind (su_guard (\<not> list_all (\<lambda>g. g \<in> set (topology_gpus t)) (dkeys tiers)) ''--gpu-priority-tiers references GPUs not in the topology'') (\<lambda>_.
            Inr tiers)))
       else Inr []))"

definition numeric_param :: "json \<Rightarrow> real res" where
  \<comment> \<open>a value the code only compares and computes with; anything but a number is outside the model\<close>
  "numeric_param v =
     (case v of JInt i \<Rightarrow> Ok (of_int i) | JFloat r \<Rightarrow> Ok r | JBool b \<Rightarrow> Ok (if b then 1 else 0) | _ \<Rightarrow> Err OutOfModel)"

definition param_or :: "(string, json) dict \<Rightarrow> string \<Rightarrow> real \<Rightarrow> real res" where
  "param_or params key dflt = numeric_param (dget_or params key (JFloat dflt))"

definition load_boost :: "cli \<Rightarrow> (string, json) dict \<Rightarrow> real startup" where
  "load_boost a params =
     (if cl_brain a = ''job-prs''
      then su_bind (uncaught (param_or params ''priority_boost'' (case cl_priority_boost a of None \<Rightarrow> 15/100 | Some b \<Rightarrow> b))) (\<lambda>boost.
           su_bind (su_guard (boost < 0) ''--priority-boost must be >= 0'') (\<lambda>_. Inr boost))
      else su_bind (su_guard (cl_priority_boost a \<noteq> None) ''--priority-boost is only used by --brain job-prs'') (\<lambda>_. Inr (15/100)))"

definition choose_actuator :: "outside \<Rightarrow> cli \<Rightarrow> topology \<Rightarrow> actuator_choice" where
  \<comment> \<open>without a working NVML driver the controller falls back to the simulated fleet\<close>
  "choose_actuator out a t =
     (if cl_actuator a = ''nvml'' then (if out_nvml out then Nvml_driver else Sim_fleet (total_gpu_count t))
      else if cl_actuator a = ''agent'' then Agent_at (cl_agent_host a) (cl_agent_port a)
      else Sim_fleet (total_gpu_count t))"

definition first_poll :: "outside \<Rightarrow> bool \<Rightarrow> string option \<Rightarrow> (gpu, string) dict \<Rightarrow> priority_source option startup" where
  "first_poll out dynamic node tiers =
     (if \<not> dynamic then Inr None
      else su_bind (su_guard (strip (dget_or (out_env out) ''POD_NAMESPACE'' []) = []) ''POD_NAMESPACE is required'') (\<lambda>_.
        case poll_config json_loads (out_kube_loadable out) (out_first_read out) (priority_source_init (the node) tiers False) of
          (_, Inl e) \<Rightarrow> Inl (Uncaught e)
        | (s, Inr _) \<Rightarrow> Inr (Some s)))"

definition controller_main :: "(real \<Rightarrow> string) \<Rightarrow> outside \<Rightarrow> cli \<Rightarrow> started startup" where
  "controller_main repr out a =
     su_bind (sim_only_indices (cl_busy_gpus a) (cl_sim a)) (\<lambda>busy.
     su_bind (sim_only_indices (cl_hot_gpus a) (cl_sim a)) (\<lambda>hot.
     su_bind (case cl_thermal_temp_c a of
                Fin temp \<Rightarrow> if temp \<le> 0 then Inl (Usage_error ''--thermal-throttle-temp-c'') else Inr temp
              | _ \<Rightarrow> Inl (Usage_error ''--thermal-throttle-temp-c'')) (\<lambda>temp.
     su_bind (uncaught (res_bind (read_json out (cl_config a)) from_dict)) (\<lambda>t.
     su_bind (load_quota out a) (\<lambda>quota.
     su_bind (if cl_brain a = ''priority-prs''
              then usage_on is_ValueError ''dynamic priority config'' (dynamic_priority_config_from_env (out_env out))
              else Inr (False, None)) (\<lambda>(dynamic, node).
     su_bind (load_tiers repr a dynamic t) (\<lambda>tiers.
     su_bind (uncaught (load_brain_params out (cl_config a))) (\<lambda>params.
     su_bind (uncaught (param_or params ''cap_raise_rate_w_per_tick'' (cl_cap_raise_rate a))) (\<lambda>rate.
     su_bind (uncaught (param_or params ''ewma_alpha'' (cl_ewma_alpha a))) (\<lambda>alpha.
     su_bind (load_boost a params) (\<lambda>boost.
     su_bind (first_poll out dynamic node tiers) (\<lambda>source.
       let bc = \<lparr>bc_type = cl_brain a, bc_ewma_alpha = alpha, bc_cap_raise_rate = rate, bc_busy_gpus = busy,
                 bc_priority_boost = boost, bc_quota = quota, bc_tiers = tiers, bc_has_source = (source \<noteq> None)\<rparr>;
           cfg = \<lparr>cc_interval_s = cl_interval a, cc_domain_names = [], cc_dry_run = cl_dry_run a, cc_sim_mode = cl_sim a,
                  cc_metrics_port = cl_metrics_port a, cc_telemetry = cl_telemetry a, cc_brain = bc,
                  cc_thermal_gpus = hot, cc_thermal_temp_c = temp, cc_node_id = ''node0'', cc_adopted_min_w = 100\<rparr> in
       su_bind (uncaught (make_brain bc t (out_smi out))) (\<lambda>b.
       Inr \<lparr>sd_config = cfg, sd_topology = t, sd_actuator = choose_actuator out a t, sd_source = source, sd_brain = b\<rparr>)))))))))))))"

section \<open>The agent\<close>

record agent_cli =
  al_config :: string
  al_brain :: string
  al_interval :: real
  al_metrics_port :: "nat option"
  al_threshold :: watts
  al_emergency_cap :: watts
  al_poll_s :: real
  al_sim :: bool
  al_dry_run :: bool

definition default_agent_cli :: "string \<Rightarrow> agent_cli" where
  "default_agent_cli config =
     \<lparr>al_config = config, al_brain = ''prs'', al_interval = 5, al_metrics_port = None, al_threshold = 1050,
      al_emergency_cap = 800, al_poll_s = 1/10, al_sim = False, al_dry_run = False\<rparr>"

definition agent_choices_ok :: "agent_cli \<Rightarrow> bool" where
  "agent_choices_ok a \<longleftrightarrow> al_brain a \<in> set [''dpm'', ''prs'']"

definition agent_main :: "outside \<Rightarrow> agent_cli \<Rightarrow> (failsafe \<times> started) startup" where
  \<comment> \<open>unlike the controller, the agent does not start without the driver it was asked for\<close>
  "agent_main out a =
     su_bind (uncaught (res_bind (read_json out (al_config a)) from_dict)) (\<lambda>t.
     su_bind (if al_sim a then Inr (Sim_fleet (total_gpu_count t))
              else if out_nvml out then Inr Nvml_driver else Inl (Exit_code 1)) (\<lambda>act.
     su_bind (uncaught (failsafe_init (al_threshold a) (al_emergency_cap a))) (\<lambda>f.
       let bc = \<lparr>bc_type = al_brain a, bc_ewma_alpha = 3/10, bc_cap_raise_rate = 0, bc_busy_gpus = [],
                 bc_priority_boost = 15/100, bc_quota = None, bc_tiers = [], bc_has_source = False\<rparr>;
           cfg = \<lparr>cc_interval_s = al_interval a, cc_domain_names = [], cc_dry_run = al_dry_run a, cc_sim_mode = al_sim a,
                  cc_metrics_port = al_metrics_port a, cc_telemetry = ''prom'', cc_brain = bc,
                  cc_thermal_gpus = [], cc_thermal_temp_c = 85, cc_node_id = ''node0'', cc_adopted_min_w = 100\<rparr> in
       su_bind (uncaught (make_brain bc t (out_smi out))) (\<lambda>b.
       Inr (f, \<lparr>sd_config = cfg, sd_topology = t, sd_actuator = act, sd_source = None, sd_brain = b\<rparr>)))))"

text \<open>What the \<open>finally\<close> clause and the signal handler do: the failsafe is stopped and its trips are
  reported, the driver is released unless the fleet is simulated. Any exception of the release
  is swallowed.\<close>

definition agent_end :: "('w \<Rightarrow> 'w option) \<Rightarrow> agent_cli \<Rightarrow> failsafe \<times> 'w \<Rightarrow> nat \<times> 'w" where
  "agent_end release a fw =
     (case fw of (f, w) \<Rightarrow> (fs_trip_count f, if al_sim a then w else nvml_shutdown release w))"

end
