(* ===== verification/Kube.thy ===== *)
theory Kube
  imports JsonText
begin

text \<open>
  What the operator (\<open>operator/handlers.py\<close>) asks of the Kubernetes API server, and how its
  handlers end. The server is a parameter: a function from a request and the state of the
  world to an answer and the next state, in which other clients may have acted as well. The
  handlers are state passing functions that end in a value or in one of the exceptions the
  framework distinguishes: kopf retries a handler after a temporary error and gives up after
  a permanent one.
\<close>

record pod =
  pod_uid :: "string option"
  pod_node_name :: "string option"
  pod_annotations :: "(string, json) dict option"

datatype kube_request =
    Read_config_map string string
  | Create_config_map string string "(string, string) dict"
  | Replace_config_map string string "string option" "(string, string) dict"
  | Patch_config_map_data string string "(string, string) dict"
  | Patch_config_map_annotations string string "(string, string) dict"
  | Delete_config_map string string
  | List_pods string "string option"
  | List_policies string

datatype kube_answer =
    Done
  | Config_map "string option" "(string, string) dict option" \<comment> \<open>resource version and data\<close>
  | Pods "pod list"
  | Policies "json list"
  | Api_error int \<comment> \<open>\<open>ApiException\<close> with its status\<close>
  | No_connection \<comment> \<open>any other exception of the client library\<close>

type_synonym 's kube = "kube_request \<Rightarrow> 's \<Rightarrow> kube_answer \<times> 's"

datatype op_error =
    Permanent string
  | Temporary string
  | Api int
  | Connection
  | Python pyerr

type_synonym ('s, 'a) op = "'s \<Rightarrow> (op_error + 'a) \<times> 's"

definition op_return :: "'a \<Rightarrow> ('s, 'a) op" where
  "op_return x s = (Inr x, s)"

definition op_raise :: "op_error \<Rightarrow> ('s, 'a) op" where
  "op_raise e s = (Inl e, s)"

definition op_bind :: "('s, 'a) op \<Rightarrow> ('a \<Rightarrow> ('s, 'b) op) \<Rightarrow> ('s, 'b) op" where
  "op_bind m f s = (case m s of (Inl e, s') \<Rightarrow> (Inl e, s') | (Inr x, s') \<Rightarrow> f x s')"

definition op_lift :: "'a res \<Rightarrow> ('s, 'a) op" where
  "op_lift r = (case r of Inl e \<Rightarrow> op_raise (Python e) | Inr x \<Rightarrow> op_return x)"

definition unexpected :: "kube_answer \<Rightarrow> op_error" where
  \<comment> \<open>an exception that is not handled, or an answer of the wrong kind\<close>
  "unexpected a = (case a of Api_error c \<Rightarrow> Api c | No_connection \<Rightarrow> Connection | _ \<Rightarrow> Python OutOfModel)"

lemma op_simps [simp]:
  "op_return x s = (Inr x, s)" "op_raise e s = (Inl e, s)"
  "op_lift (Ok y) s = (Inr y, s)" "op_lift (Err e') s = (Inl (Python e'), s)"
  by (simp_all add: op_return_def op_raise_def op_lift_def)

lemma op_bind_Inr: "m s = (Inr x, s') \<Longrightarrow> op_bind m f s = f x s'"
  and op_bind_Inl: "m s = (Inl e, s') \<Longrightarrow> op_bind m f s = (Inl e, s')"
  by (simp_all add: op_bind_def)

lemma op_bind_Inr_iff:
  "op_bind m f s = (Inr y, t) \<longleftrightarrow> (\<exists>x s'. m s = (Inr x, s') \<and> f x s' = (Inr y, t))"
  by (auto simp: op_bind_def split: prod.splits sum.splits)

lemma op_bind_Inl_iff:
  "op_bind m f s = (Inl e, t) \<longleftrightarrow> m s = (Inl e, t) \<or> (\<exists>x s'. m s = (Inr x, s') \<and> f x s' = (Inl e, t))"
  by (auto simp: op_bind_def split: prod.splits sum.splits)

lemma op_lift_Inr_iff: "op_lift r s = (Inr x, t) \<longleftrightarrow> r = Ok x \<and> t = s"
  by (cases r) auto

lemma op_lift_Inl_iff: "op_lift r s = (Inl e, t) \<longleftrightarrow> (\<exists>e'. r = Err e' \<and> e = Python e' \<and> t = s)"
  by (cases r) auto

end
