(* ===== verification/Assignments.thy ===== *)
theory Assignments
  imports Kube "HOL-Library.Product_Lexorder" "HOL-Library.Multiset"
begin

text \<open>
  From pods to the published assignments (\<open>operator/handlers.py\<close>): which GPUs a pod says it
  has, the assignment objects of one policy, and the aggregate of the entries of all policies
  that the controller of every node reads.
\<close>

section \<open>The GPUs of a pod\<close>

definition GPU_INDICES_ANNOTATION :: string where
  "GPU_INDICES_ANNOTATION = ''opendps.io/gpu-indices''"

definition gpu_token :: "string \<Rightarrow> int option" where
  \<comment> \<open>one item of the list: ASCII decimal digits only\<close>
  "gpu_token item =
     (let token = strip item in
      if token = [] \<or> \<not> list_all is_digit token then None
      else (case py_int token of Inr i \<Rightarrow> if i < 0 then None else Some i | Inl _ \<Rightarrow> None))"

fun gpu_tokens :: "string list \<Rightarrow> int list option" where
  "gpu_tokens [] = Some []"
| "gpu_tokens (item # items) =
     (case gpu_token item of
        None \<Rightarrow> None
      | Some i \<Rightarrow> map_option (\<lambda>is. i # is) (gpu_tokens items))"

definition pod_gpu_indices :: "pod \<Rightarrow> int list option" where
  "pod_gpu_indices p =
     (case dget_or (case pod_annotations p of None \<Rightarrow> [] | Some d \<Rightarrow> d) GPU_INDICES_ANNOTATION JNull of
        JStr raw \<Rightarrow>
          if strip raw = [] then None
          else (case gpu_tokens (split_on (CHR '','') raw) of
                  None \<Rightarrow> None
                | Some is \<Rightarrow> if distinct is then Some (sort is) else None)
      | _ \<Rightarrow> None)"

section \<open>The assignments of one policy\<close>

definition assignment_obj :: "string \<Rightarrow> int \<Rightarrow> json \<Rightarrow> real \<Rightarrow> string \<Rightarrow> string \<Rightarrow> gpu \<Rightarrow> (string, json) dict" where
  "assignment_obj policy_uid policy_generation priority_class boost_pct node uid g =
     [(''gpuBoostPct'', JFloat boost_pct), (''gpuIndex'', JInt g), (''nodeName'', JStr node), (''podUid'', JStr uid),
      (''policyGeneration'', JInt policy_generation), (''policyUid'', JStr policy_uid), (''priorityClass'', priority_class)]"

definition pod_assignments :: "string \<Rightarrow> int \<Rightarrow> json \<Rightarrow> real \<Rightarrow> pod \<Rightarrow> (string, json) dict list" where
  "pod_assignments policy_uid policy_generation priority_class boost_pct p =
     (case (pod_uid p, pod_node_name p, pod_gpu_indices p) of
        (Some uid, Some node, Some is) \<Rightarrow>
          if uid = [] \<or> node = [] then []
          else map (assignment_obj policy_uid policy_generation priority_class boost_pct node uid) is
      | _ \<Rightarrow> [])"

definition str_item :: "(string, json) dict \<Rightarrow> string \<Rightarrow> string" where
  "str_item d k = (case dget_or d k JNull of JStr s \<Rightarrow> s | _ \<Rightarrow> [])"

definition int_item :: "(string, json) dict \<Rightarrow> string \<Rightarrow> int" where
  \<comment> \<open>the index, or -1 for anything that is not an integer\<close>
  "int_item d k = (case dget_or d k (JInt (- 1)) of JInt i \<Rightarrow> i | _ \<Rightarrow> - 1)"

definition assignment_key :: "(string, json) dict \<Rightarrow> string \<times> int \<times> string \<times> string" where
  "assignment_key d = (str_item d ''nodeName'', int_item d ''gpuIndex'', str_item d ''podUid'', str_item d ''policyUid'')"

definition resolved_assignments :: "pod list \<Rightarrow> string \<Rightarrow> int \<Rightarrow> json \<Rightarrow> real \<Rightarrow> (string, json) dict list" where
  "resolved_assignments pods policy_uid policy_generation priority_class boost_pct =
     sort_key assignment_key
       (concat (map (pod_assignments policy_uid policy_generation priority_class boost_pct) pods))"

section \<open>The aggregate of all policies\<close>

definition RESOLVED_ASSIGNMENTS_KEY :: string where
  "RESOLVED_ASSIGNMENTS_KEY = ''resolved-assignments.json''"

definition BOOST_SCHEMA_VERSION :: int where
  "BOOST_SCHEMA_VERSION = 1"

definition ends_with :: "string \<Rightarrow> string \<Rightarrow> bool" where
  "ends_with s t \<longleftrightarrow> length t \<le> length s \<and> drop (length s - length t) s = t"

definition entry_assignments :: "string \<Rightarrow> json list res" where
  \<comment> \<open>the assignments of one registry entry: none when its text is malformed\<close>
  "entry_assignments raw =
     (case json_loads raw of
        Inl (ValueError _) \<Rightarrow> Ok []
      | Inl e \<Rightarrow> Err e
      | Inr policy \<Rightarrow>
          res_bind (json_get policy ''assignments'' (JList [])) (\<lambda>values.
            Ok (case values of JList vs \<Rightarrow> filter (\<lambda>v. case v of JObj _ \<Rightarrow> True | _ \<Rightarrow> False) vs | _ \<Rightarrow> [])))"

definition is_policy_key :: "string \<Rightarrow> bool" where
  "is_policy_key key \<longleftrightarrow> \<not> (key = RESOLVED_ASSIGNMENTS_KEY \<or> \<not> ends_with key ''.json'')"

definition collected :: "(string, string) dict \<Rightarrow> json list res" where
  \<comment> \<open>the loop over the sorted items\<close>
  "collected data =
     res_bind (res_map (\<lambda>(key, raw). entry_assignments raw) (filter (\<lambda>(key, raw). is_policy_key key) (sort_key fst data)))
       (\<lambda>vss. Ok (concat vss))"

definition value_key :: "(real \<Rightarrow> string) \<Rightarrow> json \<Rightarrow> string \<times> int \<times> string \<times> string" where
  "value_key repr v =
     (case v of
        JObj d \<Rightarrow> (py_str repr (dget_or d ''nodeName'' (JStr [])), int_item d ''gpuIndex'',
                   py_str repr (dget_or d ''podUid'' (JStr [])), py_str repr (dget_or d ''policyUid'' (JStr [])))
      | _ \<Rightarrow> ([], - 1, [], []))"

definition aggregate_doc :: "(real \<Rightarrow> string) \<Rightarrow> json list \<Rightarrow> json" where
  "aggregate_doc repr assignments =
     JObj [(''assignments'', JList (sort_key (value_key repr) assignments)), (''schemaVersion'', JInt BOOST_SCHEMA_VERSION)]"

definition aggregate_resolved_assignments :: "(real \<Rightarrow> string) \<Rightarrow> (string, string) dict \<Rightarrow> string res" where
  "aggregate_resolved_assignments repr data =
     res_bind (collected data) (\<lambda>assignments. Ok (json_dumps_sorted repr (aggregate_doc repr assignments)))"

end
