(* ===== verification/Registry.thy ===== *)
theory Registry
  imports Assignments
begin

text \<open>
  The shared boost registry (\<open>_write_boost_registry\<close> of \<open>operator/handlers.py\<close>): every policy
  owns one entry of a ConfigMap, next to the aggregate of all entries. A writer reads the map,
  computes the whole next content, and replaces the map under the resource version it read;
  on a conflict it starts again, three times at most.

  The theory shows that a call that returns is one atomic update of the registry, whatever
  other clients do between its requests, and that a call that fails because its write was refused,
  or before it wrote, has written nothing.
\<close>

section \<open>The next content\<close>

definition BOOST_CONFIG_MAP_NAME :: string where
  "BOOST_CONFIG_MAP_NAME = ''opendps-job-boosts''"

definition policy_key :: "string \<Rightarrow> string" where
  "policy_key policy_name = policy_name @ ''.json''"

definition registry_update :: "(real \<Rightarrow> string) \<Rightarrow> string \<Rightarrow> json option \<Rightarrow> (string, string) dict \<Rightarrow> (string, string) dict res" where
  "registry_update repr policy_name entry data =
     (let data1 = (case entry of
                     None \<Rightarrow> dpop (policy_key policy_name) data
                   | Some e \<Rightarrow> dset (policy_key policy_name) (json_dumps_sorted repr e) data) in
      res_bind (aggregate_resolved_assignments repr data1) (\<lambda>agg. Ok (dset RESOLVED_ASSIGNMENTS_KEY agg data1)))"

definition same_dict :: "(string, string) dict \<Rightarrow> (string, string) dict \<Rightarrow> bool" where
  \<comment> \<open>equality of dictionaries does not depend on their order\<close>
  "same_dict a b \<longleftrightarrow> list_all (\<lambda>k. map_of a k = map_of b k) (dkeys a @ dkeys b)"

section \<open>The write loop\<close>

definition still_conflicted :: op_error where
  "still_conflicted = Temporary ''remained conflicted after 3 attempts''"

text \<open>The first argument is the number of attempts left; the code starts with three.\<close>

definition after_write :: "nat \<Rightarrow> ('s, unit) op \<Rightarrow> kube_answer \<Rightarrow> ('s, unit) op" where
  \<comment> \<open>what follows a write: \<open>n\<close> attempts are left\<close>
  "after_write n again a s =
     (if a = Done then (Inr (), s)
      else if a = Api_error 409 \<and> 0 < n then again s
      else if a = Api_error 409 then (Inl still_conflicted, s)
      else (Inl (unexpected a), s))"

fun registry_loop :: "nat \<Rightarrow> 's kube \<Rightarrow> (real \<Rightarrow> string) \<Rightarrow> string \<Rightarrow> string \<Rightarrow> json option \<Rightarrow> ('s, unit) op" where
  "registry_loop 0 kube repr ns name entry s = (Inr (), s)"
| "registry_loop (Suc n) kube repr ns name entry s =
     (let again = (\<lambda>s'. registry_loop n kube repr ns name entry s') in
      case kube (Read_config_map ns BOOST_CONFIG_MAP_NAME) s of
        (Config_map version dat, s1) \<Rightarrow>
          (let original = (case dat of None \<Rightarrow> [] | Some d \<Rightarrow> d) in
           case registry_update repr name entry original of
             Inl e \<Rightarrow> (Inl (Python e), s1)
           | Inr new \<Rightarrow>
               if same_dict new original then (Inr (), s1)
               else (case kube (Replace_config_map ns BOOST_CONFIG_MAP_NAME version new) s1 of
                       (a, s2) \<Rightarrow> after_write n again a s2))
      | (a0, s1) \<Rightarrow>
          if a0 \<noteq> Api_error 404 then (Inl (unexpected a0), s1)
          else (case registry_update repr name entry [] of
                  Inl e \<Rightarrow> (Inl (Python e), s1)
                | Inr new \<Rightarrow>
                    (case kube (Create_config_map ns BOOST_CONFIG_MAP_NAME new) s1 of
                       (a, s2) \<Rightarrow> after_write n again a s2)))"

definition write_boost_registry :: "'s kube \<Rightarrow> (real \<Rightarrow> string) \<Rightarrow> string \<Rightarrow> string \<Rightarrow> json option \<Rightarrow> ('s, unit) op" where
  "write_boost_registry kube repr ns name entry = registry_loop 3 kube repr ns name entry"

section \<open>The update as a function of the map\<close>

lemma same_dict_iff: "same_dict a b \<longleftrightarrow> map_of a = map_of b"
proof
  assume s: "same_dict a b"
  show "map_of a = map_of b"
  proof
    fix k
    show "map_of a k = map_of b k"
    proof (cases "k \<in> set (dkeys a @ dkeys b)")
      case True
      with s show ?thesis by (simp only: same_dict_def list_all_iff)
    next
      case False
      then have "map_of a k = None" "map_of b k = None" unfolding map_of_eq_None_iff by auto
      then show ?thesis by simp
    qed
  qed
qed (simp add: same_dict_def list_all_iff)

text \<open>Two dictionaries with the same content have the same sorted items.\<close>

lemma same_items:
  assumes "wf_dict a" "wf_dict b" "map_of a = map_of b"
  shows "sort_key fst a = sort_key fst b"
proof -
  have "set a = set b" using assms by (metis map_of_inject_set)
  then have "mset a = mset b"
    using assms(1,2) by (simp add: set_eq_iff_mset_eq_distinct distinct_map)
  moreover have "sorted (map fst (sort_key fst b))" by simp
  moreover have "inj_on fst (set a)" using assms(1) by (simp add: distinct_map)
  ultimately show ?thesis by (intro sort_key_inj_key_eq) simp_all
qed

lemma aggregate_cong:
  "wf_dict a \<Longrightarrow> wf_dict b \<Longrightarrow> map_of a = map_of b \<Longrightarrow>
   aggregate_resolved_assignments repr a = aggregate_resolved_assignments repr b"
  using same_items [of a b] by (simp add: aggregate_resolved_assignments_def collected_def)

lemma registry_update_cong:
  assumes "wf_dict a" "wf_dict b" "map_of a = map_of b" "registry_update repr name entry a = Ok a'"
  shows "\<exists>b'. registry_update repr name entry b = Ok b' \<and> map_of b' = map_of a'"
proof -
  let ?u = "\<lambda>d. case entry of None \<Rightarrow> dpop (policy_key name) d
      | Some e \<Rightarrow> dset (policy_key name) (json_dumps_sorted repr e) d"
  have u: "wf_dict (?u a)" "wf_dict (?u b)" "map_of (?u a) = map_of (?u b)"
    using assms(1-3) by (simp_all add: fun_eq_iff split: option.split)
  from assms(4) u aggregate_cong [OF u] show ?thesis
    by (auto simp: registry_update_def res_bind_Ok_iff fun_eq_iff)
qed

text \<open>What an update does to the entries: its own is set or removed, the aggregate is recomputed from
  the entries, and every other key keeps its text.\<close>

lemma registry_update_entries:
  assumes "registry_update repr name entry d = Ok d'" "policy_key name \<noteq> RESOLVED_ASSIGNMENTS_KEY"
  shows "map_of d' (policy_key name) = map_option (json_dumps_sorted repr) entry"
    and "k \<noteq> policy_key name \<Longrightarrow> k \<noteq> RESOLVED_ASSIGNMENTS_KEY \<Longrightarrow> map_of d' k = map_of d k"
  using assms by (auto simp: registry_update_def res_bind_Ok_iff Let_def split: option.splits)

lemma wf_registry_update: "registry_update repr name entry d = Ok d' \<Longrightarrow> wf_dict d \<Longrightarrow> wf_dict d'"
  by (auto simp: registry_update_def res_bind_Ok_iff Let_def split: option.splits)

lemma filter_sort_dset:
  "\<not> is_policy_key k \<Longrightarrow>
   filter (\<lambda>(key, raw). is_policy_key key) (dset k v d) = filter (\<lambda>(key, raw). is_policy_key key) d"
  by (induction d) auto

lemma collected_dset:
  "\<not> is_policy_key k \<Longrightarrow> collected (dset k v d) = collected d"
  by (simp only: collected_def filter_sort filter_sort_dset not_False_eq_True)

lemma registry_update_aggregate:
  assumes "registry_update repr name entry d = Ok d'"
  shows "\<exists>agg. map_of d' RESOLVED_ASSIGNMENTS_KEY = Some agg \<and> aggregate_resolved_assignments repr d' = Ok agg"
proof -
  from assms obtain d1 agg where "aggregate_resolved_assignments repr d1 = Ok agg" "d' = dset RESOLVED_ASSIGNMENTS_KEY agg d1"
    by (auto simp: registry_update_def res_bind_Ok_iff Let_def)
  moreover have "\<not> is_policy_key RESOLVED_ASSIGNMENTS_KEY" by (simp add: is_policy_key_def)
  ultimately show ?thesis
    using collected_dset by (simp add: aggregate_resolved_assignments_def)
qed

section \<open>Atomicity\<close>

text \<open>
  What the code relies on of the API server, for the one object it writes. \<open>view\<close> is the object
  at a point in time, its resource version and its data; \<open>env\<close> is what other clients may do
  between two points. A read answers with the object of some point during the request; a
  replacement that is accepted happens at a point where the object still has the given version,
  a creation at one where there is no object; a request that is refused writes nothing; and a
  version names one content. Nothing is assumed about a request whose answer is lost or whose
  status leaves the outcome open (a server error, a timeout).
\<close>

definition refused_status :: "int \<Rightarrow> bool" where
  \<comment> \<open>the statuses with which the API server refuses a request, by its documented conventions\<close>
  "refused_status c \<longleftrightarrow> c \<in> {400, 401, 403, 404, 405, 409, 410, 422, 429}"

type_synonym 's registry_view = "'s \<Rightarrow> (string \<times> (string \<rightharpoonup> string)) option"

definition contents :: "'s registry_view \<Rightarrow> 's \<Rightarrow> string \<rightharpoonup> string" where
  "contents view s = (case view s of None \<Rightarrow> Map.empty | Some (v, m) \<Rightarrow> m)"

definition clients_ok :: "'s registry_view \<Rightarrow> ('s \<Rightarrow> 's \<Rightarrow> bool) \<Rightarrow> bool" where
  "clients_ok view env \<longleftrightarrow>
     (\<forall>s. env s s) \<and> (\<forall>s t u. env s t \<longrightarrow> env t u \<longrightarrow> env s u) \<and>
     (\<forall>s t v m m'. env s t \<longrightarrow> view s = Some (v, m) \<longrightarrow> view t = Some (v, m') \<longrightarrow> m = m')"

definition reads_ok :: "'s kube \<Rightarrow> string \<Rightarrow> 's registry_view \<Rightarrow> ('s \<Rightarrow> 's \<Rightarrow> bool) \<Rightarrow> bool" where
  "reads_ok kube ns view env \<longleftrightarrow>
     (\<forall>s a t. kube (Read_config_map ns BOOST_CONFIG_MAP_NAME) s = (a, t) \<longrightarrow>
        (\<exists>u. env s u \<and> env u t \<and>
           (a = Api_error 404 \<longrightarrow> view u = None) \<and>
           (\<forall>version dat. a = Config_map version dat \<longrightarrow>
              wf_dict (case dat of None \<Rightarrow> [] | Some d \<Rightarrow> d) \<and>
              (\<exists>v. version = Some v \<and> view u = Some (v, map_of (case dat of None \<Rightarrow> [] | Some d \<Rightarrow> d))))))"

definition writes_ok :: "'s kube \<Rightarrow> string \<Rightarrow> 's registry_view \<Rightarrow> ('s \<Rightarrow> 's \<Rightarrow> bool) \<Rightarrow> bool" where
  "writes_ok kube ns view env \<longleftrightarrow>
     (\<forall>s a t v d. kube (Replace_config_map ns BOOST_CONFIG_MAP_NAME (Some v) d) s = (a, t) \<longrightarrow>
        (a = Done \<longrightarrow> (\<exists>u w m v'. env s u \<and> view u = Some (v, m) \<and> view w = Some (v', map_of d) \<and> env w t)) \<and>
        (\<forall>c. a = Api_error c \<longrightarrow> refused_status c \<longrightarrow> env s t)) \<and>
     (\<forall>s a t d. kube (Create_config_map ns BOOST_CONFIG_MAP_NAME d) s = (a, t) \<longrightarrow>
        (a = Done \<longrightarrow> (\<exists>u w v'. env s u \<and> view u = None \<and> view w = Some (v', map_of d) \<and> env w t)) \<and>
        (\<forall>c. a = Api_error c \<longrightarrow> refused_status c \<longrightarrow> env s t))"

definition cas_server :: "'s kube \<Rightarrow> string \<Rightarrow> 's registry_view \<Rightarrow> ('s \<Rightarrow> 's \<Rightarrow> bool) \<Rightarrow> bool" where
  "cas_server kube ns view env \<longleftrightarrow> clients_ok view env \<and> reads_ok kube ns view env \<and> writes_ok kube ns view env"

text \<open>One update at one point in time, between what other clients do before and after it.\<close>

definition updated_once :: "'s registry_view \<Rightarrow> ('s \<Rightarrow> 's \<Rightarrow> bool) \<Rightarrow> (real \<Rightarrow> string) \<Rightarrow> string \<Rightarrow> json option \<Rightarrow> 's \<Rightarrow> 's \<Rightarrow> bool" where
  "updated_once view env repr name entry s t \<longleftrightarrow>
     (\<exists>u w d new. env s u \<and> wf_dict d \<and> map_of d = contents view u \<and>
        registry_update repr name entry d = Ok new \<and> contents view w = map_of new \<and> env w t)"

lemma updated_once_before:
  assumes "clients_ok view env" "env r s" "updated_once view env repr name entry s t"
  shows "updated_once view env repr name entry r t"
proof -
  note trans = assms(1) [unfolded clients_ok_def, THEN conjunct2, THEN conjunct1, rule_format]
  from assms(3) obtain u w d new where u: "env s u" "wf_dict d" "map_of d = contents view u"
    "registry_update repr name entry d = Ok new" "contents view w = map_of new" "env w t"
    unfolding updated_once_def by (elim exE conjE)
  show ?thesis
    unfolding updated_once_def
    by (rule exI [of _ u], rule exI [of _ w], rule exI [of _ d], rule exI [of _ new])
      (simp add: u trans [OF assms(2) u(1)])
qed

text \<open>The errors after which nothing is written: the three conflicts, a refusal by the server, and what
  the computation of the next content raises.\<close>

definition surely_unwritten :: "op_error \<Rightarrow> bool" where
  "surely_unwritten e \<longleftrightarrow> e = still_conflicted \<or> (\<exists>c. e = Api c \<and> refused_status c) \<or>
     (\<exists>x. e = Python x \<and> x \<noteq> OutOfModel)"

lemma registry_loop_atomic:
  assumes server: "cas_server kube ns view env"
    and "registry_loop n kube repr ns name entry s = (r, t)" "0 < n"
  shows "(r = Inr () \<longrightarrow> updated_once view env repr name entry s t) \<and>
    (\<forall>e. r = Inl e \<longrightarrow> surely_unwritten e \<longrightarrow> env s t)"
  using assms(2,3)
proof (induction n arbitrary: s)
  case (Suc n)
  have clients: "clients_ok view env" using server by (simp add: cas_server_def)
  note trans = clients [unfolded clients_ok_def, THEN conjunct2, THEN conjunct1, rule_format]
  note version = clients [unfolded clients_ok_def, THEN conjunct2, THEN conjunct2, rule_format]
  note before = updated_once_before [OF clients]
  obtain a s1 where read: "kube (Read_config_map ns BOOST_CONFIG_MAP_NAME) s = (a, s1)" by (rule prod.exhaust)
  then obtain u where u: "env s u" "env u s1" "a = Api_error 404 \<Longrightarrow> view u = None"
    "\<And>version dat. a = Config_map version dat \<Longrightarrow> wf_dict (case dat of None \<Rightarrow> [] | Some d \<Rightarrow> d) \<and>
       (\<exists>v. version = Some v \<and> view u = Some (v, map_of (case dat of None \<Rightarrow> [] | Some d \<Rightarrow> d)))"
    using server [unfolded cas_server_def, THEN conjunct2, THEN conjunct1, unfolded reads_ok_def, rule_format]
    by (metis (no_types, lifting))
  have s1: "env s s1" using trans u(1,2) by blast
  have retry: ?case if "b \<noteq> Done" "\<forall>c. b = Api_error c \<longrightarrow> refused_status c \<longrightarrow> env s1 s2"
    "after_write n (registry_loop n kube repr ns name entry) b s2 = (r, t)" for b s2
  proof (cases "b = Api_error 409 \<and> 0 < n")
    case True
    with that have "env s1 s2" "registry_loop n kube repr ns name entry s2 = (r, t)"
      by (simp_all add: after_write_def refused_status_def)
    moreover from this(1) have "env s s2" using s1 trans by blast
    ultimately show ?thesis using Suc.IH [of s2] True before [of s s2] trans [of s s2 t] by simp
  next
    case False
    have "\<exists>c. b = Api_error c \<and> refused_status c" if "surely_unwritten (unexpected b)"
      using that by (cases b) (auto simp: unexpected_def surely_unwritten_def still_conflicted_def)
    moreover have "t = s2" "r = Inl (if b = Api_error 409 then still_conflicted else unexpected b)"
      using False that(1,3) by (auto simp: after_write_def split: if_split_asm)
    ultimately show ?thesis using that(2) trans [OF s1] by (auto simp: refused_status_def split: if_split_asm)
  qed
  show ?case
  proof (cases "\<exists>version dat. a = Config_map version dat")
    case True
    then obtain version dat where a: "a = Config_map version dat" by blast
    define original where "original = (case dat of None \<Rightarrow> [] | Some d \<Rightarrow> d)"
    obtain v where v: "version = Some v" "view u = Some (v, map_of original)" "wf_dict original"
      using u(4) [OF a] unfolding original_def by blast
    show ?thesis
    proof (cases "registry_update repr name entry original")
      case (Inl e)
      with Suc.prems read a s1 show ?thesis by (auto simp: original_def)
    next
      case (Inr new)
      have once: "updated_once view env repr name entry s t"
        if "env s x" "contents view x = map_of original" "contents view w = map_of new" "env w t" for x w
        using that Inr v(3) unfolding updated_once_def by metis
      show ?thesis
      proof (cases "same_dict new original")
        case True
        then have "r = Inr ()" "t = s1" using Suc.prems(1) read a Inr by (simp_all add: original_def)
        with once [OF u(1), of u] v u(2) True show ?thesis by (simp add: contents_def same_dict_iff)
      next
        case changed: False
        obtain b s2 where b: "kube (Replace_config_map ns BOOST_CONFIG_MAP_NAME version new) s1 = (b, s2)" by (rule prod.exhaust)
        with v(1) have w: "b = Done \<Longrightarrow> \<exists>x w m v'. env s1 x \<and> view x = Some (v, m) \<and> view w = Some (v', map_of new) \<and> env w s2"
          "\<forall>c. b = Api_error c \<longrightarrow> refused_status c \<longrightarrow> env s1 s2"
          using server unfolding cas_server_def writes_ok_def by blast+
        show ?thesis
        proof (cases "b = Done")
          case True
          with w(1) obtain x w m v' where x: "env s1 x" "view x = Some (v, m)" "view w = Some (v', map_of new)" "env w s2" by blast
          have "m = map_of original" using version [OF _ v(2) x(2)] trans [OF u(2) x(1)] by simp
          moreover have "r = Inr ()" "t = s2"
            using Suc.prems(1) read a Inr changed b True by (simp_all add: original_def after_write_def)
          ultimately show ?thesis using once [of x w] trans [OF s1 x(1)] x by (simp add: contents_def)
        next
          case False
          have "after_write n (registry_loop n kube repr ns name entry) b s2 = (r, t)"
            using Suc.prems(1) read a Inr changed b by (simp add: original_def)
          with retry [OF False w(2)] show ?thesis by blast
        qed
      qed
    qed
  next
    case no_map: False
    show ?thesis
    proof (cases "a = Api_error 404")
      case False
      with no_map Suc.prems(1) read have "r = Inl (unexpected a)" "t = s1" by (cases a; simp)+
      with s1 show ?thesis by simp
    next
      case absent: True
      show ?thesis
      proof (cases "registry_update repr name entry []")
        case (Inl e)
        with Suc.prems read absent s1 show ?thesis by auto
      next
        case (Inr new)
        obtain b s2 where b: "kube (Create_config_map ns BOOST_CONFIG_MAP_NAME new) s1 = (b, s2)" by (rule prod.exhaust)
        then have w: "b = Done \<Longrightarrow> \<exists>x w v'. env s1 x \<and> view x = None \<and> view w = Some (v', map_of new) \<and> env w s2"
          "\<forall>c. b = Api_error c \<longrightarrow> refused_status c \<longrightarrow> env s1 s2"
          using server unfolding cas_server_def writes_ok_def by blast+
        show ?thesis
        proof (cases "b = Done")
          case True
          with w(1) obtain x w v' where x: "env s1 x" "view x = None" "view w = Some (v', map_of new)" "env w s2" by blast
          have "r = Inr ()" "t = s2" using Suc.prems(1) read absent Inr b True by (simp_all add: after_write_def)
          moreover have "updated_once view env repr name entry s s2"
            unfolding updated_once_def
            by (rule exI [of _ x], rule exI [of _ w], rule exI [of _ "[]"], rule exI [of _ new])
              (simp add: contents_def x Inr trans [OF s1 x(1)])
          ultimately show ?thesis by simp
        next
          case False
          have "after_write n (registry_loop n kube repr ns name entry) b s2 = (r, t)"
            using Suc.prems(1) read absent Inr b by simp
          with retry [OF False w(2)] show ?thesis by blast
        qed
      qed
    qed
  qed
qed simp

section \<open>Requests\<close>

text \<open>A server that also keeps the list of the requests it got, with its answers.\<close>

definition recorded :: "'s kube \<Rightarrow> ('s \<times> (kube_request \<times> kube_answer) list) kube" where
  "recorded kube q st = (case kube q (fst st) of (a, t) \<Rightarrow> (a, (t, snd st @ [(q, a)])))"

definition conflicts :: "(kube_request \<times> kube_answer) list \<Rightarrow> nat" where
  "conflicts calls = length (filter (\<lambda>c. snd c = Api_error 409 \<and> (\<forall>ns name. fst c \<noteq> Read_config_map ns name)) calls)"

definition accepted_writes :: "(kube_request \<times> kube_answer) list \<Rightarrow> nat" where
  "accepted_writes calls = length (filter (\<lambda>c. snd c = Done \<and> (\<forall>ns name. fst c \<noteq> Read_config_map ns name)) calls)"

lemma calls_simps [simp]:
  "conflicts [] = 0" "conflicts (a @ b) = conflicts a + conflicts b" "conflicts [(Read_config_map ns nm, x)] = 0"
  "conflicts [(Replace_config_map ns nm v d, x)] = (if x = Api_error 409 then 1 else 0)"
  "conflicts [(Create_config_map ns nm d, x)] = (if x = Api_error 409 then 1 else 0)"
  "accepted_writes [] = 0" "accepted_writes (a @ b) = accepted_writes a + accepted_writes b"
  "accepted_writes [(Read_config_map ns nm, x)] = 0"
  "accepted_writes [(Replace_config_map ns nm v d, x)] = (if x = Done then 1 else 0)"
  "accepted_writes [(Create_config_map ns nm d, x)] = (if x = Done then 1 else 0)"
  by (simp_all add: conflicts_def accepted_writes_def)

lemma registry_loop_calls:
  assumes "registry_loop n (recorded kube) repr ns name entry (s, calls) = (r, (t, calls'))" "0 < n"
  shows "\<exists>new. calls' = calls @ new \<and> length new \<le> 2 * n \<and> conflicts new \<le> n \<and>
    accepted_writes new \<le> (if r = Inr () then 1 else 0) \<and> (r = Inl still_conflicted \<longleftrightarrow> conflicts new = n)"
  using assms
proof (induction n arbitrary: s calls)
  case (Suc n)
  obtain a s1 where a: "kube (Read_config_map ns BOOST_CONFIG_MAP_NAME) s = (a, s1)" by (rule prod.exhaust)
  let ?c1 = "calls @ [(Read_config_map ns BOOST_CONFIG_MAP_NAME, a)]"
  have rd: "recorded kube (Read_config_map ns BOOST_CONFIG_MAP_NAME) (s, calls) = (a, (s1, ?c1))"
    by (simp add: recorded_def a)
  have nc: "Inl (unexpected x) \<noteq> Inl still_conflicted" for x
    by (cases x) (simp_all add: unexpected_def still_conflicted_def)
  have wr: ?case
    if q: "q = Replace_config_map ns BOOST_CONFIG_MAP_NAME v d \<or> q = Create_config_map ns BOOST_CONFIG_MAP_NAME d"
      and b: "kube q s1 = (b, s2)"
      and rest: "after_write n (registry_loop n (recorded kube) repr ns name entry) b (s2, ?c1 @ [(q, b)]) = (r, (t, calls'))"
    for q v d b s2
  proof (cases "b = Api_error 409 \<and> 0 < n")
    case True
    with rest have "registry_loop n (recorded kube) repr ns name entry (s2, ?c1 @ [(q, b)]) = (r, (t, calls'))"
      by (simp add: after_write_def)
    from Suc.IH [OF this] True obtain new where new: "calls' = (?c1 @ [(q, b)]) @ new" "length new \<le> 2 * n"
      "conflicts new \<le> n" "accepted_writes new \<le> (if r = Inr () then 1 else 0)" "r = Inl still_conflicted \<longleftrightarrow> conflicts new = n"
      by auto
    show ?thesis
      by (rule exI [of _ "[(Read_config_map ns BOOST_CONFIG_MAP_NAME, a), (q, b)] @ new"])
        (use q new True in \<open>auto simp: conflicts_def accepted_writes_def\<close>)
  next
    case False
    with rest have "calls' = calls @ [(Read_config_map ns BOOST_CONFIG_MAP_NAME, a), (q, b)]"
      "r = (if b = Done then Inr () else if b = Api_error 409 then Inl still_conflicted else Inl (unexpected b))"
      by (auto simp: after_write_def split: if_split_asm)
    then show ?thesis
      using q nc [of b] False by (auto simp: conflicts_def accepted_writes_def still_conflicted_def)
  qed
  have stop: ?case if "r \<noteq> Inl still_conflicted" "calls' = ?c1"
    using that by (intro exI [of _ "[(Read_config_map ns BOOST_CONFIG_MAP_NAME, a)]"]) auto
  show ?case
  proof (cases a)
    case (Config_map version dat)
    let ?o = "case dat of None \<Rightarrow> [] | Some d \<Rightarrow> d"
    show ?thesis
    proof (cases "registry_update repr name entry ?o")
      case (Inl e)
      with Suc.prems Config_map rd show ?thesis by (intro stop) (auto simp: still_conflicted_def)
    next
      case (Inr new)
      obtain b s2 where b: "kube (Replace_config_map ns BOOST_CONFIG_MAP_NAME version new) s1 = (b, s2)" by (rule prod.exhaust)
      then have rb: "recorded kube (Replace_config_map ns BOOST_CONFIG_MAP_NAME version new) (s1, ?c1)
          = (b, (s2, ?c1 @ [(Replace_config_map ns BOOST_CONFIG_MAP_NAME version new, b)]))"
        by (simp add: recorded_def)
      show ?thesis
      proof (cases "same_dict new ?o")
        case True
        with Suc.prems Config_map rd Inr show ?thesis by (intro stop) auto
      next
        case False
        show ?thesis
          by (rule wr [OF _ b, of version new])
            (use Suc.prems(1) Config_map rd Inr False rb in \<open>simp_all\<close>)
      qed
    qed
  next
    case (Api_error c)
    show ?thesis
    proof (cases "c = 404")
      case absent: True
      show ?thesis
      proof (cases "registry_update repr name entry []")
        case (Inl e)
        with Suc.prems Api_error absent rd show ?thesis by (intro stop) (auto simp: still_conflicted_def)
      next
        case (Inr new)
        obtain b s2 where b: "kube (Create_config_map ns BOOST_CONFIG_MAP_NAME new) s1 = (b, s2)" by (rule prod.exhaust)
        then have rb: "recorded kube (Create_config_map ns BOOST_CONFIG_MAP_NAME new) (s1, ?c1)
            = (b, (s2, ?c1 @ [(Create_config_map ns BOOST_CONFIG_MAP_NAME new, b)]))"
          by (simp add: recorded_def)
        show ?thesis
          by (rule wr [OF _ b, of None new])
            (use Suc.prems(1) Api_error absent rd Inr rb in \<open>simp_all\<close>)
      qed
    next
      case False
      with Suc.prems Api_error rd nc [of a] show ?thesis by (intro stop) auto
    qed
  qed (use Suc.prems rd nc [of a] in \<open>intro stop; auto\<close>)+
qed simp

section \<open>A server with other clients\<close>

text \<open>
  For the concrete instances: a server whose state is the number of writes so far, the data,
  and the contents other clients are about to write, one before each request.
\<close>

type_synonym busy_server = "nat \<times> (string, string) dict option \<times> (string, string) dict list"

definition busy_pods :: "pod list" where
  "busy_pods =
     [\<lparr>pod_uid = Some ''u1'', pod_node_name = Some ''n0'', pod_annotations = Some [(GPU_INDICES_ANNOTATION, JStr ''2, 0'')]\<rparr>]"

definition busy_turn :: "busy_server \<Rightarrow> busy_server" where
  "busy_turn st = (case st of (n, d, fs) \<Rightarrow> (case fs of [] \<Rightarrow> st | f # fs' \<Rightarrow> (Suc n, Some f, fs')))"

definition busy_answer :: "kube_request \<Rightarrow> busy_server \<Rightarrow> kube_answer \<times> busy_server" where
  "busy_answer q st =
     (case st of (n, d, fs) \<Rightarrow>
      (case q of
         Read_config_map _ _ \<Rightarrow>
           ((case d of None \<Rightarrow> Api_error 404
             | Some x \<Rightarrow> if wf_dict x then Config_map (Some (replicate n (CHR ''v''))) (Some x) else No_connection), st)
       | Replace_config_map _ _ v x \<Rightarrow>
           if d \<noteq> None \<and> v = Some (replicate n (CHR ''v'')) then (Done, (Suc n, Some x, fs)) else (Api_error 409, st)
       | Create_config_map _ _ x \<Rightarrow> if d = None then (Done, (Suc n, Some x, fs)) else (Api_error 409, st)
       | List_pods _ _ \<Rightarrow> (Pods busy_pods, st)
       | _ \<Rightarrow> (Api_error 404, st)))"

definition busy_kube :: "busy_server kube" where
  "busy_kube q st = busy_answer q (busy_turn st)"

definition busy_view :: "busy_server registry_view" where
  "busy_view st = (case st of (n, d, fs) \<Rightarrow> map_option (\<lambda>x. (replicate n (CHR ''v''), map_of x)) d)"

definition busy_env :: "busy_server \<Rightarrow> busy_server \<Rightarrow> bool" where
  "busy_env s t \<longleftrightarrow>
     (\<exists>k. k \<le> length (snd (snd s)) \<and> fst t = fst s + k \<and> snd (snd t) = drop k (snd (snd s)) \<and>
        fst (snd t) = (if k = 0 then fst (snd s) else Some (snd (snd s) ! (k - 1))))"

lemma busy_env_refl: "busy_env s s"
  unfolding busy_env_def by (rule exI [of _ 0]) simp

lemma busy_env_turn: "busy_env s (busy_turn s)"
proof (cases s)
  case (fields n d fs)
  then show ?thesis
    using busy_env_refl
    by (cases fs) (auto simp: busy_turn_def busy_env_def intro!: exI [of _ "Suc 0"])
qed

lemma busy_env_trans:
  assumes "busy_env s t" "busy_env t u"
  shows "busy_env s u"
proof -
  from assms obtain j k where j: "j \<le> length (snd (snd s))" "fst t = fst s + j" "snd (snd t) = drop j (snd (snd s))"
      "fst (snd t) = (if j = 0 then fst (snd s) else Some (snd (snd s) ! (j - 1)))"
    and k: "k \<le> length (snd (snd t))" "fst u = fst t + k" "snd (snd u) = drop k (snd (snd t))"
      "fst (snd u) = (if k = 0 then fst (snd t) else Some (snd (snd t) ! (k - 1)))"
    unfolding busy_env_def by (elim exE conjE)
  show ?thesis
    unfolding busy_env_def
  proof (intro exI conjI)
    show "fst (snd u) = (if j + k = 0 then fst (snd s) else Some (snd (snd s) ! (j + k - 1)))"
      using j k by (cases k) simp_all
  qed (use j k in \<open>simp_all add: add.commute\<close>)
qed

lemma busy_clients: "clients_ok busy_view busy_env"
  unfolding clients_ok_def
proof (intro conjI allI impI)
  fix s t v m m'
  assume e: "busy_env s t" and s: "busy_view s = Some (v, m)" and t: "busy_view t = Some (v, m')"
  obtain n d fs n' d' fs' where st: "s = (n, d, fs)" "t = (n', d', fs')" by (cases s; cases t)
  with s t have "length v = n" "length v = n'" by (auto simp: busy_view_def)
  with e st have "d' = d" by (auto simp: busy_env_def)
  with s t st show "m = m'" by (auto simp: busy_view_def)
next
  fix s t u assume "busy_env s t" "busy_env t u"
  then show "busy_env s u" by (rule busy_env_trans)
qed (rule busy_env_refl)

lemma busy_reads: "reads_ok busy_kube ns busy_view busy_env"
  unfolding reads_ok_def
proof (intro allI impI)
  fix s a t assume "busy_kube (Read_config_map ns BOOST_CONFIG_MAP_NAME) s = (a, t)"
  then have a: "busy_answer (Read_config_map ns BOOST_CONFIG_MAP_NAME) (busy_turn s) = (a, t)" by (simp add: busy_kube_def)
  then have t: "t = busy_turn s" by (auto simp: busy_answer_def split: prod.splits)
  show "\<exists>u. busy_env s u \<and> busy_env u t \<and> (a = Api_error 404 \<longrightarrow> busy_view u = None) \<and>
      (\<forall>version dat. a = Config_map version dat \<longrightarrow> wf_dict (case dat of None \<Rightarrow> [] | Some d \<Rightarrow> d) \<and>
         (\<exists>v. version = Some v \<and> busy_view u = Some (v, map_of (case dat of None \<Rightarrow> [] | Some d \<Rightarrow> d))))"
    by (rule exI [of _ t])
      (use a t busy_env_turn busy_env_refl in \<open>auto simp: busy_answer_def busy_view_def split: prod.splits option.splits if_split_asm\<close>)
qed

lemma busy_writes: "writes_ok busy_kube ns busy_view busy_env"
proof -
  have same: "busy_answer q u = (a, t) \<Longrightarrow> a \<noteq> Done \<Longrightarrow> t = u" for q u a t
    by (auto simp: busy_answer_def split: prod.splits kube_request.splits if_split_asm)
  have done_replace: "\<exists>u w m v'. busy_env s u \<and> busy_view u = Some (v, m) \<and> busy_view w = Some (v', map_of d) \<and> busy_env w t"
    if "busy_answer (Replace_config_map ns BOOST_CONFIG_MAP_NAME (Some v) d) (busy_turn s) = (Done, t)" for s v d t
    by (rule exI [of _ "busy_turn s"], rule exI [of _ t])
      (use that busy_env_turn busy_env_refl in \<open>auto simp: busy_answer_def busy_view_def split: prod.splits if_split_asm\<close>)
  have done_create: "\<exists>u w v'. busy_env s u \<and> busy_view u = None \<and> busy_view w = Some (v', map_of d) \<and> busy_env w t"
    if "busy_answer (Create_config_map ns BOOST_CONFIG_MAP_NAME d) (busy_turn s) = (Done, t)" for s d t
    by (rule exI [of _ "busy_turn s"], rule exI [of _ t])
      (use that busy_env_turn busy_env_refl in \<open>auto simp: busy_answer_def busy_view_def split: prod.splits if_split_asm\<close>)
  show ?thesis
    unfolding writes_ok_def busy_kube_def
    using done_replace done_create same busy_env_turn by blast
qed

lemma busy_cas_server: "cas_server busy_kube ns busy_view busy_env"
  by (simp add: cas_server_def busy_clients busy_reads busy_writes)

section \<open>Properties\<close>

text \<open>C7. Compare-and-swap makes a registry write atomic, for any policy but one named
  \<open>resolved-assignments\<close> (whose entry is overwritten by the aggregate of the same update): a call
  that returns has, at one moment between whatever other clients wrote before and after it, set
  or removed the entry of its own policy, left the entry of every other policy as it found it at
  that moment, and stored the aggregate of exactly the entries then present. A call that raises has written nothing if it
  gave up after three conflicts, if the server refused the request (a status 4xx of its
  documented conventions), or if computing the new content failed. After a server error, a
  timeout or a lost connection nothing is claimed: the write may have happened.\<close>

theorem registry_update_atomic:
  assumes server: "cas_server kube ns view env"
    and key: "name \<noteq> ''resolved-assignments''"
    and run: "write_boost_registry kube repr ns name entry s = (r, t)"
  shows "(r = Inr () \<longrightarrow>
      (\<exists>u w d agg. env s u \<and> env w t \<and> contents view w = map_of d \<and> wf_dict d \<and>
         contents view w (policy_key name) = map_option (json_dumps_sorted repr) entry \<and>
         (\<forall>k. k \<noteq> policy_key name \<longrightarrow> k \<noteq> RESOLVED_ASSIGNMENTS_KEY \<longrightarrow> contents view w k = contents view u k) \<and>
         contents view w RESOLVED_ASSIGNMENTS_KEY = Some agg \<and> aggregate_resolved_assignments repr d = Ok agg)) \<and>
    (r = Inl still_conflicted \<or> (\<exists>c. r = Inl (Api c) \<and> refused_status c) \<or>
       (\<exists>x. r = Inl (Python x) \<and> x \<noteq> OutOfModel) \<longrightarrow> env s t)"
proof -
  have k: "policy_key name \<noteq> RESOLVED_ASSIGNMENTS_KEY"
    using key by (simp add: policy_key_def RESOLVED_ASSIGNMENTS_KEY_def append_eq_append_conv_if
        flip: append_same_eq [of name "''.json''" "''resolved-assignments''", simplified])
  note run' = run [unfolded write_boost_registry_def]
  have "r = Inr () \<longrightarrow> updated_once view env repr name entry s t"
    and err: "\<forall>e. r = Inl e \<longrightarrow> surely_unwritten e \<longrightarrow> env s t"
    using registry_loop_atomic [OF server run'] by simp_all
  show ?thesis
  proof (intro conjI impI)
    assume "r = Inr ()"
    with \<open>r = Inr () \<longrightarrow> updated_once view env repr name entry s t\<close>
    obtain u w d new where u: "env s u" "wf_dict d" "map_of d = contents view u"
      "registry_update repr name entry d = Ok new" "contents view w = map_of new" "env w t"
      unfolding updated_once_def by blast
    obtain agg where "map_of new RESOLVED_ASSIGNMENTS_KEY = Some agg" "aggregate_resolved_assignments repr new = Ok agg"
      using registry_update_aggregate [OF u(4)] by blast
    then show "\<exists>u w d agg. env s u \<and> env w t \<and> contents view w = map_of d \<and> wf_dict d \<and>
         contents view w (policy_key name) = map_option (json_dumps_sorted repr) entry \<and>
         (\<forall>k. k \<noteq> policy_key name \<longrightarrow> k \<noteq> RESOLVED_ASSIGNMENTS_KEY \<longrightarrow> contents view w k = contents view u k) \<and>
         contents view w RESOLVED_ASSIGNMENTS_KEY = Some agg \<and> aggregate_resolved_assignments repr d = Ok agg"
      using u registry_update_entries [OF u(4) k] wf_registry_update [OF u(4,2)]
      by (intro exI [of _ u] exI [of _ w] exI [of _ new] exI [of _ agg]) simp
  next
    assume "r = Inl still_conflicted \<or> (\<exists>c. r = Inl (Api c) \<and> refused_status c) \<or> (\<exists>x. r = Inl (Python x) \<and> x \<noteq> OutOfModel)"
    with err show "env s t" unfolding surely_unwritten_def by blast
  qed
qed

definition demo_foreign :: "(string, string) dict list" where
  "demo_foreign = [[(''note'', ''one'')], [(''note'', ''two'')]]"

definition demo_final :: "(string, string) dict" where
  "demo_final = [(''note'', ''two''), (RESOLVED_ASSIGNMENTS_KEY, json_dumps_sorted (\<lambda>_. []) (aggregate_doc (\<lambda>_. []) []))]"

lemma demo_update:
  "registry_update (\<lambda>_. []) ''p'' None [(''note'', x)]
   = Ok [(''note'', x), (RESOLVED_ASSIGNMENTS_KEY, json_dumps_sorted (\<lambda>_. []) (aggregate_doc (\<lambda>_. []) []))]"
  by (simp add: registry_update_def policy_key_def aggregate_resolved_assignments_def collected_def is_policy_key_def
      ends_with_def RESOLVED_ASSIGNMENTS_KEY_def)

lemma demo_write:
  "write_boost_registry busy_kube (\<lambda>_. []) ''ns'' ''p'' None (0, None, demo_foreign) = (Inr (), (3, Some demo_final, []))"
  by (simp add: write_boost_registry_def numeral_3_eq_3 busy_kube_def busy_turn_def busy_answer_def demo_foreign_def
      demo_update after_write_def same_dict_def demo_final_def RESOLVED_ASSIGNMENTS_KEY_def)

theorem registry_update_atomic_witness:
  "\<exists>u w. busy_env (0, None, demo_foreign) u \<and> busy_env w (3, Some demo_final, []) \<and>
     contents busy_view w ''p.json'' = None \<and> contents busy_view w ''note'' = contents busy_view u ''note''"
proof -
  have key: "policy_key ''p'' = ''p.json''" "''note'' \<noteq> policy_key ''p''" "''note'' \<noteq> RESOLVED_ASSIGNMENTS_KEY"
    by (simp_all add: policy_key_def RESOLVED_ASSIGNMENTS_KEY_def)
  have "''p'' \<noteq> ''resolved-assignments''" by simp
  from registry_update_atomic [OF busy_cas_server this demo_write, THEN conjunct1, THEN mp, OF refl]
  obtain u w where u: "busy_env (0, None, demo_foreign) u" "busy_env w (3, Some demo_final, [])"
    and own: "contents busy_view w (policy_key ''p'') = map_option (json_dumps_sorted (\<lambda>_. [])) None"
    and others: "\<forall>k. k \<noteq> policy_key ''p'' \<longrightarrow> k \<noteq> RESOLVED_ASSIGNMENTS_KEY \<longrightarrow>
      contents busy_view w k = contents busy_view u k"
    by (elim exE conjE)
  have "contents busy_view w ''note'' = contents busy_view u ''note''"
    using others [rule_format, OF key(2,3)] .
  with u own show ?thesis unfolding key(1) by (intro exI [of _ u] exI [of _ w]) simp
qed

text \<open>C40. The write loop ends: whatever the server answers, a call makes at most six requests, at most one
  of its writes is accepted, and none when the call raises; and it reports a conflict exactly
  when all three writes were refused with one.\<close>

theorem registry_requests_bounded:
  assumes "write_boost_registry (recorded kube) repr ns name entry (s, []) = (r, (t, calls))"
  shows "length calls \<le> 6 \<and> accepted_writes calls \<le> (if r = Inr () then 1 else 0) \<and>
    (r = Inl still_conflicted \<longleftrightarrow> conflicts calls = 3)"
  using registry_loop_calls [OF assms [unfolded write_boost_registry_def]] by auto

theorem registry_requests_bounded_witness:
  "\<exists>calls. snd (snd (write_boost_registry (recorded busy_kube) (\<lambda>_. []) ''ns'' ''p'' None ((0, None, demo_foreign), []))) = calls \<and>
     length calls \<le> 6 \<and> accepted_writes calls \<le> 1"
proof -
  let ?run = "write_boost_registry (recorded busy_kube) (\<lambda>_. []) ''ns'' ''p'' None ((0, None, demo_foreign), [])"
  have "?run = (fst ?run, (fst (snd ?run), snd (snd ?run)))" by simp
  from registry_requests_bounded [OF this] show ?thesis by (auto split: if_splits)
qed

text \<open>A policy named \<open>resolved-assignments\<close> has the key of the aggregate: its entry is overwritten in
  the same update, so that its assignments are never published.\<close>

lemma resolved_assignments_policy_lost:
  assumes "registry_update repr ''resolved-assignments'' (Some e) d = Ok d'"
  shows "aggregate_resolved_assignments repr d = Ok (the (map_of d' (policy_key ''resolved-assignments'')))"
proof -
  have k: "policy_key ''resolved-assignments'' = RESOLVED_ASSIGNMENTS_KEY" "\<not> is_policy_key RESOLVED_ASSIGNMENTS_KEY"
    by (simp_all add: policy_key_def RESOLVED_ASSIGNMENTS_KEY_def is_policy_key_def)
  from assms show ?thesis
    by (auto simp: registry_update_def k res_bind_Ok_iff aggregate_resolved_assignments_def collected_dset)
qed

end
