(* ===== verification/Operator.thy ===== *)
theory Operator
  imports Registry
begin

text \<open>
  The handlers of the Kubernetes operator (\<open>operator/handlers.py\<close>). A PowerDomain becomes the
  topology document of its ConfigMap, a PowerPolicy the parameters next to it, a
  JobPowerPolicy an entry of the boost registry; Pod events re-resolve the policies when
  something an assignment depends on has changed. The operator remembers, per Pod, the digest
  it last acted on, and the selectors of the policies for a few seconds. The names that the
  environment may override are at their defaults, and time is an argument.
\<close>

section \<open>Values\<close>

definition py_falsy :: "json \<Rightarrow> bool" where
  "py_falsy v =
     (case v of
        JNull \<Rightarrow> True | JBool b \<Rightarrow> \<not> b | JInt i \<Rightarrow> i = 0 | JFloat r \<Rightarrow> r = 0
      | JStr s \<Rightarrow> s = [] | JList xs \<Rightarrow> xs = [] | JObj d \<Rightarrow> d = [])"

definition or_empty :: "json \<Rightarrow> json" where
  \<comment> \<open>\<open>v or {}\<close>\<close>
  "or_empty v = (if py_falsy v then JObj [] else v)"

definition is_obj :: "json \<Rightarrow> bool" where
  "is_obj v = (case v of JObj _ \<Rightarrow> True | _ \<Rightarrow> False)"

definition equals_int :: "json \<Rightarrow> int \<Rightarrow> bool" where
  \<comment> \<open>\<open>v == n\<close>\<close>
  "equals_int v n =
     (case v of
        JInt i \<Rightarrow> i = n | JFloat r \<Rightarrow> r = of_int n | JBool b \<Rightarrow> (if b then 1 else 0) = n | _ \<Rightarrow> False)"

definition upper_char :: "char \<Rightarrow> char" where
  "upper_char c = (let n = (of_char c :: nat) in if 97 \<le> n \<and> n \<le> 122 then char_of (n - 32) else c)"

definition str_pairs :: "(real \<Rightarrow> string) \<Rightarrow> json \<Rightarrow> (string \<times> string) list res" where
  \<comment> \<open>\<open>sorted((str(key), str(value)) for key, value in v.items())\<close>\<close>
  "str_pairs repr v =
     res_bind (json_items v) (\<lambda>d. Ok (sort (map (\<lambda>p. (fst p, py_str repr (snd p))) d)))"

section \<open>Power domains\<close>

definition domain_map_name :: "string \<Rightarrow> string" where
  "domain_map_name domain_name = ''opendps-topology-'' @ domain_name"

definition build_topology :: "string \<Rightarrow> json list \<Rightarrow> real \<Rightarrow> real \<Rightarrow> json" where
  "build_topology domain_name gpu_indices budget_w overhead_w =
     JObj [(''pdus'', JObj [(''pdu0'', JObj [(''name'', JStr ''pdu0''), (''capacity_w'', JFloat (budget_w * (12/10)))])]),
           (''domains'', JObj [(domain_name, JObj
              [(''name'', JStr domain_name), (''pdu_name'', JStr ''pdu0''), (''gpu_indices'', JList gpu_indices),
               (''budget_w'', JFloat budget_w), (''node_overhead_w'', JFloat overhead_w)])])]"

definition patch_or_create_cm :: "'s kube \<Rightarrow> string \<Rightarrow> string \<Rightarrow> (string, string) dict \<Rightarrow> ('s, unit) op" where
  "patch_or_create_cm kube ns cm_name data s =
     (case kube (Patch_config_map_data ns cm_name data) s of
        (Done, s1) \<Rightarrow> (Inr (), s1)
      | (a, s1) \<Rightarrow>
          if a \<noteq> Api_error 404 then (Inl (unexpected a), s1)
          else (case kube (Create_config_map ns cm_name data) s1 of
                  (Done, s2) \<Rightarrow> (Inr (), s2)
                | (b, s2) \<Rightarrow>
                    if b \<noteq> Api_error 409 then (Inl (unexpected b), s2)
                    else (case kube (Patch_config_map_data ns cm_name data) s2 of
                            (Done, s3) \<Rightarrow> (Inr (), s3)
                          | (c, s3) \<Rightarrow> (Inl (unexpected c), s3))))"

definition upsert_configmap :: "'s kube \<Rightarrow> (real \<Rightarrow> string) \<Rightarrow> string \<Rightarrow> string \<Rightarrow> json \<Rightarrow> ('s, unit) op" where
  "upsert_configmap kube repr ns domain_name topology =
     patch_or_create_cm kube ns (domain_map_name domain_name) [(''topology.json'', json_dumps repr topology)]"

definition on_powerdomain_change ::
    "'s kube \<Rightarrow> (real \<Rightarrow> string) \<Rightarrow> (string, json) dict \<Rightarrow> string \<Rightarrow> string \<Rightarrow> string \<Rightarrow> ('s, (string, json) dict) op" where
  \<comment> \<open>\<open>now\<close> is the formatted time; the value is what the handler patches into the status\<close>
  "on_powerdomain_change kube repr spec name ns now =
     op_bind (op_lift (json_list (dget_or spec ''gpuIndices'' (JList [])))) (\<lambda>gpu_indices.
     op_bind (op_lift (json_float (dget_or spec ''budgetWatts'' (JFloat 1000)))) (\<lambda>budget_w.
     op_bind (op_lift (json_float (dget_or spec ''nodeOverheadWatts'' (JFloat 0)))) (\<lambda>overhead_w.
       if gpu_indices = [] then op_raise (Permanent ''gpuIndices must be non-empty'')
       else if budget_w \<le> 0 then op_raise (Permanent ''budgetWatts must be positive'')
       else op_bind (upsert_configmap kube repr ns name (build_topology name gpu_indices budget_w overhead_w)) (\<lambda>_.
         op_return [(''phase'', JStr ''Active''), (''lastUpdated'', JStr now)]))))"

definition on_powerdomain_delete :: "'s kube \<Rightarrow> string \<Rightarrow> string \<Rightarrow> ('s, unit) op" where
  "on_powerdomain_delete kube name ns s =
     (case kube (Delete_config_map ns (domain_map_name name)) s of
        (Done, s1) \<Rightarrow> (Inr (), s1)
      | (a, s1) \<Rightarrow> if a = Api_error 404 then (Inr (), s1) else (Inl (unexpected a), s1))"

section \<open>Power policies\<close>

definition optional_param :: "(string, json) dict \<Rightarrow> string \<Rightarrow> string \<Rightarrow> (string, json) dict res" where
  "optional_param spec field key =
     (case map_of spec field of
        None \<Rightarrow> Ok []
      | Some v \<Rightarrow> res_bind (json_float v) (\<lambda>w. Ok [(key, JFloat w)]))"

definition policy_params :: "(string, json) dict \<Rightarrow> (string, json) dict res" where
  "policy_params spec =
     res_bind (json_float (dget_or spec ''intervalSeconds'' (JFloat 5))) (\<lambda>interval.
     res_bind (json_float (dget_or spec ''capRaiseRateWattsPerTick'' (JFloat 50))) (\<lambda>rate.
     res_bind (json_float (dget_or spec ''ewmaAlpha'' (JFloat (3/10)))) (\<lambda>alpha.
     res_bind (optional_param spec ''failsafeThresholdWatts'' ''failsafe_threshold_w'') (\<lambda>threshold.
     res_bind (optional_param spec ''failsafeEmergencyCapWatts'' ''failsafe_emergency_cap_w'') (\<lambda>emergency.
     Ok ([(''brain'', dget_or spec ''brain'' (JStr ''prs'')), (''interval_s'', JFloat interval),
          (''cap_raise_rate_w_per_tick'', JFloat rate), (''ewma_alpha'', JFloat alpha)] @ threshold @ emergency))))))"

definition write_domain_params :: "'s kube \<Rightarrow> (real \<Rightarrow> string) \<Rightarrow> string \<Rightarrow> string \<Rightarrow> (string, json) dict \<Rightarrow> ('s, bool) op" where
  "write_domain_params kube repr ns domain_name params s =
     (case kube (Patch_config_map_data ns (domain_map_name domain_name) [(''params.json'', json_dumps repr (JObj params))]) s of
        (Done, s1) \<Rightarrow> (Inr True, s1)
      | (a, s1) \<Rightarrow>
          if a = Api_error 404 then (Inl (Temporary ''create PowerDomain first''), s1) else (Inl (unexpected a), s1))"

definition annotate_domain_configmap :: "'s kube \<Rightarrow> string \<Rightarrow> string \<Rightarrow> (string, string) dict \<Rightarrow> ('s, unit) op" where
  "annotate_domain_configmap kube ns domain_name annotations s =
     (case kube (Patch_config_map_annotations ns (domain_map_name domain_name) annotations) s of
        (Done, s1) \<Rightarrow> (Inr (), s1)
      | (a, s1) \<Rightarrow> if a = Api_error 404 then (Inr (), s1) else (Inl (unexpected a), s1))"

definition on_powerpolicy_change ::
    "'s kube \<Rightarrow> (real \<Rightarrow> string) \<Rightarrow> (string, json) dict \<Rightarrow> string \<Rightarrow> string \<Rightarrow> ('s, (string, json) dict) op" where
  \<comment> \<open>a \<open>brain\<close> that is not a string is outside the model: the resource definition declares it as one\<close>
  "on_powerpolicy_change kube repr spec ns now =
     op_bind (op_lift (getitem spec ''domainRef'')) (\<lambda>ref.
     op_bind (op_lift (policy_params spec)) (\<lambda>params.
     op_bind (op_lift (json_str (ditem params ''brain''))) (\<lambda>brain.
     op_bind (write_domain_params kube repr ns (py_str repr ref) params) (\<lambda>wrote.
     op_bind (annotate_domain_configmap kube ns (py_str repr ref)
                [(''opendps.io/brain'', brain), (''opendps.io/interval'', py_str repr (ditem params ''interval_s''))]) (\<lambda>_.
     op_return [(''active'', JBool wrote), (''lastDecisionTs'', JStr now)])))))"

section \<open>Job power policies\<close>

definition label_selector :: "(real \<Rightarrow> string) \<Rightarrow> (string, json) dict \<Rightarrow> string" where
  "label_selector repr match_labels =
     join '','' (map (\<lambda>p. fst p @ ''='' @ py_str repr (snd p)) (sort_key fst match_labels))"

definition list_matching_pods :: "'s kube \<Rightarrow> (real \<Rightarrow> string) \<Rightarrow> string \<Rightarrow> json \<Rightarrow> ('s, pod list) op" where
  "list_matching_pods kube repr ns match_labels =
     (if py_falsy match_labels then op_return []
      else op_bind (op_lift (json_items match_labels)) (\<lambda>labels s.
        case kube (List_pods ns (Some (label_selector repr labels))) s of
          (Pods pods, s1) \<Rightarrow> (Inr pods, s1)
        | (a, s1) \<Rightarrow>
            if a \<in> set (map Api_error [401, 403, 404, 422]) then (Inl (unexpected a), s1)
            else (Inl (Temporary ''pod list failed''), s1)))"

definition count_matching_pods :: "'s kube \<Rightarrow> (real \<Rightarrow> string) \<Rightarrow> string \<Rightarrow> json \<Rightarrow> ('s, nat) op" where
  "count_matching_pods kube repr ns match_labels =
     op_bind (list_matching_pods kube repr ns match_labels) (\<lambda>pods. op_return (length pods))"

definition policy_entry :: "json \<Rightarrow> real \<Rightarrow> json \<Rightarrow> nat \<Rightarrow> (string, json) dict list \<Rightarrow> json" where
  "policy_entry match_labels boost_pct priority matched resolved =
     JObj [(''matchLabels'', match_labels), (''gpu_boost_pct'', JFloat boost_pct), (''priority'', priority),
           (''matched_pods'', JInt (int matched)), (''assignments'', JList (map JObj resolved)),
           (''schemaVersion'', JInt BOOST_SCHEMA_VERSION)]"

definition reconcile_jobpowerpolicy ::
    "'s kube \<Rightarrow> (real \<Rightarrow> string) \<Rightarrow> json \<Rightarrow> string \<Rightarrow> string \<Rightarrow> json \<Rightarrow> ('s, nat \<times> nat) op" where
  "reconcile_jobpowerpolicy kube repr spec name ns meta =
     (let meta = or_empty meta in
      op_bind (op_lift (json_get spec ''matchLabels'' (JObj []))) (\<lambda>match_labels.
      op_bind (op_lift (res_bind (json_get spec ''gpuBoostPct'' (JFloat 15)) json_float)) (\<lambda>boost_pct.
      op_bind (op_lift (json_get spec ''priorityClass'' (JStr ''normal''))) (\<lambda>priority.
      op_bind (list_matching_pods kube repr ns match_labels) (\<lambda>pods.
      op_bind (op_lift (json_get meta ''uid'' JNull)) (\<lambda>uid.
      op_bind (op_lift (res_bind (json_get meta ''generation'' JNull) (\<lambda>g. if py_falsy g then Ok 0 else json_int g))) (\<lambda>generation.
        let resolved = resolved_assignments pods (if py_falsy uid then [] else py_str repr uid) generation priority boost_pct in
        op_bind (write_boost_registry kube repr ns name
                   (Some (policy_entry match_labels boost_pct priority (length pods) resolved))) (\<lambda>_.
          op_return (length pods, if 0 < boost_pct then length pods else 0)))))))))"

section \<open>The memory of the operator\<close>

type_synonym pod_digest = "json \<times> (string \<times> string) list \<times> json"
type_synonym selector = "(string \<times> string) list"

record 's operator =
  op_world :: 's
  op_digests :: "(string, pod_digest \<times> bool \<times> string) dict"
  op_selectors :: "(string, real \<times> selector list) dict"

definition in_operator :: "'s kube \<Rightarrow> 's operator kube" where
  \<comment> \<open>a request leaves the memory of the operator alone\<close>
  "in_operator kube q st = (case kube q (op_world st) of (a, w) \<Rightarrow> (a, st\<lparr>op_world := w\<rparr>))"

definition invalidate_policy_selector_cache :: "string \<Rightarrow> 's operator \<Rightarrow> 's operator" where
  "invalidate_policy_selector_cache ns st = st\<lparr>op_selectors := dpop ns (op_selectors st)\<rparr>"

definition POLICY_SELECTOR_CACHE_TTL_S :: real where
  "POLICY_SELECTOR_CACHE_TTL_S = 5"

definition policy_selector :: "(real \<Rightarrow> string) \<Rightarrow> json \<Rightarrow> selector option res" where
  "policy_selector repr policy =
     res_bind (json_get policy ''spec'' (JObj [])) (\<lambda>spec.
     res_bind (json_get spec ''matchLabels'' (JObj [])) (\<lambda>sel.
       if py_falsy sel then Ok None else res_bind (str_pairs repr sel) (\<lambda>ps. Ok (Some ps))))"

definition policy_selectors :: "'s kube \<Rightarrow> (real \<Rightarrow> string) \<Rightarrow> string \<Rightarrow> real \<Rightarrow> ('s operator, selector list) op" where
  "policy_selectors kube repr ns now st =
     (let fetch = (case in_operator kube (List_policies ns) st of
          (Policies items, st1) \<Rightarrow>
            (case res_map (policy_selector repr) items of
               Inl e \<Rightarrow> (Inl (Python e), st1)
             | Inr found \<Rightarrow>
                 (let selectors = concat (map (\<lambda>x. case x of None \<Rightarrow> [] | Some sel \<Rightarrow> [sel]) found) in
                  (Inr selectors, st1\<lparr>op_selectors := dset ns (now + POLICY_SELECTOR_CACHE_TTL_S, selectors) (op_selectors st1)\<rparr>)))
        | (a, st1) \<Rightarrow> (Inl (unexpected a), st1)) in
      case map_of (op_selectors st) ns of
        Some (expiry, cached) \<Rightarrow> if now < expiry then (Inr cached, st) else fetch
      | None \<Rightarrow> fetch)"

definition pod_assignment_digest :: "(real \<Rightarrow> string) \<Rightarrow> json \<Rightarrow> pod_digest res" where
  "pod_assignment_digest repr body =
     res_bind (json_get body ''metadata'' JNull) (\<lambda>m.
     res_bind (json_get (or_empty m) ''annotations'' JNull) (\<lambda>annotations.
     res_bind (json_get (or_empty m) ''labels'' JNull) (\<lambda>labels.
     res_bind (json_get body ''spec'' JNull) (\<lambda>spec.
     res_bind (json_get (or_empty annotations) GPU_INDICES_ANNOTATION JNull) (\<lambda>annotation.
     res_bind (str_pairs repr (or_empty labels)) (\<lambda>label_items.
     res_bind (json_get (or_empty spec) ''nodeName'' JNull) (\<lambda>node.
     Ok (annotation, label_items, node))))))))"

definition selects :: "(string, string) dict \<Rightarrow> selector \<Rightarrow> bool" where
  "selects labels selector_items \<longleftrightarrow> list_all (\<lambda>(key, val). map_of labels key = Some val) selector_items"

definition pod_matches_assignment_policy :: "'s kube \<Rightarrow> (real \<Rightarrow> string) \<Rightarrow> json \<Rightarrow> string \<Rightarrow> real \<Rightarrow> ('s operator, bool) op" where
  "pod_matches_assignment_policy kube repr body ns now =
     op_bind (op_lift (pod_assignment_digest repr body)) (\<lambda>(annotation, label_items, node).
       if annotation \<noteq> JNull then op_return True
       else let labels = dmerge [] label_items in
         if labels = [] then op_return False
         else op_bind (policy_selectors kube repr ns now) (\<lambda>selectors. op_return (list_ex (selects labels) selectors)))"

section \<open>Reconciling a namespace\<close>

definition policy_name_key :: "json \<Rightarrow> string res" where
  \<comment> \<open>a name that is not a string is outside the model: names are strings\<close>
  "policy_name_key policy =
     res_bind (json_get policy ''metadata'' (JObj [])) (\<lambda>m. res_bind (json_get m ''name'' (JStr [])) json_str)"

fun reconcile_each :: "'s kube \<Rightarrow> (real \<Rightarrow> string) \<Rightarrow> string \<Rightarrow> (string \<times> json) list \<Rightarrow> ('s, unit) op" where
  "reconcile_each kube repr ns [] = op_return ()"
| "reconcile_each kube repr ns ((name, policy) # ps) =
     (if name = [] then reconcile_each kube repr ns ps
      else op_bind (op_lift (json_get policy ''metadata'' (JObj []))) (\<lambda>meta.
           op_bind (op_lift (json_get policy ''spec'' (JObj []))) (\<lambda>spec.
           op_bind (reconcile_jobpowerpolicy kube repr spec name ns meta) (\<lambda>_.
           reconcile_each kube repr ns ps))))"

definition reconcile_jobpowerpolicies_for_namespace :: "'s kube \<Rightarrow> (real \<Rightarrow> string) \<Rightarrow> string \<Rightarrow> ('s, unit) op" where
  "reconcile_jobpowerpolicies_for_namespace kube repr ns s =
     (case kube (List_policies ns) s of
        (Policies items, s1) \<Rightarrow>
          op_bind (op_lift (res_map policy_name_key items)) (\<lambda>names.
            reconcile_each kube repr ns (sort_key fst (zip names items))) s1
      | (a, s1) \<Rightarrow> (Inl (unexpected a), s1))"

definition on_jobpowerpolicy_change ::
    "'s kube \<Rightarrow> (real \<Rightarrow> string) \<Rightarrow> json \<Rightarrow> string \<Rightarrow> string \<Rightarrow> json \<Rightarrow> ('s operator, (string, json) dict) op" where
  "on_jobpowerpolicy_change kube repr spec name ns meta st =
     op_bind (reconcile_jobpowerpolicy (in_operator kube) repr spec name ns meta) (\<lambda>(matched, active).
       op_return [(''matchedPods'', JInt (int matched)), (''activeBoosts'', JInt (int active))])
     (invalidate_policy_selector_cache ns st)"

definition on_jobpowerpolicy_delete :: "'s kube \<Rightarrow> (real \<Rightarrow> string) \<Rightarrow> string \<Rightarrow> string \<Rightarrow> ('s operator, unit) op" where
  "on_jobpowerpolicy_delete kube repr name ns st =
     write_boost_registry (in_operator kube) repr ns name None (invalidate_policy_selector_cache ns st)"

definition live_uids :: "pod list \<Rightarrow> string list" where
  "live_uids pods = concat (map (\<lambda>p. case pod_uid p of None \<Rightarrow> [] | Some u \<Rightarrow> if u = [] then [] else [u]) pods)"

definition prune_pod_assignment_digests :: "'s kube \<Rightarrow> string \<Rightarrow> ('s operator, unit) op" where
  "prune_pod_assignment_digests kube ns st =
     (case in_operator kube (List_pods ns None) st of
        (Pods pods, st1) \<Rightarrow>
          (Inr (), st1\<lparr>op_digests := filter (\<lambda>(u, (_, _, n)). \<not> (n = ns \<and> u \<notin> set (live_uids pods))) (op_digests st1)\<rparr>)
      | (a, st1) \<Rightarrow> (Inl (unexpected a), st1))"

definition resync_jobpowerpolicy ::
    "'s kube \<Rightarrow> (real \<Rightarrow> string) \<Rightarrow> json \<Rightarrow> string \<Rightarrow> string \<Rightarrow> json \<Rightarrow> json \<Rightarrow> ('s operator, (string, json) dict) op" where
  "resync_jobpowerpolicy kube repr spec name ns status meta =
     op_bind (reconcile_jobpowerpolicy (in_operator kube) repr spec name ns meta) (\<lambda>(matched, active).
     op_bind (prune_pod_assignment_digests kube ns) (\<lambda>_.
     op_bind (op_lift (json_get (or_empty status) ''matchedPods'' JNull)) (\<lambda>m.
     op_bind (op_lift (json_get (or_empty status) ''activeBoosts'' JNull)) (\<lambda>a.
       op_return ((if equals_int m (int matched) then [] else [(''matchedPods'', JInt (int matched))]) @
                  (if equals_int a (int active) then [] else [(''activeBoosts'', JInt (int active))]))))))"

section \<open>Pod events\<close>

definition was_relevant :: "(pod_digest \<times> bool \<times> string) option \<Rightarrow> bool" where
  "was_relevant prev = (case prev of None \<Rightarrow> False | Some (_, relevant, _) \<Rightarrow> relevant)"

definition forget_pod :: "string \<Rightarrow> 's operator \<Rightarrow> 's operator" where
  "forget_pod uid st = st\<lparr>op_digests := dpop uid (op_digests st)\<rparr>"

definition pod_deleted :: "'s kube \<Rightarrow> (real \<Rightarrow> string) \<Rightarrow> json \<Rightarrow> string \<Rightarrow> string \<Rightarrow> real \<Rightarrow> ('s operator, unit) op" where
  \<comment> \<open>the \<open>finally\<close> clause forgets the Pod however the rest ends\<close>
  "pod_deleted kube repr body uid ns now st =
     (case op_bind (pod_matches_assignment_policy kube repr body ns now) (\<lambda>current.
             if current \<or> was_relevant (map_of (op_digests st) uid)
             then reconcile_jobpowerpolicies_for_namespace (in_operator kube) repr ns
             else op_return ()) st of
        (r, st1) \<Rightarrow> (r, forget_pod uid st1))"

definition pod_changed :: "'s kube \<Rightarrow> (real \<Rightarrow> string) \<Rightarrow> json \<Rightarrow> string \<Rightarrow> string \<Rightarrow> real \<Rightarrow> ('s operator, unit) op" where
  "pod_changed kube repr body uid ns now st =
     (let previous = map_of (op_digests st) uid in
      op_bind (op_lift (pod_assignment_digest repr body)) (\<lambda>digest.
        if (case previous of None \<Rightarrow> False | Some (d, _) \<Rightarrow> d = digest) then op_return ()
        else op_bind (pod_matches_assignment_policy kube repr body ns now) (\<lambda>relevant.
             op_bind (if relevant \<or> was_relevant previous
                      then reconcile_jobpowerpolicies_for_namespace (in_operator kube) repr ns
                      else op_return ()) (\<lambda>_ st1.
               (Inr (), st1\<lparr>op_digests := dset uid (digest, relevant, ns) (op_digests st1)\<rparr>)))) st)"

definition event_body :: "json \<Rightarrow> json" where
  "event_body event =
     (case event of
        JObj d \<Rightarrow>
          (let obj = dget_or d ''object'' JNull; b = dget_or d ''body'' JNull in
           if \<not> py_falsy obj then obj else or_empty b)
      | _ \<Rightarrow> JObj [])"

definition event_type :: "(real \<Rightarrow> string) \<Rightarrow> json \<Rightarrow> string" where
  "event_type repr event =
     (case event of
        JObj d \<Rightarrow> (let t = dget_or d ''type'' JNull in if py_falsy t then [] else map upper_char (py_str repr t))
      | _ \<Rightarrow> [])"

definition on_pod_event :: "'s kube \<Rightarrow> (real \<Rightarrow> string) \<Rightarrow> json \<Rightarrow> string \<Rightarrow> real \<Rightarrow> ('s operator, unit) op" where
  "on_pod_event kube repr event ns now st =
     (let body = event_body event in
      if \<not> is_obj body then (Inr (), st)
      else op_bind (op_lift (res_bind (json_get body ''metadata'' JNull) (\<lambda>m. json_get (or_empty m) ''uid'' JNull))) (\<lambda>u.
        if py_falsy u \<or> ns = [] then op_return ()
        else if event_type repr event = ''DELETED'' then pod_deleted kube repr body (py_str repr u) ns now
        else pod_changed kube repr body (py_str repr u) ns now) st)"

end
