(* ===== verification/Publish.thy ===== *)
theory Publish
  imports Operator PriorityConfig
begin

text \<open>
  From the operator to the controllers of the nodes: what the operator writes into the two
  ConfigMaps is what \<open>controller/priority_config.py\<close> and \<open>pdn/model.py\<close> read back.
\<close>

section \<open>Documents with sorted keys\<close>

lemma map_of_sort_json:
  assumes "wf_dict d"
  shows "map_of (sort_key fst (map (\<lambda>p. (fst p, sort_json (snd p))) d)) k = map_option sort_json (map_of d k)"
proof -
  let ?m = "map (\<lambda>p. (fst p, sort_json (snd p))) d"
  have wf: "distinct (map fst ?m)" using assms by (simp add: comp_def)
  then have "distinct (map fst (sort_key fst ?m))" by (simp only: distinct_map distinct_sort set_sort)
  then have "map_of (sort_key fst ?m) = map_of ?m" using wf by (subst map_of_inject_set) (simp_all del: map_map set_map)
  moreover have "map_of ?m k = map_option sort_json (map_of d k)" by (induction d) auto
  ultimately show ?thesis by simp
qed

lemma json_get_sorted:
  "wf_dict d \<Longrightarrow> json_get (sort_json (JObj d)) k dflt = Ok (case map_of d k of None \<Rightarrow> dflt | Some v \<Rightarrow> sort_json v)"
  by (simp add: json_get_def dget_or_def map_of_sort_json split: option.split)

section \<open>Policies and their entries\<close>

record job_policy =
  jp_labels :: json
  jp_boost :: real
  jp_tier :: string
  jp_uid :: string
  jp_generation :: int
  jp_pods :: "pod list"

definition jp_resolved :: "job_policy \<Rightarrow> (string, json) dict list" where
  "jp_resolved p = resolved_assignments (jp_pods p) (jp_uid p) (jp_generation p) (JStr (jp_tier p)) (jp_boost p)"

definition jp_entry :: "job_policy \<Rightarrow> json" where
  "jp_entry p = policy_entry (jp_labels p) (jp_boost p) (JStr (jp_tier p)) (length (jp_pods p)) (jp_resolved p)"

text \<open>A policy the resource definition accepts, whose numbers have a text that reads back.\<close>

definition good_policy :: "(real \<Rightarrow> string) \<Rightarrow> job_policy \<Rightarrow> bool" where
  "good_policy repr p \<longleftrightarrow> jp_tier p \<in> set VALID_TIERS \<and> printable repr (jp_labels p) \<and> printable repr (JFloat (jp_boost p))"

text \<open>Which GPUs of a node a policy gives to its tier.\<close>

definition assigns :: "job_policy \<Rightarrow> string \<Rightarrow> gpu \<Rightarrow> bool" where
  "assigns p node g \<longleftrightarrow>
     node \<noteq> [] \<and> (\<exists>q \<in> set (jp_pods p). \<exists>uid is. pod_uid q = Some uid \<and> uid \<noteq> [] \<and> pod_node_name q = Some node \<and>
        pod_gpu_indices q = Some is \<and> g \<in> set is)"

text \<open>A registry whose policy entries are what the operator wrote for the policies \<open>P\<close>.\<close>

definition registry_of :: "(real \<Rightarrow> string) \<Rightarrow> job_policy list \<Rightarrow> (string, string) dict \<Rightarrow> bool" where
  "registry_of repr P d \<longleftrightarrow>
     wf_dict d \<and>
     (\<forall>k raw. map_of d k = Some raw \<longrightarrow> is_policy_key k \<longrightarrow> (\<exists>p \<in> set P. raw = json_dumps_sorted repr (jp_entry p))) \<and>
     (\<forall>p \<in> set P. \<exists>k. is_policy_key k \<and> map_of d k = Some (json_dumps_sorted repr (jp_entry p)))"

lemma gpu_tokens_nonneg: "gpu_tokens xs = Some is \<Longrightarrow> i \<in> set is \<Longrightarrow> 0 \<le> i"
  by (induction xs arbitrary: "is") (auto simp: gpu_token_def Let_def split: option.splits if_splits sum.splits)

lemma pod_gpu_indices_nonneg: "pod_gpu_indices q = Some is \<Longrightarrow> i \<in> set is \<Longrightarrow> 0 \<le> i"
  using gpu_tokens_nonneg by (auto simp: pod_gpu_indices_def split: json.splits if_splits option.splits)

lemma pod_assignments_iff:
  "a \<in> set (pod_assignments puid gen cls boost q) \<longleftrightarrow>
   (\<exists>uid node is g. pod_uid q = Some uid \<and> uid \<noteq> [] \<and> pod_node_name q = Some node \<and> node \<noteq> [] \<and>
      pod_gpu_indices q = Some is \<and> g \<in> set is \<and> a = assignment_obj puid gen cls boost node uid g)"
  by (cases "pod_uid q"; cases "pod_node_name q"; cases "pod_gpu_indices q") (auto simp: pod_assignments_def)

lemma jp_resolved_iff:
  "a \<in> set (jp_resolved p) \<longleftrightarrow>
   (\<exists>q \<in> set (jp_pods p). \<exists>uid node is g. pod_uid q = Some uid \<and> uid \<noteq> [] \<and> pod_node_name q = Some node \<and> node \<noteq> [] \<and>
      pod_gpu_indices q = Some is \<and> g \<in> set is \<and>
      a = assignment_obj (jp_uid p) (jp_generation p) (JStr (jp_tier p)) (jp_boost p) node uid g)"
  by (simp add: jp_resolved_def resolved_assignments_def pod_assignments_iff)

lemma wf_assignment: "wf_dict (assignment_obj puid gen cls boost node uid g)"
  by (simp add: assignment_obj_def)

lemma printable_entry:
  assumes "good_policy repr p"
  shows "printable repr (jp_entry p)" and "a \<in> set (jp_resolved p) \<Longrightarrow> printable repr (JObj a)"
proof -
  show a: "printable repr (JObj a)" if "a \<in> set (jp_resolved p)" for a
    using that assms unfolding jp_resolved_iff by (auto simp: assignment_obj_def good_policy_def)
  then show "printable repr (jp_entry p)"
    using assms by (auto simp: jp_entry_def policy_entry_def good_policy_def)
qed

lemma entry_assignments_entry:
  assumes "good_policy repr p"
  shows "entry_assignments (json_dumps_sorted repr (jp_entry p)) = Ok (map (\<lambda>a. sort_json (JObj a)) (jp_resolved p))"
proof -
  obtain d where d: "jp_entry p = JObj d" "wf_dict d" "map_of d ''assignments'' = Some (JList (map JObj (jp_resolved p)))"
    by (simp add: jp_entry_def policy_entry_def)
  have "json_loads (json_dumps_sorted repr (jp_entry p)) = Ok (sort_json (JObj d))"
    using json_loads_dumps_sorted [OF printable_entry(1) [OF assms]] d(1) by simp
  then show ?thesis
    using d(2,3) by (simp add: entry_assignments_def json_get_sorted comp_def del: sort_json.simps(2))
      (simp add: filter_True)
qed

lemma sort_json_obj:
  assumes "wf_dict d"
  obtains d' where "sort_json (JObj d) = JObj d'" "wf_dict d'" "\<And>k. map_of d' k = map_option sort_json (map_of d k)"
proof
  show "sort_json (JObj d) = JObj (sort_key fst (map (\<lambda>p. (fst p, sort_json (snd p))) d))" by simp
  have "distinct (map fst (map (\<lambda>p. (fst p, sort_json (snd p))) d))" using assms by (simp add: comp_def)
  then show "wf_dict (sort_key fst (map (\<lambda>p. (fst p, sort_json (snd p))) d))"
    by (simp only: distinct_map distinct_sort set_sort)
qed (rule map_of_sort_json [OF assms])

section \<open>The aggregate as the controller parses it\<close>

definition candidate_of :: "job_policy \<Rightarrow> candidate" where
  "candidate_of p = Candidate (ditem TIER_RANK (jp_tier p)) (jp_boost p) (jp_tier p)"

lemma parse_published:
  assumes p: "good_policy repr p" and a: "a \<in> set (jp_resolved p)"
  obtains node' g where "assigns p node' g"
    "parse_assignment node (sort_json (sort_json (JObj a))) = Ok (if node' = node then Some (g, candidate_of p) else None)"
proof -
  from a obtain q uid node' "is" g where q: "q \<in> set (jp_pods p)" "pod_uid q = Some uid" "uid \<noteq> []"
    "pod_node_name q = Some node'" "node' \<noteq> []" "pod_gpu_indices q = Some is" "g \<in> set is"
    and obj: "a = assignment_obj (jp_uid p) (jp_generation p) (JStr (jp_tier p)) (jp_boost p) node' uid g"
    unfolding jp_resolved_iff by blast
  obtain d1 where d1: "sort_json (JObj a) = JObj d1" "wf_dict d1" "\<And>k. map_of d1 k = map_option sort_json (map_of a k)"
    using sort_json_obj [of a] wf_assignment obj by metis
  obtain d2 where d2: "sort_json (JObj d1) = JObj d2" "\<And>k. map_of d2 k = map_option sort_json (map_of d1 k)"
    using sort_json_obj [OF d1(2)] by metis
  have get: "dget_or d2 k JNull = (case map_of a k of None \<Rightarrow> JNull | Some v \<Rightarrow> sort_json (sort_json v))" for k
    by (simp add: dget_or_def d1(3) d2(2) split: option.split)
  have "0 \<le> g" by (rule pod_gpu_indices_nonneg [OF q(6,7)])
  moreover have "jp_tier p \<in> set VALID_TIERS" using p by (simp add: good_policy_def)
  ultimately have "parse_assignment node (JObj d2) = Ok (if node' = node then Some (g, candidate_of p) else None)"
    by (simp add: parse_assignment_def get obj assignment_obj_def gpu_index_of_def tier_of_def boost_of_def candidate_of_def)
  moreover have "assigns p node' g" unfolding assigns_def using q by blast
  ultimately show thesis using that d1(1) d2(1) by simp
qed

lemma published_candidate:
  assumes "good_policy repr p" "assigns p node g"
  shows "\<exists>a \<in> set (jp_resolved p). parse_assignment node (sort_json (sort_json (JObj a))) = Ok (Some (g, candidate_of p))"
proof -
  from assms(2) obtain q uid "is" where q: "q \<in> set (jp_pods p)" "pod_uid q = Some uid" "uid \<noteq> []"
    "pod_node_name q = Some node" "node \<noteq> []" "pod_gpu_indices q = Some is" "g \<in> set is"
    unfolding assigns_def by blast
  let ?a = "assignment_obj (jp_uid p) (jp_generation p) (JStr (jp_tier p)) (jp_boost p) node uid g"
  have a: "?a \<in> set (jp_resolved p)" unfolding jp_resolved_iff using q by blast
  obtain d1 where d1: "sort_json (JObj ?a) = JObj d1" "wf_dict d1" "\<And>k. map_of d1 k = map_option sort_json (map_of ?a k)"
    using sort_json_obj [OF wf_assignment] by metis
  obtain d2 where d2: "sort_json (JObj d1) = JObj d2" "\<And>k. map_of d2 k = map_option sort_json (map_of d1 k)"
    using sort_json_obj [OF d1(2)] by metis
  have get: "dget_or d2 k JNull = (case map_of ?a k of None \<Rightarrow> JNull | Some v \<Rightarrow> sort_json (sort_json v))" for k
    by (simp add: dget_or_def d1(3) d2(2) split: option.split)
  have "0 \<le> g" by (rule pod_gpu_indices_nonneg [OF q(6,7)])
  moreover have "jp_tier p \<in> set VALID_TIERS" using assms(1) by (simp add: good_policy_def)
  ultimately have "parse_assignment node (JObj d2) = Ok (Some (g, candidate_of p))"
    by (simp add: parse_assignment_def get assignment_obj_def gpu_index_of_def tier_of_def boost_of_def candidate_of_def)
  with a d1(1) d2(1) show ?thesis by (metis (no_types, lifting))
qed

lemma collected_registry:
  assumes reg: "registry_of repr P d" and good: "\<forall>p \<in> set P. good_policy repr p"
  obtains A where "collected d = Ok A" "\<forall>v. v \<in> set A \<longleftrightarrow> (\<exists>p \<in> set P. \<exists>a \<in> set (jp_resolved p). v = sort_json (JObj a))"
proof -
  let ?L = "filter (\<lambda>(key, raw). is_policy_key key) (sort_key fst d)"
  let ?f = "\<lambda>kr :: string \<times> string. case entry_assignments (snd kr) of Inr vs \<Rightarrow> vs | Inl _ \<Rightarrow> []"
  have wf: "wf_dict d" using reg by (simp add: registry_of_def)
  have L: "\<exists>p \<in> set P. snd kr = json_dumps_sorted repr (jp_entry p)" if "kr \<in> set ?L" for kr
  proof -
    obtain key raw where kr: "kr = (key, raw)" by (rule prod.exhaust)
    with that have "is_policy_key key" "(key, raw) \<in> set d" by simp_all
    with reg kr show ?thesis using map_of_is_SomeI [OF wf] unfolding registry_of_def by (metis snd_conv)
  qed
  have "res_map (\<lambda>(key, raw). entry_assignments raw) ?L = Ok (map ?f ?L)"
  proof (rule res_map_total)
    fix kr assume "kr \<in> set ?L"
    from L [OF this] obtain p where "p \<in> set P" "snd kr = json_dumps_sorted repr (jp_entry p)" by blast
    then show "(case kr of (key, raw) \<Rightarrow> entry_assignments raw) = Ok (?f kr)"
      using entry_assignments_entry good by (cases kr) simp
  qed
  then have "collected d = Ok (concat (map ?f ?L))" by (simp only: collected_def res_bind_simps)
  moreover have "v \<in> set (concat (map ?f ?L)) \<longleftrightarrow> (\<exists>p \<in> set P. \<exists>a \<in> set (jp_resolved p). v = sort_json (JObj a))" for v
  proof
    assume "v \<in> set (concat (map ?f ?L))"
    then obtain kr where kr: "kr \<in> set ?L" "v \<in> set (?f kr)" unfolding set_concat set_map by blast
    from L [OF kr(1)] obtain p where "p \<in> set P" "snd kr = json_dumps_sorted repr (jp_entry p)" by blast
    with kr(2) show "\<exists>p \<in> set P. \<exists>a \<in> set (jp_resolved p). v = sort_json (JObj a)"
      using entry_assignments_entry good by (auto simp del: sort_json.simps(2))
  next
    assume "\<exists>p \<in> set P. \<exists>a \<in> set (jp_resolved p). v = sort_json (JObj a)"
    then obtain p a where p: "p \<in> set P" "a \<in> set (jp_resolved p)" "v = sort_json (JObj a)" by blast
    with reg obtain k where k: "is_policy_key k" "map_of d k = Some (json_dumps_sorted repr (jp_entry p))"
      unfolding registry_of_def by blast
    then have "(k, json_dumps_sorted repr (jp_entry p)) \<in> set ?L" by (auto dest: map_of_SomeD)
    moreover have "v \<in> set (?f (k, json_dumps_sorted repr (jp_entry p)))"
      using p entry_assignments_entry good by (simp del: sort_json.simps(2))
    ultimately show "v \<in> set (concat (map ?f ?L))" unfolding set_concat set_map by blast
  qed
  ultimately show thesis using that by blast
qed

lemma select_loop_total:
  "\<forall>a \<in> set as. \<exists>r. parse_assignment node a = Ok r \<Longrightarrow> \<exists>m'. select_loop node as m = Ok m'"
proof (induction as arbitrary: m)
  case (Cons a as)
  then obtain r where "parse_assignment node a = Ok r" by auto
  with Cons show ?case by auto
qed simp

lemma parse_aggregate:
  assumes reg: "registry_of repr P d" and good: "\<forall>p \<in> set P. good_policy repr p"
  obtains js as sel where "aggregate_resolved_assignments repr d = Ok js"
    "select_loop node as [] = Ok sel" "parse_config json_loads node (Some js) = Ok (map_ran (\<lambda>g. cand_tier) sel)"
    "\<forall>g c. (g, c) \<in> candidates node as \<longleftrightarrow> (\<exists>p \<in> set P. assigns p node g \<and> c = candidate_of p)"
proof -
  obtain A where A: "collected d = Ok A"
    "\<forall>v. v \<in> set A \<longleftrightarrow> (\<exists>p \<in> set P. \<exists>a \<in> set (jp_resolved p). v = sort_json (JObj a))"
    by (rule collected_registry [OF reg good])
  let ?doc = "aggregate_doc repr A"
  have "printable repr v" if "v \<in> set A" for v
    using that A(2) printable_entry(2) printable_sort good by metis
  then have doc: "printable repr ?doc" by (simp add: aggregate_doc_def)
  let ?js = "json_dumps_sorted repr ?doc"
  have js: "aggregate_resolved_assignments repr d = Ok ?js" by (simp add: aggregate_resolved_assignments_def A(1))
  have loads: "json_loads ?js = Ok (sort_json ?doc)" by (rule json_loads_dumps_sorted [OF doc])
  obtain d' where d': "sort_json ?doc = JObj d'"
    "\<And>k. map_of d' k = map_option sort_json (map_of [(''assignments'', JList (sort_key (value_key repr) A)),
       (''schemaVersion'', JInt BOOST_SCHEMA_VERSION)] k)"
    unfolding aggregate_doc_def by (rule sort_json_obj [where d = "[(''assignments'', JList (sort_key (value_key repr) A)),
       (''schemaVersion'', JInt BOOST_SCHEMA_VERSION)]"]) simp_all
  let ?as = "map sort_json (sort_key (value_key repr) A)"
  have as: "x \<in> set ?as \<longleftrightarrow> (\<exists>p \<in> set P. \<exists>a \<in> set (jp_resolved p). x = sort_json (sort_json (JObj a)))" for x
  proof -
    have "x \<in> set ?as \<longleftrightarrow> (\<exists>v. v \<in> set A \<and> x = sort_json v)" by auto
    then show ?thesis unfolding A(2) [rule_format] by blast
  qed
  have "\<exists>r. parse_assignment node x = Ok r" if "x \<in> set ?as" for x
    using that parse_published good unfolding as by metis
  then obtain sel where sel: "select_loop node ?as [] = Ok sel" using select_loop_total by blast
  have conf: "parse_config json_loads node (Some ?js) = Ok (map_ran (\<lambda>g. cand_tier) sel)"
    unfolding parse_config_def option.case loads res_bind_simps d'(1) json.case
    using sel by (simp add: dget_or_def d'(2) json_is_one_def BOOST_SCHEMA_VERSION_def)
  have "(g, c) \<in> candidates node ?as \<longleftrightarrow> (\<exists>p \<in> set P. assigns p node g \<and> c = candidate_of p)" for g c
  proof
    assume "(g, c) \<in> candidates node ?as"
    then obtain x where x: "x \<in> set ?as" "parse_assignment node x = Ok (Some (g, c))" by (auto simp: candidates_def)
    then obtain p a where p: "p \<in> set P" "a \<in> set (jp_resolved p)" "x = sort_json (sort_json (JObj a))" unfolding as by blast
    from parse_published [OF _ p(2), of repr node] good p(1) obtain node' g' where
      "assigns p node' g'" "parse_assignment node x = Ok (if node' = node then Some (g', candidate_of p) else None)"
      unfolding p(3) by blast
    with x(2) p(1) show "\<exists>p \<in> set P. assigns p node g \<and> c = candidate_of p" by (auto split: if_splits)
  next
    assume "\<exists>p \<in> set P. assigns p node g \<and> c = candidate_of p"
    then obtain p where p: "p \<in> set P" "assigns p node g" "c = candidate_of p" by blast
    with published_candidate good obtain a where "a \<in> set (jp_resolved p)"
      "parse_assignment node (sort_json (sort_json (JObj a))) = Ok (Some (g, c))" by blast
    with p(1) as show "(g, c) \<in> candidates node ?as" unfolding candidates_def by blast
  qed
  with js sel conf that show thesis by blast
qed

text \<open>The tier each GPU of a node has after a poll that reads the aggregate of the registry.\<close>

definition tiers_follow :: "job_policy list \<Rightarrow> string \<Rightarrow> (gpu, string) dict \<Rightarrow> (gpu, string) dict \<Rightarrow> bool" where
  "tiers_follow P node baseline m \<longleftrightarrow>
     (\<forall>g. if \<exists>p \<in> set P. assigns p node g
          then \<exists>p \<in> set P. assigns p node g \<and> map_of m g = Some (jp_tier p) \<and>
                 (\<forall>q \<in> set P. assigns q node g \<longrightarrow> ditem TIER_RANK (jp_tier q) \<le> ditem TIER_RANK (jp_tier p))
          else map_of m g = map_of baseline g)"

lemma published_tiers:
  assumes reg: "registry_of repr P d" and good: "\<forall>p \<in> set P. good_policy repr p"
    and src: "ps_has_api src" "\<not> (version \<noteq> None \<and> version \<noteq> Some [] \<and> version = ps_resource_version src)"
    and agg: "aggregate_resolved_assignments repr d = Ok js"
  shows "\<exists>src' m. poll_config json_loads loadable (Read_map version (Some js)) src = (src', Ok m) \<and>
     m = ps_snapshot src' \<and> tiers_follow P (ps_node_name src) (ps_baseline src) m"
proof -
  obtain js' as sel where agg': "aggregate_resolved_assignments repr d = Ok js'"
    and sel: "select_loop (ps_node_name src) as [] = Ok sel"
    and conf': "parse_config json_loads (ps_node_name src) (Some js') = Ok (map_ran (\<lambda>g. cand_tier) sel)"
    and cands: "\<forall>g c. (g, c) \<in> candidates (ps_node_name src) as \<longleftrightarrow> (\<exists>p \<in> set P. assigns p (ps_node_name src) g \<and> c = candidate_of p)"
    by (rule parse_aggregate [OF reg good, of "ps_node_name src"])
  note cand = cands [rule_format]
  have conf: "parse_config json_loads (ps_node_name src) (Some js) = Ok (map_ran (\<lambda>g. cand_tier) sel)"
    using agg agg' conf' by simp
  let ?m = "dmerge (ps_baseline src) (map_ran (\<lambda>g. cand_tier) sel)"
  have best: "best_of sel (candidates (ps_node_name src) as)"
    using select_loop_best [OF sel, of "{}"] by (simp add: best_of_def)
  have wf: "wf_dict (map_ran (\<lambda>g. cand_tier) sel)" by (rule parse_config_wf [OF conf])
  have "tiers_follow P (ps_node_name src) (ps_baseline src) ?m"
    unfolding tiers_follow_def
  proof
    fix g
    let ?A = "\<lambda>p. assigns p (ps_node_name src) g"
    show "if \<exists>p \<in> set P. ?A p
          then \<exists>p \<in> set P. ?A p \<and> map_of ?m g = Some (jp_tier p) \<and>
                 (\<forall>q \<in> set P. ?A q \<longrightarrow> ditem TIER_RANK (jp_tier q) \<le> ditem TIER_RANK (jp_tier p))
          else map_of ?m g = map_of (ps_baseline src) g"
    proof (cases "\<exists>p \<in> set P. ?A p")
      case True
      then obtain c where c: "map_of sel g = Some c" using best cand unfolding best_of_def by blast
      then have "(g, c) \<in> candidates (ps_node_name src) as"
        and max: "\<And>c'. (g, c') \<in> candidates (ps_node_name src) as \<Longrightarrow> \<not> better c' c"
        using best unfolding best_of_def by blast+
      then obtain p where p: "p \<in> set P" "?A p" "c = candidate_of p" unfolding cand by blast
      have "map_of ?m g = Some (jp_tier p)"
        unfolding map_of_dmerge [OF wf] using c p(3) by (simp add: map_ran_conv candidate_of_def)
      moreover have "ditem TIER_RANK (jp_tier q) \<le> ditem TIER_RANK (jp_tier p)" if "q \<in> set P" "?A q" for q
      proof -
        have "(g, candidate_of q) \<in> candidates (ps_node_name src) as" using that unfolding cand by blast
        from max [OF this] show ?thesis by (auto simp: p(3) candidate_of_def better_def)
      qed
      ultimately show ?thesis using p by auto
    next
      case False
      have "map_of sel g = None"
      proof (cases "map_of sel g")
        case (Some c)
        with best have "(g, c) \<in> candidates (ps_node_name src) as" unfolding best_of_def by blast
        with False show ?thesis unfolding cand by blast
      qed
      then have "map_of ?m g = map_of (ps_baseline src) g"
        unfolding map_of_dmerge [OF wf] by (simp add: map_ran_conv)
      with False show ?thesis by simp
    qed
  qed
  moreover have "poll_config json_loads loadable (Read_map version (Some js)) src
      = (src\<lparr>ps_snapshot := ?m, ps_resource_version := version, ps_reported_unavailable := False\<rparr>, Ok ?m)"
    using src conf by (auto simp: poll_config_def get_api_def poll_read_def)
  ultimately show ?thesis by auto
qed

section \<open>Reconciling a policy\<close>

definition spec_of :: "job_policy \<Rightarrow> json" where
  "spec_of p = JObj [(''matchLabels'', jp_labels p), (''gpuBoostPct'', JFloat (jp_boost p)), (''priorityClass'', JStr (jp_tier p))]"

definition meta_of :: "job_policy \<Rightarrow> json" where
  "meta_of p = JObj [(''uid'', JStr (jp_uid p)), (''generation'', JInt (jp_generation p))]"

lemma policy_key_is: "name \<noteq> ''resolved-assignments'' \<Longrightarrow> is_policy_key (policy_key name) \<and> policy_key name \<noteq> RESOLVED_ASSIGNMENTS_KEY"
proof -
  assume "name \<noteq> ''resolved-assignments''"
  then have "name @ ''.json'' \<noteq> ''resolved-assignments'' @ ''.json''" unfolding append_same_eq .
  then show ?thesis by (simp add: is_policy_key_def policy_key_def ends_with_def RESOLVED_ASSIGNMENTS_KEY_def)
qed

text \<open>Any metadata with the identity of the policy will do: the framework passes more than is read.\<close>

definition identifies :: "json \<Rightarrow> job_policy \<Rightarrow> bool" where
  "identifies meta p \<longleftrightarrow>
     \<not> py_falsy meta \<and> json_get meta ''uid'' JNull = Ok (JStr (jp_uid p)) \<and>
     json_get meta ''generation'' JNull = Ok (JInt (jp_generation p))"

lemma identifies_meta_of: "identifies (meta_of p) p"
  by (simp add: identifies_def meta_of_def py_falsy_def json_get_def)

lemma reconcile_run:
  assumes "identifies meta p" "list_matching_pods kube repr ns (jp_labels p) s = (Inr (jp_pods p), s0)"
  shows "reconcile_jobpowerpolicy kube repr (spec_of p) name ns meta s =
     (case write_boost_registry kube repr ns name (Some (jp_entry p)) s0 of
        (Inl e, t) \<Rightarrow> (Inl e, t)
      | (Inr _, t) \<Rightarrow> (Inr (length (jp_pods p), if 0 < jp_boost p then length (jp_pods p) else 0), t))"
proof -
  have uid: "(if py_falsy (JStr (jp_uid p)) then [] else py_str repr (JStr (jp_uid p))) = jp_uid p"
    by (simp add: py_falsy_def py_str_def)
  have gen: "(if py_falsy (JInt (jp_generation p)) then Ok 0 else json_int (JInt (jp_generation p))) = Ok (jp_generation p)"
    by (simp add: py_falsy_def json_int_def)
  have meta: "or_empty meta = meta" "json_get meta ''uid'' JNull = Ok (JStr (jp_uid p))"
    "json_get meta ''generation'' JNull = Ok (JInt (jp_generation p))"
    using assms(1) by (simp_all add: identifies_def or_empty_def)
  have spec: "json_get (spec_of p) ''matchLabels'' (JObj []) = Ok (jp_labels p)"
    "json_get (spec_of p) ''gpuBoostPct'' (JFloat 15) = Ok (JFloat (jp_boost p))"
    "json_get (spec_of p) ''priorityClass'' (JStr ''normal'') = Ok (JStr (jp_tier p))"
    by (simp_all add: spec_of_def json_get_def)
  show ?thesis
    unfolding reconcile_jobpowerpolicy_def meta Let_def spec
    by (simp add: op_bind_def json_float_def assms(2) uid gen jp_entry_def jp_resolved_def split: prod.split sum.split)
qed

text \<open>Only the entries of policies matter to what a registry holds.\<close>

lemma registry_of_cong:
  assumes "registry_of repr Q d" "wf_dict d'" "\<And>k. is_policy_key k \<Longrightarrow> map_of d' k = map_of d k"
  shows "registry_of repr Q d'"
  unfolding registry_of_def
proof (intro conjI allI impI ballI)
  fix k raw assume "map_of d' k = Some raw" "is_policy_key k"
  with assms(1) assms(3) [of k] show "\<exists>p \<in> set Q. raw = json_dumps_sorted repr (jp_entry p)"
    unfolding registry_of_def by metis
next
  fix p assume "p \<in> set Q"
  with assms(1) obtain k where "is_policy_key k" "map_of d k = Some (json_dumps_sorted repr (jp_entry p))"
    unfolding registry_of_def by blast
  with assms(3) [of k] show "\<exists>k. is_policy_key k \<and> map_of d' k = Some (json_dumps_sorted repr (jp_entry p))"
    by (intro exI [of _ k]) simp
qed (fact assms(2))

lemma registry_of_remove:
  assumes upd: "registry_update repr name None d = Ok d'" and wf: "wf_dict d"
    and name: "name \<noteq> ''resolved-assignments''"
    and others: "registry_of repr Q (dpop (policy_key name) d)"
  shows "registry_of repr Q d'"
proof (rule registry_of_cong [OF others wf_registry_update [OF upd wf]])
  fix k assume "is_policy_key k"
  then show "map_of d' k = map_of (dpop (policy_key name) d) k"
    using registry_update_entries [OF upd] policy_key_is [OF name] by (auto simp: is_policy_key_def)
qed

lemma registry_of_update:
  assumes upd: "registry_update repr name (Some (jp_entry p)) d = Ok d'" and wf: "wf_dict d"
    and name: "name \<noteq> ''resolved-assignments''"
    and others: "registry_of repr Q (dpop (policy_key name) d)"
  shows "registry_of repr (p # Q) d'"
proof -
  note key = policy_key_is [OF name]
  have m: "map_of d' k = (if k = policy_key name then Some (json_dumps_sorted repr (jp_entry p)) else map_of d k)"
    if "is_policy_key k" for k
    using registry_update_entries [OF upd] key that by (auto simp: is_policy_key_def)
  show ?thesis
    unfolding registry_of_def
  proof (intro conjI allI impI ballI)
    show "wf_dict d'" by (rule wf_registry_update [OF upd wf])
  next
    fix k raw assume "map_of d' k = Some raw" "is_policy_key k"
    with m [of k] others show "\<exists>q \<in> set (p # Q). raw = json_dumps_sorted repr (jp_entry q)"
      unfolding registry_of_def by (auto split: if_splits)
  next
    fix q assume "q \<in> set (p # Q)"
    show "\<exists>k. is_policy_key k \<and> map_of d' k = Some (json_dumps_sorted repr (jp_entry q))"
    proof (cases "q = p")
      case True
      with m key show ?thesis by (intro exI [of _ "policy_key name"]) simp
    next
      case False
      with \<open>q \<in> set (p # Q)\<close> others obtain k where "is_policy_key k"
        "map_of (dpop (policy_key name) d) k = Some (json_dumps_sorted repr (jp_entry q))"
        unfolding registry_of_def by auto
      with m show ?thesis by (intro exI [of _ k]) (auto split: if_splits)
    qed
  qed
qed

text \<open>The entry of one policy is written or removed, every other entry stays.\<close>

definition entry_replaced :: "(real \<Rightarrow> string) \<Rightarrow> string \<Rightarrow> json option \<Rightarrow> (string, string) dict \<Rightarrow> (string, string) dict \<Rightarrow> bool" where
  "entry_replaced repr name entry d d' \<longleftrightarrow>
     map_of d' (policy_key name) = map_option (json_dumps_sorted repr) entry \<and>
     (\<forall>k. k \<noteq> policy_key name \<longrightarrow> k \<noteq> RESOLVED_ASSIGNMENTS_KEY \<longrightarrow> map_of d' k = map_of d k)"

text \<open>One registry write seen from the nodes: with the policy that is written, if any, next to the
  others, whose entries are the operator's own, a controller that polls the aggregate follows
  them all.\<close>

lemma published_once:
  assumes once: "updated_once view env repr name (map_option jp_entry written) s t" and name: "name \<noteq> ''resolved-assignments''"
    and p: "pred_option (good_policy repr) written"
  shows "\<exists>u w d d' js. env s u \<and> env w t \<and> wf_dict d \<and> contents view u = map_of d \<and> contents view w = map_of d' \<and>
     entry_replaced repr name (map_option jp_entry written) d d' \<and> map_of d' RESOLVED_ASSIGNMENTS_KEY = Some js \<and>
     (\<forall>Q src version. registry_of repr Q (dpop (policy_key name) d) \<longrightarrow> (\<forall>q \<in> set Q. good_policy repr q) \<longrightarrow>
        ps_has_api src \<longrightarrow> version \<noteq> ps_resource_version src \<longrightarrow>
        (\<exists>src' m. poll_config json_loads True (Read_map version (Some js)) src = (src', Ok m) \<and> m = ps_snapshot src' \<and>
           tiers_follow (case written of None \<Rightarrow> Q | Some p \<Rightarrow> p # Q) (ps_node_name src) (ps_baseline src) m))"
proof -
  obtain u w d d' where u: "env s u" "wf_dict d" "map_of d = contents view u"
    "registry_update repr name (map_option jp_entry written) d = Ok d'" "contents view w = map_of d'" "env w t"
    using once unfolding updated_once_def by blast
  obtain js where js: "map_of d' RESOLVED_ASSIGNMENTS_KEY = Some js" "aggregate_resolved_assignments repr d' = Ok js"
    using registry_update_aggregate [OF u(4)] by blast
  have "\<exists>src' m. poll_config json_loads True (Read_map version (Some js)) src = (src', Ok m) \<and> m = ps_snapshot src' \<and>
           tiers_follow (case written of None \<Rightarrow> Q | Some p \<Rightarrow> p # Q) (ps_node_name src) (ps_baseline src) m"
    if Q: "registry_of repr Q (dpop (policy_key name) d)" "\<forall>q \<in> set Q. good_policy repr q" "ps_has_api src"
      "version \<noteq> ps_resource_version src" for Q src version
  proof (rule published_tiers [OF _ _ Q(3) _ js(2)])
    show "registry_of repr (case written of None \<Rightarrow> Q | Some p \<Rightarrow> p # Q) d'"
      using registry_of_update [OF _ u(2) name Q(1)] registry_of_remove [OF _ u(2) name Q(1)] u(4)
      by (cases written) auto
    show "\<forall>q \<in> set (case written of None \<Rightarrow> Q | Some p \<Rightarrow> p # Q). good_policy repr q"
      using p Q(2) by (cases written) auto
  qed (use Q(4) in simp)
  moreover have "entry_replaced repr name (map_option jp_entry written) d d'"
    using registry_update_entries [OF u(4)] policy_key_is [OF name] by (simp add: entry_replaced_def)
  ultimately show ?thesis
    using u js(1) by (intro exI [of _ u] exI [of _ w] exI [of _ d] exI [of _ d'] exI [of _ js]) simp
qed

lemma write_updates_once:
  assumes "cas_server kube ns view env" "write_boost_registry kube repr ns name entry s = (Inr (), t)"
  shows "updated_once view env repr name entry s t"
  using registry_loop_atomic [OF assms(1)] assms(2) unfolding write_boost_registry_def by (metis zero_less_numeral)


definition demo_policy :: job_policy where
  "demo_policy = \<lparr>jp_labels = JObj [(''app'', JStr ''train'')], jp_boost = 15, jp_tier = ''high'', jp_uid = ''p1'',
     jp_generation = 1, jp_pods = busy_pods\<rparr>"

lemma good_demo_policy: "good_policy demo_repr demo_policy"
  by (simp add: good_policy_def demo_policy_def VALID_TIERS_def demo_repr_reads)

lemma demo_assigns: "assigns demo_policy ''n0'' 2"
proof -
  have "pod_gpu_indices (hd busy_pods) = Some [0, 2]"
    by (simp add: pod_gpu_indices_def busy_pods_def GPU_INDICES_ANNOTATION_def gpu_token_def strip_def lstrip_def rstrip_def
        is_ws_def is_digit_def py_int_def sign_of_def digits_of_def digit_val_def Let_def)
  then show ?thesis by (simp add: assigns_def demo_policy_def busy_pods_def)
qed

lemma demo_list: "list_matching_pods busy_kube demo_repr ''ns'' (jp_labels demo_policy) (0, None, []) = (Inr (jp_pods demo_policy), (0, None, []))"
  by (simp add: list_matching_pods_def demo_policy_def py_falsy_def op_bind_def json_items_def busy_kube_def busy_turn_def busy_answer_def)

lemma demo_reconcile:
  "\<exists>counts t. reconcile_jobpowerpolicy busy_kube demo_repr (spec_of demo_policy) ''p'' ''ns'' (meta_of demo_policy) (0, None, [])
     = (Inr counts, t)"
proof -
  let ?text = "json_dumps_sorted demo_repr (jp_entry demo_policy)"
  have "is_policy_key (policy_key ''p'')" using policy_key_is [of "''p''"] by simp
  then have "registry_of demo_repr [demo_policy] [(policy_key ''p'', ?text)]" by (simp add: registry_of_def)
  moreover have "\<forall>p \<in> set [demo_policy]. good_policy demo_repr p" using good_demo_policy by simp
  ultimately obtain js as sel where "aggregate_resolved_assignments demo_repr [(policy_key ''p'', ?text)] = Ok js"
    by (rule parse_aggregate)
  then have "registry_update demo_repr ''p'' (Some (jp_entry demo_policy)) []
      = Ok (dset RESOLVED_ASSIGNMENTS_KEY js [(policy_key ''p'', ?text)])"
    by (simp add: registry_update_def)
  then have "\<exists>t. write_boost_registry busy_kube demo_repr ''ns'' ''p'' (Some (jp_entry demo_policy)) (0, None, []) = (Inr (), t)"
    by (simp add: write_boost_registry_def numeral_3_eq_3 busy_kube_def busy_turn_def busy_answer_def after_write_def)
  then show ?thesis unfolding reconcile_run [OF identifies_meta_of demo_list] by auto
qed


end
