(* ===== verification/OperatorProps.thy ===== *)
theory OperatorProps
  imports Publish
begin

text \<open>
  What the handlers of the operator promise: the topology a PowerDomain publishes is the one the
  controller loads, and no change of a Pod that an assignment depends on is lost.
\<close>

section \<open>The topology of a power domain\<close>

definition writes_data :: "kube_request \<Rightarrow> string \<Rightarrow> string \<Rightarrow> (string, string) dict \<Rightarrow> bool" where
  "writes_data q ns cm data \<longleftrightarrow> q = Patch_config_map_data ns cm data \<or> q = Create_config_map ns cm data"

lemma patch_or_create_calls:
  assumes "patch_or_create_cm (recorded kube) ns cm data (s, calls) = (Inr (), (t, calls'))"
  shows "\<exists>pre q. calls' = pre @ [(q, Done)] \<and> writes_data q ns cm data"
  using assms
  by (auto simp: patch_or_create_cm_def recorded_def writes_data_def split: prod.splits kube_answer.splits if_splits)

definition domain_topology :: "string \<Rightarrow> gpu list \<Rightarrow> watts \<Rightarrow> watts \<Rightarrow> topology" where
  "domain_topology name gs b oh =
     \<lparr>pdus = [(''pdu0'', \<lparr>pdu_name = ''pdu0'', pdu_capacity_w = b * (12/10), pdu_derating = 9/10\<rparr>)],
      domains = [(name, \<lparr>pd_name = name, pd_budget_w = b, pd_gpu_indices = gs, pd_pdu_name = ''pdu0'',
        pd_priority = 0, pd_node_overhead_w = oh, pd_rack_name = None\<rparr>)],
      racks = [], adopted_budget_w = []\<rparr>"

lemma from_dict_built: "from_dict (build_topology name (map JInt gs) b oh) = Ok (domain_topology name gs b oh)"
proof -
  have "res_map json_index (map JInt gs) = Ok gs" by (induction gs) (simp_all add: json_index_def)
  then show ?thesis
    by (simp add: from_dict_def build_topology_def domain_topology_def json_item_def json_get_def json_items_def json_list_def
        json_float_def json_int_def json_str_def json_opt_str_def getitem_def build_entries_def pdu_from_spec_def
        domain_from_spec_def unknown_rack_def)
qed

lemma domain_topology_budget: "domain_budget_w (domain_topology name gs b oh) name = Ok (max 0 (b - oh))"
  by (simp add: domain_budget_w_def domain_topology_def getitem_def rack_for_domain_def)

lemma domain_topology_validate:
  assumes "0 \<le> oh" "oh \<le> b"
  shows "validate_allocation (domain_topology name gs b oh) name caps = Ok (dsum caps \<le> b - oh)"
proof -
  let ?t = "domain_topology name gs b oh"
  have own: "getitem (domains ?t) name = Ok \<lparr>pd_name = name, pd_budget_w = b, pd_gpu_indices = gs, pd_pdu_name = ''pdu0'',
        pd_priority = 0, pd_node_overhead_w = oh, pd_rack_name = None\<rparr>"
    by (simp add: getitem_def domain_topology_def)
  have pdu: "getitem (pdus ?t) ''pdu0'' = Ok \<lparr>pdu_name = ''pdu0'', pdu_capacity_w = b * (12/10), pdu_derating = 9/10\<rparr>"
    by (simp add: getitem_def domain_topology_def)
  have rack: "rack_for_domain ?t name = Ok None" by (simp add: rack_for_domain_def own)
  have peers: "sum_list (map (peer_draw name d x) (domains_on_pdu ?t ''pdu0'')) = x + pd_node_overhead_w d" for d x
    by (simp add: domains_on_pdu_def domain_topology_def peer_draw_def)
  have "\<not> b * (12/10) * (9/10) < dsum caps + oh" if "dsum caps \<le> b - oh"
  proof -
    have "dsum caps + oh \<le> b" using that by simp
    also have "b \<le> b * (12/10) * (9/10)" using assms by simp
    finally show ?thesis by simp
  qed
  moreover have "max 0 (b - oh) = b - oh" using assms by simp
  ultimately show ?thesis
    unfolding validate_allocation_def own res_bind_simps Let_def domain_topology_budget
    by (auto simp: pdu rack peers effective_capacity_w_def not_less)
qed

text \<open>C13. A reconciled PowerDomain reaches the controller: when the handler ends normally the last thing it
  did was to store a text from which the controller loads a well-formed topology with exactly
  this domain, its GPUs and its budget less the overhead; and in that topology the generated
  PDU never rejects an allocation that fits the domain.\<close>

theorem powerdomain_reaches_controller:
  assumes gpus: "dget_or spec ''gpuIndices'' (JList []) = JList (map JInt gs)"
    and budget: "json_float (dget_or spec ''budgetWatts'' (JFloat 1000)) = Ok b"
    and overhead: "json_float (dget_or spec ''nodeOverheadWatts'' (JFloat 0)) = Ok oh"
    and print: "printable repr (build_topology name (map JInt gs) b oh)"
    and run: "on_powerdomain_change (recorded kube) repr spec name ns now (s, []) = (Inr status, (t, calls))"
  shows "gs \<noteq> [] \<and> 0 < b \<and>
    (\<exists>pre q js topo. calls = pre @ [(q, Done)] \<and> writes_data q ns (domain_map_name name) [(''topology.json'', js)] \<and>
       res_bind (json_loads js) from_dict = Ok topo \<and> wf_topology topo \<and> dkeys (domains topo) = [name] \<and>
       pd_gpu_indices (ditem (domains topo) name) = gs \<and> domain_budget_w topo name = Ok (max 0 (b - oh)) \<and>
       (0 \<le> oh \<longrightarrow> oh \<le> b \<longrightarrow> (\<forall>caps. validate_allocation topo name caps = Ok (dsum caps \<le> b - oh))))"
proof -
  let ?doc = "build_topology name (map JInt gs) b oh"
  from run have ok: "gs \<noteq> []" "0 < b"
    and up: "upsert_configmap (recorded kube) repr ns name ?doc (s, []) = (Inr (), (t, calls))"
    by (auto simp: on_powerdomain_change_def gpus budget overhead json_list_def op_bind_Inr_iff op_lift_Inr_iff
        split: if_splits)
  from patch_or_create_calls [OF up [unfolded upsert_configmap_def]]
  obtain pre q where "calls = pre @ [(q, Done)]" "writes_data q ns (domain_map_name name) [(''topology.json'', json_dumps repr ?doc)]"
    by blast
  moreover have "res_bind (json_loads (json_dumps repr ?doc)) from_dict = Ok (domain_topology name gs b oh)"
    by (simp add: json_loads_dumps [OF print] from_dict_built)
  moreover have "wf_topology (domain_topology name gs b oh)" by (simp add: wf_topology_def domain_topology_def unknown_rack_def)
  moreover have "dkeys (domains (domain_topology name gs b oh)) = [name]"
    "pd_gpu_indices (ditem (domains (domain_topology name gs b oh)) name) = gs"
    by (simp_all add: domain_topology_def ditem_def)
  ultimately show ?thesis
    using ok domain_topology_budget [of name gs b oh] domain_topology_validate [of oh b name gs]
    by (intro conjI exI [of _ pre] exI [of _ q] exI [of _ "json_dumps repr ?doc"] exI [of _ "domain_topology name gs b oh"])
      simp_all
qed

definition demo_domain_spec :: "(string, json) dict" where
  "demo_domain_spec = [(''gpuIndices'', JList [JInt 0, JInt 1]), (''budgetWatts'', JFloat 15)]"

lemma demo_printable: "printable demo_repr (build_topology ''d0'' (map JInt [0, 1]) 15 0)"
  by (simp add: build_topology_def demo_repr_reads)

theorem powerdomain_reaches_controller_witness:
  "\<exists>js topo. res_bind (json_loads js) from_dict = Ok topo \<and> domain_budget_w topo ''d0'' = Ok 15 \<and>
     validate_allocation topo ''d0'' [(0, 7), (1, 8)] = Ok True"
proof -
  have spec: "dget_or demo_domain_spec ''gpuIndices'' (JList []) = JList (map JInt [0, 1])"
    "json_float (dget_or demo_domain_spec ''budgetWatts'' (JFloat 1000)) = Ok 15"
    "json_float (dget_or demo_domain_spec ''nodeOverheadWatts'' (JFloat 0)) = Ok 0"
    by (simp_all add: demo_domain_spec_def json_float_def)
  have "on_powerdomain_change (recorded (\<lambda>q s. (Done, s))) demo_repr demo_domain_spec ''d0'' ''ns'' ''now'' ((), [])
      = (Inr [(''phase'', JStr ''Active''), (''lastUpdated'', JStr ''now'')],
         ((), [(Patch_config_map_data ''ns'' (domain_map_name ''d0'')
           [(''topology.json'', json_dumps demo_repr (build_topology ''d0'' (map JInt [0, 1]) 15 0))], Done)]))"
    unfolding on_powerdomain_change_def spec
    by (simp add: json_list_def op_bind_def upsert_configmap_def patch_or_create_cm_def recorded_def)
  from powerdomain_reaches_controller [OF spec demo_printable this]
  obtain js topo where t: "res_bind (json_loads js) from_dict = Ok topo" "domain_budget_w topo ''d0'' = Ok (max 0 (15 - 0))"
    "0 \<le> (0 :: real) \<longrightarrow> 0 \<le> (15 :: real) \<longrightarrow> (\<forall>caps. validate_allocation topo ''d0'' caps = Ok (dsum caps \<le> 15 - 0))"
    by (elim exE conjE)
  then have "validate_allocation topo ''d0'' [(0, 7), (1, 8)] = Ok True" by simp
  with t(1,2) show ?thesis by (intro exI [of _ js] exI [of _ topo]) simp
qed

section \<open>Pod events\<close>

text \<open>Requests leave the digests alone, and so do all the operations made of requests.\<close>

definition keeps_digests :: "('s operator, 'a) op \<Rightarrow> bool" where
  "keeps_digests m \<longleftrightarrow> (\<forall>st. op_digests (snd (m st)) = op_digests st)"

named_theorems keeps

lemma keepsD: "keeps_digests m \<Longrightarrow> m st = (r, st') \<Longrightarrow> op_digests st' = op_digests st"
  by (metis keeps_digests_def snd_conv)

lemma keeps_basic [keeps]:
  "keeps_digests (op_return x)" "keeps_digests (op_raise e)" "keeps_digests (op_lift r)"
  by (auto simp: keeps_digests_def op_lift_def split: sum.split)

lemma keeps_bind [keeps]:
  assumes "keeps_digests m" "\<And>x. keeps_digests (f x)"
  shows "keeps_digests (op_bind m f)"
  using assms by (auto simp: keeps_digests_def op_bind_def split: prod.split sum.split) (metis snd_conv)+

lemma keeps_if [keeps]: "keeps_digests m \<Longrightarrow> keeps_digests m' \<Longrightarrow> keeps_digests (if b then m else m')"
  by simp

lemma in_operator_digests [simp]: "op_digests (snd (in_operator kube q st)) = op_digests st"
  by (simp add: in_operator_def split: prod.split)

lemma in_operator_digestsD: "in_operator kube q st = (a, st') \<Longrightarrow> op_digests st' = op_digests st"
  using in_operator_digests [of kube q st] by simp

lemma keeps_registry [keeps]: "keeps_digests (registry_loop n (in_operator kube) repr ns name entry)"
proof (induction n)
  case (Suc n)
  then show ?case
    unfolding keeps_digests_def
    by (auto simp: after_write_def Let_def split: prod.split kube_answer.split sum.split dest!: in_operator_digestsD)
qed (simp add: keeps_digests_def)

lemma keeps_write [keeps]: "keeps_digests (write_boost_registry (in_operator kube) repr ns name entry)"
  unfolding write_boost_registry_def by (rule keeps_registry)

lemma keeps_list [keeps]: "keeps_digests (list_matching_pods (in_operator kube) repr ns labels)"
proof -
  have "keeps_digests (\<lambda>s. case in_operator kube (List_pods ns (Some (label_selector repr d))) s of
          (Pods pods, s1) \<Rightarrow> (Inr pods, s1)
        | (a, s1) \<Rightarrow>
            if a \<in> set (map Api_error [401, 403, 404, 422]) then (Inl (unexpected a), s1)
            else (Inl (Temporary ''pod list failed''), s1))" for d
    unfolding keeps_digests_def
    by (auto split: prod.split kube_answer.split dest!: in_operator_digestsD)
  then show ?thesis unfolding list_matching_pods_def by (intro keeps)
qed

lemma keeps_reconcile [keeps]: "keeps_digests (reconcile_jobpowerpolicy (in_operator kube) repr spec name ns meta)"
  unfolding reconcile_jobpowerpolicy_def Let_def by (intro keeps)

lemma keeps_reconcile_each [keeps]: "keeps_digests (reconcile_each (in_operator kube) repr ns ps)"
proof (induction ps)
  case (Cons p ps)
  then show ?case by (cases p) (simp, intro conjI impI keeps)
qed (simp add: keeps_digests_def)

lemma keeps_reconcile_namespace [keeps]:
  "keeps_digests (reconcile_jobpowerpolicies_for_namespace (in_operator kube) repr ns)"
proof -
  have k: "keeps_digests (op_bind (op_lift (res_map policy_name_key items)) (\<lambda>names.
            reconcile_each (in_operator kube) repr ns (sort_key fst (zip names items))))" for items
    by (intro keeps)
  show ?thesis
    unfolding keeps_digests_def reconcile_jobpowerpolicies_for_namespace_def
    using k [unfolded keeps_digests_def]
    by (auto split: prod.split kube_answer.split dest!: in_operator_digestsD)
qed

lemma keeps_selectors [keeps]: "keeps_digests (policy_selectors kube repr ns now)"
  unfolding keeps_digests_def policy_selectors_def Let_def
  by (auto split: prod.split kube_answer.split sum.split option.split dest!: in_operator_digestsD)

lemma keeps_matches [keeps]: "keeps_digests (pod_matches_assignment_policy kube repr body ns now)"
  unfolding pod_matches_assignment_policy_def Let_def split_def by (intro keeps)

text \<open>C8. No change of a Pod is lost. An event whose body has the digest the operator last acted on does
  nothing; any other event either ends with the digest recorded, and then every policy of the
  namespace was reconciled if the Pod matches one now or did before, or it raises and leaves
  the recorded digest as it was, so that the next event of the Pod is handled again. A deleted
  Pod is forgotten however the handler ends.\<close>

theorem pod_event_not_lost:
  assumes body: "event_body event = JObj d"
    and uid: "res_bind (json_get (JObj d) ''metadata'' JNull) (\<lambda>m. json_get (or_empty m) ''uid'' JNull) = Ok (JStr uid)"
    and known: "uid \<noteq> []" "ns \<noteq> []"
    and dg: "pod_assignment_digest repr (JObj d) = Ok digest"
    and ev: "on_pod_event kube repr event ns now st = (r, st')"
  shows "(event_type repr event = ''DELETED'' \<longrightarrow> map_of (op_digests st') uid = None) \<and>
    (event_type repr event \<noteq> ''DELETED'' \<longrightarrow>
       ((\<exists>x. map_of (op_digests st) uid = Some (digest, x)) \<longrightarrow> r = Inr () \<and> st' = st) \<and>
       ((\<nexists>x. map_of (op_digests st) uid = Some (digest, x)) \<longrightarrow>
          (r \<noteq> Inr () \<longrightarrow> op_digests st' = op_digests st) \<and>
          (r = Inr () \<longrightarrow> (\<exists>relevant st1 st2. pod_matches_assignment_policy kube repr (JObj d) ns now st = (Inr relevant, st1) \<and>
             (if relevant \<or> was_relevant (map_of (op_digests st) uid)
              then reconcile_jobpowerpolicies_for_namespace (in_operator kube) repr ns st1 = (Inr (), st2)
              else st2 = st1) \<and>
             st' = st2\<lparr>op_digests := dset uid (digest, relevant, ns) (op_digests st)\<rparr>))))"
proof -
  have run: "(if event_type repr event = ''DELETED'' then pod_deleted kube repr (JObj d) uid ns now
      else pod_changed kube repr (JObj d) uid ns now) st = (r, st')"
    using ev known unfolding on_pod_event_def Let_def body uid
    by (simp add: is_obj_def op_bind_def py_falsy_def py_str_def split: if_split_asm)
  have del: "map_of (op_digests st') uid = None" if "event_type repr event = ''DELETED''"
    using run that by (auto simp: pod_deleted_def forget_pod_def split: prod.splits)
  let ?prev = "map_of (op_digests st) uid"
  let ?M = "pod_matches_assignment_policy kube repr (JObj d) ns now"
  let ?R = "reconcile_jobpowerpolicies_for_namespace (in_operator kube) repr ns"
  have same: "r = Inr () \<and> st' = st"
    if "event_type repr event \<noteq> ''DELETED''" "?prev = Some (digest, x)" for x
    using run that by (simp add: pod_changed_def dg op_bind_def)
  have new: "(r \<noteq> Inr () \<longrightarrow> op_digests st' = op_digests st) \<and>
      (r = Inr () \<longrightarrow> (\<exists>relevant st1 st2. ?M st = (Inr relevant, st1) \<and>
         (if relevant \<or> was_relevant ?prev then ?R st1 = (Inr (), st2) else st2 = st1) \<and>
         st' = st2\<lparr>op_digests := dset uid (digest, relevant, ns) (op_digests st)\<rparr>))"
    if ty: "event_type repr event \<noteq> ''DELETED''" and nx: "\<nexists>x. ?prev = Some (digest, x)"
  proof -
    have "\<not> (case ?prev of None \<Rightarrow> False | Some (d, _) \<Rightarrow> d = digest)" using nx by (auto split: option.splits)
    with run ty have run': "op_bind ?M (\<lambda>relevant.
        op_bind (if relevant \<or> was_relevant ?prev then ?R else op_return ()) (\<lambda>_ st1.
          (Inr (), st1\<lparr>op_digests := dset uid (digest, relevant, ns) (op_digests st1)\<rparr>))) st = (r, st')"
      by (simp add: pod_changed_def dg op_bind_def)
    obtain m st1 where m: "?M st = (m, st1)" by (rule prod.exhaust)
    have k1: "op_digests st1 = op_digests st" by (rule keepsD [OF keeps_matches m])
    show ?thesis
    proof (cases m)
      case (Inl e)
      with run' m k1 show ?thesis by (auto simp: op_bind_def)
    next
      case (Inr relevant)
      let ?K = "if relevant \<or> was_relevant ?prev then ?R else op_return ()"
      obtain k st2 where k: "?K st1 = (k, st2)" by (rule prod.exhaust)
      have "keeps_digests ?K" by (intro keeps)
      from keepsD [OF this k] have k2: "op_digests st2 = op_digests st" using k1 by simp
      show ?thesis
      proof (cases k)
        case (Inl e)
        with run' m Inr k k2 show ?thesis by (auto simp: op_bind_def)
      next
        case (Inr u)
        with run' m \<open>m = Inr relevant\<close> k k2
        have "r = Inr ()" "st' = st2\<lparr>op_digests := dset uid (digest, relevant, ns) (op_digests st)\<rparr>"
          by (simp_all add: op_bind_def)
        moreover have "if relevant \<or> was_relevant ?prev then ?R st1 = (Inr (), st2) else st2 = st1"
          using k Inr by (auto split: if_splits)
        ultimately show ?thesis using m \<open>m = Inr relevant\<close> by blast
      qed
    qed
  qed
  show ?thesis using del same new by blast
qed

definition demo_event :: json where
  "demo_event = JObj [(''type'', JStr ''Modified''), (''object'', JObj
     [(''metadata'', JObj [(''uid'', JStr ''u1''), (''annotations'', JObj [(GPU_INDICES_ANNOTATION, JStr ''0'')])]),
      (''spec'', JObj [(''nodeName'', JStr ''n0'')])])]"

definition quiet_kube :: "unit kube" where
  "quiet_kube q s = ((case q of List_policies _ \<Rightarrow> Policies [] | _ \<Rightarrow> Api_error 404), s)"

theorem pod_event_not_lost_witness:
  "map_of (op_digests (snd (on_pod_event quiet_kube demo_repr demo_event ''ns'' 0 \<lparr>op_world = (), op_digests = [], op_selectors = []\<rparr>))) ''u1''
   = Some ((JStr ''0'', [], JStr ''n0''), True, ''ns'')"
proof -
  let ?st = "\<lparr>op_world = (), op_digests = [], op_selectors = []\<rparr>"
  let ?b = "[(''metadata'', JObj [(''uid'', JStr ''u1''), (''annotations'', JObj [(GPU_INDICES_ANNOTATION, JStr ''0'')])]),
      (''spec'', JObj [(''nodeName'', JStr ''n0'')])]"
  have body: "event_body demo_event = JObj ?b" by (simp add: event_body_def demo_event_def py_falsy_def)
  have uid: "res_bind (json_get (JObj ?b) ''metadata'' JNull) (\<lambda>m. json_get (or_empty m) ''uid'' JNull) = Ok (JStr ''u1'')"
    by (simp add: json_get_def or_empty_def py_falsy_def)
  have dg: "pod_assignment_digest demo_repr (JObj ?b) = Ok (JStr ''0'', [], JStr ''n0'')"
    by (simp add: pod_assignment_digest_def json_get_def or_empty_def py_falsy_def str_pairs_def json_items_def)
  have ty: "event_type demo_repr demo_event \<noteq> ''DELETED''"
    by (simp add: event_type_def demo_event_def py_falsy_def py_str_def upper_char_def)
  obtain r st' where ev: "on_pod_event quiet_kube demo_repr demo_event ''ns'' 0 ?st = (r, st')" by (rule prod.exhaust)
  have matches: "pod_matches_assignment_policy quiet_kube demo_repr (JObj ?b) ''ns'' 0 ?st = (Inr True, ?st)"
    by (simp add: pod_matches_assignment_policy_def op_bind_def dg)
  have "r = Inr ()"
    using ev ty unfolding on_pod_event_def Let_def body uid
    by (simp add: is_obj_def op_bind_def py_falsy_def py_str_def pod_changed_def dg matches
        reconcile_jobpowerpolicies_for_namespace_def in_operator_def quiet_kube_def)
  with pod_event_not_lost [OF body uid _ _ dg ev] ty matches obtain st2 where
    "st' = st2\<lparr>op_digests := dset ''u1'' ((JStr ''0'', [], JStr ''n0''), True, ''ns'') []\<rparr>" by auto
  then show ?thesis by (simp add: ev)
qed

end
