(* ===== verification/Startup.thy ===== *)
theory Startup
  imports ControllerMain ControlLoop OperatorProps
begin

text \<open>
  What the command lines guarantee about what they start, and how a PowerPolicy reaches a
  controller through the parameter file the operator writes.
\<close>

section \<open>Lemmas\<close>

named_theorems startup

lemma su_bind_Inr_iff [startup]: "su_bind m f = Inr y \<longleftrightarrow> (\<exists>x. m = Inr x \<and> f x = Inr y)"
  by (cases m) (simp_all add: su_bind_def)

lemma su_guard_Inr_iff [startup]: "su_guard bad msg = Inr x \<longleftrightarrow> \<not> bad"
  by (simp add: su_guard_def)

lemma uncaught_Inr_iff [startup]: "uncaught r = Inr x \<longleftrightarrow> r = Ok x"
  by (cases r) (simp_all add: uncaught_def)

lemma usage_on_Inr_iff [startup]: "usage_on caught msg r = Inr x \<longleftrightarrow> r = Ok x"
  by (cases r) (simp_all add: usage_on_def)

lemma read_json_wf: "read_json out path = Ok v \<Longrightarrow> wf_json v"
  by (auto simp: read_json_def json_loads_wf split: file_content.splits)

text \<open>What has succeeded when the controller starts.\<close>

lemma controller_main_steps:
  assumes "controller_main repr out a = Inr st"
  obtains busy hot temp quota dynamic node tiers params rate alpha boost source doc t where
    "sim_only_indices (cl_busy_gpus a) (cl_sim a) = Inr busy" "sim_only_indices (cl_hot_gpus a) (cl_sim a) = Inr hot"
    "0 < temp" "read_json out (cl_config a) = Ok doc" "from_dict doc = Ok t" "load_quota out a = Inr quota"
    "load_tiers repr a dynamic t = Inr tiers" "load_brain_params out (cl_config a) = Ok params"
    "param_or params ''cap_raise_rate_w_per_tick'' (cl_cap_raise_rate a) = Ok rate"
    "param_or params ''ewma_alpha'' (cl_ewma_alpha a) = Ok alpha" "load_boost a params = Inr boost"
    "first_poll out dynamic node tiers = Inr source" "dynamic \<longrightarrow> cl_brain a = ''priority-prs''"
    "cc_brain (sd_config st) = \<lparr>bc_type = cl_brain a, bc_ewma_alpha = alpha, bc_cap_raise_rate = rate, bc_busy_gpus = busy,
       bc_priority_boost = boost, bc_quota = quota, bc_tiers = tiers, bc_has_source = (source \<noteq> None)\<rparr>"
    "make_brain (cc_brain (sd_config st)) t (out_smi out) = Ok (sd_brain st)" "sd_topology st = t" "sd_source st = source"
    "cc_thermal_gpus (sd_config st) = hot" "cc_thermal_temp_c (sd_config st) = temp" "cc_interval_s (sd_config st) = cl_interval a"
  using assms
  unfolding controller_main_def Let_def
  by (auto simp: startup res_bind_Ok_iff not_le split: pyfloat.splits if_split_asm)

lemma sim_only_Inr: "sim_only_indices s sim = Inr gpus \<Longrightarrow> gpus \<noteq> [] \<Longrightarrow> sim"
  by (simp add: sim_only_indices_def startup)

lemma load_quota_Inr:
  assumes "load_quota out a = Inr q"
  shows "(cl_brain a = ''quota-prs'' \<longrightarrow> q \<noteq> None) \<and> (\<forall>c. q = Some c \<longrightarrow> cl_brain a = ''quota-prs'' \<and> (\<exists>data. quota_from_dict data = Ok c))"
  using assms
  by (auto simp: load_quota_def load_quota_config_def startup Let_def res_bind_Ok_iff split: if_split_asm option.splits)

lemma load_tiers_Inr:
  assumes "load_tiers repr a dynamic t = Inr tiers"
  shows "wf_dict tiers \<and> set (dkeys tiers) \<subseteq> set (topology_gpus t) \<and> (cl_brain a \<noteq> ''priority-prs'' \<longrightarrow> tiers = [])"
  using assms
  by (auto simp: load_tiers_def parse_tiers_def startup res_bind_Ok_iff list_all_iff simp del: set_map dkeys_dmerge split: if_split_asm)

lemma load_boost_Inr: "load_boost a params = Inr boost \<Longrightarrow> 0 \<le> boost"
  by (auto simp: load_boost_def startup not_less split: if_split_asm)

lemma first_poll_Inr:
  assumes "first_poll out dynamic node tiers = Inr source" "wf_dict tiers" "valid_tiers tiers" "source = Some s"
  shows "dynamic \<and> source_ok s \<and> ps_baseline s = tiers"
proof -
  let ?s0 = "priority_source_init (the node) tiers False"
  from assms(1,4) obtain m where dyn: "dynamic"
    and p: "poll_config json_loads (out_kube_loadable out) (out_first_read out) ?s0 = (s, Inr m)"
    by (auto simp: first_poll_def startup split: if_split_asm prod.splits sum.splits)
  have "source_ok ?s0" using assms(2,3) by (simp add: source_ok_def priority_source_init_def)
  moreover have step: "poll_step json_loads ?s0 s" using p by (auto simp: poll_step_iff)
  ultimately have "source_ok s" using poll_step_ok by blast
  moreover have "ps_baseline s = ps_baseline ?s0"
    using poll_steps_ok [OF r_into_rtranclp, OF step \<open>source_ok ?s0\<close>] by simp
  ultimately show ?thesis using dyn by (simp add: priority_source_init_def)
qed

lemma make_brain_priority: "make_brain c t smi = Ok br \<Longrightarrow> bc_type c = ''priority-prs'' \<Longrightarrow> valid_tiers (bc_tiers c)"
  by (auto simp: make_brain_def priority_init_def res_bind_Ok_iff split: if_split_asm)

lemma make_brain_quota:
  "make_brain c t smi = Ok br \<Longrightarrow> bc_type c = ''quota-prs'' \<Longrightarrow> bc_quota c = Some q \<Longrightarrow> validate_quota_against_topology q t = Ok ()"
  by (auto simp: make_brain_def res_bind_Ok_iff)

section \<open>Properties\<close>

text \<open>C14. Whatever the controller starts with is well formed: the topology is one whose names and rack
  references resolve; indices that force GPUs busy or hot appear only in simulation; tiers are
  valid and belong to GPUs of the topology; a quota is present exactly for the quota brain, was
  accepted by its parser and fits the topology; the priority source, if any, holds valid tiers
  over the baseline of the command line; and the brain satisfies its invariant, for the quota
  brain provided its PRS parameters are valid.\<close>

theorem controller_starts_well_formed:
  assumes "controller_main repr out a = Inr st"
  defines "bc \<equiv> cc_brain (sd_config st)" and "t \<equiv> sd_topology st"
  shows "wf_topology t \<and> adopted_budget_w t = [] \<and>
    (bc_busy_gpus bc \<noteq> [] \<or> cc_thermal_gpus (sd_config st) \<noteq> [] \<longrightarrow> cl_sim a) \<and>
    0 < cc_thermal_temp_c (sd_config st) \<and> 0 \<le> bc_priority_boost bc \<and>
    set (dkeys (bc_tiers bc)) \<subseteq> set (topology_gpus t) \<and> (bc_tiers bc \<noteq> [] \<longrightarrow> bc_type bc = ''priority-prs'' \<and> valid_tiers (bc_tiers bc)) \<and>
    (bc_type bc = ''quota-prs'' \<longleftrightarrow> bc_quota bc \<noteq> None) \<and>
    (\<forall>q. bc_quota bc = Some q \<longrightarrow> (\<exists>data. quota_from_dict data = Ok q) \<and> validate_quota_against_topology q t = Ok ()) \<and>
    (\<forall>s. sd_source st = Some s \<longrightarrow> bc_type bc = ''priority-prs'' \<and> source_ok s \<and> ps_baseline s = bc_tiers bc) \<and>
    ((bc_type bc = ''quota-prs'' \<longrightarrow> (\<exists>p. default_prs bc = Ok p)) \<longrightarrow> brain_inv (sd_brain st))"
proof -
  obtain busy hot temp quota dynamic node tiers params rate alpha boost source doc t0 where
    steps: "sim_only_indices (cl_busy_gpus a) (cl_sim a) = Inr busy" "sim_only_indices (cl_hot_gpus a) (cl_sim a) = Inr hot"
    "0 < temp" "read_json out (cl_config a) = Ok doc" "from_dict doc = Ok t0" "load_quota out a = Inr quota"
    "load_tiers repr a dynamic t0 = Inr tiers" "load_boost a params = Inr boost"
    "first_poll out dynamic node tiers = Inr source" "dynamic \<longrightarrow> cl_brain a = ''priority-prs''"
    and bc: "bc = \<lparr>bc_type = cl_brain a, bc_ewma_alpha = alpha, bc_cap_raise_rate = rate, bc_busy_gpus = busy,
       bc_priority_boost = boost, bc_quota = quota, bc_tiers = tiers, bc_has_source = (source \<noteq> None)\<rparr>"
    and mk: "make_brain bc t0 (out_smi out) = Ok (sd_brain st)" and t: "t = t0" and src: "sd_source st = source"
    and th: "cc_thermal_gpus (sd_config st) = hot" "cc_thermal_temp_c (sd_config st) = temp"
    unfolding bc_def t_def by (rule controller_main_steps [OF assms(1)])
  have wf: "wf_topology t \<and> adopted_budget_w t = []"
    using from_dict_wf [OF read_json_wf [OF steps(4)] steps(5)] by (simp add: t)
  note tiers = load_tiers_Inr [OF steps(7)]
  note quota = load_quota_Inr [OF steps(6)]
  have valid: "bc_type bc = ''priority-prs'' \<Longrightarrow> valid_tiers tiers" using make_brain_priority [OF mk] by (simp add: bc)
  have source: "bc_type bc = ''priority-prs'' \<and> source_ok s \<and> ps_baseline s = tiers" if "source = Some s" for s
  proof -
    have dyn: "dynamic" using steps(9) that by (auto simp: first_poll_def split: if_split_asm)
    then have ty: "bc_type bc = ''priority-prs''" using steps(10) by (simp add: bc)
    from first_poll_Inr [OF steps(9) _ valid [OF ty] that] tiers ty show ?thesis by simp
  qed
  have inv: "brain_inv (sd_brain st)" if "bc_type bc = ''quota-prs'' \<longrightarrow> (\<exists>p. default_prs bc = Ok p)"
    using make_brain_inv [OF mk] that by blast
  have "\<exists>data. quota_from_dict data = Ok q" "validate_quota_against_topology q t = Ok ()" if "quota = Some q" for q
    using quota that make_brain_quota [OF mk, of q] by (auto simp: bc t)
  note quota_ok = this
  have sel: "bc_type bc = cl_brain a" "bc_busy_gpus bc = busy" "bc_priority_boost bc = boost" "bc_quota bc = quota" "bc_tiers bc = tiers"
    by (simp_all add: bc)
  have sim: "busy \<noteq> [] \<or> hot \<noteq> [] \<longrightarrow> cl_sim a"
    using sim_only_Inr [OF steps(1)] sim_only_Inr [OF steps(2)] by blast
  have tier: "tiers \<noteq> [] \<longrightarrow> bc_type bc = ''priority-prs'' \<and> valid_tiers tiers" using tiers valid sel(1) by auto
  have has_quota: "bc_type bc = ''quota-prs'' \<longleftrightarrow> quota \<noteq> None" using quota sel(1) by auto
  show ?thesis
    unfolding sel(2-) th src
  proof (intro conjI)
    show "wf_topology t" "adopted_budget_w t = []" using wf by simp_all
    show "set (dkeys tiers) \<subseteq> set (topology_gpus t)" using tiers by (simp add: t del: set_map)
    show "\<forall>q. quota = Some q \<longrightarrow> (\<exists>data. quota_from_dict data = Ok q) \<and> validate_quota_against_topology q t = Ok ()"
      using quota_ok by simp
    show "\<forall>s. source = Some s \<longrightarrow> bc_type bc = ''priority-prs'' \<and> source_ok s \<and> ps_baseline s = tiers"
      using source by simp
    show "(bc_type bc = ''quota-prs'' \<longrightarrow> (\<exists>p. default_prs bc = Ok p)) \<longrightarrow> brain_inv (sd_brain st)"
      using inv by simp
  qed (fact sim steps(3) load_boost_Inr [OF steps(8)] tier has_quota)+
qed

definition demo_policy_spec :: "(string, json) dict" where
  "demo_policy_spec = [(''domainRef'', JStr ''d0''), (''capRaiseRateWattsPerTick'', JFloat 15), (''ewmaAlpha'', JFloat 1)]"

definition demo_params :: "(string, json) dict" where
  "demo_params = [(''brain'', JStr ''prs''), (''interval_s'', JFloat 5), (''cap_raise_rate_w_per_tick'', JFloat 15), (''ewma_alpha'', JFloat 1)]"

definition demo_outside :: outside where
  "demo_outside =
     \<lparr>out_files = (\<lambda>p. if p = ''topology.json'' then File_text (json_dumps demo_repr (build_topology ''d0'' (map JInt [0, 1]) 15 0))
         else if p = ''params.json'' then File_text (json_dumps demo_repr (JObj demo_params)) else File_missing),
      out_env = [], out_nvml = False, out_smi = None, out_kube_loadable = False, out_first_read = Read_failed None\<rparr>"

definition demo_cli :: cli where
  "demo_cli = (default_cli ''topology.json'')\<lparr>cl_interval := 3, cl_sim := True, cl_busy_gpus := ''1''\<rparr>"

lemma demo_params_ok:
  "policy_params demo_policy_spec = Ok demo_params" "printable demo_repr (JObj demo_params)"
  "out_files demo_outside (sibling (cl_config demo_cli) ''params.json'') = File_text (json_dumps demo_repr (JObj demo_params))"
  by (simp_all add: policy_params_def demo_policy_spec_def demo_params_def json_float_def optional_param_def demo_repr_reads
      demo_outside_def demo_cli_def default_cli_def sibling_def)

lemma demo_main: "\<exists>st. controller_main demo_repr demo_outside demo_cli = Inr st"
proof -
  have topo: "read_json demo_outside ''topology.json'' = Ok (build_topology ''d0'' (map JInt [0, 1]) 15 0)"
    using json_loads_dumps [OF demo_printable] by (simp add: read_json_def demo_outside_def)
  have par: "load_brain_params demo_outside ''topology.json'' = Ok demo_params"
    using json_loads_dumps [OF demo_params_ok(2)] by (simp add: load_brain_params_def read_json_def demo_outside_def sibling_def)
  have busy: "index_list ''1'' = Ok [1]" "index_list [] = Ok []"
    by (simp_all add: index_list_def strip_def lstrip_def rstrip_def is_ws_def py_int_def sign_of_def digits_of_def is_digit_def
        digit_val_def Let_def)
  have built: "from_dict (build_topology ''d0'' [JInt 0, JInt 1] 15 0) = Ok (domain_topology ''d0'' [0, 1] 15 0)"
    using from_dict_built [of "''d0''" "[0, 1]" 15 0] by simp
  have "\<exists>p. prs_init 200 1 (3/5) (3/10) 15 = Ok p" by (simp add: prs_init_def)
  then obtain p where prs: "prs_init 200 1 (3/5) (3/10) 15 = Ok p" by blast
  show ?thesis
    by (simp add: built prs controller_main_def demo_cli_def default_cli_def su_bind_def sim_only_indices_def busy usage_on_def su_guard_def uncaught_def
        topo par load_quota_def given_def load_tiers_def param_or_def numeric_param_def demo_params_def
        load_boost_def first_poll_def make_brain_def default_prs_def Let_def)
qed

theorem controller_starts_well_formed_witness:
  "\<exists>st. controller_main demo_repr demo_outside demo_cli = Inr st \<and> wf_topology (sd_topology st) \<and> brain_inv (sd_brain st)"
proof -
  obtain st where st: "controller_main demo_repr demo_outside demo_cli = Inr st" using demo_main by blast
  have "bc_type (cc_brain (sd_config st)) = ''prs''"
    by (rule controller_main_steps [OF st]) (simp add: demo_cli_def default_cli_def)
  with controller_starts_well_formed [OF st] st show ?thesis by simp
qed

lemma policy_handler_calls:
  assumes "on_powerpolicy_change (recorded kube) repr spec ns now (s, []) = (Inr status, (t, calls))"
    and "getitem spec ''domainRef'' = Ok (JStr dn)"
  obtains ps q2 answer where "policy_params spec = Ok ps"
    "calls = [(Patch_config_map_data ns (domain_map_name dn) [(''params.json'', json_dumps repr (JObj ps))], Done), (q2, answer)]"
    "map_of status ''active'' = Some (JBool True)"
  using assms
  by (auto simp: on_powerpolicy_change_def op_bind_Inr_iff op_lift_Inr_iff op_return_def write_domain_params_def recorded_def
      annotate_domain_configmap_def py_str_def split: prod.splits kube_answer.splits if_splits)

text \<open>C15. How a PowerPolicy reaches a controller: a handler that ends normally has written the parameters of
  the policy into the ConfigMap of the domain it refers to and reports the policy active; a
  controller that starts with that ConfigMap mounted runs with the policy's raise rate and
  smoothing factor, and with nothing else of it: the brain, the interval and the boost stay
  those of the command line.\<close>

theorem policy_reaches_controller:
  assumes handled: "on_powerpolicy_change (recorded kube) repr spec ns now (s, []) = (Inr status, (t, calls))"
    and ref: "getitem spec ''domainRef'' = Ok (JStr dn)"
    and prn: "\<forall>ps. policy_params spec = Ok ps \<longrightarrow> printable repr (JObj ps)"
    and mounted: "\<forall>js. (Patch_config_map_data ns (domain_map_name dn) [(''params.json'', js)], Done) \<in> set calls \<longrightarrow>
      out_files out (sibling (cl_config a) ''params.json'') = File_text js"
    and run: "controller_main repr out a = Inr st"
  shows "map_of status ''active'' = Some (JBool True) \<and>
    json_float (dget_or spec ''capRaiseRateWattsPerTick'' (JFloat 50)) = Ok (bc_cap_raise_rate (cc_brain (sd_config st))) \<and>
    json_float (dget_or spec ''ewmaAlpha'' (JFloat (3/10))) = Ok (bc_ewma_alpha (cc_brain (sd_config st))) \<and>
    bc_type (cc_brain (sd_config st)) = cl_brain a \<and> cc_interval_s (sd_config st) = cl_interval a \<and>
    bc_priority_boost (cc_brain (sd_config st)) =
      (case cl_priority_boost a of Some b \<Rightarrow> b | None \<Rightarrow> 15/100)"
proof -
  obtain ps q2 answer where par: "policy_params spec = Ok ps" and act: "map_of status ''active'' = Some (JBool True)"
    and calls: "calls = [(Patch_config_map_data ns (domain_map_name dn) [(''params.json'', json_dumps repr (JObj ps))], Done), (q2, answer)]"
    by (rule policy_handler_calls [OF handled ref])
  have fil: "out_files out (sibling (cl_config a) ''params.json'') = File_text (json_dumps repr (JObj ps))"
    using mounted by (simp add: calls)
  obtain params where steps: "load_brain_params out (cl_config a) = Ok params"
      "param_or params ''cap_raise_rate_w_per_tick'' (cl_cap_raise_rate a) = Ok (bc_cap_raise_rate (cc_brain (sd_config st)))"
      "param_or params ''ewma_alpha'' (cl_ewma_alpha a) = Ok (bc_ewma_alpha (cc_brain (sd_config st)))"
      "load_boost a params = Inr (bc_priority_boost (cc_brain (sd_config st)))"
    and cli: "bc_type (cc_brain (sd_config st)) = cl_brain a" "cc_interval_s (sd_config st) = cl_interval a"
    by (rule controller_main_steps [OF run]) simp
  from par obtain i r al th em where
    r: "json_float (dget_or spec ''capRaiseRateWattsPerTick'' (JFloat 50)) = Ok r" and
    al: "json_float (dget_or spec ''ewmaAlpha'' (JFloat (3/10))) = Ok al" and
    opt: "optional_param spec ''failsafeThresholdWatts'' ''failsafe_threshold_w'' = Ok th"
      "optional_param spec ''failsafeEmergencyCapWatts'' ''failsafe_emergency_cap_w'' = Ok em" and
    ps: "ps = [(''brain'', dget_or spec ''brain'' (JStr ''prs'')), (''interval_s'', JFloat i),
      (''cap_raise_rate_w_per_tick'', JFloat r), (''ewma_alpha'', JFloat al)] @ th @ em"
    by (auto simp: policy_params_def res_bind_Ok_iff)
  have "params = ps"
    using steps(1) fil json_loads_dumps prn par by (simp add: load_brain_params_def read_json_def)
  moreover have "dget_or ps ''priority_boost'' v = v" for v
    using opt by (auto simp: ps optional_param_def dget_or_def map_add_def res_bind_Ok_iff split: option.splits)
  ultimately have "bc_cap_raise_rate (cc_brain (sd_config st)) = r" "bc_ewma_alpha (cc_brain (sd_config st)) = al"
    "bc_priority_boost (cc_brain (sd_config st)) = (case cl_priority_boost a of Some b \<Rightarrow> b | None \<Rightarrow> 15/100)"
    using steps(2-4)
    by (auto simp: ps param_or_def numeric_param_def load_boost_def startup split: if_split_asm option.splits)
  with r al cli act show ?thesis by simp
qed

theorem policy_reaches_controller_witness:
  "\<exists>st. controller_main demo_repr demo_outside demo_cli = Inr st \<and> bc_cap_raise_rate (cc_brain (sd_config st)) = 15 \<and>
     bc_ewma_alpha (cc_brain (sd_config st)) = 1 \<and> cc_interval_s (sd_config st) = 3"
proof -
  obtain st where st: "controller_main demo_repr demo_outside demo_cli = Inr st" using demo_main by blast
  let ?c = "Patch_config_map_data ''ns'' ''opendps-topology-d0'' [(''params.json'', json_dumps demo_repr (JObj demo_params))]"
  let ?a = "Patch_config_map_annotations ''ns'' ''opendps-topology-d0'' [(''opendps.io/brain'', ''prs''), (''opendps.io/interval'', ''5.0'')]"
  have "on_powerpolicy_change (recorded (\<lambda>q s. (Done, s))) demo_repr demo_policy_spec ''ns'' ''now'' ((), [])
    = (Inr [(''active'', JBool True), (''lastDecisionTs'', JStr ''now'')], ((), [(?c, Done), (?a, Done)]))"
    unfolding on_powerpolicy_change_def demo_params_ok(1)
    by (simp add: op_bind_def op_lift_def op_return_def getitem_def demo_policy_spec_def demo_params_def ditem_def json_str_def
        write_domain_params_def annotate_domain_configmap_def recorded_def py_str_def domain_map_name_def demo_repr_def)
  moreover have "getitem demo_policy_spec ''domainRef'' = Ok (JStr ''d0'')" by (simp add: demo_policy_spec_def getitem_def)
  ultimately have "json_float (dget_or demo_policy_spec ''capRaiseRateWattsPerTick'' (JFloat 50)) = Ok (bc_cap_raise_rate (cc_brain (sd_config st)))"
    "json_float (dget_or demo_policy_spec ''ewmaAlpha'' (JFloat (3/10))) = Ok (bc_ewma_alpha (cc_brain (sd_config st)))"
    "cc_interval_s (sd_config st) = cl_interval demo_cli"
    using policy_reaches_controller [OF _ _ _ _ st, where dn = "''d0''" and spec = demo_policy_spec] demo_params_ok
    by (fastforce simp: domain_map_name_def)+
  with st show ?thesis by (simp add: demo_policy_spec_def json_float_def demo_cli_def default_cli_def)
qed

end
