(* ===== verification/AgentProps.thy ===== *)
theory AgentProps
  imports Startup
begin

text \<open>
  The node agent (\<open>agent/process.py\<close>) from its command line on: what it starts, and what its
  failsafe thread guarantees next to a control loop that may set any cap at any time.
\<close>

section \<open>What the agent starts\<close>

lemma agent_main_steps:
  assumes "agent_main out a = Inr (f, st)"
  obtains doc t where "read_json out (al_config a) = Ok doc" "from_dict doc = Ok t" "sd_topology st = t"
    "failsafe_init (al_threshold a) (al_emergency_cap a) = Ok f"
    "sd_actuator st = (if al_sim a then Sim_fleet (total_gpu_count t) else Nvml_driver)" "\<not> al_sim a \<longrightarrow> out_nvml out"
    "make_brain (cc_brain (sd_config st)) t (out_smi out) = Ok (sd_brain st)" "bc_type (cc_brain (sd_config st)) = al_brain a"
    "cc_dry_run (sd_config st) = al_dry_run a"
  using assms unfolding agent_main_def Let_def
  by (auto simp: startup res_bind_Ok_iff split: if_splits)

text \<open>The fleet the agent simulates.\<close>

definition simulated_fleet :: "'r rng \<Rightarrow> (int \<Rightarrow> 'r) \<Rightarrow> topology \<Rightarrow> 'r sim" where
  "simulated_fleet rand seeded t = oversub_scenario rand seeded (total_gpu_count t) 1000 (6/10) 42"

lemma simulated_fleet_inv: "good_rng rand \<Longrightarrow> sim_inv (simulated_fleet rand seeded t)"
  using sim_init_ok [of rand 1000 1000] unfolding simulated_fleet_def oversub_scenario_def Let_def
  by (auto intro!: sim_backend_inv)

lemma sim_step_keeps:
  assumes "sim_step rand s s'" "good_rng rand" "sim_inv s"
  shows "sim_inv s' \<and> (\<forall>g. g \<in> set (dkeys s') \<longleftrightarrow> g \<in> set (dkeys s))"
  using sim_steps_inv [of rand s s'] sim_steps_keys [of rand s s'] assms by (simp del: set_map add: r_into_rtranclp)

text \<open>A poll of the simulated fleet, whenever it happens.\<close>

lemma protected_poll:
  assumes run: "(failsafe_run sim_set_power_cap sim_get_power_draw (total_gpu_count t) (sim_step rand))\<^sup>*\<^sup>*
      (0, f0, simulated_fleet rand seeded t) (i, f, s)"
    and poll: "j < total_gpu_count t" "failsafe_poll sim_set_power_cap sim_get_power_draw (int j) (f, s) = (f', s')"
    and rng: "good_rng rand" and init: "failsafe_init threshold emergency = Ok f0" and cap: "0 \<le> emergency"
  shows "(\<exists>d. sim_get_power_draw s' (int j) = Ok d \<and> d \<le> threshold) \<and>
    (\<forall>g c. sim_get_power_cap s g = Ok c \<longrightarrow> (\<exists>c'. sim_get_power_cap s' g = Ok c' \<and> c' \<le> c))"
proof -
  let ?s0 = "simulated_fleet rand seeded t"
  have keeps: "\<And>s s'. sim_step rand s s' \<Longrightarrow> sim_inv s \<Longrightarrow> sim_inv s' \<and> (\<forall>g. g \<in> set (dkeys s') \<longleftrightarrow> g \<in> set (dkeys s))"
    using sim_step_keeps rng by blast
  from sim.run_keeps [OF keeps run simulated_fleet_inv [OF rng]]
  have s: "sim_inv s" "\<And>g. g \<in> set (dkeys s) \<longleftrightarrow> g \<in> set (dkeys ?s0)"
    and f: "fs_threshold f = threshold" "fs_emergency_cap f = emergency" "emergency < threshold"
    using init by (simp_all del: set_map add: failsafe_init_Ok)
  have cfg: "fs_emergency_cap f < fs_threshold f" "0 \<le> fs_emergency_cap f" using f cap by simp_all
  note inv' = sim.poll_inv [OF poll(2) s(1)]
  have known: "int j \<in> set (dkeys s)" using s(2) poll(1) by (simp del: set_map add: simulated_fleet_def oversub_known)
  then obtain d where d: "sim_get_power_draw s' (int j) = Ok d"
    using sim.read_known [of s' "int j"] inv' by (auto simp del: set_map)
  have "d \<le> threshold" using sim.poll_settles [OF poll(2) s(1) cfg known d] f by simp
  moreover have "\<exists>c'. sim_get_power_cap s' g = Ok c' \<and> c' \<le> c" if c: "sim_get_power_cap s g = Ok c" for g c
  proof -
    obtain x where "map_of s g = Some x" using c by (auto simp: sim_get_power_cap_def res_bind_Ok_iff sim_item_Ok)
    then have "g \<in> set (dkeys s')" using inv' map_of_some_key by (metis (full_types))
    then obtain c' where c': "sim_get_power_cap s' g = Ok c'" using sim.read_known [of s' g] inv' by blast
    with sim.poll_lowers [OF poll(2) s(1) cfg c c'] show ?thesis by blast
  qed
  ultimately show ?thesis using d by blast
qed

text \<open>C9. The agent protects its node from the start. It never starts without the failsafe, which has
  the threshold and the emergency cap of the command line, the cap below the threshold; nor with
  a simulated fleet in place of the driver it was asked for: without \<open>--sim\<close> it starts on NVML or
  not at all. Started with \<open>--sim\<close> and an emergency cap that is not negative, whatever the control
  loop has done to the simulated fleet in between, cap by cap and tick by tick, a poll of a GPU
  by the failsafe finds the GPU and leaves it at or below the threshold, and no cap higher than
  before. On NVML the driver decides what a cap does to the draw, and nothing of the kind is
  claimed.\<close>

theorem agent_protects:
  assumes start: "agent_main out a = Inr (f0, st)" and rng: "good_rng rand"
  shows "sd_actuator st = (if al_sim a then Sim_fleet (total_gpu_count (sd_topology st)) else Nvml_driver) \<and>
    (\<not> al_sim a \<longrightarrow> out_nvml out) \<and> wf_topology (sd_topology st) \<and>
    (agent_choices_ok a \<longrightarrow> brain_inv (sd_brain st)) \<and>
    fs_threshold f0 = al_threshold a \<and> fs_emergency_cap f0 = al_emergency_cap a \<and> al_emergency_cap a < al_threshold a \<and>
    (al_sim a \<and> 0 \<le> al_emergency_cap a \<longrightarrow> (\<forall>i f s j f' s'.
       (failsafe_run sim_set_power_cap sim_get_power_draw (total_gpu_count (sd_topology st)) (sim_step rand))\<^sup>*\<^sup>*
         (0, f0, simulated_fleet rand seeded (sd_topology st)) (i, f, s) \<longrightarrow>
       j < total_gpu_count (sd_topology st) \<longrightarrow> failsafe_poll sim_set_power_cap sim_get_power_draw (int j) (f, s) = (f', s') \<longrightarrow>
       (\<exists>d. sim_get_power_draw s' (int j) = Ok d \<and> d \<le> al_threshold a) \<and>
       (\<forall>g c. sim_get_power_cap s g = Ok c \<longrightarrow> (\<exists>c'. sim_get_power_cap s' g = Ok c' \<and> c' \<le> c))))"
proof -
  obtain doc t where m: "read_json out (al_config a) = Ok doc" "from_dict doc = Ok t" "sd_topology st = t"
    "failsafe_init (al_threshold a) (al_emergency_cap a) = Ok f0"
    "sd_actuator st = (if al_sim a then Sim_fleet (total_gpu_count t) else Nvml_driver)" "\<not> al_sim a \<longrightarrow> out_nvml out"
    "make_brain (cc_brain (sd_config st)) t (out_smi out) = Ok (sd_brain st)" "bc_type (cc_brain (sd_config st)) = al_brain a"
    by (rule agent_main_steps [OF start])
  have f0: "fs_threshold f0 = al_threshold a" "fs_emergency_cap f0 = al_emergency_cap a" "al_emergency_cap a < al_threshold a"
    using m(4) by (simp_all add: failsafe_init_Ok)
  have protects: "(\<exists>d. sim_get_power_draw s' (int j) = Ok d \<and> d \<le> al_threshold a) \<and>
      (\<forall>g c. sim_get_power_cap s g = Ok c \<longrightarrow> (\<exists>c'. sim_get_power_cap s' g = Ok c' \<and> c' \<le> c))"
    if run: "(failsafe_run sim_set_power_cap sim_get_power_draw (total_gpu_count (sd_topology st)) (sim_step rand))\<^sup>*\<^sup>*
        (0, f0, simulated_fleet rand seeded (sd_topology st)) (i, f, s)"
      and poll: "j < total_gpu_count (sd_topology st)" "failsafe_poll sim_set_power_cap sim_get_power_draw (int j) (f, s) = (f', s')"
      and cap: "0 \<le> al_emergency_cap a" for i f s j f' s'
    by (rule protected_poll [OF run [unfolded m(3)] poll [unfolded m(3)] rng m(4) cap])
  have "brain_inv (sd_brain st)" if "agent_choices_ok a"
    using make_brain_inv [OF m(7)] that m(8) by (auto simp: agent_choices_ok_def)
  moreover have "wf_topology t" using from_dict_wf [OF read_json_wf [OF m(1)] m(2)] by blast
  ultimately show ?thesis using protects m(3,5,6) f0 by blast
qed

definition demo_agent :: agent_cli where
  "demo_agent = (default_agent_cli ''topology.json'')\<lparr>al_sim := True\<rparr>"

lemma demo_agent_main: "\<exists>f st. agent_main demo_outside demo_agent = Inr (f, st) \<and> total_gpu_count (sd_topology st) = 2"
proof -
  have topo: "read_json demo_outside ''topology.json'' = Ok (build_topology ''d0'' (map JInt [0, 1]) 15 0)"
    using json_loads_dumps [OF demo_printable] by (simp add: read_json_def demo_outside_def)
  have built: "from_dict (build_topology ''d0'' [JInt 0, JInt 1] 15 0) = Ok (domain_topology ''d0'' [0, 1] 15 0)"
    using from_dict_built [of "''d0''" "[0, 1]" 15 0] by simp
  have "\<exists>p. prs_init 200 (3/10) (3/5) (3/10) 0 = Ok p" by (simp add: prs_init_def)
  then obtain p where prs: "prs_init 200 (3/10) (3/5) (3/10) 0 = Ok p" by blast
  show ?thesis
    by (simp add: agent_main_def demo_agent_def default_agent_cli_def su_bind_def uncaught_def topo built failsafe_init_def
        make_brain_def default_prs_def prs Let_def total_gpu_count_def domain_topology_def)
qed

theorem agent_protects_witness:
  "\<exists>st f f' s' d. agent_main demo_outside demo_agent = Inr (f, st) \<and>
     failsafe_poll sim_set_power_cap sim_get_power_draw 1 (f, simulated_fleet half_rng (\<lambda>_. ()) (sd_topology st)) = (f', s') \<and>
     sim_get_power_draw s' 1 = Ok d \<and> d \<le> 1050"
proof -
  obtain f st where st: "agent_main demo_outside demo_agent = Inr (f, st)" "total_gpu_count (sd_topology st) = 2"
    using demo_agent_main by blast
  obtain f' s' where p: "failsafe_poll sim_set_power_cap sim_get_power_draw (int 1) (f, simulated_fleet half_rng (\<lambda>_. ()) (sd_topology st)) = (f', s')"
    by (rule prod.exhaust)
  have args: "0 \<le> al_emergency_cap demo_agent" "al_sim demo_agent" "al_threshold demo_agent = 1050"
    by (simp_all add: demo_agent_def default_agent_cli_def)
  have rng: "good_rng half_rng" by (simp add: good_rng_def half_rng_def)
  have "1 < total_gpu_count (sd_topology st)" using st(2) by simp
  with agent_protects [OF st(1) rng, of "\<lambda>_. ()"] args(1,2) p
  have "\<exists>d. sim_get_power_draw s' (int 1) = Ok d \<and> d \<le> al_threshold demo_agent" by blast
  then obtain d where "sim_get_power_draw s' (int 1) = Ok d" "d \<le> al_threshold demo_agent" by blast
  with st(1) p args(3) show ?thesis by auto
qed

end
