(* ===== verification/Reconcile.thy ===== *)
theory Reconcile
  imports OperatorProps
begin

text \<open>
  Two more paths from the operator to the nodes: a deleted policy leaves them, and reconciling a
  whole namespace, which a relevant Pod event and the start of the operator both do, leaves the
  registry with exactly the entries of the policies there are.
\<close>

section \<open>Deleting a policy\<close>

text \<open>The memory of the operator is not part of the server: what holds of the server holds inside it.\<close>

lemma in_operatorD: "in_operator kube q st = (a, st') \<Longrightarrow> kube q (op_world st) = (a, op_world st')"
  by (auto simp: in_operator_def split: prod.splits)

lemma cas_in_operator:
  fixes kube :: "'s kube"
  assumes "cas_server kube ns view env"
  shows "cas_server (in_operator kube) ns (view \<circ> op_world) (\<lambda>s t. env (op_world s) (op_world t))"
  unfolding cas_server_def
proof (intro conjI)
  have cl: "clients_ok view env" and rd: "reads_ok kube ns view env" and wr: "writes_ok kube ns view env"
    using assms by (simp_all add: cas_server_def)
  show "clients_ok (view \<circ> op_world) (\<lambda>s t. env (op_world s) (op_world t))"
    using cl unfolding clients_ok_def comp_def by blast
  show "reads_ok (in_operator kube) ns (view \<circ> op_world) (\<lambda>s t. env (op_world s) (op_world t))"
    unfolding reads_ok_def
  proof (intro allI impI)
    fix s a t assume "in_operator kube (Read_config_map ns BOOST_CONFIG_MAP_NAME) s = (a, t)"
    from rd [unfolded reads_ok_def, rule_format, OF in_operatorD [OF this]]
    obtain u where "env (op_world s) u" "env u (op_world t)" "a = Api_error 404 \<longrightarrow> view u = None"
      "\<forall>version dat. a = Config_map version dat \<longrightarrow>
         wf_dict (case dat of None \<Rightarrow> [] | Some d \<Rightarrow> d) \<and>
         (\<exists>v. version = Some v \<and> view u = Some (v, map_of (case dat of None \<Rightarrow> [] | Some d \<Rightarrow> d)))"
      by (elim exE conjE)
    then show "\<exists>u :: 's operator. env (op_world s) (op_world u) \<and> env (op_world u) (op_world t) \<and>
      (a = Api_error 404 \<longrightarrow> (view \<circ> op_world) u = None) \<and>
      (\<forall>version dat. a = Config_map version dat \<longrightarrow>
         wf_dict (case dat of None \<Rightarrow> [] | Some d \<Rightarrow> d) \<and>
         (\<exists>v. version = Some v \<and> (view \<circ> op_world) u = Some (v, map_of (case dat of None \<Rightarrow> [] | Some d \<Rightarrow> d))))"
      by (intro exI [of _ "s\<lparr>op_world := u\<rparr>"]) simp
  qed
  show "writes_ok (in_operator kube) ns (view \<circ> op_world) (\<lambda>s t. env (op_world s) (op_world t))"
    unfolding writes_ok_def
  proof (intro conjI allI impI)
    fix s a t v d
    assume "in_operator kube (Replace_config_map ns BOOST_CONFIG_MAP_NAME (Some v) d) s = (a, t)"
    note w = wr [unfolded writes_ok_def, THEN conjunct1, rule_format, OF in_operatorD [OF this]]
    show "a = Done \<Longrightarrow> \<exists>(u :: 's operator) (w :: 's operator) m v'. env (op_world s) (op_world u) \<and> (view \<circ> op_world) u = Some (v, m) \<and>
        (view \<circ> op_world) w = Some (v', map_of d) \<and> env (op_world w) (op_world t)"
    proof -
      assume "a = Done"
      with w obtain u x m v' where "env (op_world s) u" "view u = Some (v, m)" "view x = Some (v', map_of d)" "env x (op_world t)"
        by blast
      then show ?thesis by (intro exI [of _ "s\<lparr>op_world := u\<rparr>"] exI [of _ "s\<lparr>op_world := x\<rparr>"] exI [of _ m] exI [of _ v']) simp
    qed
    show "a = Api_error c \<Longrightarrow> refused_status c \<Longrightarrow> env (op_world s) (op_world t)" for c using w by blast
  next
    fix s a t d
    assume "in_operator kube (Create_config_map ns BOOST_CONFIG_MAP_NAME d) s = (a, t)"
    note w = wr [unfolded writes_ok_def, THEN conjunct2, rule_format, OF in_operatorD [OF this]]
    show "a = Done \<Longrightarrow> \<exists>(u :: 's operator) (w :: 's operator) v'. env (op_world s) (op_world u) \<and> (view \<circ> op_world) u = None \<and>
        (view \<circ> op_world) w = Some (v', map_of d) \<and> env (op_world w) (op_world t)"
    proof -
      assume "a = Done"
      with w obtain u x v' where "env (op_world s) u" "view u = None" "view x = Some (v', map_of d)" "env x (op_world t)"
        by blast
      then show ?thesis by (intro exI [of _ "s\<lparr>op_world := u\<rparr>"] exI [of _ "s\<lparr>op_world := x\<rparr>"] exI [of _ v']) simp
    qed
    show "a = Api_error c \<Longrightarrow> refused_status c \<Longrightarrow> env (op_world s) (op_world t)" for c using w by blast
  qed
qed

lemma contents_in_operator [simp]: "contents (view \<circ> op_world) st = contents view (op_world st)"
  by (simp add: contents_def)

text \<open>C11. A deleted policy leaves the nodes: when its handler ends without an exception, there was a
  moment between the actions of other clients at which the registry held the entries of the
  other policies, unchanged, and no entry of it; if those are the operator's own, a controller
  that polls the aggregate of that moment follows the other policies alone, so that a GPU only
  the deleted policy had assigned is back at its baseline tier.\<close>

theorem deleted_policy_leaves_nodes:
  assumes server: "cas_server kube ns view env" and name: "name \<noteq> ''resolved-assignments''"
    and run: "on_jobpowerpolicy_delete kube repr name ns st = (Inr (), st')"
  shows "\<exists>u w d d' js. env (op_world st) u \<and> env w (op_world st') \<and> wf_dict d \<and> contents view u = map_of d \<and> contents view w = map_of d' \<and>
     entry_replaced repr name None d d' \<and> map_of d' RESOLVED_ASSIGNMENTS_KEY = Some js \<and>
     (\<forall>Q src version. registry_of repr Q (dpop (policy_key name) d) \<longrightarrow> (\<forall>q \<in> set Q. good_policy repr q) \<longrightarrow>
        ps_has_api src \<longrightarrow> version \<noteq> ps_resource_version src \<longrightarrow>
        (\<exists>src' m. poll_config json_loads True (Read_map version (Some js)) src = (src', Ok m) \<and> m = ps_snapshot src' \<and>
           tiers_follow Q (ps_node_name src) (ps_baseline src) m))"
proof -
  let ?st = "invalidate_policy_selector_cache ns st"
  have w: "op_world ?st = op_world st" by (simp add: invalidate_policy_selector_cache_def)
  have "updated_once (view \<circ> op_world) (\<lambda>s t. env (op_world s) (op_world t)) repr name (map_option jp_entry None) ?st st'"
    using write_updates_once [OF cas_in_operator [OF server]] run by (simp add: on_jobpowerpolicy_delete_def)
  from published_once [OF this name] show ?thesis
    unfolding w contents_in_operator option.case option.map by (simp only: option.pred_inject simp_thms) blast
qed

definition held_entry :: "(string, string) dict" where
  "held_entry = [(policy_key ''p'', json_dumps_sorted demo_repr (jp_entry demo_policy))]"

definition held_state :: "busy_server operator" where
  "held_state = \<lparr>op_world = (1, Some held_entry, []), op_digests = [], op_selectors = []\<rparr>"

lemma aggregate_nothing: "aggregate_resolved_assignments repr [] = Ok (json_dumps_sorted repr (aggregate_doc repr []))"
  by (simp add: aggregate_resolved_assignments_def collected_def)

lemma delete_held: "\<exists>st'. on_jobpowerpolicy_delete busy_kube demo_repr ''p'' ''ns'' held_state = (Inr (), st')"
proof -
  have upd: "registry_update demo_repr ''p'' None held_entry
      = Ok [(RESOLVED_ASSIGNMENTS_KEY, json_dumps_sorted demo_repr (aggregate_doc demo_repr []))]"
    by (simp add: registry_update_def held_entry_def aggregate_nothing)
  have "policy_key ''p'' \<noteq> RESOLVED_ASSIGNMENTS_KEY" using policy_key_is [of "''p''"] by simp
  then have "\<not> same_dict [(RESOLVED_ASSIGNMENTS_KEY, json_dumps_sorted demo_repr (aggregate_doc demo_repr []))] held_entry"
    by (simp add: same_dict_def held_entry_def)
  moreover have "wf_dict held_entry" by (simp add: held_entry_def)
  ultimately show ?thesis
    by (simp add: on_jobpowerpolicy_delete_def write_boost_registry_def invalidate_policy_selector_cache_def held_state_def
        in_operator_def numeral_3_eq_3 busy_kube_def busy_turn_def busy_answer_def after_write_def upd held_entry_def [symmetric])
qed

theorem deleted_policy_leaves_nodes_witness:
  "\<exists>js src' m. poll_config json_loads True (Read_map (Some ''v'') (Some js)) (priority_source_init ''n0'' [(2, ''low'')] True) = (src', Ok m) \<and>
     map_of m 2 = Some ''low''"
proof -
  obtain st' where run: "on_jobpowerpolicy_delete busy_kube demo_repr ''p'' ''ns'' held_state = (Inr (), st')"
    using delete_held by blast
  have "''p'' \<noteq> ''resolved-assignments''" by simp
  from deleted_policy_leaves_nodes [OF busy_cas_server this run]
  obtain u d js where u: "busy_env (op_world held_state) u" "wf_dict d" "contents busy_view u = map_of d"
    and next_poll: "\<forall>Q src version. registry_of demo_repr Q (dpop (policy_key ''p'') d) \<longrightarrow> (\<forall>q \<in> set Q. good_policy demo_repr q) \<longrightarrow>
        ps_has_api src \<longrightarrow> version \<noteq> ps_resource_version src \<longrightarrow>
        (\<exists>src' m. poll_config json_loads True (Read_map version (Some js)) src = (src', Ok m) \<and> m = ps_snapshot src' \<and>
           tiers_follow Q (ps_node_name src) (ps_baseline src) m)"
    by (elim exE conjE)
  have "contents busy_view u = map_of held_entry"
    using u(1) by (cases u) (simp add: held_state_def busy_env_def busy_view_def contents_def)
  then have "map_of (dpop (policy_key ''p'') d) = Map.empty"
    using u(3) by (auto simp: fun_eq_iff held_entry_def delete_conv')
  then have "registry_of demo_repr [] (dpop (policy_key ''p'') d)" using u(2) by (simp add: registry_of_def)
  let ?src = "priority_source_init ''n0'' [(2, ''low'')] True"
  have "ps_has_api ?src" "Some ''v'' \<noteq> ps_resource_version ?src" "ps_baseline ?src = [(2, ''low'')]"
    by (simp_all add: priority_source_init_def)
  with next_poll [rule_format, of "[]" ?src "Some ''v''"] \<open>registry_of _ _ _\<close>
  obtain src' m where m: "poll_config json_loads True (Read_map (Some ''v'') (Some js)) ?src = (src', Ok m)"
    "tiers_follow [] (ps_node_name ?src) [(2, ''low'')] m" by auto
  from m(2) have "map_of m 2 = Some ''low''" by (simp add: tiers_follow_def)
  with m(1) show ?thesis by blast
qed

section \<open>Reconciling a namespace\<close>

text \<open>Policies as the server lists them, with their names.\<close>

type_synonym named_policy = "string \<times> job_policy"

definition policy_obj :: "named_policy \<Rightarrow> json" where
  "policy_obj np =
     JObj [(''metadata'', JObj [(''name'', JStr (fst np)), (''uid'', JStr (jp_uid (snd np))), (''generation'', JInt (jp_generation (snd np)))]),
           (''spec'', spec_of (snd np))]"

definition entries_of :: "(real \<Rightarrow> string) \<Rightarrow> named_policy list \<Rightarrow> (string, string) dict" where
  "entries_of repr ps = map (\<lambda>(n, p). (policy_key n, json_dumps_sorted repr (jp_entry p))) ps"

lemma policy_obj_parts:
  "policy_name_key (policy_obj (n, p)) = Ok n"
  "json_get (policy_obj (n, p)) ''spec'' (JObj []) = Ok (spec_of p)"
  "\<exists>meta. json_get (policy_obj (n, p)) ''metadata'' (JObj []) = Ok meta \<and> identifies meta p"
  by (simp_all add: policy_obj_def policy_name_key_def json_get_def json_str_def identifies_def py_falsy_def)

text \<open>Other clients of a namespace: they leave the entries of policies alone.\<close>

definition entries_private :: "'s registry_view \<Rightarrow> ('s \<Rightarrow> 's \<Rightarrow> bool) \<Rightarrow> bool" where
  "entries_private view env \<longleftrightarrow>
     (\<forall>s t k. env s t \<longrightarrow> is_policy_key k \<longrightarrow> contents view t k = contents view s k)"

text \<open>The Pods of the policies stay as they are while the namespace is reconciled.\<close>

definition pods_steady :: "'s kube \<Rightarrow> (real \<Rightarrow> string) \<Rightarrow> string \<Rightarrow> ('s \<Rightarrow> 's \<Rightarrow> bool) \<Rightarrow> job_policy \<Rightarrow> bool" where
  "pods_steady kube repr ns env p \<longleftrightarrow>
     (\<forall>s. \<exists>s'. list_matching_pods kube repr ns (jp_labels p) s = (Inr (jp_pods p), s') \<and> env s s')"

lemma reconcile_one:
  assumes server: "cas_server kube ns view env" and "entries_private view env" and name: "n \<noteq> ''resolved-assignments''"
    and pods: "pods_steady kube repr ns env p" and ids: "identifies meta p"
    and run: "reconcile_jobpowerpolicy kube repr (spec_of p) n ns meta s = (Inr c, t)"
  shows "\<exists>w d'. env w t \<and> wf_dict d' \<and> contents view w = map_of d' \<and>
     (\<exists>js. map_of d' RESOLVED_ASSIGNMENTS_KEY = Some js \<and> aggregate_resolved_assignments repr d' = Ok js) \<and>
     (\<forall>k. is_policy_key k \<longrightarrow> contents view t k =
        (if k = policy_key n then Some (json_dumps_sorted repr (jp_entry p)) else contents view s k))"
proof -
  obtain s0 where s0: "list_matching_pods kube repr ns (jp_labels p) s = (Inr (jp_pods p), s0)" "env s s0"
    using pods unfolding pods_steady_def by blast
  from run have "write_boost_registry kube repr ns n (Some (jp_entry p)) s0 = (Inr (), t)"
    unfolding reconcile_run [OF ids s0(1)] by (auto split: prod.splits sum.splits)
  from write_updates_once [OF server this] obtain u w d d' where
    u: "env s0 u" "wf_dict d" "map_of d = contents view u" "registry_update repr n (Some (jp_entry p)) d = Ok d'"
      "contents view w = map_of d'" "env w t"
    unfolding updated_once_def by blast
  have same: "contents view y k = contents view x k" if "env x y" "is_policy_key k" for x y k
    using assms(2) that unfolding entries_private_def by blast
  have "contents view t k = (if k = policy_key n then Some (json_dumps_sorted repr (jp_entry p)) else contents view s k)"
    if k: "is_policy_key k" for k
  proof -
    have "contents view t k = map_of d' k" using same [OF u(6) k] u(5) by simp
    moreover have "contents view s k = map_of d k" using same [OF s0(2) k] same [OF u(1) k] u(3) by simp
    moreover have "k \<noteq> RESOLVED_ASSIGNMENTS_KEY" using k by (auto simp: is_policy_key_def)
    ultimately show ?thesis using registry_update_entries [OF u(4)] policy_key_is [OF name] by simp
  qed
  then show ?thesis
    using u(5,6) wf_registry_update [OF u(4,2)] registry_update_aggregate [OF u(4)]
    by (intro exI [of _ w] exI [of _ d']) blast
qed

lemma reconcile_all:
  assumes server: "cas_server kube ns view env" and priv: "entries_private view env"
    and names: "distinct (map fst ps)" "\<forall>np \<in> set ps. fst np \<noteq> [] \<and> fst np \<noteq> ''resolved-assignments''"
    and pods: "\<forall>np \<in> set ps. pods_steady kube repr ns env (snd np)"
    and run: "reconcile_each kube repr ns (map (\<lambda>np. (fst np, policy_obj np)) ps) s = (Inr (), t)"
  shows "(\<forall>k. is_policy_key k \<longrightarrow> contents view t k =
           (case map_of (entries_of repr ps) k of Some x \<Rightarrow> Some x | None \<Rightarrow> contents view s k)) \<and>
     (ps \<noteq> [] \<longrightarrow> (\<exists>w d' js. env w t \<and> wf_dict d' \<and> contents view w = map_of d' \<and>
        map_of d' RESOLVED_ASSIGNMENTS_KEY = Some js \<and> aggregate_resolved_assignments repr d' = Ok js))"
  using names pods run
proof (induction ps arbitrary: s)
  case Nil
  then show ?case by (simp add: entries_of_def)
next
  case (Cons np ps)
  obtain n p where np: "np = (n, p)" by (cases np)
  note nm = Cons.prems(2) [rule_format, of np, unfolded np, simplified]
  obtain meta where meta: "json_get (policy_obj (n, p)) ''metadata'' (JObj []) = Ok meta" "identifies meta p"
    using policy_obj_parts(3) by blast
  have "reconcile_each kube repr ns (map (\<lambda>np. (fst np, policy_obj np)) (np # ps)) s =
      op_bind (reconcile_jobpowerpolicy kube repr (spec_of p) n ns meta) (\<lambda>_.
        reconcile_each kube repr ns (map (\<lambda>np. (fst np, policy_obj np)) ps)) s"
    using nm np by (simp add: meta policy_obj_parts(2) op_bind_def)
  from Cons.prems(4) [unfolded this] obtain c s1 where
    one: "reconcile_jobpowerpolicy kube repr (spec_of p) n ns meta s = (Inr c, s1)" and
    rest: "reconcile_each kube repr ns (map (\<lambda>np. (fst np, policy_obj np)) ps) s1 = (Inr (), t)"
    unfolding op_bind_Inr_iff by (elim exE conjE)
  from reconcile_one [OF server priv _ _ meta(2) one] nm Cons.prems(3) np
  obtain w d' js where w: "env w s1" "wf_dict d'" "contents view w = map_of d'"
      "map_of d' RESOLVED_ASSIGNMENTS_KEY = Some js" "aggregate_resolved_assignments repr d' = Ok js"
    and m1: "\<And>k. is_policy_key k \<Longrightarrow> contents view s1 k =
        (if k = policy_key n then Some (json_dumps_sorted repr (jp_entry p)) else contents view s k)"
    by auto
  from Cons.IH [OF _ _ _ rest] Cons.prems(1-3)
  have m: "\<And>k. is_policy_key k \<Longrightarrow> contents view t k =
           (case map_of (entries_of repr ps) k of Some x \<Rightarrow> Some x | None \<Rightarrow> contents view s1 k)"
    and last: "ps \<noteq> [] \<Longrightarrow> \<exists>w d' js. env w t \<and> wf_dict d' \<and> contents view w = map_of d' \<and>
        map_of d' RESOLVED_ASSIGNMENTS_KEY = Some js \<and> aggregate_resolved_assignments repr d' = Ok js"
    by auto
  have "policy_key n \<notin> set (map fst (entries_of repr ps))"
    using Cons.prems(1) np by (force simp: entries_of_def policy_key_def)
  then have own: "map_of (entries_of repr ps) (policy_key n) = None" by (simp only: map_of_eq_None_iff set_map not_False_eq_True)
  have "contents view t k = (case map_of (entries_of repr (np # ps)) k of Some x \<Rightarrow> Some x | None \<Rightarrow> contents view s k)"
    if "is_policy_key k" for k
    using m [OF that] m1 [OF that] own np by (cases "k = policy_key n") (simp_all add: entries_of_def split: option.split)
  moreover have "\<exists>w d' js. env w t \<and> wf_dict d' \<and> contents view w = map_of d' \<and>
        map_of d' RESOLVED_ASSIGNMENTS_KEY = Some js \<and> aggregate_resolved_assignments repr d' = Ok js"
  proof (cases "ps = []")
    case True
    then have "t = s1" using rest by simp
    with w show ?thesis by blast
  qed (rule last)
  ultimately show ?case by blast
qed

lemma sort_key_map: "sort_key f (map g xs) = map g (sort_key (\<lambda>x. f (g x)) xs)"
proof -
  have "insort_key f (g x) (map g ys) = map g (insort_key (\<lambda>x. f (g x)) x ys)" for x ys
    by (induction ys) simp_all
  then show ?thesis by (induction xs) simp_all
qed

lemma entries_registry:
  assumes "distinct (map fst ps)" "\<forall>np \<in> set ps. fst np \<noteq> ''resolved-assignments''" "wf_dict d'"
    and only: "\<And>k. is_policy_key k \<Longrightarrow> map_of d' k = map_of (entries_of repr ps) k"
  shows "registry_of repr (map snd ps) d'"
  unfolding registry_of_def
proof (intro conjI allI impI ballI)
  fix k raw assume "map_of d' k = Some raw" "is_policy_key k"
  then have "(k, raw) \<in> set (entries_of repr ps)" using only by (simp add: map_of_SomeD)
  then show "\<exists>p \<in> set (map snd ps). raw = json_dumps_sorted repr (jp_entry p)" by (force simp: entries_of_def)
next
  fix p assume "p \<in> set (map snd ps)"
  then obtain n where n: "(n, p) \<in> set ps" by auto
  have "distinct (map fst (entries_of repr ps))"
    using assms(1) by (simp add: entries_of_def distinct_map inj_on_def policy_key_def split_beta)
  moreover have "(policy_key n, json_dumps_sorted repr (jp_entry p)) \<in> set (entries_of repr ps)"
    using n by (force simp: entries_of_def)
  ultimately have "map_of (entries_of repr ps) (policy_key n) = Some (json_dumps_sorted repr (jp_entry p))" by simp
  moreover have "is_policy_key (policy_key n)" using assms(2) n policy_key_is by fastforce
  ultimately show "\<exists>k. is_policy_key k \<and> map_of d' k = Some (json_dumps_sorted repr (jp_entry p))"
    using only by (intro exI [of _ "policy_key n"]) simp
qed (fact assms(3))


text \<open>A server without other clients, that lists one policy.\<close>

definition calm_kube :: "(nat \<times> (string, string) dict option) kube" where
  "calm_kube q st =
     (case q of
        List_policies _ \<Rightarrow> (Policies [policy_obj (''p'', demo_policy)], st)
      | _ \<Rightarrow> (case busy_answer q (fst st, snd st, []) of (a, (n, d, _)) \<Rightarrow> (a, (n, d))))"

definition calm_view :: "(nat \<times> (string, string) dict option) registry_view" where
  "calm_view st = busy_view (fst st, snd st, [])"

lemma calm_cas_server: "cas_server calm_kube ns calm_view (=)"
  by (auto simp: cas_server_def clients_ok_def reads_ok_def writes_ok_def calm_kube_def calm_view_def busy_answer_def busy_view_def
      split: option.splits if_splits)

lemma calm_reconcile: "\<exists>t. reconcile_jobpowerpolicies_for_namespace calm_kube demo_repr ''ns'' (0, None) = (Inr (), t)"
proof -
  let ?text = "json_dumps_sorted demo_repr (jp_entry demo_policy)"
  obtain meta where meta: "json_get (policy_obj (''p'', demo_policy)) ''metadata'' (JObj []) = Ok meta" "identifies meta demo_policy"
    using policy_obj_parts(3) by blast
  have pods: "list_matching_pods calm_kube demo_repr ''ns'' (jp_labels demo_policy) s = (Inr (jp_pods demo_policy), s)" for s
    by (simp add: list_matching_pods_def demo_policy_def py_falsy_def op_bind_def json_items_def calm_kube_def busy_answer_def)
  have "is_policy_key (policy_key ''p'')" using policy_key_is [of "''p''"] by simp
  then have "registry_of demo_repr [demo_policy] [(policy_key ''p'', ?text)]" by (simp add: registry_of_def)
  moreover have "\<forall>p \<in> set [demo_policy]. good_policy demo_repr p" using good_demo_policy by simp
  ultimately obtain js as sel where "aggregate_resolved_assignments demo_repr [(policy_key ''p'', ?text)] = Ok js"
    by (rule parse_aggregate)
  then have upd: "registry_update demo_repr ''p'' (Some (jp_entry demo_policy)) []
      = Ok (dset RESOLVED_ASSIGNMENTS_KEY js [(policy_key ''p'', ?text)])"
    by (simp add: registry_update_def)
  have "\<exists>t. write_boost_registry calm_kube demo_repr ''ns'' ''p'' (Some (jp_entry demo_policy)) (0, None) = (Inr (), t)"
    by (simp add: write_boost_registry_def numeral_3_eq_3 calm_kube_def busy_answer_def after_write_def upd)
  then have "\<exists>c t. reconcile_jobpowerpolicy calm_kube demo_repr (spec_of demo_policy) ''p'' ''ns'' meta (0, None) = (Inr c, t)"
    unfolding reconcile_run [OF meta(2) pods] by auto
  then show ?thesis
    by (auto simp: reconcile_jobpowerpolicies_for_namespace_def op_bind_def policy_obj_parts meta calm_kube_def [of "List_policies _"])
qed


end
