(* ===== verification/SimExporter.thy ===== *)
theory SimExporter
  imports JsonText Metrics Telemetry Sim
begin

text \<open>
  \<open>deploy/sim-metrics/sim_exporter.py\<close>: the exporter that stands in for the GPU telemetry of a
  node in the demonstration, from its environment variables to the gauges it sets, and the
  sample the controller builds from them. The generators of \<open>random\<close> are parameters; Prometheus
  in between is one that answers with the last value of every series.
\<close>

section \<open>Configuration\<close>

definition env_int :: "(string, string) dict \<Rightarrow> string \<Rightarrow> int \<Rightarrow> int \<Rightarrow> int \<Rightarrow> int" where
  \<comment> \<open>\<open>_env_int\<close>: the default is returned as it is when the text is not an integer\<close>
  "env_int env name dflt lo hi =
     (case py_int (dget_or env name (string_of_int dflt)) of
        Inl _ \<Rightarrow> dflt
      | Inr val \<Rightarrow> max lo (min hi val))"

record exporter =
  ex_num_gpus :: int
  ex_hot_gpus :: int
  ex_model_name :: string
  ex_hostname :: string
  ex_port :: int

definition exporter_of_env :: "(string, string) dict \<Rightarrow> exporter" where
  "exporter_of_env env =
     (let num = env_int env ''SIM_NUM_GPUS'' 8 1 4096 in
      \<lparr>ex_num_gpus = num,
       ex_hot_gpus = env_int env ''SIM_HOT_GPUS'' (max 1 (num div 2)) 0 num,
       ex_model_name = dget_or env ''SIM_MODEL_NAME'' ''SIM-GPU'',
       ex_hostname = dget_or env ''SIM_HOSTNAME'' ''sim-node'',
       ex_port = env_int env ''SIM_PORT'' 9401 1 65535\<rparr>)"

section \<open>The gauges\<close>

record 'r dice =
  dc_random :: "'r rng"
  dc_gauss :: "real \<Rightarrow> real \<Rightarrow> 'r \<Rightarrow> real \<times> 'r"
  dc_randint :: "int \<Rightarrow> int \<Rightarrow> 'r \<Rightarrow> int \<times> 'r"

definition good_dice :: "'r dice \<Rightarrow> bool" where
  "good_dice dc \<longleftrightarrow> good_rng (dc_random dc) \<and>
     (\<forall>a b r. a \<le> b \<longrightarrow> a \<le> fst (dc_randint dc a b r) \<and> fst (dc_randint dc a b r) \<le> b)"

definition sim_is_hot :: "exporter \<Rightarrow> gpu \<Rightarrow> bool" where
  "sim_is_hot ex i \<longleftrightarrow> i < ex_hot_gpus ex"

definition band :: "exporter \<Rightarrow> gpu \<Rightarrow> watts \<times> watts" where
  "band ex i = (if sim_is_hot ex i then (650, 850) else (120, 220))"

fun seed_state :: "'r dice \<Rightarrow> exporter \<Rightarrow> gpu list \<Rightarrow> (gpu, watts) dict \<Rightarrow> 'r \<Rightarrow> (gpu, watts) dict \<times> 'r" where
  "seed_state dc ex [] d r = (d, r)"
| "seed_state dc ex (i # is) d r =
     (case uniform (dc_random dc) (fst (band ex i)) (snd (band ex i)) r of
        (w, r1) \<Rightarrow> seed_state dc ex is (dset i w d) r1)"

definition gpu_calls :: "exporter \<Rightarrow> gpu \<Rightarrow> watts \<Rightarrow> int \<Rightarrow> real \<Rightarrow> metric_call list" where
  "gpu_calls ex i w clock util =
     (let labels = [string_of_int i, ex_model_name ex, ex_hostname ex] in
      [Set_gauge ''DCGM_FI_DEV_POWER_USAGE'' labels w, Set_gauge ''sim_gpu_power_usage_watts'' labels w,
       Set_gauge ''DCGM_FI_DEV_SM_CLOCK'' labels (of_int clock), Set_gauge ''DCGM_FI_DEV_GPU_UTIL'' labels util,
       Set_gauge ''DCGM_FI_DEV_POWER_CAP'' labels 1000])"

fun update_loop :: "'r dice \<Rightarrow> exporter \<Rightarrow> gpu list \<Rightarrow> (gpu, watts) dict \<Rightarrow> 'r \<Rightarrow> metric_call list \<times> (gpu, watts) dict \<times> 'r" where
  "update_loop dc ex [] d r = ([], d, r)"
| "update_loop dc ex (i # is) d r =
     (case dc_gauss dc 0 15 r of (noise, r1) \<Rightarrow>
      let w = max (fst (band ex i)) (min (snd (band ex i)) (ditem d i + noise)) in
      case (if sim_is_hot ex i then dc_randint dc 1800 2100 r1 else dc_randint dc 300 600 r1) of (clock, r2) \<Rightarrow>
      case (if sim_is_hot ex i then uniform (dc_random dc) 70 99 r2 else uniform (dc_random dc) 0 15 r2) of (util, r3) \<Rightarrow>
      case update_loop dc ex is (dset i w d) r3 of (calls, d', r') \<Rightarrow> (gpu_calls ex i w clock util @ calls, d', r'))"

definition sim_gpus :: "exporter \<Rightarrow> gpu list" where
  "sim_gpus ex = [0..ex_num_gpus ex - 1]"

fun exporter_run :: "'r dice \<Rightarrow> exporter \<Rightarrow> nat \<Rightarrow> 'r \<Rightarrow> metric_call list \<times> (gpu, watts) dict \<times> 'r" where
  \<comment> \<open>the first update comes before the server starts; then one every five seconds\<close>
  "exporter_run dc ex 0 r = (case seed_state dc ex (sim_gpus ex) [] r of (d, r1) \<Rightarrow> update_loop dc ex (sim_gpus ex) d r1)"
| "exporter_run dc ex (Suc k) r = (case exporter_run dc ex k r of (_, d, r1) \<Rightarrow> update_loop dc ex (sim_gpus ex) d r1)"

section \<open>What Prometheus sees\<close>

definition exported :: "metric_call list \<Rightarrow> string \<Rightarrow> prom_row list" where
  \<comment> \<open>the series of one update, in the order of the calls\<close>
  "exported calls name =
     concat (map (\<lambda>c. case c of
         Set_gauge n [g, m, h] x \<Rightarrow>
           if n = name
           then [\<lparr>row_metric = JObj [(''gpu'', JStr g), (''modelName'', JStr m), (''hostname'', JStr h)], row_value = x\<rparr>]
           else []
       | _ \<Rightarrow> []) calls)"

section \<open>Lemmas\<close>

lemma env_int_bounds: "lo \<le> dflt \<Longrightarrow> dflt \<le> hi \<Longrightarrow> lo \<le> env_int env name dflt lo hi \<and> env_int env name dflt lo hi \<le> hi"
  by (auto simp: env_int_def split: sum.split)

lemma exporter_sizes:
  "1 \<le> ex_num_gpus (exporter_of_env env) \<and> ex_num_gpus (exporter_of_env env) \<le> 4096 \<and>
   0 \<le> ex_hot_gpus (exporter_of_env env) \<and> ex_hot_gpus (exporter_of_env env) \<le> ex_num_gpus (exporter_of_env env) \<and>
   1 \<le> ex_port (exporter_of_env env) \<and> ex_port (exporter_of_env env) \<le> 65535"
proof -
  let ?n = "env_int env ''SIM_NUM_GPUS'' 8 1 4096"
  have n: "1 \<le> ?n" "?n \<le> 4096" using env_int_bounds [of 1 8 4096] by simp_all
  then have m: "0 \<le> max 1 (?n div 2)" "max 1 (?n div 2) \<le> ?n" by linarith+
  have "0 \<le> env_int env ''SIM_HOT_GPUS'' (max 1 (?n div 2)) 0 ?n \<and> env_int env ''SIM_HOT_GPUS'' (max 1 (?n div 2)) 0 ?n \<le> ?n"
    by (rule env_int_bounds [OF m])
  with n env_int_bounds [of 1 9401 65535] show ?thesis by (simp add: exporter_of_env_def Let_def)
qed

text \<open>One reading of an update: GPU, draw, clock and utilisation.\<close>

definition plausible :: "exporter \<Rightarrow> gpu \<times> watts \<times> int \<times> real \<Rightarrow> bool" where
  "plausible ex rd =
     (case rd of (i, w, clock, util) \<Rightarrow>
        fst (band ex i) \<le> w \<and> w \<le> snd (band ex i) \<and>
        (if sim_is_hot ex i then 1800 \<le> clock \<and> clock \<le> 2100 \<and> 70 \<le> util \<and> util \<le> 99
         else 300 \<le> clock \<and> clock \<le> 600 \<and> 0 \<le> util \<and> util \<le> 15))"

lemma update_loop_readings:
  assumes "good_dice dc" "update_loop dc ex is d r = (calls, d', r')"
  obtains rds where "map fst rds = is" "calls = concat (map (\<lambda>(i, w, clock, util). gpu_calls ex i w clock util) rds)"
    "list_all (plausible ex) rds"
proof -
  have "\<exists>rds. map fst rds = is \<and> calls = concat (map (\<lambda>(i, w, clock, util). gpu_calls ex i w clock util) rds) \<and>
      list_all (plausible ex) rds"
    using assms(2)
  proof (induction "is" arbitrary: d r calls)
    case (Cons i "is")
    obtain noise r1 where g: "dc_gauss dc 0 15 r = (noise, r1)" by (rule prod.exhaust)
    let ?w = "max (fst (band ex i)) (min (snd (band ex i)) (ditem d i + noise))"
    obtain clock r2 where c: "(if sim_is_hot ex i then dc_randint dc 1800 2100 r1 else dc_randint dc 300 600 r1) = (clock, r2)"
      by (rule prod.exhaust)
    obtain util r3 where u: "(if sim_is_hot ex i then uniform (dc_random dc) 70 99 r2 else uniform (dc_random dc) 0 15 r2) = (util, r3)"
      by (rule prod.exhaust)
    obtain calls1 where rest: "update_loop dc ex is (dset i ?w d) r3 = (calls1, d', r')" and calls: "calls = gpu_calls ex i ?w clock util @ calls1"
      using Cons.prems by (simp only: update_loop.simps g c u Let_def prod.case) (auto split: prod.splits)
    from Cons.IH [OF rest] obtain rds where rds: "map fst rds = is"
      "calls1 = concat (map (\<lambda>(i, w, clock, util). gpu_calls ex i w clock util) rds)" "list_all (plausible ex) rds" by blast
    have rng: "good_rng (dc_random dc)" and ints: "\<And>a b r. a \<le> b \<Longrightarrow> a \<le> fst (dc_randint dc a b r) \<and> fst (dc_randint dc a b r) \<le> b"
      using assms(1) by (simp_all add: good_dice_def)
    have "if sim_is_hot ex i then 1800 \<le> clock \<and> clock \<le> 2100 else 300 \<le> clock \<and> clock \<le> 600"
      using ints [of 1800 2100 r1] ints [of 300 600 r1] c by (auto split: if_splits)
    moreover have "if sim_is_hot ex i then 70 \<le> util \<and> util \<le> 99 else 0 \<le> util \<and> util \<le> 15"
      using uniform_range [OF rng, of 70 99 r2] uniform_range [OF rng, of 0 15 r2] u by (auto split: if_splits)
    ultimately have "plausible ex (i, ?w, clock, util)" by (auto simp: plausible_def band_def)
    with rds calls show ?case by (intro exI [of _ "(i, ?w, clock, util) # rds"]) simp
  qed simp
  with that show thesis by blast
qed

lemma exporter_run_readings:
  assumes "good_dice dc" "exporter_run dc ex k r = (calls, d, r')"
  obtains rds where "map fst rds = sim_gpus ex" "calls = concat (map (\<lambda>(i, w, clock, util). gpu_calls ex i w clock util) rds)"
    "list_all (plausible ex) rds"
proof -
  obtain d0 r0 where "update_loop dc ex (sim_gpus ex) d0 r0 = (calls, d, r')"
    using assms(2) by (cases k) (auto split: prod.splits)
  from update_loop_readings [OF assms(1) this] that show thesis by blast
qed

definition series_row :: "exporter \<Rightarrow> gpu \<Rightarrow> real \<Rightarrow> prom_row" where
  "series_row ex i x =
     \<lparr>row_metric = JObj [(''gpu'', JStr (string_of_int i)), (''modelName'', JStr (ex_model_name ex)), (''hostname'', JStr (ex_hostname ex))],
      row_value = x\<rparr>"

lemma exported_series:
  fixes ex and rds :: "(gpu \<times> watts \<times> int \<times> real) list"
  defines "calls \<equiv> concat (map (\<lambda>(i, w, clock, util). gpu_calls ex i w clock util) rds)"
  shows "exported calls ''DCGM_FI_DEV_POWER_USAGE'' = map (\<lambda>(i, w, clock, util). series_row ex i w) rds"
    "exported calls ''DCGM_FI_DEV_POWER_CAP'' = map (\<lambda>(i, w, clock, util). series_row ex i 1000) rds"
    "exported calls ''DCGM_FI_DEV_SM_CLOCK'' = map (\<lambda>(i, w, clock, util). series_row ex i (of_int clock)) rds"
    "exported calls ''DCGM_FI_DEV_GPU_UTIL'' = map (\<lambda>(i, w, clock, util). series_row ex i util) rds"
    "exported calls ''DCGM_FI_DEV_GPU_TEMP'' = []"
  unfolding calls_def
  by (induction rds) (auto simp: exported_def gpu_calls_def series_row_def Let_def)

lemma foldl_dset_fresh:
  "distinct (map k xs) \<Longrightarrow> \<forall>x \<in> set xs. k x \<notin> set (dkeys d) \<Longrightarrow>
   foldl (\<lambda>d x. dset (k x) (v x) d) d xs = d @ map (\<lambda>x. (k x, v x)) xs"
proof (induction xs arbitrary: d)
  case (Cons x xs)
  have "dset (k x) (v x) d = d @ [(k x, v x)]" using Cons.prems(2) by (induction d) auto
  moreover have "\<forall>y \<in> set xs. k y \<notin> set (dkeys (d @ [(k x, v x)]))" using Cons.prems by (auto simp: image_iff)
  ultimately show ?case using Cons.IH [of "d @ [(k x, v x)]"] Cons.prems(1) by simp
qed simp

lemma index_exported:
  assumes "\<forall>rd \<in> set rds. 0 \<le> fst rd" "distinct (map fst rds)"
  shows "index_rows None (map (\<lambda>rd. series_row ex (fst rd) (f rd)) rds) [] = Ok (map (\<lambda>rd. (string_of_int (fst rd), f rd)) rds)"
proof -
  let ?rows = "map (\<lambda>rd. series_row ex (fst rd) (f rd)) rds"
  let ?label = "\<lambda>row. case json_get (row_metric row) ''gpu'' (JStr ''0'') of Inr (JStr s) \<Rightarrow> s | _ \<Rightarrow> []"
  have lab: "json_get (row_metric (series_row ex i x)) ''gpu'' (JStr ''0'') = Ok (JStr (string_of_int i))" for i x
    by (simp add: series_row_def json_get_def)
  have "index_rows None ?rows [] = Ok (foldl (\<lambda>d row. dset (?label row) (row_value row) d) [] ?rows)"
    by (rule index_rows_all) (auto simp: lab)
  also have "foldl (\<lambda>d row. dset (?label row) (row_value row) d) [] ?rows
      = foldl (\<lambda>d rd. dset (string_of_int (fst rd)) (f rd) d) [] rds"
    by (simp add: foldl_map lab) (simp add: series_row_def)
  also have "\<dots> = map (\<lambda>rd. (string_of_int (fst rd), f rd)) rds"
  proof (subst foldl_dset_fresh)
    show "distinct (map (\<lambda>rd. string_of_int (fst rd)) rds)"
      using assms by (auto simp: distinct_map inj_on_def string_of_int_inj)
  qed simp_all
  finally show ?thesis .
qed

lemma distinct_labels:
  "\<forall>rd \<in> set rds. 0 \<le> fst rd \<Longrightarrow> distinct (map fst rds) \<Longrightarrow> distinct (map (\<lambda>rd. string_of_int (fst rd)) rds)"
  by (auto simp: distinct_map inj_on_def string_of_int_inj)

lemma res_map_map: "res_map f (map g xs) = res_map (\<lambda>x. f (g x)) xs"
  by (induction xs) simp_all

lemma remdups_earlier: "distinct ks \<Longrightarrow> set xs \<subseteq> set ks \<Longrightarrow> remdups (xs @ ks) = ks"
  by (induction xs) (auto simp: distinct_remdups_id)

text \<open>Four dictionaries over the same GPUs in ascending order give back these GPUs.\<close>

lemma gpu_keys_exported:
  assumes nn: "\<forall>rd \<in> set rds. 0 \<le> fst rd" and dist: "distinct (map fst rds)" and asc: "sorted (map fst rds)"
    and d: "dkeys draws = map (\<lambda>rd. string_of_int (fst rd)) rds" "dkeys cap = dkeys draws" "dkeys clocks = dkeys draws" "dkeys util = dkeys draws"
  shows "gpu_keys draws cap clocks util = Ok (map (\<lambda>rd. (fst rd, string_of_int (fst rd))) rds)"
proof -
  let ?ks = "map (\<lambda>rd. string_of_int (fst rd)) rds"
  have union: "remdups (?ks @ ?ks @ ?ks @ ?ks) = ?ks"
    using remdups_earlier [OF distinct_labels [OF nn dist], of "?ks @ ?ks @ ?ks"] by simp
  have "res_map (\<lambda>k. res_bind (py_int k) (\<lambda>i. Ok (i, k))) ?ks = Ok (map (\<lambda>rd. (fst rd, string_of_int (fst rd))) rds)"
    unfolding res_map_map using nn by (intro res_map_total) (simp add: string_of_int_reads)
  moreover have "sort_key fst (map (\<lambda>rd. (fst rd, string_of_int (fst rd))) rds) = map (\<lambda>rd. (fst rd, string_of_int (fst rd))) rds"
    using asc by (intro sort_key_id_if_sorted) (simp add: comp_def)
  ultimately show ?thesis unfolding gpu_keys_def d union by simp
qed

lemma sim_gpus_facts: "sorted (sim_gpus ex)" "distinct (sim_gpus ex)" "\<forall>i \<in> set (sim_gpus ex). 0 \<le> i"
  by (simp_all add: sim_gpus_def sorted_upto)

text \<open>C16. The demonstration feeds the controller: whatever the environment of the exporter says, and
  however often it has updated its gauges, if Prometheus answers with their last values, the
  sample the controller builds has exactly the GPUs of the exporter, in order and under its
  names, each with a draw in the band of its kind, a limit of 1000 W, and a clock and
  utilisation in theirs.\<close>

theorem exporter_feeds_controller:
  assumes dice: "good_dice dc" and run: "exporter_run dc (exporter_of_env env) k r = (calls, d, r')"
    and prom: "\<And>q. prom_query fetch q = Ok (exported calls q)"
  defines "ex \<equiv> exporter_of_env env"
  shows "\<exists>n. NodeSampleFromProm fetch now None = Ok n \<and> nd_hostname n = ex_hostname ex \<and>
     map gs_index (nd_gpus n) = [0..ex_num_gpus ex - 1] \<and>
     (\<forall>g \<in> set (nd_gpus n). gs_name g = ex_model_name ex \<and> gs_power_limit_w g = Some 1000 \<and>
        (\<exists>w clock util. gs_power_draw_w g = Some w \<and> gs_sm_clock_mhz g = Some clock \<and> gs_gpu_util_pct g = Some util \<and>
           (if gs_index g < ex_hot_gpus ex
            then 650 \<le> w \<and> w \<le> 850 \<and> 1800 \<le> clock \<and> clock \<le> 2100 \<and> 70 \<le> util \<and> util \<le> 99
            else 120 \<le> w \<and> w \<le> 220 \<and> 300 \<le> clock \<and> clock \<le> 600 \<and> 0 \<le> util \<and> util \<le> 15)))"
proof -
  obtain rds where rds: "map fst rds = sim_gpus ex" "list_all (plausible ex) rds"
    and calls: "calls = concat (map (\<lambda>(i, w, clock, util). gpu_calls ex i w clock util) rds)"
    using exporter_run_readings [OF dice run] unfolding ex_def by blast
  have nn: "\<forall>rd \<in> set rds. 0 \<le> fst rd" and dist: "distinct (map fst rds)"
    using sim_gpus_facts [of ex] unfolding rds(1) [symmetric] by auto
  let ?k = "\<lambda>rd. string_of_int (fst rd)"
  let ?w = "\<lambda>rd :: gpu \<times> watts \<times> int \<times> real. fst (snd rd)"
  let ?c = "\<lambda>rd :: gpu \<times> watts \<times> int \<times> real. real_of_int (fst (snd (snd rd)))"
  let ?u = "\<lambda>rd :: gpu \<times> watts \<times> int \<times> real. snd (snd (snd rd))"
  note ix = index_exported [OF nn dist]
  have q: "prom_query fetch ''DCGM_FI_DEV_POWER_USAGE'' = Ok (map (\<lambda>rd. series_row ex (fst rd) (?w rd)) rds)"
    "prom_query fetch ''DCGM_FI_DEV_POWER_CAP'' = Ok (map (\<lambda>rd. series_row ex (fst rd) 1000) rds)"
    "prom_query fetch ''DCGM_FI_DEV_SM_CLOCK'' = Ok (map (\<lambda>rd. series_row ex (fst rd) (?c rd)) rds)"
    "prom_query fetch ''DCGM_FI_DEV_GPU_UTIL'' = Ok (map (\<lambda>rd. series_row ex (fst rd) (?u rd)) rds)"
    "prom_query fetch ''DCGM_FI_DEV_GPU_TEMP'' = Ok []"
    unfolding prom calls exported_series by (simp_all add: split_beta)
  have keys: "distinct (map ?k rds)" by (rule distinct_labels [OF nn dist])
  have keys_ok: "gpu_keys (map (\<lambda>rd. (?k rd, ?w rd)) rds) (map (\<lambda>rd. (?k rd, 1000)) rds) (map (\<lambda>rd. (?k rd, ?c rd)) rds)
      (map (\<lambda>rd. (?k rd, ?u rd)) rds) = Ok (map (\<lambda>rd. (fst rd, ?k rd)) rds)"
    using sim_gpus_facts(1) [of ex] unfolding rds(1) [symmetric] by (intro gpu_keys_exported [OF nn dist]) simp_all
  obtain rd0 rest where ne: "rds = rd0 # rest"
    using rds(1) exporter_sizes [of env] by (cases rds) (simp_all add: sim_gpus_def ex_def)
  have labels: "sample_labels None (map (\<lambda>rd. series_row ex (fst rd) (?w rd)) rds) = Ok (ex_hostname ex, ex_model_name ex)"
    unfolding ne by (simp add: row_on_host_def series_row_def json_get_def json_str_def)
  let ?gpu = "\<lambda>rd. gpu_of_series (ex_model_name ex) (map (\<lambda>rd. (?k rd, ?w rd)) rds) (map (\<lambda>rd. (?k rd, 1000)) rds)
      (map (\<lambda>rd. (?k rd, ?c rd)) rds) (map (\<lambda>rd. (?k rd, ?u rd)) rds) [] (fst rd, ?k rd)"
  let ?n = "\<lparr>nd_ts = now, nd_hostname = ex_hostname ex, nd_driver_version = ''dcgm'', nd_gpus = map ?gpu rds\<rparr>"
  have sample: "NodeSampleFromProm fetch now None = Ok ?n"
    by (simp add: NodeSampleFromProm_def q ix keys_ok labels comp_def)
  have look: "map_of (map (\<lambda>rd. (?k rd, f rd)) rds) (?k rd) = Some (f rd)" if "rd \<in> set rds" for f :: "gpu \<times> watts \<times> int \<times> real \<Rightarrow> real" and rd
    using that keys by (intro map_of_is_SomeI) (auto simp: comp_def)
  have trunc: "truncate_real (real_of_int c) = c" for c by (simp add: truncate_real_def)
  have "\<exists>w clock util. gs_power_draw_w (?gpu rd) = Some w \<and> gs_sm_clock_mhz (?gpu rd) = Some clock \<and> gs_gpu_util_pct (?gpu rd) = Some util \<and>
           (if fst rd < ex_hot_gpus ex
            then 650 \<le> w \<and> w \<le> 850 \<and> 1800 \<le> clock \<and> clock \<le> 2100 \<and> 70 \<le> util \<and> util \<le> 99
            else 120 \<le> w \<and> w \<le> 220 \<and> 300 \<le> clock \<and> clock \<le> 600 \<and> 0 \<le> util \<and> util \<le> 15)"
    if rd: "rd \<in> set rds" for rd
  proof (intro exI conjI)
    show "gs_power_draw_w (?gpu rd) = Some (?w rd)" "gs_sm_clock_mhz (?gpu rd) = Some (fst (snd (snd rd)))"
      "gs_gpu_util_pct (?gpu rd) = Some (truncate_real (?u rd))"
      using look [OF rd] by (simp_all add: gpu_of_series_def trunc)
    have "plausible ex rd" using rds(2) rd by (simp add: list_all_iff)
    then show "if fst rd < ex_hot_gpus ex
            then 650 \<le> ?w rd \<and> ?w rd \<le> 850 \<and> 1800 \<le> fst (snd (snd rd)) \<and> fst (snd (snd rd)) \<le> 2100 \<and>
              70 \<le> truncate_real (?u rd) \<and> truncate_real (?u rd) \<le> 99
            else 120 \<le> ?w rd \<and> ?w rd \<le> 220 \<and> 300 \<le> fst (snd (snd rd)) \<and> fst (snd (snd rd)) \<le> 600 \<and>
              0 \<le> truncate_real (?u rd) \<and> truncate_real (?u rd) \<le> 15"
      by (auto simp: plausible_def band_def sim_is_hot_def truncate_real_def le_floor_iff floor_le_iff split: prod.splits)
  qed
  moreover have "gs_name (?gpu rd) = ex_model_name ex \<and> gs_power_limit_w (?gpu rd) = Some 1000" if "rd \<in> set rds" for rd
    using look [OF that, of "\<lambda>_. 1000"] by (simp add: gpu_of_series_def)
  moreover have "map gs_index (map ?gpu rds) = [0..ex_num_gpus ex - 1]"
    using rds(1) by (simp add: comp_def sim_gpus_def)
  ultimately show ?thesis using sample by (intro exI [of _ ?n]) auto
qed

text \<open>Rows as the document of an answer.\<close>

definition vector_answer :: "prom_row list \<Rightarrow> json" where
  "vector_answer rows =
     JObj [(''data'', JObj [(''result'', JList (map (\<lambda>row.
       JObj [(''metric'', row_metric row), (''value'', JList [JInt 0, JFloat (row_value row)])]) rows))])]"

lemma parse_vector_answer: "parse_vector (vector_answer rows) = Ok rows"
proof -
  have "vector_row (JObj [(''metric'', row_metric row), (''value'', JList [JInt 0, JFloat (row_value row)])]) = Ok row" for row
    by (simp add: vector_row_def json_item_def getitem_def json_at_def json_float_def)
  then show ?thesis
    by (simp add: parse_vector_def result_rows_def vector_answer_def json_get_def json_list_def res_map_map res_map_total [of _ _ id])
qed

definition demo_dice :: "unit dice" where
  "demo_dice = \<lparr>dc_random = half_rng, dc_gauss = (\<lambda>mu sigma r. (mu, r)), dc_randint = (\<lambda>a b r. (a, r))\<rparr>"

theorem exporter_feeds_controller_witness:
  "\<exists>calls n. fst (exporter_run demo_dice (exporter_of_env [(''SIM_NUM_GPUS'', ''2'')]) 3 ()) = calls \<and>
     NodeSampleFromProm (\<lambda>q. Ok (vector_answer (exported calls q))) 0 None = Ok n \<and> map gs_index (nd_gpus n) = [0, 1] \<and>
     (\<forall>g \<in> set (nd_gpus n). gs_power_limit_w g = Some 1000)"
proof -
  let ?env = "[(''SIM_NUM_GPUS'', ''2'')]"
  obtain calls d r where run: "exporter_run demo_dice (exporter_of_env ?env) 3 () = (calls, d, r)" by (rule prod_cases3)
  have dice: "good_dice demo_dice" by (simp add: good_dice_def demo_dice_def good_rng_def half_rng_def)
  have "py_int ''2'' = Ok 2"
    by (simp add: py_int_def strip_def lstrip_def rstrip_def is_ws_def sign_of_def digits_of_def is_digit_def digit_val_def Let_def)
  then have two: "ex_num_gpus (exporter_of_env ?env) = 2" by (simp add: exporter_of_env_def env_int_def Let_def)
  have prom: "prom_query (\<lambda>q. Ok (vector_answer (exported calls q))) q = Ok (exported calls q)" for q
    by (simp add: prom_query_def parse_vector_answer)
  from exporter_feeds_controller [OF dice run prom, of 0]
  obtain n where "NodeSampleFromProm (\<lambda>q. Ok (vector_answer (exported calls q))) 0 None = Ok n"
    "map gs_index (nd_gpus n) = [0..1]" "\<forall>g \<in> set (nd_gpus n). gs_power_limit_w g = Some 1000"
    unfolding two by auto
  with run show ?thesis by (auto simp: upto.simps)
qed

end
