(* ===== verification/Http.thy ===== *)
theory Http
  imports JsonText
begin

text \<open>
  The texts the HTTP clients of \<open>telemetry/\<close> send: \<open>str.encode\<close>, \<open>urllib.parse.urlencode\<close> and
  \<open>base64.b64encode\<close> of the standard library, and the decoders a server applies to them. Every
  encoder is read back as what was encoded.
\<close>

section \<open>Encoders\<close>

definition utf8_char :: "char \<Rightarrow> nat list" where
  "utf8_char c = (let n = of_char c in if n < 128 then [n] else [192 + n div 64, 128 + n mod 64])"

definition utf8 :: "string \<Rightarrow> nat list" where
  \<comment> \<open>\<open>s.encode()\<close>, for code points below 256\<close>
  "utf8 s = concat (map utf8_char s)"

definition rstrip_slash :: "string \<Rightarrow> string" where
  \<comment> \<open>\<open>url.rstrip("/")\<close>\<close>
  "rstrip_slash s = rev (dropWhile (\<lambda>c. c = CHR ''/'') (rev s))"

definition unreserved :: "nat \<Rightarrow> bool" where
  \<comment> \<open>letters, digits and \<open>_.-~\<close>\<close>
  "unreserved n \<longleftrightarrow> 48 \<le> n \<and> n \<le> 57 \<or> 65 \<le> n \<and> n \<le> 90 \<or> 97 \<le> n \<and> n \<le> 122 \<or> n \<in> {95, 46, 45, 126}"

definition upper_hex :: "nat \<Rightarrow> char" where
  "upper_hex d = char_of (if d < 10 then 48 + d else 55 + d)"

definition quote_byte :: "nat \<Rightarrow> string" where
  "quote_byte n =
     (if unreserved n then [char_of n]
      else if n = 32 then ''+''
      else [CHR ''%'', upper_hex (n div 16), upper_hex (n mod 16)])"

definition quote_plus :: "string \<Rightarrow> string" where
  "quote_plus s = concat (map quote_byte (utf8 s))"

definition urlencode :: "(string \<times> string) list \<Rightarrow> string" where
  "urlencode ps = join ''&'' (map (\<lambda>(k, v). quote_plus k @ ''='' @ quote_plus v) ps)"

definition b64_char :: "nat \<Rightarrow> char" where
  "b64_char d =
     char_of (if d < 26 then 65 + d else if d < 52 then 71 + d else if d < 62 then d - 4 else if d = 62 then 43 else 47)"

fun b64encode :: "nat list \<Rightarrow> string" where
  "b64encode [] = []"
| "b64encode [a] = [b64_char (a div 4), b64_char (a mod 4 * 16), CHR ''='', CHR ''='']"
| "b64encode [a, b] = [b64_char (a div 4), b64_char (a mod 4 * 16 + b div 16), b64_char (b mod 16 * 4), CHR ''='']"
| "b64encode (a # b # c # r) =
     [b64_char (a div 4), b64_char (a mod 4 * 16 + b div 16), b64_char (b mod 16 * 4 + c div 64), b64_char (c mod 64)]
     @ b64encode r"

section \<open>Decoders\<close>

fun utf8_decode :: "nat list \<Rightarrow> string" where
  "utf8_decode [] = []"
| "utf8_decode [a] = [char_of a]"
| "utf8_decode (a # b # r) =
     (if a < 128 then char_of a # utf8_decode (b # r) else char_of ((a - 192) * 64 + (b - 128)) # utf8_decode r)"

definition upper_val :: "char \<Rightarrow> nat" where
  "upper_val c = (let n = of_char c in if n \<le> 57 then n - 48 else n - 55)"

fun unquote_bytes :: "string \<Rightarrow> nat list" where
  "unquote_bytes [] = []"
| "unquote_bytes (c # s) =
     (if c = CHR ''+'' then 32 # unquote_bytes s
      else if c = CHR ''%'' then
        (case s of x # y # r \<Rightarrow> (16 * upper_val x + upper_val y) # unquote_bytes r | _ \<Rightarrow> [])
      else of_char c # unquote_bytes s)"

definition unquote_plus :: "string \<Rightarrow> string" where
  "unquote_plus s = utf8_decode (unquote_bytes s)"

definition query_pairs :: "string \<Rightarrow> (string \<times> string) list" where
  "query_pairs s =
     map (\<lambda>p. case split_on (CHR ''='') p of k # v # _ \<Rightarrow> (unquote_plus k, unquote_plus v) | _ \<Rightarrow> ([], []))
       (split_on (CHR ''&'') s)"

definition b64_val :: "char \<Rightarrow> nat" where
  "b64_val c =
     (let n = of_char c in
      if n = 43 then 62 else if n = 47 then 63 else if n < 58 then n + 4 else if n < 91 then n - 65 else n - 71)"

fun b64decode :: "string \<Rightarrow> nat list" where
  "b64decode (w # x # y # z # r) =
     (let a = b64_val w; b = b64_val x; c = b64_val y; d = b64_val z;
          first = a * 4 + b div 16; second = b mod 16 * 16 + c div 4; third = c mod 4 * 64 + d
      in if y = CHR ''='' then [first]
         else if z = CHR ''='' then [first, second]
         else first # second # third # b64decode r)"
| "b64decode _ = []"

section \<open>Reading back\<close>

lemma char_of_iff: "n < 256 \<Longrightarrow> char_of n = c \<longleftrightarrow> n = of_char c" for n :: nat
  by (simp add: char_of_eq_iff take_bit_nat_eq_self)

lemma utf8_simps: "utf8 [] = []" "utf8 (c # s) = utf8_char c @ utf8 s"
  by (simp_all add: utf8_def)

lemma utf8_bytes: "b \<in> set (utf8 s) \<Longrightarrow> b < 256"
proof -
  have "b < 256" if "b \<in> set (utf8_char c)" for c
  proof -
    have "of_char c < (256 :: nat)" by simp
    then have "of_char c div 64 < (4 :: nat)" "of_char c mod 64 < (64 :: nat)" by linarith+
    with that show ?thesis by (auto simp: utf8_char_def Let_def split: if_splits)
  qed
  then show "b \<in> set (utf8 s) \<Longrightarrow> b < 256" by (auto simp: utf8_def)
qed

lemma utf8_decode_char: "utf8_decode (utf8_char c @ r) = c # utf8_decode r"
proof (cases "of_char c < (128 :: nat)")
  case True
  then show ?thesis by (cases r) (simp_all add: utf8_char_def)
next
  case False
  have "of_char c < (256 :: nat)" by simp
  moreover have "(of_char c div 64) * 64 + of_char c mod 64 = (of_char c :: nat)" by simp
  ultimately show ?thesis using False by (simp add: utf8_char_def Let_def)
qed

lemma utf8_decode_utf8: "utf8_decode (utf8 s) = s"
  by (induction s) (simp_all add: utf8_simps utf8_decode_char)

lemma upper_val_hex: "d < 16 \<Longrightarrow> upper_val (upper_hex d) = d"
  by (auto simp: upper_val_def upper_hex_def Let_def)

lemma unquote_byte: "n < 256 \<Longrightarrow> unquote_bytes (quote_byte n @ s) = n # unquote_bytes s"
proof -
  assume n: "n < 256"
  then have d: "n div 16 < 16" "n mod 16 < 16" by linarith+
  consider "unreserved n" | "\<not> unreserved n" "n = 32" | "\<not> unreserved n" "n \<noteq> 32" by blast
  then show "unquote_bytes (quote_byte n @ s) = n # unquote_bytes s"
  proof cases
    case 1
    then have "char_of n \<noteq> CHR ''+''" "char_of n \<noteq> CHR ''%''" using n by (auto simp: unreserved_def char_of_iff)
    with 1 n show ?thesis by (simp add: quote_byte_def)
  next
    case 3
    then show ?thesis using d by (simp add: quote_byte_def upper_val_hex)
  qed (simp add: quote_byte_def)
qed

lemma unquote_quote: "unquote_plus (quote_plus s) = s"
proof -
  have "unquote_bytes (concat (map quote_byte bs)) = bs" if "\<forall>b \<in> set bs. b < 256" for bs
    using that by (induction bs) (simp_all add: unquote_byte)
  then show ?thesis using utf8_bytes [of _ s] by (simp add: unquote_plus_def quote_plus_def utf8_decode_utf8)
qed

lemma quote_no_delimiter:
  assumes "c \<in> set (quote_plus s)"
  shows "c \<noteq> CHR ''&''" "c \<noteq> CHR ''=''" "c \<noteq> CHR ''#''"
proof -
  from assms obtain n where n: "n \<in> set (utf8 s)" "c \<in> set (quote_byte n)" by (auto simp: quote_plus_def)
  have lt: "n < 256" using n(1) by (rule utf8_bytes)
  then have d: "n div 16 < 16" "n mod 16 < 16" by linarith+
  have hex: "of_char (upper_hex d) \<notin> {38, 61, 35 :: nat}" if "d < 16" for d
    using that by (auto simp: upper_hex_def)
  consider "unreserved n" "c = char_of n" | "c \<in> {CHR ''+'', CHR ''%'', upper_hex (n div 16), upper_hex (n mod 16)}"
    using n(2) by (auto simp: quote_byte_def split: if_splits)
  then have "of_char c \<notin> {38, 61, 35 :: nat}"
  proof cases
    case 1
    then show ?thesis using lt by (auto simp: unreserved_def)
  next
    case 2
    then show ?thesis using d [THEN hex] by auto
  qed
  then show "c \<noteq> CHR ''&''" "c \<noteq> CHR ''=''" "c \<noteq> CHR ''#''" by auto
qed

lemma query_pairs_urlencode: "ps \<noteq> [] \<Longrightarrow> query_pairs (urlencode ps) = ps"
proof -
  assume ps: "ps \<noteq> []"
  let ?f = "\<lambda>(k, v). quote_plus k @ ''='' @ quote_plus v"
  have "split_on (CHR ''&'') (urlencode ps) = map ?f ps"
    unfolding urlencode_def using ps quote_no_delimiter(1) by (intro split_on_join) auto
  moreover have "CHR ''='' \<notin> set (quote_plus s)" for s using quote_no_delimiter(2) by blast
  then have "split_on (CHR ''='') (?f p) = [quote_plus (fst p), quote_plus (snd p)]" for p
    by (cases p) (simp add: split_on_prefix split_on_plain)
  ultimately show ?thesis
    by (simp add: query_pairs_def comp_def unquote_quote)
qed

lemma b64_val_char: "d < 64 \<Longrightarrow> b64_val (b64_char d) = d"
  and b64_char_pad: "d < 64 \<Longrightarrow> b64_char d \<noteq> CHR ''=''"
  by (auto simp: b64_val_def b64_char_def Let_def char_of_iff)

lemma b64_bits:
  fixes a b c :: nat
  assumes "a < 256" "b < 256" "c < 256"
  shows "b div 16 < 16" "c div 64 < 4" "a div 4 < 64" "a mod 4 * 16 + b div 16 < 64" "b mod 16 * 4 + c div 64 < 64" "c mod 64 < 64"
    "a mod 4 * 16 < 64" "b mod 16 * 4 < 64"
  using assms by linarith+

lemma b64decode_encode: "\<forall>b \<in> set bs. b < 256 \<Longrightarrow> b64decode (b64encode bs) = bs"
proof (induction bs rule: b64encode.induct)
  case (2 a)
  then show ?case using b64_bits [of a 0 0] by (simp add: b64_val_char Let_def)
next
  case (3 a b)
  then show ?case using b64_bits [of a b 0] by (simp add: b64_val_char b64_char_pad Let_def)
next
  case (4 a b c r)
  then show ?case using b64_bits [of a b c] by (simp add: b64_val_char b64_char_pad Let_def)
qed simp

end
