(* ===== verification/Redfish.thy ===== *)
theory Redfish
  imports Telemetry Http
begin

text \<open>
  \<open>telemetry/redfish_scraper.py\<close>: the request for the power breakdown of a BMC, the parser of the
  answer of its Redfish interface, and the polling thread that keeps the last good reading; and
  the requests of \<open>telemetry/prom_client.py\<close>. What the network does is a parameter: \<open>send\<close> gives the
  text of the body for a request, or the exception it raises.
\<close>

record chassis_reading =
  cr_ts :: real
  cr_chassis_total_w :: watts
  cr_gpu_aggregate_w :: watts
  cr_nvswitch_w :: watts
  cr_cpu_package_w :: watts
  cr_psu_input_watts :: "watts list"
  cr_psu_efficiency :: "real list"

definition float_field :: "json \<Rightarrow> string \<Rightarrow> real res" where
  \<comment> \<open>\<open>float(v.get(key, 0.0))\<close>\<close>
  "float_field v key = res_bind (json_get v key (JFloat 0)) json_float"

definition psu_efficiency :: "watts list \<Rightarrow> watts list \<Rightarrow> real list" where
  "psu_efficiency outs ins = map (\<lambda>(w, i). if 0 < i then w / i else 0) (zip outs ins)"

definition parse_power :: "real \<Rightarrow> json \<Rightarrow> chassis_reading res" where
  "parse_power now data =
     res_bind (res_bind (json_get data ''PowerControl'' (JList [JObj []])) (\<lambda>v. json_at v 0)) (\<lambda>ctrl.
     res_bind (float_field ctrl ''PowerConsumedWatts'') (\<lambda>chassis_w.
     res_bind (res_bind (json_get ctrl ''Oem'' (JObj [])) (\<lambda>v. json_get v ''Nvidia'' (JObj []))) (\<lambda>oem.
     res_bind (res_bind (json_get data ''PowerSupplies'' (JList [])) json_list) (\<lambda>psus.
     res_bind (res_map (\<lambda>p. float_field p ''PowerInputWatts'') psus) (\<lambda>psu_in.
     res_bind (res_map (\<lambda>p. float_field p ''PowerOutputWatts'') psus) (\<lambda>psu_out.
     res_bind (float_field oem ''GpuPowerWatts'') (\<lambda>gpu.
     res_bind (float_field oem ''NVSwitchPowerWatts'') (\<lambda>sw.
     res_bind (float_field oem ''CpuPackagePower'') (\<lambda>cpu.
     Ok \<lparr>cr_ts = now, cr_chassis_total_w = chassis_w, cr_gpu_aggregate_w = gpu, cr_nvswitch_w = sw,
         cr_cpu_package_w = cpu, cr_psu_input_watts = psu_in, cr_psu_efficiency = psu_efficiency psu_out psu_in\<rparr>)))))))))"

section \<open>The scraper\<close>

record http_request =
  rq_url :: string
  rq_headers :: "(string \<times> string) list"
  rq_check_certificate :: bool

record redfish_scraper =
  rs_url :: string
  rs_auth :: string
  rs_chassis_id :: string
  rs_interval :: real
  rs_verify_ssl :: bool
  rs_latest :: "chassis_reading option"

definition scraper_init :: "string \<Rightarrow> string \<Rightarrow> string \<Rightarrow> string \<Rightarrow> real \<Rightarrow> bool \<Rightarrow> redfish_scraper" where
  "scraper_init bmc_url username password chassis_id poll_interval verify_ssl =
     \<lparr>rs_url = rstrip_slash bmc_url, rs_auth = b64encode (utf8 (username @ '':'' @ password)), rs_chassis_id = chassis_id,
      rs_interval = poll_interval, rs_verify_ssl = verify_ssl, rs_latest = None\<rparr>"

definition get_latest :: "redfish_scraper \<Rightarrow> chassis_reading option" where
  "get_latest sc = rs_latest sc"

definition power_request :: "redfish_scraper \<Rightarrow> http_request" where
  "power_request sc =
     \<lparr>rq_url = rs_url sc @ ''/redfish/v1/Chassis/'' @ rs_chassis_id sc @ ''/Power'',
      rq_headers = [(''Authorization'', ''Basic '' @ rs_auth sc)], rq_check_certificate = rs_verify_ssl sc\<rparr>"

definition redfish_fetch :: "(http_request \<Rightarrow> string res) \<Rightarrow> real \<Rightarrow> redfish_scraper \<Rightarrow> chassis_reading res" where
  "redfish_fetch send now sc =
     res_bind (send (power_request sc)) (\<lambda>body. res_bind (json_loads body) (parse_power now))"

definition scraper_step :: "(http_request \<Rightarrow> string res) \<Rightarrow> real \<Rightarrow> redfish_scraper \<Rightarrow> redfish_scraper" where
  \<comment> \<open>one round of \<open>_loop\<close>: any exception leaves the last reading\<close>
  "scraper_step send now sc =
     (case redfish_fetch send now sc of Inl _ \<Rightarrow> sc | Inr r \<Rightarrow> sc\<lparr>rs_latest := Some r\<rparr>)"

section \<open>The Prometheus client\<close>

record prom_client =
  pc_base :: string

definition prom_client_init :: "string \<Rightarrow> prom_client" where
  "prom_client_init url = \<lparr>pc_base = rstrip_slash url\<rparr>"

definition query_url :: "prom_client \<Rightarrow> string \<Rightarrow> string" where
  "query_url c promql = pc_base c @ ''/api/v1/query?'' @ urlencode [(''query'', promql)]"

definition range_url :: "(real \<Rightarrow> string) \<Rightarrow> prom_client \<Rightarrow> string \<Rightarrow> real \<Rightarrow> real \<Rightarrow> string \<Rightarrow> string" where
  "range_url repr c promql start end_ts step =
     pc_base c @ ''/api/v1/query_range?'' @
       urlencode [(''query'', promql), (''start'', repr start), (''end'', repr end_ts), (''step'', step)]"

definition http_query :: "(string \<Rightarrow> string res) \<Rightarrow> prom_client \<Rightarrow> string \<Rightarrow> prom_row list res" where
  "http_query urlopen c promql = prom_query (\<lambda>q. res_bind (urlopen (query_url c q)) json_loads) promql"

definition http_query_range :: "(string \<Rightarrow> string res) \<Rightarrow> (real \<Rightarrow> string) \<Rightarrow> prom_client \<Rightarrow> string \<Rightarrow> real \<Rightarrow> real \<Rightarrow> string \<Rightarrow> prom_series list res" where
  "http_query_range urlopen repr c promql start end_ts step =
     prom_query_range (\<lambda>q s e st. res_bind (urlopen (range_url repr c q s e st)) json_loads) promql start end_ts step"

section \<open>Lemmas\<close>

text \<open>Every power supply of the answer has one input and one efficiency, which is a ratio between 0
  and 1 when supplies do not put out more than they take in.\<close>

lemma parse_power_supplies:
  assumes "parse_power now data = Ok r"
  obtains psus outs where "length (cr_psu_input_watts r) = length psus" "length (cr_psu_efficiency r) = length psus"
    "res_map (\<lambda>p. float_field p ''PowerOutputWatts'') psus = Ok outs"
    "cr_psu_efficiency r = psu_efficiency outs (cr_psu_input_watts r)"
proof -
  from assms obtain psus ins outs where i: "res_map (\<lambda>p. float_field p ''PowerInputWatts'') psus = Ok ins"
    and out: "res_map (\<lambda>p. float_field p ''PowerOutputWatts'') psus = Ok outs"
    and r: "cr_psu_input_watts r = ins" "cr_psu_efficiency r = psu_efficiency outs ins"
    by (auto simp: parse_power_def res_bind_Ok_iff)
  have "length ins = length psus" "length outs = length psus"
    using i out by (auto simp: res_map_Ok_iff dest: list_all2_lengthD)
  with out r show thesis by (intro that [of psus outs]) (simp_all add: psu_efficiency_def)
qed

lemma psu_efficiency_ratio:
  assumes "\<forall>(w, i) \<in> set (zip outs ins). 0 \<le> w \<and> w \<le> i" "e \<in> set (psu_efficiency outs ins)"
  shows "0 \<le> e \<and> e \<le> 1"
  using assms by (auto simp: psu_efficiency_def)

text \<open>Polling changes only the reading; after any number of rounds it is that of the last round that
  succeeded.\<close>

fun scraper_run :: "((http_request \<Rightarrow> string res) \<times> real) list \<Rightarrow> redfish_scraper \<Rightarrow> redfish_scraper" where
  "scraper_run [] sc = sc"
| "scraper_run ((send, now) # rounds) sc = scraper_run rounds (scraper_step send now sc)"

lemma scraper_step_request [simp]: "power_request (scraper_step send now sc) = power_request sc"
  by (simp add: power_request_def scraper_step_def split: sum.split)

definition poll_results :: "((http_request \<Rightarrow> string res) \<times> real) list \<Rightarrow> redfish_scraper \<Rightarrow> chassis_reading list" where
  \<comment> \<open>the readings of the rounds that succeeded\<close>
  "poll_results rounds sc =
     concat (map (\<lambda>(send, now). case redfish_fetch send now sc of Inl _ \<Rightarrow> [] | Inr r \<Rightarrow> [r]) rounds)"

lemma poll_results_step [simp]: "poll_results rounds (scraper_step send now sc) = poll_results rounds sc"
  by (simp add: poll_results_def redfish_fetch_def)

lemma scraper_run_latest:
  "get_latest (scraper_run rounds sc) = (if poll_results rounds sc = [] then get_latest sc else Some (last (poll_results rounds sc)))"
proof (induction rounds sc rule: scraper_run.induct)
  case (2 send now rounds sc)
  have "poll_results ((send, now) # rounds) sc =
      (case redfish_fetch send now sc of Inl _ \<Rightarrow> [] | Inr r \<Rightarrow> [r]) @ poll_results rounds sc"
    by (simp add: poll_results_def)
  moreover have "get_latest (scraper_step send now sc) =
      (case redfish_fetch send now sc of Inl _ \<Rightarrow> get_latest sc | Inr r \<Rightarrow> Some r)"
    by (simp add: scraper_step_def get_latest_def split: sum.split)
  ultimately show ?case using 2 by (simp split: sum.split)
qed (simp add: poll_results_def)

lemma scraper_run_request: "power_request (scraper_run rounds sc) = power_request sc"
  by (induction rounds sc rule: scraper_run.induct) simp_all

section \<open>Properties\<close>

text \<open>What the clients of \<open>telemetry/\<close> put on the wire is what was meant, whatever the texts contain: a
  Prometheus server that decodes the query string gets the query (for a range also its ends and
  step), and a BMC that decodes the header gets user and password, in every round of the
  scraper; and after any number of rounds the scraper's reading is that of the last round that
  succeeded, or none.\<close>

theorem requests_say_what_is_meant:
  "(\<exists>p. query_url c promql = pc_base c @ ''/api/v1/query?'' @ p \<and> query_pairs p = [(''query'', promql)]) \<and>
   (\<exists>p. range_url repr c promql start end_ts step = pc_base c @ ''/api/v1/query_range?'' @ p \<and>
      query_pairs p = [(''query'', promql), (''start'', repr start), (''end'', repr end_ts), (''step'', step)]) \<and>
   (let sc0 = scraper_init url user password chassis interval verify; sc = scraper_run rounds sc0; good = poll_results rounds sc0
    in (\<exists>a. rq_headers (power_request sc) = [(''Authorization'', ''Basic '' @ a)] \<and>
          utf8_decode (b64decode a) = user @ '':'' @ password) \<and>
       get_latest sc = (if good = [] then None else Some (last good)))"
proof (intro conjI)
  show "\<exists>p. query_url c promql = pc_base c @ ''/api/v1/query?'' @ p \<and> query_pairs p = [(''query'', promql)]"
    by (simp add: query_url_def query_pairs_urlencode)
  show "\<exists>p. range_url repr c promql start end_ts step = pc_base c @ ''/api/v1/query_range?'' @ p \<and>
      query_pairs p = [(''query'', promql), (''start'', repr start), (''end'', repr end_ts), (''step'', step)]"
    by (simp add: range_url_def query_pairs_urlencode)
next
  let ?s0 = "scraper_init url user password chassis interval verify"
  have "\<exists>a. rq_headers (power_request (scraper_run rounds ?s0)) = [(''Authorization'', ''Basic '' @ a)] \<and>
      utf8_decode (b64decode a) = user @ '':'' @ password"
    unfolding scraper_run_request
    using b64decode_encode utf8_bytes by (simp add: power_request_def scraper_init_def utf8_decode_utf8)
  moreover have "get_latest ?s0 = None" by (simp add: get_latest_def scraper_init_def)
  ultimately show "let sc0 = ?s0; sc = scraper_run rounds sc0; good = poll_results rounds sc0
      in (\<exists>a. rq_headers (power_request sc) = [(''Authorization'', ''Basic '' @ a)] \<and>
            utf8_decode (b64decode a) = user @ '':'' @ password) \<and>
         get_latest sc = (if good = [] then None else Some (last good))"
    by (simp add: scraper_run_latest)
qed

end
