(* ===== verification/Presets.thy ===== *)
theory Presets
  imports Pdn
begin

text \<open>
  \<open>pdn/presets.py\<close>: the two demonstration topologies, and that they are well formed with
  disjoint GPUs.
\<close>

definition demo_single_domain :: "nat \<Rightarrow> watts \<Rightarrow> topology" where
  "demo_single_domain n_gpus budget_w =
     \<lparr>pdus = [(''pdu-A'', \<lparr>pdu_name = ''pdu-A'', pdu_capacity_w = 10000, pdu_derating = 9/10\<rparr>)],
      domains = [(''domain-0'', \<lparr>pd_name = ''domain-0'', pd_budget_w = budget_w, pd_gpu_indices = map int [0..<n_gpus],
        pd_pdu_name = ''pdu-A'', pd_priority = 1, pd_node_overhead_w = 0, pd_rack_name = None\<rparr>)],
      racks = [], adopted_budget_w = []\<rparr>"

definition preset_pdu_name :: "nat \<Rightarrow> string" where
  "preset_pdu_name i = ''pdu-'' @ [char_of (65 + i)]"

definition preset_domain_name :: "nat \<Rightarrow> string" where
  "preset_domain_name i = ''domain-'' @ string_of_nat i"

definition preset_step :: "nat \<Rightarrow> watts \<Rightarrow> nat \<Rightarrow> (string, pdu) dict \<times> (string, power_domain) dict \<times> nat \<Rightarrow>
    (string, pdu) dict \<times> (string, power_domain) dict \<times> nat" where
  \<comment> \<open>the body of the loop: PDUs, domains and the GPU offset so far\<close>
  "preset_step per_domain budget i acc =
     (case acc of (ps, ds, offset) \<Rightarrow>
        (dset (preset_pdu_name i)
           \<lparr>pdu_name = preset_pdu_name i, pdu_capacity_w = budget / (9/10), pdu_derating = 9/10\<rparr> ps,
         dset (preset_domain_name i)
           \<lparr>pd_name = preset_domain_name i, pd_budget_w = budget, pd_gpu_indices = map int [offset..<offset + per_domain],
            pd_pdu_name = preset_pdu_name i, pd_priority = 0, pd_node_overhead_w = 0, pd_rack_name = None\<rparr> ds,
         offset + per_domain))"

definition demo_multi_domain :: "nat \<Rightarrow> nat \<Rightarrow> watts \<Rightarrow> topology" where
  \<comment> \<open>the letters of the PDUs are single characters of the model for up to 191 domains\<close>
  "demo_multi_domain per_domain n_domains budget =
     (case foldl (\<lambda>acc i. preset_step per_domain budget i acc) ([], [], 0) [0..<n_domains] of
        (ps, ds, _) \<Rightarrow> \<lparr>pdus = ps, domains = ds, racks = [], adopted_budget_w = []\<rparr>)"

section \<open>Lemmas\<close>

definition preset_ok :: "nat \<Rightarrow> (string, pdu) dict \<times> (string, power_domain) dict \<times> nat \<Rightarrow> bool" where
  "preset_ok n acc =
     (case acc of (ps, ds, offset) \<Rightarrow>
        wf_dict ps \<and> wf_dict ds \<and> (\<forall>(k, p) \<in> set ps. pdu_name p = k) \<and>
        (\<forall>(k, d) \<in> set ds. pd_name d = k \<and> pd_rack_name d = None \<and> pd_pdu_name d \<in> set (dkeys ps) \<and>
           (\<forall>g \<in> set (pd_gpu_indices d). 0 \<le> g \<and> g < int offset)))"

lemma dset_members: "(k', v') \<in> set (dset k v d) \<Longrightarrow> (k', v') = (k, v) \<or> (k', v') \<in> set d"
  by (induction d) (auto split: if_splits)

lemma preset_step_ok: "preset_ok n acc \<Longrightarrow> preset_ok (Suc n) (preset_step per_domain budget i acc)"
  by (cases acc) (fastforce simp: preset_ok_def preset_step_def dom_update dest!: dset_members)

lemma demo_multi_ok: "preset_ok n (foldl (\<lambda>acc i. preset_step per_domain budget i acc) ([], [], 0) [0..<n])"
  by (induction n) (simp_all add: preset_ok_def [of 0] preset_step_ok)

lemma wf_demo_single_domain: "wf_topology (demo_single_domain n budget)"
  by (simp add: wf_topology_def demo_single_domain_def unknown_rack_def)

lemma wf_demo_multi_domain: "wf_topology (demo_multi_domain per_domain n budget)"
proof -
  obtain ps ds offset where f: "foldl (\<lambda>acc i. preset_step per_domain budget i acc) ([], [], 0) [0..<n] = (ps, ds, offset)"
    by (rule prod_cases3)
  with demo_multi_ok [of n per_domain budget] show ?thesis
    by (fastforce simp: demo_multi_domain_def preset_ok_def wf_topology_def unknown_rack_def)
qed

end
