(* ===== verification/Logs.thy ===== *)
theory Logs
  imports Showback JsonText
begin

text \<open>
  What the program prints. The controller writes every decision as a JSON document on a line of
  its own (\<open>run_once\<close> of \<open>controller/standalone.py\<close>), and a node sample has the same form
  (\<open>to_jsonl\<close> of \<open>telemetry/model.py\<close>). The last section reads the lines back.
\<close>

section \<open>Lines\<close>

definition decision_doc :: "brain_decision \<Rightarrow> json" where
  "decision_doc dec =
     JObj [(''ts'', JFloat (bd_ts dec)), (''domain'', JStr (bd_domain dec)),
           (''caps'', JObj (dmerge [] (map (\<lambda>(k, v). (string_of_int k, JFloat v)) (bd_caps dec)))),
           (''reason'', JStr (bd_reason dec))]"

definition decision_line :: "(real \<Rightarrow> string) \<Rightarrow> brain_decision \<Rightarrow> string" where
  "decision_line repr dec = json_dumps_line repr (decision_doc dec)"

definition decision_log :: "(real \<Rightarrow> string) \<Rightarrow> brain_decision list \<Rightarrow> string" where
  \<comment> \<open>\<open>print\<close> ends every document with a line break\<close>
  "decision_log repr decs = concat (map (\<lambda>dec. decision_line repr dec @ [NEWLINE]) decs)"

definition to_jsonl :: "(real \<Rightarrow> string) \<Rightarrow> node_sample \<Rightarrow> string" where
  "to_jsonl repr n = json_dumps_compact repr (node_to_dict n)"

section \<open>Reading them\<close>

definition log_lines :: "string \<Rightarrow> string list" where
  "log_lines s = butlast (split_on NEWLINE s)"

definition cap_of_member :: "string \<times> json \<Rightarrow> (gpu \<times> watts) res" where
  "cap_of_member p = res_bind (py_int (fst p)) (\<lambda>g. res_bind (json_float (snd p)) (\<lambda>w. Ok (g, w)))"

definition decision_of_doc :: "json \<Rightarrow> brain_decision res" where
  "decision_of_doc v =
     res_bind (res_bind (json_get v ''ts'' JNull) json_float) (\<lambda>ts.
     res_bind (res_bind (json_get v ''domain'' JNull) json_str) (\<lambda>dn.
     res_bind (res_bind (json_get v ''caps'' JNull) json_items) (\<lambda>members.
     res_bind (res_map cap_of_member members) (\<lambda>caps.
     res_bind (res_bind (json_get v ''reason'' JNull) json_str) (\<lambda>reason.
     Ok \<lparr>bd_domain = dn, bd_caps = caps, bd_ts = ts, bd_reason = reason\<rparr>)))))"

definition readable :: "(real \<Rightarrow> string) \<Rightarrow> real \<Rightarrow> bool" where
  \<comment> \<open>the text of the float is read back as the float\<close>
  "readable repr x \<longleftrightarrow> scan_number (repr x) = Ok (JFloat x, [])"

lemma split_on_lines:
  "\<forall>w \<in> set ws. c \<notin> set w \<Longrightarrow> split_on c (concat (map (\<lambda>w. w @ [c]) ws)) = ws @ [[]]"
  by (induction ws) (simp_all add: split_on_prefix)

lemma decision_members:
  assumes "wf_dict (bd_caps dec)"
  shows "dmerge [] (map (\<lambda>(k, v). (string_of_int k, JFloat v)) (bd_caps dec)) =
           map (\<lambda>(k, v). (string_of_int k, JFloat v)) (bd_caps dec)"
    and "wf_dict (map (\<lambda>(k, v). (string_of_int k, JFloat v)) (bd_caps dec))"
proof -
  show wf: "wf_dict (map (\<lambda>(k, v). (string_of_int k, JFloat v)) (bd_caps dec))"
    using assms by (force simp: distinct_map inj_on_def string_of_int_inj)
  then show "dmerge [] (map (\<lambda>(k, v). (string_of_int k, JFloat v)) (bd_caps dec)) =
      map (\<lambda>(k, v). (string_of_int k, JFloat v)) (bd_caps dec)"
    by (simp add: dmerge_disjoint)
qed

lemma decision_doc_printable:
  assumes "wf_dict (bd_caps dec)" "readable repr (bd_ts dec)" "\<forall>w \<in> set (dvals (bd_caps dec)). readable repr w"
  shows "printable repr (decision_doc dec)"
  using assms decision_members [OF assms(1)] by (auto simp: decision_doc_def readable_def)

lemma decision_doc_reads:
  assumes "wf_dict (bd_caps dec)"
  shows "decision_of_doc (decision_doc dec) = Ok dec"
proof -
  have "res_map cap_of_member (map (\<lambda>(k, v). (string_of_int k, JFloat v)) caps) = Ok caps" for caps
    by (induction caps) (auto simp: cap_of_member_def string_of_int_reads json_float_def)
  then show ?thesis
    using decision_members [OF assms]
    by (simp add: decision_of_doc_def decision_doc_def json_get_def json_float_def json_str_def json_items_def dget_or_def)
qed

section \<open>Properties\<close>

lemma decision_log_lines:
  assumes "\<forall>dec \<in> set decs. printable repr (decision_doc dec)"
  shows "log_lines (decision_log repr decs) = map (decision_line repr) decs"
proof -
  have "\<forall>w \<in> set (map (decision_line repr) decs). NEWLINE \<notin> set w"
    using assms json_text_line [of repr _ Spaced]
    by (auto simp: decision_line_def json_dumps_line_def new_line_def)
  from split_on_lines [OF this] show ?thesis
    by (simp add: log_lines_def decision_log_def comp_def butlast_append)
qed

lemma sample_line_reads:
  assumes "printable repr (node_to_dict n)"
  shows "NEWLINE \<notin> set (to_jsonl repr n)" "json_loads (to_jsonl repr n) = Ok (node_to_dict n)"
  using assms json_text_line [of repr _ Compact] json_loads_compact [OF assms]
  by (auto simp: to_jsonl_def json_dumps_compact_def new_line_def)

text \<open>What a tick adds to the output: a document for every domain it completed, none for the one at
  which it failed nor for those after it.\<close>

definition published :: "string list \<Rightarrow> brain_decision list \<Rightarrow> brain_decision list res \<Rightarrow> bool" where
  "published dns decs r \<longleftrightarrow>
     (case r of Inr ds \<Rightarrow> decs = ds \<and> map bd_domain ds = dns
      | Inl _ \<Rightarrow> \<exists>dn rest. dns = map bd_domain decs @ dn # rest)"

lemma domains_loop_prints:
  assumes "domains_loop cfg ops env ts gpus dns c = (c', r)"
  shows "\<exists>decs. ct_printed c' = ct_printed c @ decs \<and> published dns decs r"
  using assms
proof (induction dns arbitrary: c c' r)
  case (Cons dn dns)
  obtain c1 r1 where 1: "domain_step cfg ops env ts gpus dn c = (c1, r1)" by (rule prod.exhaust)
  then have step: "ct_printed c1 = ct_printed c @ (case r1 of Inl _ \<Rightarrow> [] | Inr dec \<Rightarrow> [dec])"
    "r1 = Inr dec \<Longrightarrow> bd_domain dec = dn" for dec
    by (cases rule: domain_step_cases; auto dest: brain_decide_domain split: option.splits)+
  show ?case
  proof (cases r1)
    case (Inl e)
    with Cons.prems 1 step show ?thesis by (auto simp: published_def)
  next
    case (Inr dec)
    obtain c2 r2 where 2: "domains_loop cfg ops env ts gpus dns c1 = (c2, r2)" by (rule prod.exhaust)
    from Cons.IH [OF 2] obtain decs where decs: "ct_printed c2 = ct_printed c1 @ decs" "published dns decs r2" by blast
    from decs(1) step Inr have "ct_printed c2 = ct_printed c @ dec # decs" "bd_domain dec = dn" by simp_all
    moreover have "c' = c2" "r = (case r2 of Inl e \<Rightarrow> Inl e | Inr ds \<Rightarrow> Inr (dec # ds))"
      using Cons.prems 1 2 Inr by (auto split: sum.splits)
    ultimately show ?thesis using decs(2)
      by (intro exI [of _ "dec # decs"]) (auto simp: published_def split: sum.splits)
  qed
qed (simp add: published_def)

lemma run_once_prints:
  assumes "run_once cfg ops env c = (c', r)" "telemetry_of cfg env = Ok tel"
  shows "\<exists>decs. ct_printed c' = ct_printed c @ decs \<and> published (managed_domains cfg (ct_topology c)) decs r"
proof -
  obtain c1 r1 where 1: "domains_loop cfg ops env (fst tel) (snd tel) (managed_domains cfg (ct_topology c)) c = (c1, r1)"
    by (rule prod.exhaust)
  moreover have "ct_printed (advance_sim cfg ops c1) = ct_printed c1" by (simp add: advance_sim_def split: option.split)
  ultimately show ?thesis
    using domains_loop_prints [OF 1] assms by (auto simp: run_once_def case_prod_beta split: sum.splits)
qed

lemma run_once_no_telemetry:
  "run_once cfg ops env c = (c', r) \<Longrightarrow> telemetry_of cfg env = Err e \<Longrightarrow> c' = c \<and> r = Inl e"
  by (simp add: run_once_def)

lemma refresh_tiers_prints: "refresh_tiers loads loadable answer c = (c', e) \<Longrightarrow> ct_printed c' = ct_printed c"
  by (auto simp: refresh_tiers_def split: option.splits brain.splits sum.splits prod.splits)

text \<open>The log of well-formed decisions reads back.\<close>

lemma decision_log_reads:
  assumes "\<forall>dec \<in> set decs. wf_dict (bd_caps dec) \<and> readable repr (bd_ts dec) \<and> (\<forall>w \<in> set (dvals (bd_caps dec)). readable repr w)"
  shows "res_map (\<lambda>l. res_bind (json_loads l) decision_of_doc) (log_lines (decision_log repr decs)) = Ok decs"
proof -
  have pr: "printable repr (decision_doc dec)" if "dec \<in> set decs" for dec
    using assms that by (intro decision_doc_printable) auto
  have "res_bind (json_loads (decision_line repr dec)) decision_of_doc = Ok dec" if "dec \<in> set decs" for dec
    using assms that unfolding decision_line_def json_loads_line [OF pr [OF that]] by (simp add: decision_doc_reads)
  then have "res_map (\<lambda>l. res_bind (json_loads l) decision_of_doc) (map (decision_line repr) ds) = Ok ds"
    if "set ds \<subseteq> set decs" for ds
    using that by (induction ds) auto
  then show ?thesis using pr by (simp add: decision_log_lines)
qed

text \<open>C17. The log is complete and exact. In any state the controller can reach, on any of its actuators
  (whatever reports no negative power) and in any environment whose samples and LP solutions are
  not negative: the next round adds to the output one line for every domain it completed, in order,
  and nothing else: all the decisions \<open>run_once\<close> returns when it completes, those of the domains
  before the one that failed when it raises, none when there was no telemetry. And a reader
  that cuts the whole output at the line breaks and parses each line gets the decisions back, in
  order: the time, the domain, every GPU with its cap, the reason, provided the text of a float
  (of a time and of a cap) is read back as the float.\<close>

theorem decision_log_reads_back:
  assumes target: "control_target aok ops"
    and init: "controller_init cfg t act source smi = Ok c0" "aok act"
    and prs: "bc_type (cc_brain cfg) = ''quota-prs'' \<longrightarrow> (\<exists>p. default_prs (cc_brain cfg) = Ok p)"
    and src: "\<forall>s. source = Some s \<longrightarrow> source_ok s"
    and run: "(ctl_step loads cfg ops good_env)\<^sup>*\<^sup>* c0 c" and env: "good_env env"
    and tiers: "refresh_tiers loads loadable answer c = (c1, None)" and tick: "run_once cfg ops env c1 = (c', r)"
  shows "\<exists>decs. ct_printed c' = ct_printed c @ decs \<and>
    (case telemetry_of cfg env of Inl _ \<Rightarrow> decs = [] | Inr _ \<Rightarrow> published (managed_domains cfg (ct_topology c)) decs r) \<and>
    ((\<forall>dec \<in> set (ct_printed c'). readable repr (bd_ts dec) \<and> (\<forall>w \<in> set (dvals (bd_caps dec)). readable repr w)) \<longrightarrow>
       res_map (\<lambda>l. res_bind (json_loads l) decision_of_doc) (log_lines (decision_log repr (ct_printed c'))) =
         Ok (ct_printed c @ decs))"
proof -
  have c0: "ctl_inv aok c0" using controller_init_ok [OF init(1), of aok] prs src init(2) by auto
  have "ctl_inv aok c" using control_target.reachable_inv [OF target run c0] by simp
  then have c1: "ctl_inv aok c1" "ct_topology c1 = ct_topology c"
    using control_target.refresh_tiers_inv [OF target tiers] by simp_all
  have "ctl_inv aok c'"
    using control_target.run_once_inv [OF target tick c1(1)] env by (simp add: good_env_def)
  then have wf: "\<forall>dec \<in> set (ct_printed c'). wf_dict (bd_caps dec)"
    by (auto simp: ctl_inv_def decision_ok_def wf_powers_def)
  have "\<exists>decs. ct_printed c' = ct_printed c @ decs \<and>
    (case telemetry_of cfg env of Inl _ \<Rightarrow> decs = [] | Inr _ \<Rightarrow> published (managed_domains cfg (ct_topology c)) decs r)"
    using run_once_prints [OF tick] run_once_no_telemetry [OF tick] refresh_tiers_prints [OF tiers] c1(2)
    by (cases "telemetry_of cfg env") auto
  with wf decision_log_reads [of "ct_printed c'" repr] show ?thesis by metis
qed

text \<open>Four GPUs in a domain of 60 W under DPM, an agent that reports no draw, at time 15.\<close>

definition log_cfg :: controller_config where
  "log_cfg = demo_cfg\<lparr>cc_brain := demo_brain_config\<lparr>bc_type := ''dpm''\<rparr>\<rparr>"

definition log_ops :: "unit agent actuator_ops" where
  "log_ops = agent_ops (\<lambda>w _. (w, False)) (\<lambda>_. Err TypeError)"

definition log_ctl :: "unit agent controller" where
  "log_ctl = \<lparr>ct_topology = demo_domain 60, ct_brain = Dpm_brain \<lparr>dpm_min_cap_w = 200\<rparr>, ct_energy = \<lparr>energy_j = []\<rparr>,
     ct_actuator = agent_init (), ct_metrics = [], ct_printed = [], ct_source = None\<rparr>"

definition log_round :: "unit agent controller" where
  "log_round = run_iteration (\<lambda>_. Err TypeError) log_cfg log_ops True (Read_failed None) (demo_env\<lparr>te_now := 15\<rparr>) log_ctl"

lemma log_round_printed:
  "ct_printed log_round = [\<lparr>bd_domain = ''d'', bd_caps = [(0, 15), (1, 15), (2, 15), (3, 15)], bd_ts = 15,
     bd_reason = ''under_budget''\<rparr>]"
  by (simp add: log_round_def run_iteration_def refresh_tiers_def log_ctl_def run_once_def telemetry_of_def reads_actuator_def
      log_cfg_def demo_cfg_def demo_env_def managed_domains_def demo_domain_def domain_step_def adopt_step_def build_state_def
      fallback_cap_def domain_budget_w_def rack_for_domain_def getitem_def log_ops_def agent_ops_def reading_of_actuator_def agent_get_power_draw_def
      get_draws_def agent_get_power_cap_def agent_init_def add_reading_def thermal_flags_def is_hot_gpu_def
      brain_decide_def as_brain_def dpm_decide_def dpm_under_def dget_or_def dcomp_def push_decision_def
      advance_sim_def Let_def case_prod_beta)

theorem decision_log_reads_back_witness:
  "res_map (\<lambda>l. res_bind (json_loads l) decision_of_doc) (log_lines (decision_log demo_repr (ct_printed log_round))) =
     Ok (ct_printed log_round) \<and> length (ct_printed log_round) = 1"
proof -
  let ?ask = "\<lambda>_ :: unit. Err TypeError :: json res" and ?env = "demo_env\<lparr>te_now := 15\<rparr>"
  have init: "controller_init log_cfg (demo_domain 60) (agent_init ()) None None = Ok log_ctl"
    by (simp add: controller_init_def log_cfg_def demo_cfg_def demo_brain_config_def make_brain_def log_ctl_def)
  have env: "good_env ?env" by (simp add: good_env_def demo_env_def sane_solver_def)
  have tiers: "refresh_tiers (\<lambda>_. Err TypeError) True (Read_failed None) log_ctl = (log_ctl, None)"
    by (simp add: refresh_tiers_def log_ctl_def)
  obtain r where tick: "run_once log_cfg log_ops ?env log_ctl = (log_round, r)"
    using tiers by (cases "run_once log_cfg log_ops ?env log_ctl") (simp add: log_round_def run_iteration_def)
  have "agent_inv (agent_init ()) \<and> ask_ok ?ask" "bc_type (cc_brain log_cfg) = ''dpm''"
    by (simp_all add: agent_inv_def agent_init_def ask_ok_def agent_get_power_draw_def get_draws_def log_cfg_def demo_cfg_def)
  with decision_log_reads_back [OF agent_target.control_target_axioms init _ _ _ rtranclp.rtrancl_refl env tiers
      tick [unfolded log_ops_def], of demo_repr]
  show ?thesis by (auto simp: log_round_printed readable_def demo_repr_reads)
qed

end
