(* ===== verification/RedisStore.thy ===== *)
theory RedisStore
  imports Coordinator JsonText
begin

text \<open>
  A whole round of the cluster over the Redis store of \<open>controller/cluster_coordinator.py\<close>, with
  the texts it really stores: the nodes publish their states as JSON, the coordinator reads them
  back and rebalances, every node reads its budget. The Redis client is third-party code:
  \<open>redis_ok\<close> is what its commands promise as long as no key expires.
\<close>

definition redis_ok :: "('c \<Rightarrow> string \<Rightarrow> int \<Rightarrow> string \<Rightarrow> 'c) \<Rightarrow> ('c \<Rightarrow> string \<Rightarrow> string option) \<Rightarrow> ('c \<Rightarrow> string \<Rightarrow> string list) \<Rightarrow> bool" where
  "redis_ok setex get keys \<longleftrightarrow>
     (\<forall>c k ttl v k'. get (setex c k ttl v) k' = (if k' = k then Some v else get c k')) \<and>
     (\<forall>c. distinct (keys c (node_key ''*'')) \<and>
        set (keys c (node_key ''*'')) = {k. get c k \<noteq> None \<and> (\<exists>n. k = node_key n)})"

definition publish_states :: "('c \<Rightarrow> string \<Rightarrow> int \<Rightarrow> string \<Rightarrow> 'c) \<Rightarrow> (real \<Rightarrow> string) \<Rightarrow> int \<Rightarrow> node_state list \<Rightarrow> 'c \<Rightarrow> 'c" where
  "publish_states setex repr ttl ss c = foldl (redis_publish setex (json_dumps_line repr) ttl) c ss"

text \<open>States whose numbers have a text that reads back, and names without a colon.\<close>

definition storable :: "(real \<Rightarrow> string) \<Rightarrow> node_state list \<Rightarrow> bool" where
  "storable repr ss \<longleftrightarrow> distinct (map ns_node_id ss) \<and>
     (\<forall>s \<in> set ss. CHR '':'' \<notin> set (ns_node_id s) \<and> 0 \<le> ns_draw_w s \<and> printable repr (node_state_json s))"

lemma node_key_inj [simp]: "node_key n = node_key n' \<longleftrightarrow> n = n'"
  by (simp add: node_key_def)

lemma keys_differ [simp]: "node_key n \<noteq> budget_key n' d"
  by (simp add: node_key_def budget_key_def)

lemma dumps_nonempty: "json_dumps_line repr (node_state_json s) \<noteq> []"
  by (simp add: json_dumps_line_def node_state_json_def)

lemma publish_states_get:
  assumes "redis_ok setex get keys" "distinct (map ns_node_id ss)"
  shows "\<forall>s \<in> set ss. get (publish_states setex repr ttl ss c) (node_key (ns_node_id s)) = Some (json_dumps_line repr (node_state_json s))"
    and "k \<notin> node_key ` ns_node_id ` set ss \<Longrightarrow> get (publish_states setex repr ttl ss c) k = get c k"
proof -
  have client: "get (setex c k ttl v) k' = (if k' = k then Some v else get c k')" for c k ttl v k'
    using assms(1) by (simp add: redis_ok_def)
  have other: "k \<notin> node_key ` ns_node_id ` set ss \<Longrightarrow> get (publish_states setex repr ttl ss c) k = get c k" for ss c k
    unfolding publish_states_def by (induction ss arbitrary: c) (auto simp: redis_publish_def client)
  then show "k \<notin> node_key ` ns_node_id ` set ss \<Longrightarrow> get (publish_states setex repr ttl ss c) k = get c k" .
  show "\<forall>s \<in> set ss. get (publish_states setex repr ttl ss c) (node_key (ns_node_id s)) = Some (json_dumps_line repr (node_state_json s))"
    using assms(2)
  proof (induction ss arbitrary: c)
    case (Cons x ss)
    have "get (publish_states setex repr ttl (x # ss) c) (node_key (ns_node_id x)) = Some (json_dumps_line repr (node_state_json x))"
      using Cons.prems other [of "node_key (ns_node_id x)" ss] by (simp add: publish_states_def redis_publish_def client image_iff)
    with Cons show ?case by (simp add: publish_states_def)
  qed simp
qed

text \<open>The coordinator reads back exactly the states that are stored, in the order of the keys.\<close>

abbreviation state_text :: "(real \<Rightarrow> string) \<Rightarrow> node_state \<Rightarrow> string" where
  "state_text repr s \<equiv> json_dumps_line repr (node_state_json s)"

definition stores :: "('c \<Rightarrow> string \<Rightarrow> string option) \<Rightarrow> (real \<Rightarrow> string) \<Rightarrow> 'c \<Rightarrow> node_state list \<Rightarrow> bool" where
  \<comment> \<open>the node states on the server\<close>
  "stores get repr c ss \<longleftrightarrow> (\<forall>s \<in> set ss. get c (node_key (ns_node_id s)) = Some (state_text repr s)) \<and>
     (\<forall>n. n \<notin> ns_node_id ` set ss \<longrightarrow> get c (node_key n) = None)"

lemma publish_states_stores:
  assumes ok: "redis_ok setex get keys" and dist: "distinct (map ns_node_id (ss @ old))"
    and old: "\<forall>s \<in> set old. get c (node_key (ns_node_id s)) = Some (state_text repr s)"
    and rest: "\<forall>n. n \<notin> ns_node_id ` set (ss @ old) \<longrightarrow> get c (node_key n) = None"
  shows "stores get repr (publish_states setex repr ttl ss c) (ss @ old)"
proof -
  have d: "distinct (map ns_node_id ss)" "ns_node_id s \<notin> ns_node_id ` set ss" if "s \<in> set old" for s
    using dist that by auto
  have ds: "distinct (map ns_node_id ss)" using dist by simp
  have keep: "get (publish_states setex repr ttl ss c) (node_key n) = get c (node_key n)" if "n \<notin> ns_node_id ` set ss" for n
    by (rule publish_states_get(2) [OF ok ds]) (use that in auto)
  show ?thesis unfolding stores_def
  proof (intro conjI ballI allI impI)
    show "get (publish_states setex repr ttl ss c) (node_key (ns_node_id s)) = Some (state_text repr s)" if "s \<in> set (ss @ old)" for s
      using that publish_states_get(1) [OF ok ds, of repr ttl c] keep d(2) old by auto
    show "get (publish_states setex repr ttl ss c) (node_key n) = None" if "n \<notin> ns_node_id ` set (ss @ old)" for n
    proof -
      have "n \<notin> ns_node_id ` set ss" using that by auto
      with keep [OF this] rest that show ?thesis by simp
    qed
  qed
qed

lemma redis_get_all_published:
  assumes ok: "redis_ok setex get keys" and st: "storable repr ss" and c: "stores get repr c ss"
  obtains ss' where "redis_get_all keys get json_loads c = Ok ss'"
    "set ss' = set ss" "distinct (map ns_node_id ss')"
proof -
  let ?c = c
  let ?ks = "keys ?c (node_key ''*'')"
  let ?f = "\<lambda>k. case get ?c k of None \<Rightarrow> Ok []
      | Some raw \<Rightarrow> if raw = [] then Ok [] else res_bind (json_loads raw) (\<lambda>v. res_bind (node_of_json v) (\<lambda>s. Ok [s]))"
  have dist: "distinct (map ns_node_id ss)" using st by (simp add: storable_def)
  have stored: "get c (node_key (ns_node_id s)) = Some (state_text repr s)" if "s \<in> set ss" for s
    using c that by (simp add: stores_def)
  have in_ks: "k \<in> set ?ks \<longleftrightarrow> get ?c k \<noteq> None \<and> (\<exists>n. k = node_key n)" for k
    using ok by (simp add: redis_ok_def)
  have "k \<in> set ?ks \<longleftrightarrow> k \<in> node_key ` ns_node_id ` set ss" for k
  proof (cases "k \<in> node_key ` ns_node_id ` set ss")
    case True
    then show ?thesis using stored in_ks by blast
  next
    case False
    have "get c k = None" if "k = node_key n" for n
    proof -
      have "n \<notin> ns_node_id ` set ss" using False that by blast
      with c that show ?thesis by (simp add: stores_def)
    qed
    then have "\<not> (get c k \<noteq> None \<and> (\<exists>n. k = node_key n))" by metis
    then have "k \<notin> set ?ks" by (simp only: in_ks not_False_eq_True)
    with False show ?thesis by simp
  qed
  then have ks: "distinct ?ks" "set ?ks = node_key ` ns_node_id ` set ss"
    using ok by (auto simp: redis_ok_def)
  have f: "?f (node_key (ns_node_id s)) = Ok [s]" if "s \<in> set ss" for s
    using stored [OF that] that st json_loads_line dumps_nonempty by (simp add: storable_def node_of_json_state)
  have "\<forall>k \<in> set ?ks. \<exists>s. s \<in> set ss \<and> k = node_key (ns_node_id s)" using ks(2) by blast
  then obtain g where g: "\<forall>k \<in> set ?ks. g k \<in> set ss \<and> k = node_key (ns_node_id (g k))" by (rule bchoice [THEN exE])
  have "?f k = Ok [g k]" if "k \<in> set ?ks" for k
  proof -
    have gk: "g k \<in> set ss" "node_key (ns_node_id (g k)) = k" using bspec [OF g that] by (blast, metis)
    show ?thesis using f [OF gk(1)] unfolding gk(2) .
  qed
  then have "res_map ?f ?ks = Ok (map (\<lambda>k. [g k]) ?ks)" by (rule res_map_total)
  then have "redis_get_all keys get json_loads ?c = Ok (map g ?ks)" by (simp add: redis_get_all_def)
  moreover have "set (map g ?ks) = set ss"
  proof
    show "set (map g ?ks) \<subseteq> set ss" using g by auto
    show "set ss \<subseteq> set (map g ?ks)"
    proof
      fix s assume s: "s \<in> set ss"
      then have k: "node_key (ns_node_id s) \<in> set ?ks" using ks(2) by blast
      then have "g (node_key (ns_node_id s)) \<in> set ss" "ns_node_id (g (node_key (ns_node_id s))) = ns_node_id s" using g by auto
      then have "g (node_key (ns_node_id s)) = s" using s dist by (metis inj_on_contraD distinct_map)
      with k show "s \<in> set (map g ?ks)" by force
    qed
  qed
  moreover have "map node_key (map ns_node_id (map g ?ks)) = ?ks" using g by (simp add: map_idI)
  then have "distinct (map ns_node_id (map g ?ks))" using ks(1) by (metis distinct_map)
  ultimately show thesis by (rule that)
qed

text \<open>Every node reads the budget of its own, and no two nodes share a key.\<close>

lemma publish_budgets_redis:
  assumes ok: "redis_ok setex get keys" and ids: "distinct (map ns_node_id ss)" "\<forall>s \<in> set ss. CHR '':'' \<notin> set (ns_node_id s)"
    and x: "x \<in> set ss"
  shows "get (publish_budgets (redis_set_adopted setex repr ttl) budgets ss c) (budget_key (ns_node_id x) (ns_domain_name x))
    = Some (repr (ditem budgets (ns_node_id x)))"
proof -
  have client: "get (setex c k ttl v) k' = (if k' = k then Some v else get c k')" for c k ttl v k'
    using ok by (simp add: redis_ok_def)
  have other: "get (publish_budgets (redis_set_adopted setex repr ttl) budgets ys c) (budget_key n d) = get c (budget_key n d)"
    if "CHR '':'' \<notin> set n" "\<forall>s \<in> set ys. CHR '':'' \<notin> set (ns_node_id s) \<and> ns_node_id s \<noteq> n" for ys c n d
    using that unfolding publish_budgets_def
  proof (induction ys arbitrary: c)
    case (Cons y ys)
    then have "budget_key n d \<noteq> budget_key (ns_node_id y) (ns_domain_name y)" using budget_key_inj [of n "ns_node_id y" d "ns_domain_name y"] by auto
    with Cons show ?case by (simp add: redis_set_adopted_def client)
  qed simp
  show ?thesis using ids x
  proof (induction ss arbitrary: c)
    case (Cons y ys)
    show ?case
    proof (cases "x \<in> set ys")
      case True
      with Cons show ?thesis by (simp add: publish_budgets_def)
    next
      case False
      then have "x = y" using Cons.prems(3) by simp
      moreover have "\<forall>s \<in> set ys. CHR '':'' \<notin> set (ns_node_id s) \<and> ns_node_id s \<noteq> ns_node_id y"
        using Cons.prems(1,2) by (auto simp: image_iff)
      ultimately show ?thesis
        using Cons.prems(2) other [of "ns_node_id y" ys] by (simp add: publish_budgets_def redis_set_adopted_def client)
    qed
  qed simp
qed

section \<open>Properties\<close>

text \<open>C18. A round of the cluster over Redis, text by text: the nodes publish their states, and the
  coordinator reads back exactly those states and the ones still on the server of nodes that
  have left; after its rebalance every one of these nodes reads its own budget from the store,
  between half and twice its fair share, and the budgets read add up to at most the cluster
  budget. Any round is covered, the first and later ones: a node's own earlier state is
  overwritten. It takes a client that keeps what \<open>setex\<close> stored (no key expires meanwhile), a
  keyspace in which whatever is under a node key of a node that does not publish is the state of
  a departed node, distinct node names without a colon (with one, two nodes share a
  budget key), draws that are not negative, and numbers whose text reads back.\<close>

theorem redis_round:
  assumes ok: "redis_ok setex get keys" and st: "storable repr (ss @ old)" "ss \<noteq> []"
    and old: "\<forall>s \<in> set old. get c0 (node_key (ns_node_id s)) = Some (state_text repr s)"
    and fresh: "\<forall>n. n \<notin> ns_node_id ` set (ss @ old) \<longrightarrow> get c0 (node_key n) = None"
    and pub: "c1 = publish_states setex repr ttl ss c0" and pos: "0 \<le> co_budget co"
    and all: "redis_get_all keys get json_loads c1 = Ok states"
    and reb: "rebalance (\<lambda>_. states) (redis_set_adopted setex repr ttl) co c1 = (co', c2, budgets)"
    and floats: "\<forall>w \<in> set (dvals budgets). py_float (repr w) = Ok (Fin w) \<and> repr w \<noteq> []"
  shows "set states = set (ss @ old) \<and> length states = length (ss @ old) \<and> dsum budgets \<le> co_budget co \<and>
    dkeys budgets = map ns_node_id states \<and>
    (\<forall>x \<in> set (ss @ old). \<exists>w. map_of budgets (ns_node_id x) = Some w \<and>
       redis_get_adopted get c2 (ns_node_id x) (ns_domain_name x) = Ok (Some (Fin w)) \<and>
       co_budget co / length (ss @ old) / 2 \<le> w \<and> w \<le> 2 * (co_budget co / length (ss @ old))) \<and>
    budget_key (n @ '':'' @ n) d = budget_key n (n @ '':'' @ d)"
proof -
  let ?ss = "ss @ old"
  have dist: "distinct (map ns_node_id ?ss)" using st(1) by (simp add: storable_def)
  obtain ss' where "redis_get_all keys get json_loads (publish_states setex repr ttl ss c0) = Ok ss'"
    "set ss' = set ?ss" "distinct (map ns_node_id ss')"
    by (rule redis_get_all_published [OF ok st(1) publish_states_stores [OF ok dist old fresh]])
  with all have states: "set states = set ?ss" "distinct (map ns_node_id states)" by (simp_all add: pub)
  with dist have len: "length states = length ?ss" by (metis distinct_card distinct_map)
  have ne: "states \<noteq> []" using states(1) st(2) by auto
  have wf: "wf_states states" using states st(1) by (simp add: wf_states_def storable_def)
  from reb ne have b: "budgets = new_budgets (co_budget co) states"
    and c2: "c2 = publish_budgets (redis_set_adopted setex repr ttl) budgets states c1"
    by (auto simp: rebalance_def Let_def)
  note eq = new_budgets_eq [OF states(2), of "co_budget co"]
  have sum: "dsum budgets \<le> co_budget co" "dkeys budgets = map ns_node_id states"
    using node_budgets_sum [OF wf ne pos] by (simp_all add: b eq dsum_def comp_def)
  have colon: "\<forall>s \<in> set states. CHR '':'' \<notin> set (ns_node_id s)" using st(1) states(1) by (simp add: storable_def)
  have read: "\<exists>w. map_of budgets (ns_node_id x) = Some w \<and>
       redis_get_adopted get c2 (ns_node_id x) (ns_domain_name x) = Ok (Some (Fin w)) \<and>
       co_budget co / length ?ss / 2 \<le> w \<and> w \<le> 2 * (co_budget co / length ?ss)" if "x \<in> set ?ss" for x
  proof -
    have x: "x \<in> set states" using that states(1) by simp
    let ?w = "node_budget (co_budget co) states x"
    have item: "map_of budgets (ns_node_id x) = Some ?w" unfolding b by (rule new_budgets_item [OF states(2) x])
    then have "(ns_node_id x, ?w) \<in> set budgets" by (rule map_of_SomeD)
    then have "py_float (repr ?w) = Ok (Fin ?w)" "repr ?w \<noteq> []" using floats by force+
    then show ?thesis
      using item publish_budgets_redis [OF ok states(2) colon x, of repr ttl budgets c1] node_budget_bounds [OF wf x pos]
      by (simp add: c2 redis_get_adopted_def ditem_Some [OF item] fair_share_def len)
  qed
  show ?thesis using states(1) len sum read by (simp add: budget_key_def)
qed

text \<open>A dictionary as the client: a node that draws 15 W publishes again, another has left its state; the
  cluster budget is 30 W.\<close>

definition dict_setex :: "(string, string) dict \<Rightarrow> string \<Rightarrow> int \<Rightarrow> string \<Rightarrow> (string, string) dict" where
  "dict_setex c k ttl v = dset k v c"

definition dict_keys :: "(string, string) dict \<Rightarrow> string \<Rightarrow> string list" where
  "dict_keys c pat = filter (\<lambda>k. take 13 k = ''opendps:node:'') (remdups (dkeys c))"

lemma dict_redis_ok: "redis_ok dict_setex map_of dict_keys"
proof -
  have "take 13 k = ''opendps:node:'' \<longleftrightarrow> (\<exists>n. k = node_key n)" for k
    by (auto simp: node_key_def) (metis append_Cons append_Nil append_take_drop_id)
  moreover have "k \<in> set (dkeys c) \<longleftrightarrow> map_of c k \<noteq> None" for k :: string and c :: "(string, string) dict"
    by (simp add: map_of_eq_None_iff)
  ultimately show ?thesis
    unfolding redis_ok_def dict_setex_def dict_keys_def set_filter set_remdups by auto
qed

definition lone_node :: node_state where
  "lone_node = \<lparr>ns_node_id = ''n0'', ns_domain_name = ''d'', ns_draw_w = 15, ns_cap_w = 15, ns_budget_w = 15, ns_ts = 15\<rparr>"

definition gone_node :: node_state where
  "gone_node = lone_node\<lparr>ns_node_id := ''n1''\<rparr>"

definition used_store :: "(string, string) dict" where
  "used_store = [(node_key ''n1'', state_text demo_repr gone_node), (node_key ''n0'', ''stale'')]"

theorem redis_round_witness:
  "\<exists>states co' c2 budgets. redis_get_all dict_keys map_of json_loads (publish_states dict_setex demo_repr 30 [lone_node] used_store) = Ok states \<and>
     rebalance (\<lambda>_. states) (redis_set_adopted dict_setex demo_repr 30) (coordinator_init 30)
       (publish_states dict_setex demo_repr 30 [lone_node] used_store) = (co', c2, budgets) \<and> length states = 2 \<and>
     redis_get_adopted map_of c2 ''n0'' ''d'' = Ok (Some (Fin 15))"
proof -
  let ?c1 = "publish_states dict_setex demo_repr 30 [lone_node] used_store"
  have st: "storable demo_repr ([lone_node] @ [gone_node])"
    by (simp add: storable_def lone_node_def gone_node_def node_state_json_def demo_repr_reads)
  have old: "\<forall>s \<in> set [gone_node]. map_of used_store (node_key (ns_node_id s)) = Some (state_text demo_repr s)"
    and fresh: "\<forall>n. n \<notin> ns_node_id ` set ([lone_node] @ [gone_node]) \<longrightarrow> map_of used_store (node_key n) = None"
    by (simp_all add: used_store_def gone_node_def lone_node_def)
  have "distinct (map ns_node_id ([lone_node] @ [gone_node]))" using st by (simp add: storable_def)
  note stored = publish_states_stores [OF dict_redis_ok this old fresh, of 30]
  obtain states where all: "redis_get_all dict_keys map_of json_loads ?c1 = Ok states"
    and states: "set states = set ([lone_node] @ [gone_node])" "distinct (map ns_node_id states)"
    by (rule redis_get_all_published [OF dict_redis_ok st stored])
  obtain co' c2 budgets where reb: "rebalance (\<lambda>_. states) (redis_set_adopted dict_setex demo_repr 30) (coordinator_init 30) ?c1
      = (co', c2, budgets)" by (metis prod_cases3)
  have two: "states = [lone_node, gone_node] \<or> states = [gone_node, lone_node]"
  proof -
    have ne: "lone_node \<noteq> gone_node" by (simp add: gone_node_def lone_node_def)
    moreover have "distinct states" using states(2) by (simp add: distinct_map)
    ultimately have "length states = 2" using states(1) distinct_card [of states] by simp
    then obtain x y where "states = [x, y]" by (auto simp: numeral_2_eq_2 length_Suc_conv)
    with states(1) show ?thesis by (simp add: doubleton_eq_iff)
  qed
  have b: "set (dvals budgets) = {15} \<and> map_of budgets ''n0'' = Some 15"
    using reb two by (auto simp: rebalance_def new_budgets_def node_budget_def lone_node_def gone_node_def coordinator_init_def Let_def)
  have "py_float ''15.0'' = Ok (Fin 15)"
    by (simp add: py_float_def strip_def lstrip_def rstrip_def is_ws_def sign_of_def lower_def lower_char_def
        split_first_def mantissa_of_def digits_of_def is_digit_def digit_val_def exponent_of_def scale10_def)
  then have floats: "\<forall>w \<in> set (dvals budgets). py_float (demo_repr w) = Ok (Fin w) \<and> demo_repr w \<noteq> []"
    by (simp only: b) (simp add: demo_repr_def)
  have "0 \<le> co_budget (coordinator_init 30)" by (simp add: coordinator_init_def)
  from redis_round [OF dict_redis_ok st _ old fresh refl this all reb floats] b
  have "redis_get_adopted map_of c2 ''n0'' ''d'' = Ok (Some (Fin 15))" "length states = 2" by (auto simp: lone_node_def)
  with all reb show ?thesis by blast
qed

end
