(* ===== verification/OperatorLife.thy ===== *)
theory OperatorLife
  imports OperatorProps
begin

text \<open>
  The operator as a whole: the notifications the framework delivers, each with the handler that
  \<open>operator/handlers.py\<close> registers for it, and the life of the operator as the relation of one
  reaction after the other. The requests of a reaction and the memory it leaves are bounded by
  the notification: \<open>touches\<close> says which objects of the API server a notification may concern.
\<close>

section \<open>Notifications\<close>

datatype notification =
    Power_domain_changed "(string, json) dict" string string
  | Power_domain_deleted string string
  | Power_policy_changed "(string, json) dict" string
  | Job_policy_changed json string string json
  | Job_policy_timer json string string json json
  | Job_policy_deleted string string
  | Pod_seen json string

definition operator_start :: "'s \<Rightarrow> 's operator" where
  "operator_start w = \<lparr>op_world = w, op_digests = [], op_selectors = []\<rparr>"

definition silently :: "('s, unit) op \<Rightarrow> ('s, (string, json) dict) op" where
  \<comment> \<open>a handler that patches no status\<close>
  "silently m = op_bind m (\<lambda>_. op_return [])"

definition operator_react ::
    "'s kube \<Rightarrow> (real \<Rightarrow> string) \<Rightarrow> string \<Rightarrow> real \<Rightarrow> notification \<Rightarrow> ('s operator, (string, json) dict) op" where
  \<comment> \<open>the wall clock as text and the monotonic clock; the value is the patch of the status\<close>
  "operator_react kube repr stamp now n =
     (case n of
        Power_domain_changed spec name ns \<Rightarrow> on_powerdomain_change (in_operator kube) repr spec name ns stamp
      | Power_domain_deleted name ns \<Rightarrow> silently (on_powerdomain_delete (in_operator kube) name ns)
      | Power_policy_changed spec ns \<Rightarrow> on_powerpolicy_change (in_operator kube) repr spec ns stamp
      | Job_policy_changed spec name ns meta \<Rightarrow> on_jobpowerpolicy_change kube repr spec name ns meta
      | Job_policy_timer spec name ns status meta \<Rightarrow> resync_jobpowerpolicy kube repr spec name ns status meta
      | Job_policy_deleted name ns \<Rightarrow> silently (on_jobpowerpolicy_delete kube repr name ns)
      | Pod_seen event ns \<Rightarrow> silently (on_pod_event kube repr event ns now))"

text \<open>A life: the clock, the notifications handled so far, the operator. The clock never goes back.\<close>

inductive operator_step :: "'s kube \<Rightarrow> (real \<Rightarrow> string) \<Rightarrow> real \<times> notification list \<times> 's operator \<Rightarrow>
    real \<times> notification list \<times> 's operator \<Rightarrow> bool" for kube repr where
  react: "t \<le> now \<Longrightarrow> operator_step kube repr (t, ns, st) (now, ns @ [n], snd (operator_react kube repr stamp now n st))"

inductive_cases operator_step_cases: "operator_step kube repr (t, ns, st) c"

section \<open>What a notification may concern\<close>

definition registry_request :: "string \<Rightarrow> kube_request \<Rightarrow> bool" where
  "registry_request ns q =
     (case q of
        Read_config_map n cm \<Rightarrow> n = ns \<and> cm = BOOST_CONFIG_MAP_NAME
      | Create_config_map n cm _ \<Rightarrow> n = ns \<and> cm = BOOST_CONFIG_MAP_NAME
      | Replace_config_map n cm _ _ \<Rightarrow> n = ns \<and> cm = BOOST_CONFIG_MAP_NAME
      | List_pods n _ \<Rightarrow> n = ns
      | List_policies n \<Rightarrow> n = ns
      | _ \<Rightarrow> False)"

definition topology_request :: "string \<Rightarrow> string \<Rightarrow> kube_request \<Rightarrow> bool" where
  "topology_request ns name q =
     (case q of
        Patch_config_map_data n cm d \<Rightarrow> n = ns \<and> cm = domain_map_name name \<and> dkeys d = [''topology.json'']
      | Create_config_map n cm d \<Rightarrow> n = ns \<and> cm = domain_map_name name \<and> dkeys d = [''topology.json'']
      | _ \<Rightarrow> False)"

definition params_request :: "string \<Rightarrow> string \<Rightarrow> kube_request \<Rightarrow> bool" where
  "params_request ns name q =
     (case q of
        Patch_config_map_data n cm d \<Rightarrow> n = ns \<and> cm = domain_map_name name \<and> dkeys d = [''params.json'']
      | Patch_config_map_annotations n cm _ \<Rightarrow> n = ns \<and> cm = domain_map_name name
      | _ \<Rightarrow> False)"

definition touches :: "(real \<Rightarrow> string) \<Rightarrow> notification \<Rightarrow> kube_request \<Rightarrow> bool" where
  "touches repr n q =
     (case n of
        Power_domain_changed spec name ns \<Rightarrow> topology_request ns name q
      | Power_domain_deleted name ns \<Rightarrow> q = Delete_config_map ns (domain_map_name name)
      | Power_policy_changed spec ns \<Rightarrow> params_request ns (py_str repr (ditem spec ''domainRef'')) q
      | Job_policy_changed _ _ ns _ \<Rightarrow> registry_request ns q
      | Job_policy_timer _ _ ns _ _ \<Rightarrow> registry_request ns q
      | Job_policy_deleted _ ns \<Rightarrow> registry_request ns q
      | Pod_seen _ ns \<Rightarrow> registry_request ns q)"

definition requests :: "('s \<times> (kube_request \<times> kube_answer) list) operator \<Rightarrow> kube_request list" where
  "requests st = map fst (snd (op_world st))"

definition memory_ok :: "real \<Rightarrow> 's operator \<Rightarrow> bool" where
  \<comment> \<open>no cached selector list outlives the bound, and every remembered Pod has a namespace\<close>
  "memory_ok b st \<longleftrightarrow> wf_dict (op_digests st) \<and> wf_dict (op_selectors st) \<and>
     (\<forall>x \<in> set (op_digests st). snd (snd (snd x)) \<noteq> []) \<and> (\<forall>x \<in> set (op_selectors st). fst (snd x) \<le> b)"

section \<open>Confinement\<close>

definition evolves :: "(kube_request \<Rightarrow> bool) \<Rightarrow> real \<Rightarrow> ('s \<times> (kube_request \<times> kube_answer) list) operator \<Rightarrow>
    ('s \<times> (kube_request \<times> kube_answer) list) operator \<Rightarrow> bool" where
  "evolves P b st st' \<longleftrightarrow> set (requests st') \<subseteq> set (requests st) \<union> {q. P q} \<and> (memory_ok b st \<longrightarrow> memory_ok b st')"

definition confined :: "(kube_request \<Rightarrow> bool) \<Rightarrow> real \<Rightarrow> (('s \<times> (kube_request \<times> kube_answer) list) operator, 'a) op \<Rightarrow> bool" where
  "confined P b m \<longleftrightarrow> (\<forall>st. evolves P b st (snd (m st)))"

named_theorems conf

lemma evolves_refl [simp]: "evolves P b st st"
  by (simp add: evolves_def)

lemma evolves_trans: "evolves P b st st1 \<Longrightarrow> evolves P b st1 st2 \<Longrightarrow> evolves P b st st2"
  unfolding evolves_def by blast

lemma conf_basic [conf]:
  "confined P b (op_return x)" "confined P b (op_raise e)" "confined P b (op_lift r)" "confined P b (\<lambda>st. (y, st))"
  by (auto simp: confined_def op_return_def op_raise_def op_lift_def split: sum.split)

lemma conf_bind [conf]:
  assumes "confined P b m" "\<And>x. confined P b (f x)"
  shows "confined P b (op_bind m f)"
  unfolding confined_def
proof
  fix st
  obtain r st1 where m: "m st = (r, st1)" by (rule prod.exhaust)
  with assms(1) have "evolves P b st st1" by (metis confined_def snd_conv)
  with m assms(2) show "evolves P b st (snd (op_bind m f st))"
    by (cases r) (auto simp: op_bind_def confined_def intro: evolves_trans)
qed

lemma conf_if [conf]: "confined P b m \<Longrightarrow> confined P b m' \<Longrightarrow> confined P b (if c then m else m')"
  by simp

lemma conf_if_state [conf]: "confined P b m \<Longrightarrow> confined P b m' \<Longrightarrow> confined P b (\<lambda>st. if c then m st else m' st)"
  by (simp add: confined_def)

lemma conf_answer [conf]:
  "confined P b m \<Longrightarrow> (\<And>v d. confined P b (m2 v d)) \<Longrightarrow> (\<And>ps. confined P b (m3 ps)) \<Longrightarrow> (\<And>ps. confined P b (m4 ps)) \<Longrightarrow>
   (\<And>i. confined P b (m5 i)) \<Longrightarrow> confined P b m6 \<Longrightarrow>
   confined P b (\<lambda>st. case a of Done \<Rightarrow> m st | Config_map v d \<Rightarrow> m2 v d st | Pods ps \<Rightarrow> m3 ps st | Policies ps \<Rightarrow> m4 ps st
     | Api_error i \<Rightarrow> m5 i st | No_connection \<Rightarrow> m6 st)"
  by (cases a) simp_all

lemma conf_result [conf]:
  "(\<And>e. confined P b (m e)) \<Longrightarrow> (\<And>x. confined P b (m' x)) \<Longrightarrow> confined P b (\<lambda>st. case r of Inl e \<Rightarrow> m e st | Inr x \<Rightarrow> m' x st)"
  by (cases r) simp_all

lemma evolves_request:
  "P q \<Longrightarrow> in_operator (recorded kube) q st = (a, st1) \<Longrightarrow> evolves P b st st1"
  by (auto simp: in_operator_def recorded_def evolves_def requests_def memory_ok_def split: prod.splits)

lemma conf_request [conf]:
  assumes "P q" "\<And>a. confined P b (f a)"
  shows "confined P b (\<lambda>st. case in_operator (recorded kube) q st of (a, st1) \<Rightarrow> f a st1)"
  unfolding confined_def
proof
  fix st
  obtain a st1 where r: "in_operator (recorded kube) q st = (a, st1)" by (rule prod.exhaust)
  with assms(2) have "evolves P b st1 (snd (f a st1))" by (simp add: confined_def)
  from evolves_trans [OF evolves_request [where P = P, OF assms(1) r] this]
  show "evolves P b st (snd (case in_operator (recorded kube) q st of (a, st1) \<Rightarrow> f a st1))" by (simp add: r)
qed

lemma conf_state:
  "m = m' \<Longrightarrow> confined P b m' \<Longrightarrow> confined P b m"
  by simp

section \<open>The handlers\<close>

lemma topology_requests:
  "topology_request ns name (Patch_config_map_data ns (domain_map_name name) [(''topology.json'', js)])"
  "topology_request ns name (Create_config_map ns (domain_map_name name) [(''topology.json'', js)])"
  by (simp_all add: topology_request_def)

lemma conf_upsert [conf]:
  "confined (topology_request ns name) b (upsert_configmap (in_operator (recorded kube)) repr ns name doc)"
  unfolding upsert_configmap_def patch_or_create_cm_def [abs_def]
  by (intro conf topology_requests)

lemma conf_domain_change:
  "confined (topology_request ns name) b (on_powerdomain_change (in_operator (recorded kube)) repr spec name ns stamp)"
  unfolding on_powerdomain_change_def by (intro conf)

lemma conf_domain_delete:
  "confined (\<lambda>q. q = Delete_config_map ns (domain_map_name name)) b
     (on_powerdomain_delete (in_operator (recorded kube)) name ns)"
  unfolding on_powerdomain_delete_def [abs_def] by (intro conf refl)

lemma params_requests:
  "params_request ns name (Patch_config_map_data ns (domain_map_name name) [(''params.json'', js)])"
  "params_request ns name (Patch_config_map_annotations ns (domain_map_name name) d)"
  by (simp_all add: params_request_def)

lemma conf_params [conf]:
  "confined (params_request ns name) b (write_domain_params (in_operator (recorded kube)) repr ns name params)"
  "confined (params_request ns name) b (annotate_domain_configmap (in_operator (recorded kube)) ns name d)"
  unfolding write_domain_params_def [abs_def] annotate_domain_configmap_def [abs_def]
  by (intro conf params_requests)+

lemma conf_policy_change:
  "confined (params_request ns (py_str repr (ditem spec ''domainRef''))) b
     (on_powerpolicy_change (in_operator (recorded kube)) repr spec ns stamp)"
proof (cases "getitem spec ''domainRef''")
  case (Inl e)
  then have "on_powerpolicy_change (in_operator (recorded kube)) repr spec ns stamp = op_raise (Python e)"
    by (auto simp: on_powerpolicy_change_def op_bind_def op_raise_def op_lift_def)
  then show ?thesis by (simp add: conf)
next
  case (Inr ref)
  then have ref: "ditem spec ''domainRef'' = ref" by (auto simp: getitem_def ditem_def split: option.splits)
  have lift: "op_bind (op_lift (Ok ref)) f = f ref" for f :: "json \<Rightarrow> ('x, 'y) op" by (rule ext) (simp add: op_bind_def)
  show ?thesis unfolding on_powerpolicy_change_def Inr lift ref by (intro conf)
qed

lemma registry_requests:
  "registry_request ns (Read_config_map ns BOOST_CONFIG_MAP_NAME)"
  "registry_request ns (Create_config_map ns BOOST_CONFIG_MAP_NAME d)"
  "registry_request ns (Replace_config_map ns BOOST_CONFIG_MAP_NAME v d)"
  "registry_request ns (List_pods ns sel)" "registry_request ns (List_policies ns)"
  by (simp_all add: registry_request_def)

lemma conf_registry [conf]: "confined (registry_request ns) b (registry_loop k (in_operator (recorded kube)) repr ns name entry)"
proof (induction k)
  case 0
  have "registry_loop 0 (in_operator (recorded kube)) repr ns name entry = (\<lambda>st. (Inr (), st))" by (rule ext) simp
  then show ?case by (simp add: conf)
next
  case (Suc k)
  have after: "confined (registry_request ns) b (\<lambda>st. after_write k (registry_loop k (in_operator (recorded kube)) repr ns name entry) a st)" for a
    unfolding after_write_def by (intro conf Suc.IH)
  have "confined (registry_request ns) b (\<lambda>st. registry_loop (Suc k) (in_operator (recorded kube)) repr ns name entry st)"
    unfolding registry_loop.simps Let_def by (intro conf registry_requests after)
  then show ?case by simp
qed

lemma conf_write [conf]: "confined (registry_request ns) b (write_boost_registry (in_operator (recorded kube)) repr ns name entry)"
  unfolding write_boost_registry_def by (rule conf_registry)

lemma conf_list [conf]: "confined (registry_request ns) b (list_matching_pods (in_operator (recorded kube)) repr ns labels)"
  unfolding list_matching_pods_def by (intro conf registry_requests)

lemma conf_reconcile [conf]:
  "confined (registry_request ns) b (reconcile_jobpowerpolicy (in_operator (recorded kube)) repr spec name ns meta)"
  unfolding reconcile_jobpowerpolicy_def Let_def by (intro conf)

lemma conf_reconcile_each [conf]:
  "confined (registry_request ns) b (reconcile_each (in_operator (recorded kube)) repr ns ps)"
proof (induction ps)
  case (Cons p ps)
  then show ?case by (cases p) (simp, intro conjI impI conf)
qed (simp add: conf)

lemma conf_reconcile_namespace [conf]:
  "confined (registry_request ns) b (reconcile_jobpowerpolicies_for_namespace (in_operator (recorded kube)) repr ns)"
  unfolding reconcile_jobpowerpolicies_for_namespace_def [abs_def] by (intro conf registry_requests)

lemma dset_in: "x \<in> set (dset k v d) \<Longrightarrow> x = (k, v) \<or> x \<in> set d"
  by (induction d) (auto split: if_splits)

lemma dpop_in: "x \<in> set (dpop k d) \<Longrightarrow> x \<in> set d"
  by (simp add: AList.delete_eq)

text \<open>The changes of the operator's own memory.\<close>

lemma evolves_memory:
  assumes "op_world st' = op_world st" "memory_ok b st \<Longrightarrow> memory_ok b st'"
  shows "evolves P b st st'"
  using assms by (simp add: evolves_def requests_def)

lemma conf_invalidate: "evolves P b st (invalidate_policy_selector_cache ns st)"
  by (rule evolves_memory) (auto simp: invalidate_policy_selector_cache_def memory_ok_def dest: dpop_in)

lemma conf_forget: "evolves P b st (forget_pod uid st)"
  by (rule evolves_memory) (auto simp: forget_pod_def memory_ok_def dest: dpop_in)

lemma conf_remember [conf]:
  "ns \<noteq> [] \<Longrightarrow> confined P b (\<lambda>st. (Inr (), st\<lparr>op_digests := dset uid (d, relevant, ns) (op_digests st)\<rparr>))"
  unfolding confined_def by (intro allI evolves_memory) (auto simp: memory_ok_def dest!: dset_in)

lemma conf_cache [conf]:
  "e \<le> b \<Longrightarrow> confined P b (\<lambda>st. (Inr sel, st\<lparr>op_selectors := dset ns (e, sel) (op_selectors st)\<rparr>))"
  unfolding confined_def by (intro allI evolves_memory) (auto simp: memory_ok_def dest!: dset_in)

lemma conf_prune [conf]: "confined (registry_request ns) b (prune_pod_assignment_digests (recorded kube) ns)"
proof -
  have "confined (registry_request ns) b (\<lambda>st. (Inr (), st\<lparr>op_digests :=
      filter (\<lambda>(u, (_, _, n)). \<not> (n = ns \<and> u \<notin> set (live_uids pods))) (op_digests st)\<rparr>))" for pods
    unfolding confined_def by (intro allI evolves_memory) (auto simp: memory_ok_def distinct_map_filter)
  then show ?thesis
    unfolding prune_pod_assignment_digests_def [abs_def] by (intro conf registry_requests)
qed

lemma conf_selectors [conf]:
  "now + POLICY_SELECTOR_CACHE_TTL_S \<le> b \<Longrightarrow>
   confined (registry_request ns) b (policy_selectors (recorded kube) repr ns now)"
proof -
  assume b: "now + POLICY_SELECTOR_CACHE_TTL_S \<le> b"
  have fetch: "confined (registry_request ns) b (\<lambda>st.
      case in_operator (recorded kube) (List_policies ns) st of
        (Policies items, st1) \<Rightarrow>
          (case res_map (policy_selector repr) items of
             Inl e \<Rightarrow> (Inl (Python e), st1)
           | Inr found \<Rightarrow>
               (let selectors = concat (map (\<lambda>x. case x of None \<Rightarrow> [] | Some sel \<Rightarrow> [sel]) found) in
                (Inr selectors, st1\<lparr>op_selectors := dset ns (now + POLICY_SELECTOR_CACHE_TTL_S, selectors) (op_selectors st1)\<rparr>)))
      | (a, st1) \<Rightarrow> (Inl (unexpected a), st1))"
    unfolding Let_def by (intro conf registry_requests b)
  show "confined (registry_request ns) b (policy_selectors (recorded kube) repr ns now)"
    using fetch unfolding confined_def policy_selectors_def [abs_def] Let_def
    by (auto split: option.split)
qed

lemma conf_cond: "(c \<Longrightarrow> confined P b m) \<Longrightarrow> (\<not> c \<Longrightarrow> confined P b m') \<Longrightarrow> confined P b (if c then m else m')"
  by simp

lemma conf_matches [conf]:
  assumes "now + POLICY_SELECTOR_CACHE_TTL_S \<le> b"
  shows "confined (registry_request ns) b (pod_matches_assignment_policy (recorded kube) repr body ns now)"
  unfolding pod_matches_assignment_policy_def Let_def split_def by (intro conf assms)

lemma conf_deleted [conf]:
  assumes "now + POLICY_SELECTOR_CACHE_TTL_S \<le> b"
  shows "confined (registry_request ns) b (pod_deleted (recorded kube) repr body uid ns now)"
  unfolding confined_def
proof
  fix st :: "('a \<times> (kube_request \<times> kube_answer) list) operator"
  let ?m = "op_bind (pod_matches_assignment_policy (recorded kube) repr body ns now) (\<lambda>current.
      if current \<or> was_relevant (map_of (op_digests st) uid)
      then reconcile_jobpowerpolicies_for_namespace (in_operator (recorded kube)) repr ns else op_return ())"
  obtain r st1 where m: "?m st = (r, st1)" by (rule prod.exhaust)
  have "confined (registry_request ns) b ?m" by (intro conf assms)
  then have "evolves (registry_request ns) b st (snd (?m st))" unfolding confined_def by (rule spec)
  then have "evolves (registry_request ns) b st st1" by (simp only: m snd_conv)
  from evolves_trans [OF this conf_forget]
  show "evolves (registry_request ns) b st (snd (pod_deleted (recorded kube) repr body uid ns now st))"
    by (simp add: pod_deleted_def m)
qed

lemma conf_changed [conf]:
  assumes "ns \<noteq> []" "now + POLICY_SELECTOR_CACHE_TTL_S \<le> b"
  shows "confined (registry_request ns) b (pod_changed (recorded kube) repr body uid ns now)"
proof -
  have run: "confined (registry_request ns) b (op_bind (op_lift (pod_assignment_digest repr body)) (\<lambda>digest.
        if (case previous of None \<Rightarrow> False | Some (d, _) \<Rightarrow> d = digest) then op_return ()
        else op_bind (pod_matches_assignment_policy (recorded kube) repr body ns now) (\<lambda>relevant.
             op_bind (if relevant \<or> was_relevant previous
                      then reconcile_jobpowerpolicies_for_namespace (in_operator (recorded kube)) repr ns
                      else op_return ()) (\<lambda>_ st1.
               (Inr (), st1\<lparr>op_digests := dset uid (digest, relevant, ns) (op_digests st1)\<rparr>)))))"
    for previous :: "(pod_digest \<times> bool \<times> string) option"
    by (intro conf assms)
  show ?thesis
    unfolding confined_def pod_changed_def Let_def using run [unfolded confined_def] by blast
qed

lemma conf_pod:
  assumes ttl: "now + POLICY_SELECTOR_CACHE_TTL_S \<le> b"
  shows "confined (registry_request ns) b (on_pod_event (recorded kube) repr event ns now)"
proof -
  have run: "confined (registry_request ns) b (op_bind (op_lift u) (\<lambda>u.
      if py_falsy u \<or> ns = [] then op_return ()
      else if event_type repr event = ''DELETED'' then pod_deleted (recorded kube) repr body (py_str repr u) ns now
      else pod_changed (recorded kube) repr body (py_str repr u) ns now))" for u body
  proof (cases "ns = []")
    case True
    then show ?thesis by (simp add: conf)
  next
    case False
    then show ?thesis by (intro conf ttl)
  qed
  show ?thesis unfolding on_pod_event_def [abs_def] Let_def by (intro conf_if_state run conf_basic)
qed

section \<open>One reaction\<close>

lemma conf_silently: "confined P b m \<Longrightarrow> confined P b (silently m)"
  unfolding silently_def by (intro conf)

lemma react_confined:
  assumes "now + POLICY_SELECTOR_CACHE_TTL_S \<le> b"
  shows "confined (touches repr n) b (operator_react (recorded kube) repr stamp now n)"
proof (cases n)
  case (Job_policy_changed spec name ns meta)
  have "confined (registry_request ns) b (op_bind (reconcile_jobpowerpolicy (in_operator (recorded kube)) repr spec name ns meta)
      (\<lambda>(matched, active). op_return [(''matchedPods'', JInt (int matched)), (''activeBoosts'', JInt (int active))]))"
    unfolding split_def by (intro conf)
  then have "confined (registry_request ns) b (on_jobpowerpolicy_change (recorded kube) repr spec name ns meta)"
    unfolding confined_def on_jobpowerpolicy_change_def using evolves_trans [OF conf_invalidate] by blast
  then show ?thesis by (simp add: operator_react_def touches_def [abs_def] Job_policy_changed)
next
  case (Job_policy_timer spec name ns status meta)
  have "confined (registry_request ns) b (resync_jobpowerpolicy (recorded kube) repr spec name ns status meta)"
    unfolding resync_jobpowerpolicy_def split_def by (intro conf)
  then show ?thesis by (simp add: operator_react_def touches_def [abs_def] Job_policy_timer)
next
  case (Job_policy_deleted name ns)
  have "confined (registry_request ns) b (on_jobpowerpolicy_delete (recorded kube) repr name ns)"
    using conf_write [of ns b kube repr name None] evolves_trans [OF conf_invalidate]
    unfolding confined_def on_jobpowerpolicy_delete_def by blast
  then show ?thesis by (simp add: operator_react_def touches_def [abs_def] Job_policy_deleted conf_silently)
qed (simp_all add: operator_react_def touches_def [abs_def] conf_domain_change conf_policy_change
    conf_silently [OF conf_domain_delete] conf_silently [OF conf_pod [OF assms]])

lemma memory_ok_mono: "memory_ok b st \<Longrightarrow> b \<le> b' \<Longrightarrow> memory_ok b' st"
  unfolding memory_ok_def by (meson order_trans)

text \<open>The registry of the boosts is no domain's ConfigMap, so the two families of handlers never meet.\<close>

definition names_map :: "kube_request \<Rightarrow> (string \<times> string) option" where
  "names_map q =
     (case q of
        Read_config_map n cm \<Rightarrow> Some (n, cm) | Create_config_map n cm _ \<Rightarrow> Some (n, cm)
      | Replace_config_map n cm _ _ \<Rightarrow> Some (n, cm) | Patch_config_map_data n cm _ \<Rightarrow> Some (n, cm)
      | Patch_config_map_annotations n cm _ \<Rightarrow> Some (n, cm) | Delete_config_map n cm \<Rightarrow> Some (n, cm)
      | List_pods _ _ \<Rightarrow> None | List_policies _ \<Rightarrow> None)"

fun about_jobs :: "string \<Rightarrow> notification \<Rightarrow> bool" where
  "about_jobs ns (Job_policy_changed _ _ n _) \<longleftrightarrow> n = ns"
| "about_jobs ns (Job_policy_timer _ _ n _ _) \<longleftrightarrow> n = ns"
| "about_jobs ns (Job_policy_deleted _ n) \<longleftrightarrow> n = ns"
| "about_jobs ns (Pod_seen _ n) \<longleftrightarrow> n = ns"
| "about_jobs ns _ \<longleftrightarrow> False"

lemma not_registry: "domain_map_name name \<noteq> BOOST_CONFIG_MAP_NAME"
  by (simp add: domain_map_name_def BOOST_CONFIG_MAP_NAME_def)

lemma registry_only_jobs:
  assumes "touches repr n q" "names_map q = Some (ns, BOOST_CONFIG_MAP_NAME)"
  shows "about_jobs ns n \<and> (\<forall>cm. q \<noteq> Delete_config_map ns cm)"
  using assms
  by (cases n) (auto simp: touches_def names_map_def registry_request_def topology_request_def params_request_def
      not_registry not_registry [symmetric] split: kube_request.splits)

section \<open>Properties\<close>

text \<open>C10. The operator stays within its notifications over its whole life, whatever the API server answers:
  every request it ever made is one that some notification it handled may cause, on the
  ConfigMap of that very domain (a PowerDomain only its topology, a PowerPolicy only its
  parameters and annotations) or on the boost registry of that namespace; the registry is
  touched only for job policies and Pods of its namespace and is never deleted; and the memory
  stays sane: one digest per Pod, each with a namespace, and no cached selectors that outlive
  the clock by more than the five seconds they are kept.\<close>

theorem operator_confined:
  assumes life: "(operator_step (recorded kube) repr)\<^sup>*\<^sup>* (t0, [], operator_start (w, [])) (t, ns, st)"
  shows "(\<forall>q \<in> set (requests st). \<exists>n \<in> set ns. touches repr n q) \<and>
    (\<forall>q \<in> set (requests st). \<forall>x. names_map q = Some (x, BOOST_CONFIG_MAP_NAME) \<longrightarrow>
       (\<exists>n \<in> set ns. about_jobs x n) \<and> q \<noteq> Delete_config_map x BOOST_CONFIG_MAP_NAME) \<and>
    memory_ok (t + POLICY_SELECTOR_CACHE_TTL_S) st"
proof -
  have "(\<forall>q \<in> set (requests st). \<exists>n \<in> set ns. touches repr n q) \<and> memory_ok (t + POLICY_SELECTOR_CACHE_TTL_S) st"
    using life
  proof (induction "(t, ns, st)" arbitrary: t ns st rule: rtranclp_induct)
    case base
    then show ?case by (simp add: operator_start_def requests_def memory_ok_def)
  next
    case (step c)
    obtain t1 ns1 st1 where c: "c = (t1, ns1, st1)" by (cases c)
    note IH = step(3) [OF c]
    from step(2) obtain stamp n where le: "t1 \<le> t" and ns: "ns = ns1 @ [n]"
      and st: "st = snd (operator_react (recorded kube) repr stamp t n st1)"
      unfolding c by (rule operator_step_cases) blast
    have "evolves (touches repr n) (t + POLICY_SELECTOR_CACHE_TTL_S) st1 st"
      using react_confined [of t] unfolding st confined_def by blast
    moreover have "memory_ok (t + POLICY_SELECTOR_CACHE_TTL_S) st1"
      using IH le by (auto intro: memory_ok_mono)
    ultimately show ?case using IH unfolding evolves_def ns by auto
  qed
  moreover from this have "(\<exists>n \<in> set ns. about_jobs x n) \<and> q \<noteq> Delete_config_map x BOOST_CONFIG_MAP_NAME"
    if "q \<in> set (requests st)" "names_map q = Some (x, BOOST_CONFIG_MAP_NAME)" for q x
    using that registry_only_jobs by blast
  ultimately show ?thesis by blast
qed

theorem operator_confined_witness:
  "\<exists>st. operator_step (recorded (\<lambda>q s. (Done, s))) demo_repr (0, [], operator_start ((), []))
       (1, [Power_domain_changed demo_domain_spec ''d0'' ''ns''], st) \<and>
     length (requests st) = 1 \<and> (\<forall>q \<in> set (requests st). topology_request ''ns'' ''d0'' q) \<and> memory_ok 6 st"
proof -
  let ?kube = "recorded (\<lambda>q (s :: unit). (Done, s))" and ?n = "Power_domain_changed demo_domain_spec ''d0'' ''ns''"
  define st where "st = snd (operator_react ?kube demo_repr ''now'' 1 ?n (operator_start ((), [])))"
  have step: "operator_step ?kube demo_repr (0, [], operator_start ((), [])) (1, [?n], st)"
    unfolding st_def using operator_step.react [of 0 1 ?kube demo_repr "[]" _ ?n ] by fastforce
  have "(operator_step ?kube demo_repr)\<^sup>*\<^sup>* (0, [], operator_start ((), [])) (1, [?n], st)"
    by (rule r_into_rtranclp, rule step)
  from operator_confined [OF this]
  have "\<forall>q \<in> set (requests st). topology_request ''ns'' ''d0'' q" "memory_ok 6 st"
    by (simp_all add: touches_def POLICY_SELECTOR_CACHE_TTL_S_def)
  moreover have "length (requests st) = 1"
    by (simp add: st_def operator_react_def on_powerdomain_change_def demo_domain_spec_def json_list_def json_float_def op_bind_def
        upsert_configmap_def patch_or_create_cm_def in_operator_def recorded_def requests_def operator_start_def)
  ultimately show ?thesis using step by blast
qed

end
