(* ===== verification/FailsafeThread.thy ===== *)
theory FailsafeThread
  imports Failsafe
begin

text \<open>
  The life of the thread of \<open>agent/failsafe.py\<close>: \<open>start\<close>, the loop of \<open>_run\<close> step by step, \<open>stop\<close>. The
  thread waits at the head of its loop, where it looks at the stop event, or is about to poll a
  GPU. Between two of its steps the rest of the system may do anything to the actuator.
\<close>

section \<open>The thread\<close>

datatype thread_state = New | Loop_head | Polling nat | Ended

record 's failsafe_thread =
  ft_state :: thread_state
  ft_stop_event :: bool
  ft_failsafe :: failsafe
  ft_actuator :: 's

definition thread_init :: "watts \<Rightarrow> watts \<Rightarrow> 's \<Rightarrow> 's failsafe_thread res" where
  "thread_init threshold emergency_cap s =
     res_bind (failsafe_init threshold emergency_cap) (\<lambda>f.
       Ok \<lparr>ft_state = New, ft_stop_event = False, ft_failsafe = f, ft_actuator = s\<rparr>)"

definition thread_start :: "'s failsafe_thread \<Rightarrow> 's failsafe_thread res" where
  "thread_start t =
     (if ft_state t = New then Ok (t\<lparr>ft_state := Loop_head\<rparr>) else Err (RuntimeError ''threads can only be started once''))"

definition thread_stop :: "'s failsafe_thread \<Rightarrow> 's failsafe_thread \<times> pyerr option" where
  \<comment> \<open>the event is set before \<open>join\<close>, which raises for a thread that was never started\<close>
  "thread_stop t =
     (t\<lparr>ft_stop_event := True\<rparr>,
      if ft_state t = New then Some (RuntimeError ''cannot join thread before it is started'') else None)"

definition is_running :: "'s failsafe_thread \<Rightarrow> bool" where
  "is_running t \<longleftrightarrow> ft_state t \<noteq> New \<and> ft_state t \<noteq> Ended"

definition trip_count :: "'s failsafe_thread \<Rightarrow> nat" where
  "trip_count t = fs_trip_count (ft_failsafe t)"

definition thread_step :: "('s \<Rightarrow> gpu \<Rightarrow> watts \<Rightarrow> 's res) \<Rightarrow> ('s \<Rightarrow> gpu \<Rightarrow> watts res) \<Rightarrow> nat \<Rightarrow> 's failsafe_thread \<Rightarrow> 's failsafe_thread" where
  "thread_step set_cap get_draw n t =
     (case ft_state t of
        New \<Rightarrow> t
      | Loop_head \<Rightarrow> t\<lparr>ft_state := (if ft_stop_event t then Ended else Polling 0)\<rparr>
      | Polling i \<Rightarrow>
          if i < n then (case failsafe_poll set_cap get_draw (int i) (ft_failsafe t, ft_actuator t) of
                           (f, s) \<Rightarrow> t\<lparr>ft_state := Polling (Suc i), ft_failsafe := f, ft_actuator := s\<rparr>)
          else t\<lparr>ft_state := Loop_head\<rparr>
      | Ended \<Rightarrow> t)"

fun thread_run :: "('s \<Rightarrow> gpu \<Rightarrow> watts \<Rightarrow> 's res) \<Rightarrow> ('s \<Rightarrow> gpu \<Rightarrow> watts res) \<Rightarrow> nat \<Rightarrow> ('s \<Rightarrow> 's) list \<Rightarrow> 's failsafe_thread \<Rightarrow> 's failsafe_thread" where
  \<comment> \<open>one step of the thread after each action of the rest of the system\<close>
  "thread_run set_cap get_draw n [] t = t"
| "thread_run set_cap get_draw n (act # acts) t =
     thread_run set_cap get_draw n acts (thread_step set_cap get_draw n (t\<lparr>ft_actuator := act (ft_actuator t)\<rparr>))"

section \<open>Lemmas\<close>

lemma thread_step_event [simp]: "ft_stop_event (thread_step set_cap get_draw n t) = ft_stop_event t"
  by (simp add: thread_step_def split: thread_state.split prod.split)

lemma thread_run_event [simp]: "ft_stop_event (thread_run set_cap get_draw n acts t) = ft_stop_event t"
  by (induction set_cap get_draw n acts t rule: thread_run.induct) simp_all

lemma thread_ended:
  "ft_state t = Ended \<Longrightarrow>
   ft_state (thread_run set_cap get_draw n acts t) = Ended \<and> ft_failsafe (thread_run set_cap get_draw n acts t) = ft_failsafe t \<and>
   ft_actuator (thread_run set_cap get_draw n acts t) = foldl (\<lambda>s act. act s) (ft_actuator t) acts"
  by (induction set_cap get_draw n acts t rule: thread_run.induct) (simp_all add: thread_step_def)

text \<open>Without a stop event the thread goes on, whatever the actuator raises.\<close>

lemma thread_goes_on: "is_running t \<Longrightarrow> \<not> ft_stop_event t \<Longrightarrow> is_running (thread_run set_cap get_draw n acts t)"
  by (induction set_cap get_draw n acts t rule: thread_run.induct)
    (auto simp: is_running_def thread_step_def split: thread_state.split prod.split)

text \<open>The steps left to the thread once the event is set: the rest of a scan, and the look at the event.\<close>

definition steps_left :: "nat \<Rightarrow> thread_state \<Rightarrow> nat" where
  "steps_left n st = (case st of New \<Rightarrow> 0 | Loop_head \<Rightarrow> 1 | Polling i \<Rightarrow> n - i + 2 | Ended \<Rightarrow> 0)"

definition polls_left :: "nat \<Rightarrow> thread_state \<Rightarrow> nat" where
  "polls_left n st = (case st of Polling i \<Rightarrow> n - i | _ \<Rightarrow> 0)"

lemma poll_trips: "failsafe_poll set_cap get_draw i (f, s) = (f', s') \<Longrightarrow> fs_trip_count f' \<le> Suc (fs_trip_count f)"
  by (auto simp: failsafe_poll_def split: sum.splits if_splits)

lemma thread_step_left:
  assumes "ft_stop_event t" "ft_state t \<noteq> New" "ft_state t \<noteq> Ended" "t' = thread_step set_cap get_draw n t"
  shows "steps_left n (ft_state t') < steps_left n (ft_state t)" "ft_state t' \<noteq> New"
    "trip_count t' + polls_left n (ft_state t') \<le> trip_count t + polls_left n (ft_state t)"
  using assms
  by (auto simp: thread_step_def steps_left_def polls_left_def trip_count_def split: thread_state.splits prod.splits dest: poll_trips)

lemma thread_stops:
  assumes "ft_stop_event t" "ft_state t \<noteq> New" "steps_left n (ft_state t) \<le> length acts"
  shows "ft_state (thread_run set_cap get_draw n acts t) = Ended \<and>
    trip_count (thread_run set_cap get_draw n acts t) \<le> trip_count t + polls_left n (ft_state t)"
  using assms
proof (induction acts arbitrary: t)
  case Nil
  then show ?case by (simp add: steps_left_def split: thread_state.splits)
next
  case (Cons act acts)
  let ?t = "t\<lparr>ft_actuator := act (ft_actuator t)\<rparr>"
  show ?case
  proof (cases "ft_state t = Ended")
    case True
    then show ?thesis using thread_ended [of t set_cap get_draw n "act # acts"] by (simp add: trip_count_def)
  next
    case False
    define t' where "t' = thread_step set_cap get_draw n ?t"
    have "steps_left n (ft_state t') < steps_left n (ft_state t)" "ft_state t' \<noteq> New" "ft_stop_event t'"
      "trip_count t' + polls_left n (ft_state t') \<le> trip_count t + polls_left n (ft_state t)"
      using thread_step_left [OF _ _ _ t'_def] Cons.prems False by (simp_all add: trip_count_def t'_def)
    with Cons.IH [of t'] Cons.prems show ?thesis by (simp flip: t'_def)
  qed
qed

text \<open>Left alone, the thread scans: from the head of its loop back to it, one \<open>failsafe_scan\<close>.\<close>

lemma thread_polls:
  assumes "ft_state t = Polling i" "i + k \<le> n"
  shows "thread_run set_cap get_draw n (replicate k id) t =
    (case foldl (\<lambda>fs j. failsafe_poll set_cap get_draw (int j) fs) (ft_failsafe t, ft_actuator t) [i ..< i + k] of
       (f, s) \<Rightarrow> t\<lparr>ft_state := Polling (i + k), ft_failsafe := f, ft_actuator := s\<rparr>)"
  using assms
proof (induction k arbitrary: i t)
  case (Suc k)
  obtain f s where p: "failsafe_poll set_cap get_draw (int i) (ft_failsafe t, ft_actuator t) = (f, s)" by (rule prod.exhaust)
  let ?t = "t\<lparr>ft_state := Polling (Suc i), ft_failsafe := f, ft_actuator := s\<rparr>"
  have "[i ..< i + Suc k] = i # [Suc i ..< Suc i + k]" by (simp add: upt_conv_Cons del: upt_Suc)
  moreover have "thread_step set_cap get_draw n t = ?t" using Suc.prems p by (simp add: thread_step_def)
  ultimately show ?case using Suc.IH [of ?t "Suc i"] Suc.prems p by (simp split: prod.split)
qed simp

lemma thread_scan:
  assumes "ft_state t = Loop_head" "\<not> ft_stop_event t"
  shows "thread_run set_cap get_draw n (replicate (n + 2) id) t =
    (case failsafe_scan set_cap get_draw n (ft_failsafe t, ft_actuator t) of (f, s) \<Rightarrow> t\<lparr>ft_failsafe := f, ft_actuator := s\<rparr>)"
proof -
  have app: "thread_run set_cap get_draw n (xs @ ys) u = thread_run set_cap get_draw n ys (thread_run set_cap get_draw n xs u)" for xs ys u
    by (induction xs arbitrary: u) simp_all
  let ?t = "t\<lparr>ft_state := Polling 0\<rparr>"
  have rep: "replicate (n + 2) id = id # replicate n id @ [id]" by (simp add: replicate_append_same)
  have step: "thread_step set_cap get_draw n t = ?t" using assms by (simp add: thread_step_def)
  show ?thesis
    unfolding rep using thread_polls [of ?t 0 n n set_cap get_draw] assms
    by (simp add: step app failsafe_scan_def thread_step_def split: prod.split)
qed

section \<open>Properties\<close>

text \<open>C19. The failsafe runs exactly from \<open>start\<close> to \<open>stop\<close>, whatever the rest of the system does to the
  actuator and whatever the actuator raises: a started thread is still running at any time before
  the stop, and cannot be started again; stopping it never raises, and at most the rest of one scan
  later it has ended for good, with no more trips than GPUs; and left alone one turn of its loop
  is one scan of the fleet.\<close>

theorem failsafe_thread_lifecycle:
  assumes init: "thread_init threshold emergency_cap s = Ok t0" "thread_start t0 = Ok t1"
    and before: "t = thread_run set_cap get_draw n acts t1"
    and stop: "thread_stop t = (t', r)" "n + 2 \<le> length acts'"
  shows "is_running t \<and> thread_start t = Err (RuntimeError ''threads can only be started once'') \<and> r = None \<and>
    \<not> is_running (thread_run set_cap get_draw n acts' t') \<and>
    trip_count (thread_run set_cap get_draw n acts' t') \<le> trip_count t + n \<and>
    thread_run set_cap get_draw n (replicate (n + 2) id) t1 =
      (case failsafe_scan set_cap get_draw n (ft_failsafe t1, s) of (f, s') \<Rightarrow> t1\<lparr>ft_failsafe := f, ft_actuator := s'\<rparr>)"
proof -
  from init have t1: "ft_state t1 = Loop_head" "\<not> ft_stop_event t1" "ft_actuator t1 = s"
    by (auto simp: thread_init_def thread_start_def res_bind_Ok_iff split: if_splits)
  have run: "is_running t" unfolding before by (rule thread_goes_on) (simp_all add: is_running_def t1)
  from stop have t': "t' = t\<lparr>ft_stop_event := True\<rparr>" and r: "r = None"
    using run by (auto simp: thread_stop_def is_running_def)
  have left: "steps_left n (ft_state t) \<le> n + 2" "polls_left n (ft_state t) \<le> n"
    by (simp_all add: steps_left_def polls_left_def split: thread_state.split)
  have "ft_state (thread_run set_cap get_draw n acts' t') = Ended \<and>
      trip_count (thread_run set_cap get_draw n acts' t') \<le> trip_count t' + polls_left n (ft_state t')"
    by (rule thread_stops) (use t' run left stop(2) in \<open>auto simp: is_running_def\<close>)
  then show ?thesis
    using run r left t' thread_scan [OF t1(1,2), of set_cap get_draw n] t1(3)
    by (auto simp: is_running_def thread_start_def trip_count_def)
qed

theorem failsafe_thread_lifecycle_witness:
  "\<exists>t0 t1. thread_init 900 700 hot_fleet = Ok t0 \<and> thread_start t0 = Ok t1 \<and>
     \<not> is_running (thread_run sim_set_power_cap sim_get_power_draw 1 [id, id, id]
        (fst (thread_stop (thread_run sim_set_power_cap sim_get_power_draw 1 [id, id] t1))))"
proof -
  obtain t0 where t0: "thread_init 900 700 hot_fleet = Ok t0" "ft_state t0 = New"
    by (simp add: thread_init_def failsafe_init_def)
  then obtain t1 where t1: "thread_start t0 = Ok t1" by (simp add: thread_start_def)
  obtain t' r where "thread_stop (thread_run sim_set_power_cap sim_get_power_draw 1 [id, id] t1) = (t', r)"
    by (rule prod.exhaust)
  with failsafe_thread_lifecycle [OF t0(1) t1 refl this, of "[id, id, id]"] t0 t1 show ?thesis by auto
qed

end
