(* ===== verification/RustAgent.thy ===== *)
theory RustAgent
  imports AgentBridge Failsafe "HOL-Library.Word"
begin

text \<open>
  The Rust agent the bridge of \<open>controller/agent_bridge.py\<close> talks to (\<open>crates/opendps-agent\<close>): the
  IPC listener with its dispatcher (\<open>ipc.rs\<close>), the two backends behind it (\<open>failsafe.rs\<close>,
  \<open>nvml_backend.rs\<close>) and the failsafe loop. A panic is a value here: it ends the connection's
  thread, and as the thread held the mutex around the backend, the mutex is poisoned. The trait
  \<open>IpcBackend\<close> is the locale \<open>ipc_device\<close>. Sizes and indices are \<open>nat\<close> (\<open>usize\<close> of 64 bits), counters
  and what crosses to NVML keep their width.
\<close>

section \<open>Values of commands\<close>

text \<open>What the agent uses of \<open>serde_json\<close>. Nothing is known of it here; \<open>AgentWire\<close> states what it documents.\<close>

record serde =
  sj_from_str :: "string \<Rightarrow> json option"
  sj_to_text :: "json \<Rightarrow> string"
  sj_index :: "json \<Rightarrow> string \<Rightarrow> json" \<comment> \<open>\<open>v[key]\<close>\<close>
  sj_as_str :: "json \<Rightarrow> string option"
  sj_as_u64 :: "json \<Rightarrow> 64 word option"
  sj_as_f64 :: "json \<Rightarrow> real option"
  sj_object :: "(string \<times> json) list \<Rightarrow> json" \<comment> \<open>a \<open>Map\<close> collected from its members\<close>

section \<open>Backends\<close>

record 'b ipc_backend =
  ib_set_cap :: "'b \<Rightarrow> nat \<Rightarrow> watts \<Rightarrow> 'b option" \<comment> \<open>\<open>None\<close>: the call panics\<close>
  ib_get_cap :: "'b \<Rightarrow> nat \<Rightarrow> watts option"
  ib_get_draw :: "'b \<Rightarrow> nat \<Rightarrow> watts option"
  ib_gpu_count :: "'b \<Rightarrow> nat"

subsection \<open>The simulated backend\<close>

record sim_ipc =
  si_draws :: "watts list" \<comment> \<open>\<open>SimPowerSource.draws\<close>\<close>
  si_last_caps :: "watts list" \<comment> \<open>\<open>RecordingCapSink.last_caps\<close>\<close>
  si_call_count :: "64 word"

definition nth_opt :: "'a list \<Rightarrow> nat \<Rightarrow> 'a option" where
  \<comment> \<open>\<open>xs[i]\<close>, which panics out of bounds\<close>
  "nth_opt xs i = (if i < length xs then Some (xs ! i) else None)"

definition sim_ipc_new :: "nat \<Rightarrow> watts \<Rightarrow> sim_ipc" where
  \<comment> \<open>\<open>SimPowerSource::new\<close> and \<open>RecordingCapSink::new\<close> for the same number of GPUs\<close>
  "sim_ipc_new n draw = \<lparr>si_draws = replicate n draw, si_last_caps = replicate n 0, si_call_count = 0\<rparr>"

definition si_set_draw :: "sim_ipc \<Rightarrow> nat \<Rightarrow> watts \<Rightarrow> sim_ipc option" where
  "si_set_draw b gpu w = (if gpu < length (si_draws b) then Some (b\<lparr>si_draws := (si_draws b)[gpu := w]\<rparr>) else None)"

definition si_set_cap :: "sim_ipc \<Rightarrow> nat \<Rightarrow> watts \<Rightarrow> sim_ipc option" where
  "si_set_cap b gpu w =
     (if gpu < length (si_last_caps b)
      then Some (b\<lparr>si_last_caps := (si_last_caps b)[gpu := w], si_call_count := si_call_count b + 1\<rparr>) else None)"

definition sim_ipc_backend :: "sim_ipc ipc_backend" where
  "sim_ipc_backend =
     \<lparr>ib_set_cap = si_set_cap, ib_get_cap = (\<lambda>b. nth_opt (si_last_caps b)), ib_get_draw = (\<lambda>b. nth_opt (si_draws b)),
      ib_gpu_count = (\<lambda>b. length (si_draws b))\<rparr>"

subsection \<open>The NVML backend\<close>

text \<open>The calls of \<open>nvml-wrapper\<close> on the state of the driver and a device; \<open>None\<close> is an \<open>NvmlError\<close>.\<close>

record ('h, 'w) nvml_lib =
  nl_set_limit :: "'w \<Rightarrow> 'h \<Rightarrow> 32 word \<Rightarrow> 'w option"
  nl_limit :: "'w \<Rightarrow> 'h \<Rightarrow> 32 word option"
  nl_usage :: "'w \<Rightarrow> 'h \<Rightarrow> 32 word option"
  nl_max_limit :: "'w \<Rightarrow> 'h \<Rightarrow> 32 word option"
  nl_name :: "'w \<Rightarrow> 'h \<Rightarrow> string option"

record ('h, 'w) nvml_backend =
  nb_devices :: "'h list"
  nb_driver :: 'w

definition nvml_backend_init :: "nat option \<Rightarrow> (nat \<Rightarrow> 'h option) \<Rightarrow> 'w \<Rightarrow> ('h, 'w) nvml_backend option" where
  \<comment> \<open>the first two arguments are the answers of \<open>device_count\<close> and \<open>device_by_index\<close>\<close>
  "nvml_backend_init count device w =
     (case count of
        None \<Rightarrow> None
      | Some n \<Rightarrow> map_option (\<lambda>ds. \<lparr>nb_devices = ds, nb_driver = w\<rparr>) (those (map device [0..<n])))"

definition as_u32 :: "real \<Rightarrow> 32 word" where
  \<comment> \<open>\<open>x as u32\<close> of a float: truncated, and saturated at both ends\<close>
  "as_u32 x = word_of_int (max 0 (min (2 ^ 32 - 1) (truncate_real x)))"

definition nb_watts :: "('w \<Rightarrow> 'h \<Rightarrow> 32 word option) \<Rightarrow> ('h, 'w) nvml_backend \<Rightarrow> nat \<Rightarrow> watts option" where
  \<comment> \<open>the shape of \<open>max_cap_w\<close>, \<open>current_cap_w\<close> and \<open>power_draw_w\<close>\<close>
  "nb_watts query b gpu =
     map_option (\<lambda>h. case query (nb_driver b) h of None \<Rightarrow> 0 | Some mw \<Rightarrow> real (unat mw) / 1000) (nth_opt (nb_devices b) gpu)"

definition nb_max_cap_w :: "('h, 'w) nvml_lib \<Rightarrow> ('h, 'w) nvml_backend \<Rightarrow> nat \<Rightarrow> watts option" where
  "nb_max_cap_w lib = nb_watts (nl_max_limit lib)"

definition nb_name :: "('h, 'w) nvml_lib \<Rightarrow> ('h, 'w) nvml_backend \<Rightarrow> nat \<Rightarrow> string option" where
  "nb_name lib b gpu =
     map_option (\<lambda>h. case nl_name lib (nb_driver b) h of None \<Rightarrow> ''GPU'' @ string_of_nat gpu | Some s \<Rightarrow> s) (nth_opt (nb_devices b) gpu)"

definition nb_set_cap_w :: "('h, 'w) nvml_lib \<Rightarrow> ('h, 'w) nvml_backend \<Rightarrow> nat \<Rightarrow> watts \<Rightarrow> ('h, 'w) nvml_backend option" where
  \<comment> \<open>an error of the driver is logged\<close>
  "nb_set_cap_w lib b gpu w =
     map_option (\<lambda>h. case nl_set_limit lib (nb_driver b) h (as_u32 (w * 1000)) of
         None \<Rightarrow> b | Some d \<Rightarrow> b\<lparr>nb_driver := d\<rparr>) (nth_opt (nb_devices b) gpu)"

definition nvml_ipc_backend :: "('h, 'w) nvml_lib \<Rightarrow> ('h, 'w) nvml_backend ipc_backend" where
  "nvml_ipc_backend lib =
     \<lparr>ib_set_cap = nb_set_cap_w lib, ib_get_cap = nb_watts (nl_limit lib), ib_get_draw = nb_watts (nl_usage lib),
      ib_gpu_count = (\<lambda>b. length (nb_devices b))\<rparr>"

section \<open>The listener\<close>

record 'b mutex =
  mx_poisoned :: bool
  mx_inner :: 'b

datatype reply = Silent | Response json | Panicked

definition report :: "serde \<Rightarrow> string \<Rightarrow> ('b \<Rightarrow> nat \<Rightarrow> watts option) \<Rightarrow> nat \<Rightarrow> 'b mutex \<Rightarrow> 'b mutex \<times> reply" where
  \<comment> \<open>one reading per GPU under its index as text\<close>
  "report sj key read n m =
     (case those (map (read (mx_inner m)) [0..<n]) of
        None \<Rightarrow> (m\<lparr>mx_poisoned := True\<rparr>, Panicked)
      | Some ws \<Rightarrow>
          (m, Response (sj_object sj [(key, sj_object sj (map (\<lambda>(i, w). (string_of_nat i, JFloat w)) (zip [0..<n] ws)))])))"

definition dispatch :: "serde \<Rightarrow> 'b ipc_backend \<Rightarrow> json \<Rightarrow> 'b mutex \<Rightarrow> 'b mutex \<times> reply" where
  "dispatch sj ops cmd m =
     (case sj_as_str sj (sj_index sj cmd ''cmd'') of
        None \<Rightarrow> (m, Silent)
      | Some oper \<Rightarrow>
          if mx_poisoned m then (m, Silent)
          else if oper = ''set_cap'' then
            (case sj_as_u64 sj (sj_index sj cmd ''gpu'') of
               None \<Rightarrow> (m, Silent)
             | Some gpu \<Rightarrow>
                 (case sj_as_f64 sj (sj_index sj cmd ''watts'') of
                    None \<Rightarrow> (m, Silent)
                  | Some watts \<Rightarrow>
                      (case ib_set_cap ops (mx_inner m) (unat gpu) watts of
                         None \<Rightarrow> (m\<lparr>mx_poisoned := True\<rparr>, Panicked)
                       | Some b \<Rightarrow> (m\<lparr>mx_inner := b\<rparr>, Silent))))
          else if oper = ''get_draws'' then report sj ''draws'' (ib_get_draw ops) (ib_gpu_count ops (mx_inner m)) m
          else if oper = ''get_caps'' then report sj ''caps'' (ib_get_cap ops) (ib_gpu_count ops (mx_inner m)) m
          else (m, Silent))"

definition is_white :: "char \<Rightarrow> bool" where
  \<comment> \<open>what \<open>trim\<close> removes\<close>
  "is_white c \<longleftrightarrow> (of_char c :: nat) \<in> {9, 10, 11, 12, 13, 32, 133, 160}"

fun handle_lines ::
    "serde \<Rightarrow> (string \<Rightarrow> bool) \<Rightarrow> 'b ipc_backend \<Rightarrow> string list \<Rightarrow> 'b mutex \<Rightarrow> 'b mutex \<times> string list" where
  \<comment> \<open>whether the peer still takes a line is an argument; the value is what was written\<close>
  "handle_lines sj takes ops [] m = (m, [])"
| "handle_lines sj takes ops (line # lines) m =
     (if list_all is_white line then handle_lines sj takes ops lines m
      else case sj_from_str sj line of
             None \<Rightarrow> handle_lines sj takes ops lines m
           | Some cmd \<Rightarrow>
               (case dispatch sj ops cmd m of
                  (m1, Silent) \<Rightarrow> handle_lines sj takes ops lines m1
                | (m1, Panicked) \<Rightarrow> (m1, [])
                | (m1, Response v) \<Rightarrow>
                    if takes (sj_to_text sj v)
                    then (case handle_lines sj takes ops lines m1 of (m2, out) \<Rightarrow> (m2, (sj_to_text sj v @ [CHR 0x0A]) # out))
                    else (m1, [])))"

definition chomp :: "string \<Rightarrow> string" where
  "chomp line = (if line \<noteq> [] \<and> last line = CHR 0x0D then butlast line else line)"

definition buf_lines :: "string \<Rightarrow> string list" where
  \<comment> \<open>\<open>BufReader::lines\<close>: both line ends are cut off; a last line may have none\<close>
  "buf_lines s =
     (let ls = split_on (CHR 0x0A) s in map chomp (butlast ls) @ (if last ls = [] then [] else [last ls]))"

definition handle_conn ::
    "serde \<Rightarrow> (string \<Rightarrow> bool) \<Rightarrow> 'b ipc_backend \<Rightarrow> string \<Rightarrow> 'b mutex \<Rightarrow> 'b mutex \<times> string list" where
  "handle_conn sj takes ops received m = handle_lines sj takes ops (buf_lines received) m"

text \<open>
  The agent over time. Every connection has a thread of its own and holds the mutex for one command,
  so commands of all connections interleave; the failsafe and the hardware change the backend
  without the mutex.
\<close>

inductive agent_step :: "serde \<Rightarrow> 'b ipc_backend \<Rightarrow> ('b \<Rightarrow> 'b \<Rightarrow> bool) \<Rightarrow> 'b mutex \<Rightarrow> 'b mutex \<Rightarrow> bool" for sj ops other where
  command: "dispatch sj ops cmd m = (m', r) \<Longrightarrow> agent_step sj ops other m m'"
| other: "other b b' \<Longrightarrow> agent_step sj ops other \<lparr>mx_poisoned = p, mx_inner = b\<rparr> \<lparr>mx_poisoned = p, mx_inner = b'\<rparr>"

inductive_cases agent_stepE: "agent_step sj ops other m m'"

section \<open>The failsafe loop\<close>

record rust_failsafe =
  rf_threshold :: watts
  rf_emergency_cap :: watts
  rf_trips :: "64 word"

definition rust_poll :: "'b ipc_backend \<Rightarrow> nat \<Rightarrow> rust_failsafe \<times> 'b \<Rightarrow> (rust_failsafe \<times> 'b) option" where
  \<comment> \<open>the body of the loop over the GPUs\<close>
  "rust_poll ops gpu fb =
     (case fb of (f, b) \<Rightarrow>
        (case ib_get_draw ops b gpu of
           None \<Rightarrow> None
         | Some draw \<Rightarrow>
             if rf_threshold f < draw
             then map_option (\<lambda>b'. (f\<lparr>rf_trips := rf_trips f + 1\<rparr>, b')) (ib_set_cap ops b gpu (rf_emergency_cap f))
             else Some (f, b)))"

fun rust_scan :: "'b ipc_backend \<Rightarrow> nat list \<Rightarrow> rust_failsafe \<times> 'b \<Rightarrow> (rust_failsafe \<times> 'b) option" where
  "rust_scan ops [] fb = Some fb"
| "rust_scan ops (gpu # gpus) fb = (case rust_poll ops gpu fb of None \<Rightarrow> None | Some fb' \<Rightarrow> rust_scan ops gpus fb')"

section \<open>The contract of a backend\<close>

text \<open>
  What the listener and the bridge rely on: a call for a GPU the backend has does not panic, one
  for any other GPU does, and the number of GPUs never changes. \<open>capping_device\<close> adds that a cap is
  read back as it was set, which holds in simulation and depends on the driver under NVML.
\<close>

locale ipc_device =
  fixes inv :: "'b \<Rightarrow> bool" and ops :: "'b ipc_backend"
  assumes set_some: "inv b \<Longrightarrow> g < ib_gpu_count ops b \<Longrightarrow> \<exists>b'. ib_set_cap ops b g w = Some b'"
    and set_none: "inv b \<Longrightarrow> ib_gpu_count ops b \<le> g \<Longrightarrow> ib_set_cap ops b g w = None"
    and set_keeps: "inv b \<Longrightarrow> ib_set_cap ops b g w = Some b' \<Longrightarrow> inv b' \<and> ib_gpu_count ops b' = ib_gpu_count ops b"
    and read_some: "inv b \<Longrightarrow> g < ib_gpu_count ops b \<Longrightarrow> (\<exists>w. ib_get_cap ops b g = Some w) \<and> (\<exists>w. ib_get_draw ops b g = Some w)"

locale capping_device = ipc_device +
  assumes get_set: "inv b \<Longrightarrow> ib_set_cap ops b g w = Some b' \<Longrightarrow> ib_get_cap ops b' h = (if h = g then Some w else ib_get_cap ops b h)"
    and draw_kept: "inv b \<Longrightarrow> ib_set_cap ops b g w = Some b' \<Longrightarrow> ib_get_draw ops b' = ib_get_draw ops b"

lemma those_some: "(\<And>i. i \<in> set xs \<Longrightarrow> f i = Some (h i)) \<Longrightarrow> those (map f xs) = Some (map h xs)"
  by (induction xs) auto

lemma report_some:
  assumes "\<And>i. i < n \<Longrightarrow> \<exists>w. read (mx_inner m) i = Some w"
  shows "report sj key read n m =
    (m, Response (sj_object sj [(key, sj_object sj (map (\<lambda>i. (string_of_nat i, JFloat (the (read (mx_inner m) i)))) [0..<n]))]))"
proof -
  have "those (map (read (mx_inner m)) [0..<n]) = Some (map (\<lambda>i. the (read (mx_inner m) i)) [0..<n])"
    by (rule those_some) (use assms in force)
  moreover have "zip xs (map f xs) = map (\<lambda>i. (i, f i)) xs" for xs :: "nat list" and f :: "nat \<Rightarrow> real"
    by (induction xs) auto
  ultimately show ?thesis by (simp add: report_def comp_def)
qed

lemma dispatch_poisoned: "mx_poisoned m \<Longrightarrow> dispatch sj ops cmd m = (m, Silent)"
  by (simp add: dispatch_def split: option.split)

lemma handle_lines_poisoned: "mx_poisoned m \<Longrightarrow> handle_lines sj takes ops lines m = (m, [])"
  by (induction lines) (simp_all add: dispatch_poisoned split: option.split)

lemma poisoned_sticks:
  "(agent_step sj ops other)\<^sup>*\<^sup>* m m' \<Longrightarrow> mx_poisoned m \<Longrightarrow> mx_poisoned m'"
  by (induction rule: rtranclp_induct) (auto elim!: agent_stepE simp: dispatch_poisoned)

context ipc_device
begin

lemma dispatch_cases:
  assumes "inv (mx_inner m)" "dispatch sj ops cmd m = (m', r)"
  obtains (nothing) "m' = m" "r \<noteq> Panicked"
  | (panicked) "\<not> mx_poisoned m" "m' = m\<lparr>mx_poisoned := True\<rparr>" "r = Panicked"
  | (set) g w b where "\<not> mx_poisoned m" "ib_set_cap ops (mx_inner m) g w = Some b" "m' = m\<lparr>mx_inner := b\<rparr>" "r = Silent"
proof -
  let ?n = "ib_gpu_count ops (mx_inner m)"
  have reads: "\<exists>v. report sj key read ?n m = (m, Response v)" if "read = ib_get_draw ops \<or> read = ib_get_cap ops" for key read
    using report_some [of ?n read m sj key] read_some [OF assms(1)] that by blast
  show thesis
  proof (cases "sj_as_str sj (sj_index sj cmd ''cmd'') = None \<or> mx_poisoned m")
    case True
    with assms(2) have "m' = m \<and> r = Silent" by (cases "sj_as_str sj (sj_index sj cmd ''cmd'')") (simp_all add: dispatch_def)
    then have "m' = m" "r \<noteq> Panicked" by simp_all
    then show ?thesis by (rule nothing)
  next
    case False
    then obtain oper where oper: "sj_as_str sj (sj_index sj cmd ''cmd'') = Some oper" "\<not> mx_poisoned m" by auto
    consider "oper = ''set_cap''" | "oper = ''get_draws''" | "oper = ''get_caps''"
      | "oper \<noteq> ''set_cap''" "oper \<noteq> ''get_draws''" "oper \<noteq> ''get_caps''" by blast
    then show ?thesis
    proof cases
      case 1
      have d: "dispatch sj ops cmd m =
          (case sj_as_u64 sj (sj_index sj cmd ''gpu'') of None \<Rightarrow> (m, Silent)
           | Some g \<Rightarrow> (case sj_as_f64 sj (sj_index sj cmd ''watts'') of None \<Rightarrow> (m, Silent)
           | Some w \<Rightarrow> (case ib_set_cap ops (mx_inner m) (unat g) w of None \<Rightarrow> (m\<lparr>mx_poisoned := True\<rparr>, Panicked)
           | Some b \<Rightarrow> (m\<lparr>mx_inner := b\<rparr>, Silent))))"
        using 1 oper by (simp add: dispatch_def)
      have "m' = m \<and> r = Silent \<or> m' = m\<lparr>mx_poisoned := True\<rparr> \<and> r = Panicked \<or>
          (\<exists>g w b. ib_set_cap ops (mx_inner m) g w = Some b \<and> m' = m\<lparr>mx_inner := b\<rparr> \<and> r = Silent)"
        using assms(2) unfolding d by (auto split: option.splits)
      then show ?thesis
      proof (elim disjE exE conjE)
        assume "m' = m" "r = Silent"
        from this(1) show thesis by (rule nothing) (use \<open>r = Silent\<close> in simp)
      next
        assume "m' = m\<lparr>mx_poisoned := True\<rparr>" "r = Panicked"
        then show thesis by (rule panicked [OF oper(2)])
      next
        fix g w b assume "ib_set_cap ops (mx_inner m) g w = Some b" "m' = m\<lparr>mx_inner := b\<rparr>" "r = Silent"
        then show thesis by (rule set [OF oper(2)])
      qed
    next
      case 2
      with assms(2) oper reads [of "ib_get_draw ops" "''draws''"] have "m' = m" "r \<noteq> Panicked" by (auto simp: dispatch_def)
      then show ?thesis by (rule nothing)
    next
      case 3
      with assms(2) oper reads [of "ib_get_cap ops" "''caps''"] have "m' = m" "r \<noteq> Panicked" by (auto simp: dispatch_def)
      then show ?thesis by (rule nothing)
    next
      case 4
      with assms(2) oper have "m' = m" "r \<noteq> Panicked" by (auto simp: dispatch_def)
      then show ?thesis by (rule nothing)
    qed
  qed
qed

lemma dispatch_keeps:
  assumes "inv (mx_inner m)" "dispatch sj ops cmd m = (m', r)"
  shows "inv (mx_inner m') \<and> ib_gpu_count ops (mx_inner m') = ib_gpu_count ops (mx_inner m) \<and>
    (mx_poisoned m' \<longleftrightarrow> mx_poisoned m \<or> r = Panicked)"
  using assms(1) set_keeps [OF assms(1)] by (cases rule: dispatch_cases [OF assms]) auto

text \<open>Along a connection, anything every command keeps is kept.\<close>

lemma handle_lines_keeps:
  assumes "P m" "inv (mx_inner m)"
    and "\<And>cmd m m' r. P m \<Longrightarrow> inv (mx_inner m) \<Longrightarrow> dispatch sj ops cmd m = (m', r) \<Longrightarrow> P m'"
  shows "P (fst (handle_lines sj takes ops lines m)) \<and> inv (mx_inner (fst (handle_lines sj takes ops lines m)))"
  using assms(1,2)
proof (induction lines arbitrary: m)
  case (Cons line lines)
  obtain m1 r where 1: "\<And>cmd. sj_from_str sj line = Some cmd \<Longrightarrow> dispatch sj ops cmd m = (m1, r)"
    by (metis option.inject prod.exhaust)
  have "P m1 \<and> inv (mx_inner m1)" if "sj_from_str sj line = Some cmd" for cmd
    using assms(3) [OF Cons.prems 1 [OF that]] dispatch_keeps [OF Cons.prems(2) 1 [OF that]] by blast
  with Cons.IH [of m] Cons.IH [of m1] Cons.prems 1 show ?case
    by (auto split: option.split reply.split prod.split)
qed simp

end

context capping_device
begin

lemma dispatch_draws:
  assumes "inv (mx_inner m)" "dispatch sj ops cmd m = (m', r)"
  shows "ib_get_draw ops (mx_inner m') = ib_get_draw ops (mx_inner m)"
  using draw_kept [OF assms(1)] by (cases rule: dispatch_cases [OF assms]) auto

end

lemma sim_ipc_backend_sel [simp]:
  "ib_set_cap sim_ipc_backend = si_set_cap" "ib_get_cap sim_ipc_backend b = nth_opt (si_last_caps b)"
  "ib_get_draw sim_ipc_backend b = nth_opt (si_draws b)" "ib_gpu_count sim_ipc_backend b = length (si_draws b)"
  by (simp_all add: sim_ipc_backend_def)

definition sim_ipc_inv :: "sim_ipc \<Rightarrow> bool" where
  "sim_ipc_inv b \<longleftrightarrow> length (si_last_caps b) = length (si_draws b)"

lemma sim_ipc_new_inv: "sim_ipc_inv (sim_ipc_new n w)"
  by (simp add: sim_ipc_inv_def sim_ipc_new_def)

interpretation sim_device: capping_device sim_ipc_inv sim_ipc_backend
  by unfold_locales (auto simp: sim_ipc_inv_def si_set_cap_def nth_opt_def nth_list_update split: if_splits)

interpretation nvml_device: ipc_device "\<lambda>_. True" "nvml_ipc_backend lib" for lib
  by unfold_locales (auto simp: nvml_ipc_backend_def nb_set_cap_w_def nb_watts_def nth_opt_def split: option.splits if_splits)

section \<open>The two failsafes\<close>

text \<open>A Rust backend under the Python failsafe: what panics there raises here.\<close>

definition py_set_cap :: "'b ipc_backend \<Rightarrow> 'b \<Rightarrow> gpu \<Rightarrow> watts \<Rightarrow> 'b res" where
  "py_set_cap ops b g w = (case ib_set_cap ops b (nat g) w of None \<Rightarrow> Err IndexError | Some b' \<Rightarrow> Ok b')"

definition py_get_draw :: "'b ipc_backend \<Rightarrow> 'b \<Rightarrow> gpu \<Rightarrow> watts res" where
  "py_get_draw ops b g = (case ib_get_draw ops b (nat g) of None \<Rightarrow> Err IndexError | Some w \<Rightarrow> Ok w)"

definition rust_of :: "failsafe \<Rightarrow> rust_failsafe" where
  "rust_of f = \<lparr>rf_threshold = fs_threshold f, rf_emergency_cap = fs_emergency_cap f, rf_trips = of_nat (fs_trip_count f)\<rparr>"

lemma rust_scan_append:
  "rust_scan ops (xs @ ys) fb = (case rust_scan ops xs fb of None \<Rightarrow> None | Some fb' \<Rightarrow> rust_scan ops ys fb')"
  by (induction xs arbitrary: fb) (simp_all split: option.split)

context ipc_device
begin

lemma rust_poll_agrees:
  assumes "inv b" "g < ib_gpu_count ops b"
    and "failsafe_poll (py_set_cap ops) (py_get_draw ops) (int g) (f, b) = (f', b')"
  shows "rust_poll ops g (rust_of f, b) = Some (rust_of f', b') \<and> inv b' \<and> ib_gpu_count ops b' = ib_gpu_count ops b"
proof -
  obtain d where d: "ib_get_draw ops b g = Some d" using read_some [OF assms(1,2)] by blast
  obtain b1 where b1: "ib_set_cap ops b g (fs_emergency_cap f) = Some b1" using set_some [OF assms(1,2)] by blast
  from assms d b1 set_keeps [OF assms(1) b1] show ?thesis
    by (auto simp: failsafe_poll_def py_get_draw_def py_set_cap_def rust_poll_def rust_of_def split: if_splits)
qed

lemma rust_scan_agrees:
  assumes "inv b" "n \<le> ib_gpu_count ops b"
    and "failsafe_scan (py_set_cap ops) (py_get_draw ops) n (f, b) = (f', b')"
  shows "rust_scan ops [0..<n] (rust_of f, b) = Some (rust_of f', b') \<and> inv b' \<and> ib_gpu_count ops b' = ib_gpu_count ops b"
  using assms
proof (induction n arbitrary: f' b')
  case 0
  then show ?case by (simp add: failsafe_scan_def)
next
  case (Suc n)
  obtain f1 b1 where 1: "failsafe_scan (py_set_cap ops) (py_get_draw ops) n (f, b) = (f1, b1)" by (rule prod.exhaust)
  with Suc.prems(3) have "failsafe_poll (py_set_cap ops) (py_get_draw ops) (int n) (f1, b1) = (f', b')" by (simp add: failsafe_scan_def)
  with rust_poll_agrees [of b1 n f1 f' b'] Suc.IH [OF Suc.prems(1) _ 1] Suc.prems(2) show ?case by (simp add: rust_scan_append)
qed

end

text \<open>C21. The Rust failsafe is the Python failsafe: on the devices of NVML, whatever the driver answers, a scan
  of \<open>failsafe.rs\<close> does not panic and leaves every device, and the counter of trips modulo 2 ^ 64,
  as a scan of \<open>agent/failsafe.py\<close> with the same threshold and cap does. So what is proved of the
  Python loop holds for the agent's.\<close>

theorem rust_failsafe_agrees:
  "rust_scan (nvml_ipc_backend lib) [0..<length (nb_devices b)] (rust_of f, b) =
     (case failsafe_scan (py_set_cap (nvml_ipc_backend lib)) (py_get_draw (nvml_ipc_backend lib)) (length (nb_devices b)) (f, b) of
        (f', b') \<Rightarrow> Some (rust_of f', b'))"
proof -
  have "ib_gpu_count (nvml_ipc_backend lib) b = length (nb_devices b)" by (simp add: nvml_ipc_backend_def)
  then show ?thesis using nvml_device.rust_scan_agrees [of "length (nb_devices b)" lib b f] by (auto split: prod.split)
qed

text \<open>Milliwatts: a float goes to the driver as the Python agent sends it, unless it is negative or too large.\<close>

lemma as_u32_milliwatts: "0 \<le> milliwatts w \<Longrightarrow> milliwatts w < 2 ^ 32 \<Longrightarrow> uint (as_u32 (w * 1000)) = milliwatts w"
  by (simp add: as_u32_def milliwatts_def uint_word_of_int_eq take_bit_int_eq_self)

lemma as_u32_negative: "w \<le> 0 \<Longrightarrow> as_u32 (w * 1000) = 0"
  by (simp add: as_u32_def truncate_real_def)

end
