(* ===== verification/AgentWire.thy ===== *)
theory AgentWire
  imports RustAgent Logs
begin

text \<open>
  The two ends of the agent protocol together: \<open>controller/agent_bridge.py\<close> on one side, the
  listener of \<open>crates/opendps-agent\<close> on the other. The network of the bridge is the agent's mutex;
  what the bridge sends is the text the code writes, and what it gets back is parsed as the code
  does. \<open>serde_json\<close> is a library: what the agent uses of it is an argument, and \<open>serde_ok\<close> says what it
  documents: it agrees with Python's \<open>json\<close> about documents within its recursion limit, up to the
  floats, which it parses to a value of its own choice (the crate is built without
  \<open>float_roundtrip\<close>).
\<close>

section \<open>The wire\<close>

record wire =
  wi_serde :: serde
  wi_repr :: "real \<Rightarrow> string" \<comment> \<open>the text Python prints for a float\<close>
  wi_read :: "real \<Rightarrow> real" \<comment> \<open>the float \<open>serde_json\<close> makes of that text; nothing is known of it\<close>
  wi_late :: bool \<comment> \<open>a connection the agent drops is noticed too late to fail the send\<close>

definition command_doc :: "agent_command \<Rightarrow> json" where
  "command_doc c = (case c of Set_cap g w \<Rightarrow> JObj [(''cmd'', JStr ''set_cap''), (''gpu'', JInt g), (''watts'', JFloat w)])"

definition push_text :: "(real \<Rightarrow> string) \<Rightarrow> agent_command list \<Rightarrow> string" where
  "push_text repr cmds = concat (map (\<lambda>c. json_dumps_line repr (command_doc c) @ [NEWLINE]) cmds)"

definition draws_request :: string where
  "draws_request = ''{'' @ [QUOTE] @ ''cmd'' @ [QUOTE] @ '': '' @ [QUOTE] @ ''get_draws'' @ [QUOTE] @ ''}'' @ [NEWLINE]"

definition wire_send :: "wire \<Rightarrow> 'b ipc_backend \<Rightarrow> 'b mutex sender" where
  \<comment> \<open>the agent is reachable; the connection breaks if its thread panics\<close>
  "wire_send wi ops m cmds =
     (let m' = fst (handle_conn (wi_serde wi) (\<lambda>_. True) ops (push_text (wi_repr wi) cmds) m)
      in (m', mx_poisoned m' = mx_poisoned m \<or> wi_late wi))"

definition wire_ask :: "wire \<Rightarrow> 'b ipc_backend \<Rightarrow> 'b mutex \<Rightarrow> json res" where
  "wire_ask wi ops m =
     json_loads (concat (snd (handle_conn (wi_serde wi) (\<lambda>_. True) ops draws_request m)))"

definition wired_ops :: "wire \<Rightarrow> 'b ipc_backend \<Rightarrow> 'b mutex agent actuator_ops" where
  "wired_ops wi ops = agent_ops (wire_send wi ops) (wire_ask wi ops)"

section \<open>The JSON libraries\<close>

fun ints_fit :: "json \<Rightarrow> bool" where
  \<comment> \<open>integers \<open>serde_json\<close> keeps as integers\<close>
  "ints_fit (JInt i) \<longleftrightarrow> - (2 ^ 63) \<le> i \<and> i < 2 ^ 64"
| "ints_fit (JList xs) \<longleftrightarrow> (\<forall>x \<in> set xs. ints_fit x)"
| "ints_fit (JObj d) \<longleftrightarrow> (\<forall>p \<in> set d. ints_fit (snd p))"
| "ints_fit _ \<longleftrightarrow> True"

fun json_depth :: "json \<Rightarrow> nat" where
  "json_depth (JList xs) = Suc (fold max (map json_depth xs) 0)"
| "json_depth (JObj d) = Suc (fold max (map (\<lambda>p. json_depth (snd p)) d) 0)"
| "json_depth _ = 0"

fun map_floats :: "(real \<Rightarrow> real) \<Rightarrow> json \<Rightarrow> json" where
  "map_floats f (JFloat r) = JFloat (f r)"
| "map_floats f (JList xs) = JList (map (map_floats f) xs)"
| "map_floats f (JObj d) = JObj (map (\<lambda>p. (fst p, map_floats f (snd p))) d)"
| "map_floats f v = v"

lemma map_floats_id [simp]: "map_floats (\<lambda>r. r) v = v"
  by (induction "\<lambda>r :: real. r" v rule: map_floats.induct) (simp_all add: map_idI)

definition max_depth :: nat where
  \<comment> \<open>the deepest nesting \<open>serde_json\<close> accepts, with its recursion limit of 128\<close>
  "max_depth = 127"

text \<open>Documents both libraries can hold.\<close>

definition exchangeable :: "wire \<Rightarrow> json \<Rightarrow> bool" where
  "exchangeable wi v \<longleftrightarrow> printable (wi_repr wi) v \<and> ints_fit v \<and> json_depth v \<le> max_depth"

text \<open>What Python writes \<open>serde_json\<close> reads, its objects sorted by key and its floats parsed with
  \<open>wi_read\<close>; what \<open>serde_json\<close> writes (the shortest text of a float that reads back exactly) Python
  reads, with the line break after it. The accessors return what they are named after.\<close>

definition serde_ok :: "wire \<Rightarrow> bool" where
  "serde_ok wi \<longleftrightarrow>
     (\<forall>v. exchangeable wi v \<longrightarrow>
        sj_from_str (wi_serde wi) (json_dumps_line (wi_repr wi) v) = Some (sort_json (map_floats (wi_read wi) v))) \<and>
     (\<forall>v. exchangeable wi v \<longrightarrow> json_loads (sj_to_text (wi_serde wi) v @ [NEWLINE]) = Ok v) \<and>
     (\<forall>d k. sj_index (wi_serde wi) (JObj d) k = dget_or d k JNull) \<and>
     (\<forall>s. sj_as_str (wi_serde wi) (JStr s) = Some s) \<and>
     (\<forall>i. 0 \<le> i \<longrightarrow> i < 2 ^ 64 \<longrightarrow> sj_as_u64 (wi_serde wi) (JInt i) = Some (word_of_int i)) \<and>
     (\<forall>r. sj_as_f64 (wi_serde wi) (JFloat r) = Some r) \<and>
     (\<forall>ps. wf_dict ps \<longrightarrow> sj_object (wi_serde wi) ps = JObj (sort_key fst ps))"

lemma unat_index: "0 \<le> g \<Longrightarrow> g < 2 ^ 64 \<Longrightarrow> unat (word_of_int g :: 64 word) = nat g"
  by (simp add: unat_eq_nat_uint uint_word_of_int_eq take_bit_int_eq_self)

lemma json_loads_text_nl:
  assumes "printable repr v"
  shows "json_loads (json_text repr l v @ [NEWLINE]) = Ok v"
proof -
  have "number_end [NEWLINE]" by (simp add: number_end_def is_digit_def)
  then have "scan_value (Suc (2 * length (json_text repr l v @ [NEWLINE]))) (json_text repr l v @ [NEWLINE]) = Ok (v, [NEWLINE])"
    by (rule scansD [OF scans_json_text [OF assms]]) simp
  then show ?thesis using skip_ws_text [OF assms, of l "[NEWLINE]"] by (simp add: json_loads_def skip_ws_def json_ws_def)
qed

text \<open>Python's own reader and writer would do.\<close>

definition python_wire :: "(real \<Rightarrow> string) \<Rightarrow> wire" where
  "python_wire repr =
     \<lparr>wi_serde =
        \<lparr>sj_from_str = (\<lambda>s. case json_loads s of Inl _ \<Rightarrow> None | Inr v \<Rightarrow> Some (sort_json v)),
         sj_to_text = json_dumps_compact repr,
         sj_index = (\<lambda>v k. case v of JObj d \<Rightarrow> dget_or d k JNull | _ \<Rightarrow> JNull),
         sj_as_str = (\<lambda>v. case v of JStr s \<Rightarrow> Some s | _ \<Rightarrow> None),
         sj_as_u64 = (\<lambda>v. case v of JInt i \<Rightarrow> if 0 \<le> i \<and> i < 2 ^ 64 then Some (word_of_int i) else None | _ \<Rightarrow> None),
         sj_as_f64 = (\<lambda>v. case v of JInt i \<Rightarrow> Some (real_of_int i) | JFloat r \<Rightarrow> Some r | _ \<Rightarrow> None),
         sj_object = (\<lambda>ps. JObj (sort_key fst ps))\<rparr>,
      wi_repr = repr, wi_read = (\<lambda>r. r), wi_late = True\<rparr>"

lemma python_wire_ok: "serde_ok (python_wire repr)"
  by (simp add: serde_ok_def exchangeable_def python_wire_def json_loads_line json_dumps_compact_def json_loads_text_nl)

section \<open>Lines on the wire\<close>

lemma line_of_doc:
  assumes "printable repr (JObj (p # d))"
  defines "line \<equiv> json_dumps_line repr (JObj (p # d))"
  shows "NEWLINE \<notin> set line" "chomp line = line" "\<not> list_all is_white line"
proof -
  show "NEWLINE \<notin> set line"
    using json_text_line [OF assms(1), of Spaced] by (simp add: line_def json_dumps_line_def new_line_def)
  show "chomp line = line" by (simp add: chomp_def line_def json_dumps_line_def new_line_def)
  show "\<not> list_all is_white line" by (simp add: line_def json_dumps_line_def new_line_def is_white_def)
qed

lemma buf_lines_docs:
  assumes "\<forall>d \<in> set docs. \<exists>p q. d = JObj (p # q) \<and> printable repr d"
  shows "buf_lines (concat (map (\<lambda>d. json_dumps_line repr d @ [NEWLINE]) docs)) = map (json_dumps_line repr) docs"
proof -
  let ?ls = "map (json_dumps_line repr) docs"
  have no_nl: "\<forall>w \<in> set ?ls. NEWLINE \<notin> set w" and chomped: "map chomp ?ls = ?ls"
    using assms line_of_doc by (fastforce intro!: map_idI)+
  have "split_on NEWLINE (concat (map (\<lambda>d. json_dumps_line repr d @ [NEWLINE]) docs)) = ?ls @ [[]]"
    using split_on_lines [OF no_nl] by (simp add: comp_def)
  with chomped show ?thesis by (simp add: buf_lines_def Let_def)
qed

section \<open>Caps to the agent\<close>

lemma command_doc_sorted: "sort_json (command_doc c) = command_doc c"
  by (cases c) (simp add: command_doc_def)

lemma command_doc_printable: "readable repr w \<Longrightarrow> printable repr (command_doc (Set_cap g w))"
  by (simp add: command_doc_def readable_def)

lemma from_str_command:
  assumes "serde_ok wi" "readable (wi_repr wi) w" "0 \<le> g" "g < 2 ^ 64"
  shows "sj_from_str (wi_serde wi) (json_dumps_line (wi_repr wi) (command_doc (Set_cap g w))) =
    Some (command_doc (Set_cap g (wi_read wi w)))"
proof -
  have "exchangeable wi (command_doc (Set_cap g w))"
    using assms(3,4) command_doc_printable [OF assms(2)] by (simp add: exchangeable_def command_doc_def max_depth_def)
  moreover have "map_floats (wi_read wi) (command_doc (Set_cap g w)) = command_doc (Set_cap g (wi_read wi w))"
    by (simp add: command_doc_def)
  ultimately show ?thesis using assms(1) unfolding serde_ok_def by (metis command_doc_sorted)
qed

lemma push_text_lines:
  assumes "\<forall>(g, w) \<in> set caps. readable repr w"
  shows "buf_lines (push_text repr (map (\<lambda>(g, w). Set_cap g w) caps)) =
    map (\<lambda>(g, w). json_dumps_line repr (command_doc (Set_cap g w))) caps"
proof -
  let ?docs = "map (\<lambda>(g, w). command_doc (Set_cap g w)) caps"
  have "\<forall>d \<in> set ?docs. \<exists>p q. d = JObj (p # q) \<and> printable repr d"
    using assms command_doc_printable by (fastforce simp: command_doc_def)
  from buf_lines_docs [OF this] show ?thesis by (simp add: push_text_def comp_def case_prod_beta)
qed

lemma dispatch_command:
  assumes "serde_ok wi" "\<not> mx_poisoned m" "0 \<le> g" "g < 2 ^ 64"
  shows "dispatch (wi_serde wi) ops (command_doc (Set_cap g w)) m = (case ib_set_cap ops (mx_inner m) (nat g) w of
    None \<Rightarrow> (m\<lparr>mx_poisoned := True\<rparr>, Panicked) | Some b \<Rightarrow> (m\<lparr>mx_inner := b\<rparr>, Silent))"
  using assms(2-) assms(1) [unfolded serde_ok_def] unat_index [OF assms(3,4)]
  by (simp add: dispatch_def command_doc_def dget_or_def)

lemma handle_command:
  assumes "serde_ok wi" "readable (wi_repr wi) w" "0 \<le> g" "g < 2 ^ 64" "\<not> mx_poisoned m"
  shows "handle_lines (wi_serde wi) takes ops (json_dumps_line (wi_repr wi) (command_doc (Set_cap g w)) # lines) m =
    (case ib_set_cap ops (mx_inner m) (nat g) (wi_read wi w) of
       None \<Rightarrow> (m\<lparr>mx_poisoned := True\<rparr>, [])
     | Some b \<Rightarrow> handle_lines (wi_serde wi) takes ops lines (m\<lparr>mx_inner := b\<rparr>))"
proof -
  have "\<not> list_all is_white (json_dumps_line (wi_repr wi) (command_doc (Set_cap g w)))"
    using line_of_doc(3) command_doc_printable [OF assms(2), of g] by (simp add: command_doc_def)
  then show ?thesis
    using from_str_command [OF assms(1-4)] dispatch_command [OF assms(1,5,3,4), of ops "wi_read wi w"] by (simp split: option.split)
qed

context capping_device
begin

lemma send_caps:
  assumes serde: "serde_ok wi" and m: "inv (mx_inner m)" "\<not> mx_poisoned m" and wf: "wf_dict caps"
    and caps: "\<forall>(g, w) \<in> set caps. readable (wi_repr wi) w \<and> 0 \<le> g \<and> g < int (ib_gpu_count ops (mx_inner m)) \<and> g < 2 ^ 64"
    and send: "wire_send wi ops m (map (\<lambda>(g, w). Set_cap g w) caps) = (m', sent)"
  shows "sent \<and> \<not> mx_poisoned m' \<and> inv (mx_inner m') \<and> ib_gpu_count ops (mx_inner m') = ib_gpu_count ops (mx_inner m) \<and>
    (\<forall>g \<ge> 0. ib_get_cap ops (mx_inner m') (nat g) =
       (case map_of caps g of None \<Rightarrow> ib_get_cap ops (mx_inner m) (nat g) | Some w \<Rightarrow> Some (wi_read wi w)))"
proof -
  let ?lines = "map (\<lambda>(g, w). json_dumps_line (wi_repr wi) (command_doc (Set_cap g w))) caps"
  let ?run = "\<lambda>caps. handle_lines (wi_serde wi) (\<lambda>_. True) ops
    (map (\<lambda>(g, w). json_dumps_line (wi_repr wi) (command_doc (Set_cap g w))) caps)"
  have run: "\<not> mx_poisoned m1 \<and> inv (mx_inner m1) \<and> ib_gpu_count ops (mx_inner m1) = ib_gpu_count ops (mx_inner m) \<and>
    (\<forall>g \<ge> 0. ib_get_cap ops (mx_inner m1) (nat g) =
       (case map_of caps g of None \<Rightarrow> ib_get_cap ops (mx_inner m) (nat g) | Some w \<Rightarrow> Some (wi_read wi w)))"
    if "m1 = fst (?run caps m)" for m1
    using m wf caps that
  proof (induction caps arbitrary: m m1)
    case (Cons x caps)
    obtain g w where x: "x = (g, w)" by (cases x)
    have g: "readable (wi_repr wi) w" "0 \<le> g" "nat g < ib_gpu_count ops (mx_inner m)" "g < 2 ^ 64"
      using Cons.prems(4) by (auto simp: x)
    obtain b where b: "ib_set_cap ops (mx_inner m) (nat g) (wi_read wi w) = Some b" using set_some [OF Cons.prems(1) g(3)] by blast
    note keeps = set_keeps [OF Cons.prems(1) b] get_set [OF Cons.prems(1) b]
    let ?m = "m\<lparr>mx_inner := b\<rparr>"
    have step: "?run (x # caps) m = ?run caps ?m"
      using handle_command [OF serde g(1,2,4) Cons.prems(2), of "\<lambda>_. True" ops] by (simp add: x b)
    have "\<not> mx_poisoned m1 \<and> inv (mx_inner m1) \<and> ib_gpu_count ops (mx_inner m1) = ib_gpu_count ops (mx_inner ?m) \<and>
      (\<forall>g \<ge> 0. ib_get_cap ops (mx_inner m1) (nat g) =
         (case map_of caps g of None \<Rightarrow> ib_get_cap ops (mx_inner ?m) (nat g) | Some w \<Rightarrow> Some (wi_read wi w)))"
      by (rule Cons.IH) (use Cons.prems keeps step in \<open>auto simp: x\<close>)
    moreover have "map_of caps g = None" using Cons.prems(3) by (simp add: x map_of_eq_None_iff)
    ultimately show ?case using keeps g(2) by (auto simp: x nat_eq_iff split: option.splits)
  qed simp
  have "\<forall>(g, w) \<in> set caps. readable (wi_repr wi) w" using caps by auto
  from push_text_lines [OF this] send have "m' = fst (?run caps m)" "sent = (mx_poisoned m' = mx_poisoned m \<or> wi_late wi)"
    by (auto simp: wire_send_def handle_conn_def Let_def)
  with run [OF this(1)] m(2) show ?thesis by blast
qed

end

section \<open>Draws from the agent\<close>

lemma py_int_nat: "py_int (string_of_nat i) = Ok (int i)"
  using string_of_int_reads [of "int i"] by (simp add: string_of_int_def)

lemma string_of_nat_inj: "string_of_nat i = string_of_nat j \<longleftrightarrow> i = j"
  using string_of_int_inj [of "int i" "int j"] by (simp add: string_of_int_def)

definition readings_doc :: "nat \<Rightarrow> (nat \<Rightarrow> watts) \<Rightarrow> (string \<times> json) list" where
  "readings_doc n f = sort_key fst (map (\<lambda>i. (string_of_nat i, JFloat (f i))) [0..<n])"

lemma readings_doc_in: "p \<in> set (readings_doc n f) \<Longrightarrow> \<exists>i < n. p = (string_of_nat i, JFloat (f i))"
  by (auto simp: readings_doc_def)

lemma readings_doc_keys: "distinct (map fst (readings_doc n f))"
proof -
  have "distinct (map fst (map (\<lambda>i. (string_of_nat i, JFloat (f i))) [0..<n]))"
    by (simp add: comp_def distinct_map inj_on_def string_of_nat_inj)
  then show ?thesis unfolding readings_doc_def by (simp only: distinct_map distinct_sort set_sort)
qed

lemma readings_doc_printable: "\<forall>i < n. readable repr (f i) \<Longrightarrow> printable repr (JObj (readings_doc n f))"
  using readings_doc_keys [of n f] by (auto simp: readable_def dest: readings_doc_in)

lemma fold_max_zero: "\<forall>x \<in> set xs. f x = 0 \<Longrightarrow> fold max (map f xs) 0 = (0 :: nat)"
  by (induction xs) simp_all

lemma draws_exchangeable:
  assumes "\<forall>i < n. readable (wi_repr wi) (f i)"
  shows "exchangeable wi (JObj [(k, JObj (readings_doc n f))])"
proof -
  have "fold max (map (\<lambda>p. json_depth (snd p)) (readings_doc n f)) 0 = 0"
    by (rule fold_max_zero) (auto dest: readings_doc_in)
  then have "json_depth (JObj (readings_doc n f)) = 1" by simp
  moreover have "ints_fit (JObj (readings_doc n f))" by (auto dest: readings_doc_in)
  ultimately show ?thesis using readings_doc_printable [OF assms] by (simp add: exchangeable_def max_depth_def)
qed

text \<open>Whatever the order of the members, the dictionary the bridge builds has one entry per GPU.\<close>

lemma readings_doc_reads:
  obtains qs where "res_map draw_entry (readings_doc n f) = Ok qs"
    "\<And>g. map_of (foldl (\<lambda>d (i, w). dset i w d) [] qs) g = (if 0 \<le> g \<and> g < int n then Some (f (nat g)) else None)"
proof -
  let ?h = "\<lambda>p. case py_int (fst p) of Inr i \<Rightarrow> (i, f (nat i)) | Inl _ \<Rightarrow> (0, 0)"
  let ?qs = "map ?h (readings_doc n f)"
  have h: "draw_entry p = Ok (?h p)" if "p \<in> set (readings_doc n f)" for p
    using readings_doc_in [OF that] by (auto simp: draw_entry_def py_int_nat json_float_def)
  have qs: "res_map draw_entry (readings_doc n f) = Ok ?qs" by (rule res_map_total) (rule h)
  have keys: "set (map fst ?qs) = {0..<int n}"
  proof -
    have "set (readings_doc n f) = (\<lambda>i. (string_of_nat i, JFloat (f i))) ` {0..<n}" by (simp add: readings_doc_def)
    then have "set (map fst ?qs) = int ` {0..<n}" by (simp add: image_image py_int_nat)
    then show ?thesis by (simp add: image_int_atLeastLessThan)
  qed
  have "?qs = map (\<lambda>g. (g, f (nat g))) (map fst ?qs)"
    by (auto simp: py_int_nat dest: readings_doc_in)
  then have "foldl (\<lambda>d (i, w). dset i w d) [] ?qs = foldl (\<lambda>d (i, w). dset i w d) [] (map (\<lambda>g. (g, f (nat g))) (map fst ?qs))"
    by (rule arg_cong)
  also have "\<dots> = dcomp (\<lambda>g. f (nat g)) (map fst ?qs)" by (simp only: dcomp_def foldl_map prod.case)
  finally have "map_of (foldl (\<lambda>d (i, w). dset i w d) [] ?qs) g = (if 0 \<le> g \<and> g < int n then Some (f (nat g)) else None)" for g
    by (simp only: map_of_dcomp keys) simp
  with qs that show thesis by blast
qed

definition draws_doc :: json where
  "draws_doc = JObj [(''cmd'', JStr ''get_draws'')]"

lemma draws_request_line: "draws_request = json_dumps_line repr draws_doc @ [NEWLINE]"
  by (simp add: draws_request_def draws_doc_def json_dumps_line_def new_line_def after_colon_def quote_text_def escape_char_def
      join_def deeper_def)

lemma draws_exchange:
  assumes "serde_ok wi"
  shows "handle_conn (wi_serde wi) (\<lambda>_. True) ops draws_request m =
    (case dispatch (wi_serde wi) ops draws_doc m of
       (m1, Response v) \<Rightarrow> (m1, [sj_to_text (wi_serde wi) v @ [NEWLINE]])
     | (m1, _) \<Rightarrow> (m1, []))"
proof -
  let ?line = "json_dumps_line (wi_repr wi) draws_doc"
  have pr: "printable (wi_repr wi) draws_doc" and "exchangeable wi draws_doc" "sort_json (map_floats (wi_read wi) draws_doc) = draws_doc"
    by (simp_all add: draws_doc_def exchangeable_def max_depth_def)
  then have "sj_from_str (wi_serde wi) ?line = Some draws_doc" using assms unfolding serde_ok_def by metis
  moreover have "buf_lines draws_request = [?line]"
    using buf_lines_docs [of "[draws_doc]" "wi_repr wi"] pr by (simp add: draws_request_line [of "wi_repr wi"] draws_doc_def)
  moreover have "\<not> list_all is_white ?line" using line_of_doc(3) pr by (simp add: draws_doc_def)
  ultimately show ?thesis by (simp add: handle_conn_def split: prod.split reply.split)
qed

lemma dispatch_draws_doc:
  "serde_ok wi \<Longrightarrow> dispatch (wi_serde wi) ops draws_doc m =
     (if mx_poisoned m then (m, Silent)
      else report (wi_serde wi) ''draws'' (ib_get_draw ops) (ib_gpu_count ops (mx_inner m)) m)"
  by (simp add: serde_ok_def dispatch_def draws_doc_def dget_or_def)

lemma readings_object:
  assumes "serde_ok wi"
  shows "sj_object (wi_serde wi) (map (\<lambda>i. (string_of_nat i, JFloat (f i))) [0..<n]) = JObj (readings_doc n f)"
    and "sj_object (wi_serde wi) [(k, v)] = JObj [(k, v)]"
proof -
  have "wf_dict (map (\<lambda>i. (string_of_nat i, JFloat (f i))) [0..<n])"
    by (simp add: comp_def distinct_map inj_on_def string_of_nat_inj)
  with assms show "sj_object (wi_serde wi) (map (\<lambda>i. (string_of_nat i, JFloat (f i))) [0..<n]) = JObj (readings_doc n f)"
    unfolding serde_ok_def readings_doc_def by blast
  show "sj_object (wi_serde wi) [(k, v)] = JObj [(k, v)]" using assms by (simp add: serde_ok_def)
qed

context ipc_device
begin

lemma draws_answered:
  assumes serde: "serde_ok wi" and m: "inv (mx_inner m)" "\<not> mx_poisoned m"
    and rd: "\<forall>i < ib_gpu_count ops (mx_inner m). \<forall>w. ib_get_draw ops (mx_inner m) i = Some w \<longrightarrow> readable (wi_repr wi) w"
  shows "wire_ask wi ops m =
    Ok (JObj [(''draws'', JObj (readings_doc (ib_gpu_count ops (mx_inner m)) (\<lambda>i. the (ib_get_draw ops (mx_inner m) i))))])"
proof -
  let ?n = "ib_gpu_count ops (mx_inner m)" and ?f = "\<lambda>i. the (ib_get_draw ops (mx_inner m) i)"
  let ?v = "JObj [(''draws'', JObj (readings_doc ?n ?f))]"
  have "dispatch (wi_serde wi) ops draws_doc m = (m, Response ?v)"
    using m report_some [of ?n "ib_get_draw ops" m "wi_serde wi" "''draws''"] read_some [OF m(1)]
    by (simp add: dispatch_draws_doc [OF serde] readings_object [OF serde])
  moreover have "exchangeable wi ?v" by (rule draws_exchangeable) (use rd read_some [OF m(1)] in fastforce)
  ultimately show ?thesis using serde by (simp add: wire_ask_def draws_exchange serde_ok_def)
qed

end

lemma wire_ask_poisoned: "serde_ok wi \<Longrightarrow> mx_poisoned m \<Longrightarrow> wire_ask wi ops m = decode_error"
  by (simp add: wire_ask_def draws_exchange dispatch_draws_doc json_loads_def)

end
