(* ===== verification/AgentTick.thy ===== *)
theory AgentTick
  imports AgentWire Enforcement
begin

text \<open>
  The control loop over the wire: what a tick of \<open>run_once\<close> does to the caps a Rust agent holds,
  what the bridge remembers of it, and what becomes of both ends when a command names a GPU the
  node does not have.
\<close>

section \<open>A tick over an actuator that takes all caps at once\<close>

text \<open>Nothing raises while the telemetry is read.\<close>

definition reads_total :: "'a actuator_ops \<Rightarrow> bool" where
  "reads_total ops \<longleftrightarrow> (\<forall>s g. (\<exists>w. op_draw ops s g = Ok w) \<and> (\<exists>w. op_cap ops s g = Ok w)) \<and> op_max_cap ops = None"

lemma agent_reads_total: "reads_total (agent_ops send ask)"
  by (simp add: reads_total_def agent_get_power_draw_def agent_get_power_cap_def)

lemma build_state_total:
  assumes "map_of (domains t) dn = Some d" "reads_total ops"
  shows "\<exists>st. build_state cfg ops s t ts gpus dn d = Ok st"
proof -
  obtain b where "domain_budget_w t dn = Ok b" using domain_budget_total [OF assms(1)] by auto
  then obtain fb where fb: "fallback_cap t dn d = Ok fb" by (simp add: fallback_cap_def)
  let ?rd = "case gpus of None \<Rightarrow> reading_of_actuator ops s fb | Some g \<Rightarrow> reading_of_sample g fb"
  have "\<exists>p. ?rd i = Ok p" for i
  proof (cases gpus)
    case None
    from assms(2) obtain v w where "op_draw ops s i = Ok v" "op_cap ops s i = Ok w" unfolding reads_total_def by blast
    with None assms(2) show ?thesis by (simp add: reading_of_actuator_def reads_total_def)
  qed (simp add: reading_of_sample_def)
  from read_gpus_total [of "pd_gpu_indices d" ?rd "\<lparr>rd_draws = [], rd_caps = [], rd_max_caps = []\<rparr>", OF this] obtain r where
    "read_gpus ?rd (pd_gpu_indices d) \<lparr>rd_draws = [], rd_caps = [], rd_max_caps = []\<rparr> = Ok r" by blast
  then show ?thesis by (simp add: build_state_def fb)
qed

definition decided_for :: "topology \<Rightarrow> string \<Rightarrow> brain_decision \<Rightarrow> bool" where
  "decided_for t dn dec \<longleftrightarrow> bd_domain dec = dn \<and> wf_powers (bd_caps dec) \<and> set (dkeys (bd_caps dec)) \<subseteq> domain_gpus t dn"

lemma decided_for_cong: "domains t = domains t' \<Longrightarrow> decided_for t = decided_for t'"
  by (simp add: decided_for_def fun_eq_iff)

context control_target
begin

lemma step_pushes:
  assumes inv: "ctl_inv inv c" and sane: "sane_solver (te_cvxpy env)" and wet: "\<not> cc_dry_run cfg" and smp: "sample_ok gpus"
    and known: "map_of (domains (ct_topology c)) dn = Some d" and push: "op_push_all ops = Some h" and total: "reads_total ops"
  shows "\<exists>c' dec. domain_step cfg ops env ts gpus dn c = (c', Ok dec) \<and> decided_for (ct_topology c) dn dec \<and> ctl_inv inv c' \<and>
    domains (ct_topology c') = domains (ct_topology c) \<and> ct_actuator c' = h (ct_actuator c) (bd_caps dec)"
proof -
  obtain c' r where step: "domain_step cfg ops env ts gpus dn c = (c', r)" by (rule prod.exhaust)
  let ?t = "adopt_step cfg env dn (ct_topology c)"
  have d: "map_of (domains ?t) dn = Some d" using known by simp
  from build_state_total [OF d total] obtain st where
    st: "build_state cfg ops (ct_actuator c) ?t ts gpus dn d = Ok st" by blast
  have act: "inv (ct_actuator c)" and br: "brain_inv (ct_brain c)" using inv by (simp_all add: ctl_inv_def)
  note wf = build_state_ok [OF st act smp]
  from domain_step_inv [OF step inv smp sane] have inv': "ctl_inv inv c'" "domains (ct_topology c') = domains (ct_topology c)" by simp_all
  from step show ?thesis
  proof (cases rule: domain_step_cases)
    case unknown
    with known show ?thesis by simp
  next
    case (failed d' e)
    with known st have "brain_decide (te_cvxpy env) (te_now env) (ct_brain c) ?t dn st = Err e" by simp
    with brain_decide_total [OF d conjunct1 [OF wf] br] show ?thesis by (metis Inl_Inr_False)
  next
    case (decided d' st' b dec en added a err)
    with known st have "st' = st" by simp
    with decided(3) have bd: "brain_decide (te_cvxpy env) (te_now env) (ct_brain c) ?t dn st = Ok (b, dec)" by simp
    from brain_decide_sound [OF conjunct1 [OF wf] br sane bd] wf brain_decide_domain [OF bd] known
    have "decided_for (ct_topology c) dn dec" by (auto simp: decided_for_def simp del: set_map)
    moreover have "a = h (ct_actuator c) (bd_caps dec)" "err = None" using decided(5) wet push by (simp_all add: push_decision_def)
    ultimately show ?thesis using step decided(6,7) inv' by simp
  qed
qed

lemma loop_pushes:
  assumes "ctl_inv inv c" and sane: "sane_solver (te_cvxpy env)" and wet: "\<not> cc_dry_run cfg" and smp: "sample_ok gpus"
    and "\<forall>dn \<in> set dns. map_of (domains (ct_topology c)) dn \<noteq> None" and push: "op_push_all ops = Some h" and total: "reads_total ops"
  shows "\<exists>c' decs. domains_loop cfg ops env ts gpus dns c = (c', Ok decs) \<and> list_all2 (decided_for (ct_topology c)) dns decs \<and>
    ctl_inv inv c' \<and> domains (ct_topology c') = domains (ct_topology c) \<and> ct_actuator c' = foldl h (ct_actuator c) (map bd_caps decs)"
  using assms(1,5)
proof (induction dns arbitrary: c)
  case (Cons dn dns)
  then obtain d where "map_of (domains (ct_topology c)) dn = Some d" by auto
  from step_pushes [OF Cons.prems(1) sane wet smp this push total] obtain c1 dec where
    1: "domain_step cfg ops env ts gpus dn c = (c1, Ok dec)" "decided_for (ct_topology c) dn dec" "ctl_inv inv c1"
      "domains (ct_topology c1) = domains (ct_topology c)" "ct_actuator c1 = h (ct_actuator c) (bd_caps dec)" by blast
  from Cons.IH [OF 1(3)] Cons.prems(2) 1(4) obtain c2 decs where
    2: "domains_loop cfg ops env ts gpus dns c1 = (c2, Ok decs)" "list_all2 (decided_for (ct_topology c1)) dns decs"
      "ctl_inv inv c2" "domains (ct_topology c2) = domains (ct_topology c1)" "ct_actuator c2 = foldl h (ct_actuator c1) (map bd_caps decs)"
    by auto
  with 1 decided_for_cong [OF 1(4)] show ?case by (intro exI [of _ c2] exI [of _ "dec # decs"]) simp
qed simp

lemma tick_pushes:
  assumes inv: "ctl_inv inv c" and sane: "sane_solver (te_cvxpy env)" and wet: "\<not> cc_dry_run cfg"
    and tel: "telemetry_of cfg env = Ok tg" and smp: "\<And>n. te_sample env = Ok n \<Longrightarrow> sample_nonneg n"
    and known: "\<forall>dn \<in> set (managed_domains cfg (ct_topology c)). map_of (domains (ct_topology c)) dn \<noteq> None"
    and push: "op_push_all ops = Some h" "op_tick ops = None" and total: "reads_total ops"
  shows "\<exists>c' decs. run_once cfg ops env c = (c', Ok decs) \<and>
    list_all2 (decided_for (ct_topology c)) (managed_domains cfg (ct_topology c)) decs \<and>
    ctl_inv inv c' \<and> ct_actuator c' = foldl h (ct_actuator c) (map bd_caps decs)"
proof -
  obtain ts gpus where tg: "tg = (ts, gpus)" by (cases tg)
  have "sample_ok gpus" using tel smp sample_ok_index
    by (auto simp: telemetry_of_def tg res_bind_Ok_iff sample_ok_def split: if_splits)
  from loop_pushes [OF inv sane wet this known push(1) total, of ts] obtain c' decs where
    "domains_loop cfg ops env ts gpus (managed_domains cfg (ct_topology c)) c = (c', Ok decs)"
    "list_all2 (decided_for (ct_topology c)) (managed_domains cfg (ct_topology c)) decs" "ctl_inv inv c'"
    "ct_actuator c' = foldl h (ct_actuator c) (map bd_caps decs)" by blast
  with tel push(2) show ?thesis by (simp add: run_once_def tg advance_sim_def)
qed

end

section \<open>The wired node\<close>

definition node_ok :: "wire \<Rightarrow> sim_ipc \<Rightarrow> bool" where
  "node_ok wi b \<longleftrightarrow> sim_ipc_inv b \<and> length (si_draws b) < 2 ^ 64 \<and> (\<forall>w \<in> set (si_draws b). 0 \<le> w \<and> readable (wi_repr wi) w)"

definition wired :: "wire \<Rightarrow> sim_ipc mutex agent \<Rightarrow> bool" where
  "wired wi a \<longleftrightarrow> serde_ok wi \<and> agent_inv a \<and> node_ok wi (mx_inner (ag_net a))"

lemma node_ok_dispatch:
  assumes "node_ok wi (mx_inner m)" "dispatch sj sim_ipc_backend cmd m = (m', r)"
  shows "node_ok wi (mx_inner m')"
proof -
  have "sim_ipc_inv (mx_inner m)" using assms(1) by (simp add: node_ok_def)
  from this assms(2) show ?thesis
    by (cases rule: sim_device.dispatch_cases) (use assms(1) in \<open>auto simp: node_ok_def si_set_cap_def sim_ipc_inv_def split: if_splits\<close>)
qed

lemma node_ok_send:
  assumes "node_ok wi (mx_inner m)"
  shows "node_ok wi (mx_inner (fst (wire_send wi' sim_ipc_backend m cmds)))"
proof -
  have "sim_ipc_inv (mx_inner m)" using assms by (simp add: node_ok_def)
  from sim_device.handle_lines_keeps [of "\<lambda>m. node_ok wi (mx_inner m)", OF assms this node_ok_dispatch]
  show ?thesis by (simp add: wire_send_def handle_conn_def Let_def)
qed

text \<open>A draw over the wire.\<close>

lemma wired_draw:
  assumes "serde_ok wi" "node_ok wi (mx_inner (ag_net a))"
  shows "agent_get_power_draw (wire_ask wi sim_ipc_backend) a g =
    Ok (if \<not> mx_poisoned (ag_net a) \<and> 0 \<le> g \<and> g < int (length (si_draws (mx_inner (ag_net a))))
        then si_draws (mx_inner (ag_net a)) ! nat g else 0)"
proof (cases "mx_poisoned (ag_net a)")
  case True
  then show ?thesis using wire_ask_poisoned [OF assms(1) True] by (simp add: agent_get_power_draw_def get_draws_def)
next
  case False
  let ?b = "mx_inner (ag_net a)"
  let ?f = "\<lambda>i. the (nth_opt (si_draws ?b) i)"
  have ok: "sim_ipc_inv ?b" "\<forall>w \<in> set (si_draws ?b). readable (wi_repr wi) w" using assms(2) by (simp_all add: node_ok_def)
  have answer: "wire_ask wi sim_ipc_backend (ag_net a) = Ok (JObj [(''draws'', JObj (readings_doc (length (si_draws ?b)) ?f))])"
    using sim_device.draws_answered [OF assms(1) ok(1) False] ok(2) by (auto simp: nth_opt_def)
  obtain qs where qs: "res_map draw_entry (readings_doc (length (si_draws ?b)) ?f) = Ok qs"
    "\<And>g. map_of (foldl (\<lambda>d (i, w). dset i w d) [] qs) g = (if 0 \<le> g \<and> g < int (length (si_draws ?b)) then Some (?f (nat g)) else None)"
    by (rule readings_doc_reads [of "length (si_draws ?b)" ?f]) blast
  from qs(1) have "get_draws (wire_ask wi sim_ipc_backend) a = Some (foldl (\<lambda>d (i, w). dset i w d) [] qs)"
    by (simp add: get_draws_def answer json_get_def dget_or_def json_items_def)
  with qs(2) [of g] False show ?thesis by (auto simp: agent_get_power_draw_def dget_or_def nth_opt_def)
qed

lemma push_caps_net: "ag_net (fst (push_caps send caps a)) = fst (send (ag_net a) (map (\<lambda>(g, w). Set_cap g w) caps))"
  by (simp add: push_caps_def split: prod.split)

lemma wired_push: "wired wi a \<Longrightarrow> wf_powers caps \<Longrightarrow> wired wi (fst (agent_push_all_caps (wire_send wi sim_ipc_backend) a caps))"
proof -
  let ?a = "fst (agent_push_all_caps (wire_send wi sim_ipc_backend) a caps)"
  assume "wired wi a" "wf_powers caps"
  moreover from this(2) have "agent_inv ?a" by (intro agent_inv_push) (auto dest: wf_powers_map_of)
  moreover have "ag_net ?a = fst (wire_send wi sim_ipc_backend (ag_net a) (map (\<lambda>(g, w). Set_cap g w) caps))"
    by (simp add: agent_push_all_caps_def push_caps_net)
  ultimately show "wired wi ?a" by (simp add: wired_def node_ok_send)
qed

interpretation wire_target: control_target "wired wi" "wired_ops wi sim_ipc_backend" for wi
proof
  fix s :: "sim_ipc mutex agent" and g w s'
  assume inv: "wired wi s"
  show "op_draw (wired_ops wi sim_ipc_backend) s g = Ok w \<Longrightarrow> 0 \<le> w"
    using inv wired_draw [of wi s g] by (auto simp: wired_def wired_ops_def node_ok_def)
  show "op_cap (wired_ops wi sim_ipc_backend) s g = Ok w \<Longrightarrow> 0 \<le> w" using inv agent_inv_cap by (auto simp: wired_def wired_ops_def)
  assume w: "0 \<le> w" and s': "op_set (wired_ops wi sim_ipc_backend) s g w = Ok s'"
  then have s': "agent_set_power_cap (wire_send wi sim_ipc_backend) s g w = Ok s'" by (simp add: wired_ops_def)
  then have "ag_net s' = fst (wire_send wi sim_ipc_backend (ag_net s) [Set_cap g w])" by (auto simp: agent_set_power_cap_def push_caps_net)
  moreover have "agent_inv s'" using agent_inv_set [OF _ w s'] inv by (simp add: wired_def)
  ultimately show "wired wi s'" using inv by (simp add: wired_def node_ok_send)
qed (auto simp: wired_ops_def wired_push)

section \<open>Several pushes\<close>

abbreviation push_over :: "'w sender \<Rightarrow> 'w agent \<Rightarrow> (gpu, watts) dict \<Rightarrow> 'w agent" where
  "push_over send a caps \<equiv> fst (agent_push_all_caps send a caps)"

lemma pushes_remembered:
  "ag_last_caps (foldl (push_over send) a capss) = (if capss = [] then ag_last_caps a else last capss)"
  by (induction capss rule: rev_induct) (simp_all add: agent_push_all_caps_def)

lemma pushes_reach:
  assumes serde: "serde_ok wi" and "node_ok wi (mx_inner (ag_net a))" "\<not> mx_poisoned (ag_net a)" "wf_dict (concat capss)"
    and "\<forall>(g, w) \<in> set (concat capss). readable (wi_repr wi) w \<and> 0 \<le> g \<and> g < int (length (si_draws (mx_inner (ag_net a))))"
  defines "a' \<equiv> foldl (push_over (wire_send wi sim_ipc_backend)) a capss"
  shows "\<not> mx_poisoned (ag_net a') \<and> (\<forall>g \<ge> 0. nth_opt (si_last_caps (mx_inner (ag_net a'))) (nat g) =
    (case map_of (concat capss) g of None \<Rightarrow> nth_opt (si_last_caps (mx_inner (ag_net a))) (nat g) | Some w \<Rightarrow> Some (wi_read wi w)))"
  using assms(2-5) unfolding a'_def
proof (induction capss arbitrary: a)
  case (Cons caps capss)
  let ?a = "push_over (wire_send wi sim_ipc_backend) a caps"
  let ?m = "mx_inner (ag_net a)"
  obtain m' sent where send: "wire_send wi sim_ipc_backend (ag_net a) (map (\<lambda>(g, w). Set_cap g w) caps) = (m', sent)" by (rule prod.exhaust)
  then have net: "ag_net ?a = m'" by (simp add: agent_push_all_caps_def push_caps_net)
  have ok: "sim_ipc_inv ?m" "length (si_draws ?m) < 2 ^ 64" using Cons.prems(1) by (simp_all add: node_ok_def)
  have "\<forall>(g, w) \<in> set caps. readable (wi_repr wi) w \<and> 0 \<le> g \<and> g < int (ib_gpu_count sim_ipc_backend ?m) \<and> g < 2 ^ 64"
  proof clarify
    fix g w assume "(g, w) \<in> set caps"
    then have "readable (wi_repr wi) w" "0 \<le> g" "g < int (length (si_draws ?m))" using Cons.prems(4) by auto
    moreover have "int (length (si_draws ?m)) < 2 ^ 64" using ok(2) by simp
    ultimately show "readable (wi_repr wi) w \<and> 0 \<le> g \<and> g < int (ib_gpu_count sim_ipc_backend ?m) \<and> g < 2 ^ 64"
      unfolding sim_ipc_backend_sel by linarith
  qed
  from sim_device.send_caps [OF serde ok(1) Cons.prems(2) _ this send] Cons.prems(3)
  have m': "\<not> mx_poisoned m'" "length (si_draws (mx_inner m')) = length (si_draws ?m)"
    "\<forall>g \<ge> 0. nth_opt (si_last_caps (mx_inner m')) (nat g) =
       (case map_of caps g of None \<Rightarrow> nth_opt (si_last_caps ?m) (nat g) | Some w \<Rightarrow> Some (wi_read wi w))"
    unfolding sim_ipc_backend_sel by simp_all
  have node: "node_ok wi (mx_inner (ag_net ?a))" unfolding net using node_ok_send [OF Cons.prems(1), of wi "map (\<lambda>(g, w). Set_cap g w) caps"] send by simp
  have rest: "\<forall>(g, w) \<in> set (concat capss). readable (wi_repr wi) w \<and> 0 \<le> g \<and> g < int (length (si_draws (mx_inner (ag_net ?a))))"
    using Cons.prems(4) unfolding net m'(2) by auto
  have "\<not> mx_poisoned (ag_net ?a)" "wf_dict (concat capss)" using m'(1) net Cons.prems(3) by simp_all
  note IH = Cons.IH [OF node this rest]
  have "map_of (concat capss) g = None" if "map_of caps g = Some w" for g w
  proof -
    have "set (dkeys caps) \<inter> set (dkeys (concat capss)) = {}" using Cons.prems(3) by simp
    then have "g \<notin> set (dkeys (concat capss))" using map_of_some_key [OF that] by blast
    then show ?thesis by (simp add: map_of_eq_None_iff)
  qed
  then have "(case map_of (concat capss) g of None \<Rightarrow> (case map_of caps g of None \<Rightarrow> x | Some w \<Rightarrow> Some (wi_read wi w)) | Some w \<Rightarrow> Some (wi_read wi w)) =
      (case map_of (concat (caps # capss)) g of None \<Rightarrow> x | Some w \<Rightarrow> Some (wi_read wi w))" for g x
    by (auto simp: map_add_def split: option.split)
  with IH m'(3) show ?case unfolding net by (simp cong: option.case_cong)
qed simp

lemma decisions_apart:
  assumes "list_all2 (decided_for t) dns decs" "domains_apart t dns"
  shows "wf_dict (concat (map bd_caps decs))"
  using assms
proof (induction rule: list_all2_induct)
  case (Cons dn dns dec decs)
  have "set (dkeys (bd_caps dec)) \<inter> set (dkeys (concat (map bd_caps decs))) = {}"
  proof (intro equals0I, elim IntE)
    fix g assume g: "g \<in> set (dkeys (bd_caps dec))" "g \<in> set (dkeys (concat (map bd_caps decs)))"
    then obtain dec' where dec': "dec' \<in> set decs" "g \<in> set (dkeys (bd_caps dec'))" by auto
    then obtain i where "i < length decs" "decs ! i = dec'" by (auto simp: in_set_conv_nth)
    with Cons.hyps(2) have "decided_for t (dns ! i) dec'" "dns ! i \<in> set dns" by (auto simp: list_all2_conv_all_nth)
    moreover have "domain_gpus t dn \<inter> domain_gpus t dn' = {}" if "dn' \<in> set dns" for dn'
      using Cons.prems that unfolding domains_apart_def by (metis distinct.simps(2) list.set_intros)
    ultimately show False using Cons.hyps(1) g(1) dec'(2) unfolding decided_for_def by blast
  qed
  moreover have "wf_dict (bd_caps dec)" using Cons.hyps(1) by (simp add: decided_for_def wf_powers_def)
  moreover have "domains_apart t dns" using Cons.prems by (auto simp: domains_apart_def)
  ultimately show ?case using Cons.IH by (simp del: set_map)
qed simp

lemma decisions_keys:
  assumes "list_all2 (decided_for t) dns decs" "\<forall>dn \<in> set dns. domain_gpus t dn \<subseteq> G"
  shows "set (dkeys (concat (map bd_caps decs))) \<subseteq> G"
  using assms by (induction rule: list_all2_induct) (auto simp: decided_for_def simp del: set_map)

lemma decisions_domains: "list_all2 (decided_for t) dns decs \<Longrightarrow> map bd_domain decs = dns"
  by (induction rule: list_all2_induct) (simp_all add: decided_for_def)

lemma decisions_member:
  assumes "wf_dict (concat (map bd_caps decs))" "dec \<in> set decs" "map_of (bd_caps dec) g = Some w"
  shows "map_of (concat (map bd_caps decs)) g = Some w"
  using map_of_SomeD [OF assms(3)] assms(2) by (intro map_of_is_SomeI [OF assms(1)]) auto

lemma decisions_key_once:
  assumes "wf_dict (concat (map bd_caps decs))" "dec \<in> set decs" "dec' \<in> set decs" "dec \<noteq> dec'"
  shows "set (dkeys (bd_caps dec)) \<inter> set (dkeys (bd_caps dec')) = {}"
  using assms
proof (induction decs)
  case (Cons x decs)
  have "set (dkeys (bd_caps x)) \<inter> set (dkeys (concat (map bd_caps decs))) = {}" "wf_dict (concat (map bd_caps decs))"
    using Cons.prems(1) by simp_all
  moreover have "set (dkeys (bd_caps d)) \<subseteq> set (dkeys (concat (map bd_caps decs)))" if "d \<in> set decs" for d
    using that by auto
  ultimately have x: "set (dkeys (bd_caps x)) \<inter> set (dkeys (bd_caps d)) = {}" if "d \<in> set decs" for d using that by blast
  consider "dec = x" "dec' \<in> set decs" | "dec' = x" "dec \<in> set decs" | "dec \<in> set decs" "dec' \<in> set decs"
    using Cons.prems(2-4) by auto
  then show ?case
  proof cases
    case 1
    with x show ?thesis by blast
  next
    case 2
    with x [OF 2(2)] show ?thesis by (simp add: Int_commute del: set_map)
  next
    case 3
    with Cons show ?thesis by simp
  qed
qed simp

section \<open>Properties\<close>


text \<open>Four GPUs in a domain of 60 W under DPM; the agent's GPUs draw nothing, so each gets 15 W.\<close>

definition wire_ctl :: "sim_ipc mutex agent controller" where
  "wire_ctl = \<lparr>ct_topology = demo_domain 60, ct_brain = Dpm_brain \<lparr>dpm_min_cap_w = 200\<rparr>, ct_energy = \<lparr>energy_j = []\<rparr>,
     ct_actuator = agent_init \<lparr>mx_poisoned = False, mx_inner = sim_ipc_new 4 0\<rparr>,
     ct_metrics = [], ct_printed = [], ct_source = None\<rparr>"

lemma wire_ctl_inv: "ctl_inv (wired (python_wire demo_repr)) wire_ctl"
  by (simp add: ctl_inv_def wire_ctl_def brain_inv_def energy_ok_def wired_def python_wire_ok agent_inv_def agent_init_def
      node_ok_def sim_ipc_new_inv) (simp add: sim_ipc_new_def readable_def python_wire_def demo_repr_reads)

lemma wire_tick_decides:
  "snd (run_once log_cfg (wired_ops (python_wire demo_repr) sim_ipc_backend) demo_env wire_ctl) =
     Ok [\<lparr>bd_domain = ''d'', bd_caps = [(0, 15), (1, 15), (2, 15), (3, 15)], bd_ts = 0, bd_reason = ''under_budget''\<rparr>]"
proof -
  let ?a = "agent_init \<lparr>mx_poisoned = False, mx_inner = sim_ipc_new 4 0\<rparr>"
  have "node_ok (python_wire demo_repr) (mx_inner (ag_net ?a))"
    using wire_ctl_inv by (simp add: ctl_inv_def wired_def wire_ctl_def)
  note wire = wired_draw [OF python_wire_ok this]
  have draws: "si_draws (mx_inner (ag_net ?a)) = replicate 4 0" by (simp add: agent_init_def sim_ipc_new_def)
  have draw: "op_draw (wired_ops (python_wire demo_repr) sim_ipc_backend) ?a g = Ok 0" for g
    unfolding wired_ops_def agent_ops_sel wire draws by (simp add: nat_less_iff)
  have cap: "op_cap (wired_ops (python_wire demo_repr) sim_ipc_backend) ?a g = Ok 0"
    "op_max_cap (wired_ops (python_wire demo_repr) sim_ipc_backend) = None"
    "op_push_all (wired_ops (python_wire demo_repr) sim_ipc_backend) = Some (push_over (wire_send (python_wire demo_repr) sim_ipc_backend))"
    "op_tick (wired_ops (python_wire demo_repr) sim_ipc_backend) = None" for g
    by (simp_all add: wired_ops_def agent_get_power_cap_def agent_init_def dget_or_def)
  show ?thesis
    by (simp add: wire_ctl_def run_once_def telemetry_of_def reads_actuator_def log_cfg_def demo_cfg_def demo_env_def
      managed_domains_def demo_domain_def domain_step_def adopt_step_def build_state_def fallback_cap_def domain_budget_w_def
      rack_for_domain_def getitem_def reading_of_actuator_def draw cap add_reading_def thermal_flags_def is_hot_gpu_def
      brain_decide_def as_brain_def dpm_decide_def dpm_under_def dget_or_def dcomp_def push_decision_def advance_sim_def
      Let_def case_prod_beta)
qed


text \<open>C23. The bridge forgets: after a tick over the agent, in whatever state the network is, what the
  actuator reports as the cap of a GPU is what was decided for the last managed domain, so a GPU
  of any other domain reads back 0 W although its cap was sent. \<open>push_all_caps\<close> is called once per
  domain and puts its argument in place of all caps remembered.\<close>

theorem bridge_forgets_domains:
  assumes inv: "ctl_inv (\<lambda>a. agent_inv a \<and> ask_ok ask) c" and sane: "sane_solver (te_cvxpy env)" and wet: "\<not> cc_dry_run cfg"
    and tel: "telemetry_of cfg env = Ok tg" and smp: "\<forall>n. te_sample env = Ok n \<longrightarrow> sample_nonneg n"
    and known: "\<forall>dn \<in> set (managed_domains cfg (ct_topology c)). map_of (domains (ct_topology c)) dn \<noteq> None"
    and apart: "domains_apart (ct_topology c) (managed_domains cfg (ct_topology c))"
  shows "\<exists>c' decs. run_once cfg (agent_ops send ask) env c = (c', Ok decs) \<and>
    map bd_domain decs = managed_domains cfg (ct_topology c) \<and>
    (\<forall>dec \<in> set decs. \<forall>g w. map_of (bd_caps dec) g = Some w \<longrightarrow>
       agent_get_power_cap (ct_actuator c') g = Ok (if dec = last decs then w else 0))"
proof -
  have ops: "op_push_all (agent_ops send ask) = Some (push_over send)" "op_tick (agent_ops send ask) = None"
    "reads_total (agent_ops send ask)" by (simp_all add: agent_reads_total)
  from agent_target.tick_pushes [OF inv sane wet tel mp [OF spec [OF smp]] known ops] obtain c' decs where
    c': "run_once cfg (agent_ops send ask) env c = (c', Ok decs)"
      "list_all2 (decided_for (ct_topology c)) (managed_domains cfg (ct_topology c)) decs"
      "ct_actuator c' = foldl (push_over send) (ct_actuator c) (map bd_caps decs)" by blast
  have wf: "wf_dict (concat (map bd_caps decs))" by (rule decisions_apart [OF c'(2) apart])
  have "agent_get_power_cap (ct_actuator c') g = Ok (if dec = last decs then w else 0)"
    if "dec \<in> set decs" "map_of (bd_caps dec) g = Some w" for dec g w
  proof -
    have ne: "decs \<noteq> []" using that(1) by auto
    then have last: "ag_last_caps (ct_actuator c') = bd_caps (last decs)" by (simp add: c'(3) pushes_remembered last_map)
    have "map_of (bd_caps (last decs)) g = None" if "dec \<noteq> last decs"
      using decisions_key_once [OF wf \<open>dec \<in> set decs\<close> last_in_set [OF ne] that] map_of_some_key [OF \<open>map_of _ g = Some w\<close>]
      by (auto simp: map_of_eq_None_iff)
    with last that(2) show ?thesis by (auto simp: agent_get_power_cap_def dget_or_def)
  qed
  with c'(1) decisions_domains [OF c'(2)] show ?thesis by blast
qed

text \<open>The same controller with a second domain: what was decided for the first reads back 0.\<close>

definition two_domains :: topology where
  "two_domains =
     (let d = \<lambda>n gs. \<lparr>pd_name = n, pd_budget_w = 30, pd_gpu_indices = gs, pd_pdu_name = ''pdu0'', pd_priority = 0,
                      pd_node_overhead_w = 0, pd_rack_name = None\<rparr>
      in (demo_domain 60)\<lparr>domains := [(''d'', d ''d'' [0, 1]), (''e'', d ''e'' [2, 3])]\<rparr>)"

theorem bridge_forgets_domains_witness:
  "\<exists>c' d e. run_once log_cfg log_ops demo_env (log_ctl\<lparr>ct_topology := two_domains\<rparr>) = (c', Ok [d, e]) \<and>
     (\<forall>g \<in> set (dkeys (bd_caps d)). agent_get_power_cap (ct_actuator c') g = Ok 0)"
proof -
  let ?send = "\<lambda>w (_ :: agent_command list). (w :: unit, False)" and ?ask = "\<lambda>_ :: unit. Err TypeError :: json res"
  let ?c = "log_ctl\<lparr>ct_topology := two_domains\<rparr>"
  have m: "managed_domains log_cfg (ct_topology ?c) = [''d'', ''e'']"
    by (simp add: managed_domains_def log_cfg_def demo_cfg_def two_domains_def Let_def)
  have inv: "ctl_inv (\<lambda>a. agent_inv a \<and> ask_ok ?ask) ?c"
    by (simp add: ctl_inv_def log_ctl_def brain_inv_def energy_ok_def agent_inv_def agent_init_def ask_ok_def
        agent_get_power_draw_def get_draws_def)
  have tel: "telemetry_of log_cfg demo_env = Ok (0, None)" and wet: "\<not> cc_dry_run log_cfg"
    by (simp_all add: telemetry_of_def reads_actuator_def log_cfg_def demo_cfg_def demo_env_def)
  have env: "sane_solver (te_cvxpy demo_env)" "\<forall>n. te_sample demo_env = Ok n \<longrightarrow> sample_nonneg n"
    by (simp_all add: sane_solver_def demo_env_def)
  have known: "\<forall>dn \<in> set [''d'', ''e'']. map_of (domains (ct_topology ?c)) dn \<noteq> None"
    and apart: "domains_apart (ct_topology ?c) [''d'', ''e'']"
    by (simp_all add: two_domains_def domains_apart_def Let_def)
  from bridge_forgets_domains [OF inv env(1) wet tel env(2), unfolded m, OF known apart, of ?send, folded log_ops_def]
  obtain c' decs where c': "run_once log_cfg log_ops demo_env ?c = (c', Ok decs)" "map bd_domain decs = [''d'', ''e'']"
    "\<forall>dec \<in> set decs. \<forall>g w. map_of (bd_caps dec) g = Some w \<longrightarrow>
       agent_get_power_cap (ct_actuator c') g = Ok (if dec = last decs then w else 0)"
    by (elim exE conjE) (rule that)
  then obtain d e where "decs = [d, e]" "bd_domain d = ''d''" "bd_domain e = ''e''" by (auto simp: map_eq_Cons_conv)
  moreover from this have "d \<noteq> e" by auto
  ultimately show ?thesis using c' dkey_some [of _ "bd_caps d"] by (fastforce simp del: set_map)
qed

section \<open>A GPU the node does not have\<close>

context ipc_device
begin

lemma send_out_of_range:
  assumes "serde_ok wi" "inv (mx_inner m)" "readable (wi_repr wi) w" "int (ib_gpu_count ops (mx_inner m)) \<le> g" "g < 2 ^ 64"
    and "\<not> mx_poisoned m"
  shows "fst (wire_send wi ops m [Set_cap g w]) = m\<lparr>mx_poisoned := True\<rparr>"
proof -
  have g: "0 \<le> g" "ib_set_cap ops (mx_inner m) (nat g) (wi_read wi w) = None" using assms(4) set_none [OF assms(2)] by simp_all
  have "push_text (wi_repr wi) [Set_cap g w] = push_text (wi_repr wi) (map (\<lambda>(g, w). Set_cap g w) [(g, w)])" by simp
  then have "buf_lines (push_text (wi_repr wi) [Set_cap g w]) = [json_dumps_line (wi_repr wi) (command_doc (Set_cap g w))]"
    using push_text_lines [of "[(g, w)]" "wi_repr wi"] assms(3) by simp
  then show ?thesis
    using handle_command [OF assms(1,3) g(1) assms(5,6), of "\<lambda>_. True" ops "[]"] g(2)
    by (simp add: wire_send_def handle_conn_def Let_def)
qed

end

lemma push_poisoned:
  "mx_poisoned (ag_net a) \<Longrightarrow> agent_push_all_caps (wire_send wi ops) a caps = (a\<lparr>ag_last_caps := caps, ag_connected := True\<rparr>, True)"
  by (simp add: agent_push_all_caps_def push_caps_def wire_send_def handle_conn_def handle_lines_poisoned Let_def)

text \<open>C20. One cap for a GPU the node does not have disables the NVML agent, and nobody is told: the index panics while
  the lock is held, the backend is left as it was, and from then on, whatever any connection, the
  failsafe or the driver does, every push of caps reports success and changes nothing, the bridge
  reports the pushed caps as set, and every draw reads 0 W.\<close>

theorem ipc_poisoned:
  assumes serde: "serde_ok wi" and w: "readable (wi_repr wi) w"
    and g: "int (length (nb_devices (mx_inner (ag_net a)))) \<le> g" "g < 2 ^ 64" and sound: "\<not> mx_poisoned (ag_net a)"
    and set: "agent_set_power_cap (wire_send wi (nvml_ipc_backend lib)) a g w = Ok a'"
    and later: "(agent_step (wi_serde wi) (nvml_ipc_backend lib) other)\<^sup>*\<^sup>* (ag_net a') m"
  shows "ag_net a' = (ag_net a)\<lparr>mx_poisoned := True\<rparr> \<and>
    (\<forall>caps. agent_push_all_caps (wire_send wi (nvml_ipc_backend lib)) (a'\<lparr>ag_net := m\<rparr>) caps =
       (a'\<lparr>ag_net := m, ag_last_caps := caps, ag_connected := True\<rparr>, True)) \<and>
    (\<forall>h. agent_get_power_draw (wire_ask wi (nvml_ipc_backend lib)) (a'\<lparr>ag_net := m\<rparr>) h = Ok 0)"
proof -
  have count: "ib_gpu_count (nvml_ipc_backend lib) b = length (nb_devices b)" for b by (simp add: nvml_ipc_backend_def)
  have "ag_net a' = fst (wire_send wi (nvml_ipc_backend lib) (ag_net a) [Set_cap g w])"
    using set by (auto simp: agent_set_power_cap_def push_caps_net)
  then have net: "ag_net a' = (ag_net a)\<lparr>mx_poisoned := True\<rparr>"
    using nvml_device.send_out_of_range [OF serde _ w _ g(2) sound] g(1) by (simp add: count)
  then have m: "mx_poisoned m" using poisoned_sticks [OF later] by simp
  from wire_ask_poisoned [OF serde m, of "nvml_ipc_backend lib"] have
    "agent_get_power_draw (wire_ask wi (nvml_ipc_backend lib)) (a'\<lparr>ag_net := m\<rparr>) h = Ok 0" for h
    by (simp add: agent_get_power_draw_def get_draws_def)
  with net push_poisoned [of "a'\<lparr>ag_net := m\<rparr>" wi "nvml_ipc_backend lib"] m show ?thesis by simp
qed

text \<open>A node of one device whose driver takes every limit, and a cap for GPU 1.\<close>

definition demo_nvml :: "(unit, 32 word) nvml_lib" where
  "demo_nvml = \<lparr>nl_set_limit = (\<lambda>_ _ mw. Some mw), nl_limit = (\<lambda>mw _. Some mw), nl_usage = (\<lambda>mw _. Some mw),
     nl_max_limit = (\<lambda>_ _. None), nl_name = (\<lambda>_ _. None)\<rparr>"

theorem ipc_poisoned_witness:
  "\<exists>a'. agent_set_power_cap (wire_send (python_wire demo_repr) (nvml_ipc_backend demo_nvml))
       (agent_init \<lparr>mx_poisoned = False, mx_inner = \<lparr>nb_devices = [()], nb_driver = 700000\<rparr>\<rparr>) 1 15 = Ok a' \<and>
     snd (agent_push_all_caps (wire_send (python_wire demo_repr) (nvml_ipc_backend demo_nvml)) a' [(0, 18)]) \<and>
     agent_get_power_draw (wire_ask (python_wire demo_repr) (nvml_ipc_backend demo_nvml)) a' 0 = Ok 0"
proof -
  let ?send = "wire_send (python_wire demo_repr) (nvml_ipc_backend demo_nvml)"
  let ?a = "agent_init \<lparr>mx_poisoned = False, mx_inner = \<lparr>nb_devices = [()], nb_driver = 700000 :: 32 word\<rparr>\<rparr>"
  obtain a' where set: "agent_set_power_cap ?send ?a 1 15 = Ok a'" by (simp add: agent_set_power_cap_def)
  have r: "readable (wi_repr (python_wire demo_repr)) 15" by (simp add: readable_def python_wire_def demo_repr_reads)
  have "int (length (nb_devices (mx_inner (ag_net ?a)))) \<le> 1" "1 < (2 :: int) ^ 64" "\<not> mx_poisoned (ag_net ?a)"
    by (simp_all add: agent_init_def)
  from ipc_poisoned [OF python_wire_ok r this set rtranclp.rtrancl_refl] set show ?thesis by simp
qed

end
