(* ===== verification/StoreFailures.thy ===== *)
theory StoreFailures
  imports RedisStore
begin

text \<open>
  The Redis store of \<open>controller/cluster_coordinator.py\<close> when the server or the library fails: the
  client that is made on first use, the four operations with their exceptions, and a rebalance
  over them. \<open>Coordinator\<close> and \<open>RedisStore\<close> have the same operations over a client that never fails.
\<close>

section \<open>The store\<close>

text \<open>What the store uses of the library \<open>redis\<close>, over a client \<open>'h\<close> and the state \<open>'c\<close> of the server.\<close>

record ('h, 'c) redis_lib =
  rl_from_url :: "(string \<Rightarrow> 'h res) option" \<comment> \<open>\<open>None\<close>: the library is not installed\<close>
  rl_setex :: "'h \<Rightarrow> string \<Rightarrow> int \<Rightarrow> string \<Rightarrow> 'c \<Rightarrow> 'c \<times> unit res"
  rl_get :: "'h \<Rightarrow> string \<Rightarrow> 'c \<Rightarrow> string option res"
  rl_keys :: "'h \<Rightarrow> string \<Rightarrow> 'c \<Rightarrow> string list res"

record 'h redis_store =
  rs_url :: string
  rs_ttl :: int
  rs_client :: "'h option"

definition redis_store_init :: "string \<Rightarrow> int \<Rightarrow> 'h redis_store" where
  "redis_store_init url ttl = \<lparr>rs_url = url, rs_ttl = ttl, rs_client = None\<rparr>"

definition get_client :: "('h, 'c) redis_lib \<Rightarrow> 'h redis_store \<Rightarrow> 'h redis_store \<times> 'h res" where
  "get_client lib st =
     (case rs_client st of
        Some h \<Rightarrow> (st, Ok h)
      | None \<Rightarrow>
          (case rl_from_url lib of
             None \<Rightarrow> (st, Err (ImportError ''pip install redis to use RedisStore''))
           | Some from_url \<Rightarrow>
               (case from_url (rs_url st) of
                  Inl e \<Rightarrow> (st, Err e)
                | Inr h \<Rightarrow> (st\<lparr>rs_client := Some h\<rparr>, Ok h))))"

definition with_client :: "('h, 'c) redis_lib \<Rightarrow> ('h \<Rightarrow> int \<Rightarrow> 'c \<Rightarrow> 'c \<times> 'a res) \<Rightarrow> 'h redis_store \<times> 'c \<Rightarrow> ('h redis_store \<times> 'c) \<times> 'a res" where
  \<comment> \<open>the body of an operation runs with the client and the TTL\<close>
  "with_client lib body s =
     (case get_client lib (fst s) of
        (st, Inl e) \<Rightarrow> ((st, snd s), Err e)
      | (st, Inr h) \<Rightarrow> (case body h (rs_ttl st) (snd s) of (c, r) \<Rightarrow> ((st, c), r)))"

definition store_publish :: "('h, 'c) redis_lib \<Rightarrow> (json \<Rightarrow> string) \<Rightarrow> node_state \<Rightarrow> 'h redis_store \<times> 'c \<Rightarrow> ('h redis_store \<times> 'c) \<times> unit res" where
  "store_publish lib dumps x =
     with_client lib (\<lambda>h ttl. rl_setex lib h (node_key (ns_node_id x)) ttl (dumps (node_state_json x)))"

definition store_get_all :: "('h, 'c) redis_lib \<Rightarrow> (string \<Rightarrow> json res) \<Rightarrow> 'h redis_store \<times> 'c \<Rightarrow> ('h redis_store \<times> 'c) \<times> node_state list res" where
  "store_get_all lib loads =
     with_client lib (\<lambda>h ttl c.
       (c, res_bind (rl_keys lib h (node_key ''*'') c) (\<lambda>ks.
           res_bind (res_map (\<lambda>k. res_bind (rl_get lib h k c) (\<lambda>raw.
               case raw of
                 None \<Rightarrow> Ok []
               | Some t \<Rightarrow> if t = [] then Ok [] else res_bind (loads t) (\<lambda>v. res_bind (node_of_json v) (\<lambda>s. Ok [s])))) ks)
           (\<lambda>sss. Ok (concat sss)))))"

definition store_set_adopted :: "('h, 'c) redis_lib \<Rightarrow> (watts \<Rightarrow> string) \<Rightarrow> string \<Rightarrow> string \<Rightarrow> watts \<Rightarrow>
    'h redis_store \<times> 'c \<Rightarrow> ('h redis_store \<times> 'c) \<times> unit res" where
  "store_set_adopted lib str_float n d w = with_client lib (\<lambda>h ttl. rl_setex lib h (budget_key n d) ttl (str_float w))"

definition store_get_adopted :: "('h, 'c) redis_lib \<Rightarrow> string \<Rightarrow> string \<Rightarrow> 'h redis_store \<times> 'c \<Rightarrow> ('h redis_store \<times> 'c) \<times> pyfloat option res" where
  "store_get_adopted lib n d =
     with_client lib (\<lambda>h ttl c.
       (c, res_bind (rl_get lib h (budget_key n d) c) (\<lambda>raw.
           case raw of
             None \<Rightarrow> Ok None
           | Some t \<Rightarrow> if t = [] then Ok None else res_bind (py_float t) (\<lambda>x. Ok (Some x)))))"

section \<open>A rebalance\<close>

fun set_each_adopted :: "('h, 'c) redis_lib \<Rightarrow> (watts \<Rightarrow> string) \<Rightarrow> (string, watts) dict \<Rightarrow> node_state list \<Rightarrow>
    'h redis_store \<times> 'c \<Rightarrow> ('h redis_store \<times> 'c) \<times> unit res" where
  "set_each_adopted lib str_float budgets [] s = (s, Ok ())"
| "set_each_adopted lib str_float budgets (x # xs) s =
     (case store_set_adopted lib str_float (ns_node_id x) (ns_domain_name x) (ditem budgets (ns_node_id x)) s of
        (s', Inl e) \<Rightarrow> (s', Err e)
      | (s', Inr _) \<Rightarrow> set_each_adopted lib str_float budgets xs s')"

definition rebalance_io :: "('h, 'c) redis_lib \<Rightarrow> (string \<Rightarrow> json res) \<Rightarrow> (watts \<Rightarrow> string) \<Rightarrow> coordinator \<Rightarrow> 'h redis_store \<times> 'c \<Rightarrow>
    coordinator \<times> ('h redis_store \<times> 'c) \<times> (string, watts) dict res" where
  "rebalance_io lib loads str_float co s =
     (case store_get_all lib loads s of
        (s1, Inl e) \<Rightarrow> (co, s1, Err e)
      | (s1, Inr states) \<Rightarrow>
          if states = [] then (co, s1, Ok [])
          else let budgets = new_budgets (co_budget co) states in
            (case set_each_adopted lib str_float budgets states s1 of
               (s2, Inl e) \<Rightarrow> (co, s2, Err e)
             | (s2, Inr _) \<Rightarrow> (co\<lparr>co_node_budgets := budgets\<rparr>, s2, Ok budgets)))"

section \<open>What the server holds\<close>

text \<open>\<open>db\<close> is the content of the server: a write that succeeds is stored, one that fails may have been.\<close>

definition client_ok :: "('c \<Rightarrow> string \<Rightarrow> string option) \<Rightarrow> ('h, 'c) redis_lib \<Rightarrow> bool" where
  "client_ok db lib \<longleftrightarrow> (\<forall>h k ttl v c c' r. rl_setex lib h k ttl v c = (c', r) \<longrightarrow>
     db c' = (db c)(k \<mapsto> v) \<or> (r \<noteq> Ok () \<and> db c' = db c))"

abbreviation adopted_key :: "node_state \<Rightarrow> string" where
  "adopted_key x \<equiv> budget_key (ns_node_id x) (ns_domain_name x)"

lemma get_client_missing:
  "rs_client st = None \<Longrightarrow> rl_from_url lib = None \<Longrightarrow> get_client lib st = (st, Err (ImportError ''pip install redis to use RedisStore''))"
  by (simp add: get_client_def)

text \<open>The client is made once: with a client at hand the library is not asked again.\<close>

lemma get_client_keeps: "get_client lib st = (st', Ok h) \<Longrightarrow> get_client lib st' = (st', Ok h)"
  by (auto simp: get_client_def split: option.splits sum.splits)

lemma with_client_read:
  "(\<And>h ttl c. fst (body h ttl c) = c) \<Longrightarrow> snd (fst (with_client lib body s)) = snd s"
  by (simp add: with_client_def case_prod_beta split: sum.split)

lemma store_get_all_reads: "store_get_all lib loads s = (s', r) \<Longrightarrow> snd s' = snd s"
  by (auto simp: store_get_all_def with_client_def split: prod.splits sum.splits)

lemma set_adopted_db:
  assumes "client_ok db lib" "store_set_adopted lib sf n d w s = (s', r)"
  shows "db (snd s') = (db (snd s))(budget_key n d \<mapsto> sf w) \<or> (r \<noteq> Ok () \<and> db (snd s') = db (snd s))"
proof (cases "get_client lib (fst s)")
  case (Pair st h)
  show ?thesis
  proof (cases h)
    case (Inl e)
    with Pair assms(2) show ?thesis by (auto simp: store_set_adopted_def with_client_def)
  next
    case (Inr h')
    obtain c1 r1 where set: "rl_setex lib h' (budget_key n d) (rs_ttl st) (sf w) (snd s) = (c1, r1)" by (rule prod.exhaust)
    then have "s' = (st, c1)" "r = r1" using Pair Inr assms(2) by (simp_all add: store_set_adopted_def with_client_def)
    with assms(1) set show ?thesis unfolding client_ok_def by fastforce
  qed
qed

lemma set_each_db:
  assumes "client_ok db lib" "set_each_adopted lib sf budgets xs s = (s', r)"
  shows "\<exists>n \<le> length xs. (r = Ok () \<longrightarrow> n = length xs) \<and>
    db (snd s') = foldl (\<lambda>d x. d(adopted_key x \<mapsto> sf (ditem budgets (ns_node_id x)))) (db (snd s)) (take n xs)"
  using assms(2)
proof (induction xs arbitrary: s)
  case (Cons x xs)
  obtain s1 r1 where 1: "store_set_adopted lib sf (ns_node_id x) (ns_domain_name x) (ditem budgets (ns_node_id x)) s = (s1, r1)"
    by (rule prod.exhaust)
  note db = set_adopted_db [OF assms(1) 1]
  show ?case
  proof (cases r1)
    case (Inl e)
    then have "s' = s1" "r = Err e" using Cons.prems 1 by simp_all
    with db show ?thesis by (elim disjE) (rule exI [of _ 1], simp, rule exI [of _ 0], simp)
  next
    case (Inr u)
    with db have db1: "db (snd s1) = (db (snd s))(adopted_key x \<mapsto> sf (ditem budgets (ns_node_id x)))" by simp
    have "set_each_adopted lib sf budgets xs s1 = (s', r)" using Cons.prems 1 Inr by simp
    from Cons.IH [OF this] obtain n where "n \<le> length xs" "r = Ok () \<longrightarrow> n = length xs"
      "db (snd s') = foldl (\<lambda>d x. d(adopted_key x \<mapsto> sf (ditem budgets (ns_node_id x)))) (db (snd s1)) (take n xs)" by blast
    then show ?thesis by (intro exI [of _ "Suc n"]) (simp add: db1 del: fun_upd_apply)
  qed
qed simp

lemma foldl_upds_other: "k \<notin> kf ` set xs \<Longrightarrow> foldl (\<lambda>d x. d(kf x \<mapsto> vf x)) d xs k = d k"
  by (induction xs arbitrary: d) (simp_all del: fun_upd_apply, simp)

lemma foldl_upds_nth:
  "distinct (map kf xs) \<Longrightarrow> i < length xs \<Longrightarrow> foldl (\<lambda>d x. d(kf x \<mapsto> vf x)) d xs (kf (xs ! i)) = Some (vf (xs ! i))"
proof (induction xs arbitrary: d i)
  case (Cons x xs)
  show ?case
  proof (cases i)
    case 0
    have "kf x \<notin> kf ` set xs" using Cons.prems(1) by simp
    from foldl_upds_other [OF this, of vf "d(kf x \<mapsto> vf x)"] 0 show ?thesis by (simp del: fun_upd_apply) simp
  next
    case (Suc j)
    with Cons show ?thesis by (simp del: fun_upd_apply)
  qed
qed simp

lemma adopted_keys_distinct:
  assumes "distinct (map ns_node_id xs)" "\<forall>x \<in> set xs. CHR '':'' \<notin> set (ns_node_id x)"
  shows "distinct (map adopted_key xs)"
proof -
  have "inj_on adopted_key (set xs)"
  proof (rule inj_onI)
    fix x y assume xy: "x \<in> set xs" "y \<in> set xs" "adopted_key x = adopted_key y"
    then have "ns_node_id x = ns_node_id y" using budget_key_inj [OF _ _ xy(3)] assms(2) by blast
    with assms(1) xy show "x = y" by (metis distinct_map inj_onD)
  qed
  with assms(1) show ?thesis by (auto simp: distinct_map)
qed

lemma prefix_written:
  assumes "distinct (map kf xs)" "i < length xs"
  shows "foldl (\<lambda>d x. d(kf x \<mapsto> vf x)) d (take n xs) (kf (xs ! i)) = (if i < n then Some (vf (xs ! i)) else d (kf (xs ! i)))"
proof (cases "i < n")
  case True
  have "distinct (map kf (take n xs))" using assms(1) by (metis distinct_take take_map)
  from foldl_upds_nth [OF this, of i vf d] True assms(2) show ?thesis by simp
next
  case False
  have "kf (xs ! i) \<notin> kf ` set (take n xs)"
  proof
    assume "kf (xs ! i) \<in> kf ` set (take n xs)"
    then obtain j where "j < n" "j < length xs" "kf (xs ! i) = kf (xs ! j)" by (auto simp: in_set_conv_nth)
    with False assms show False using nth_eq_iff_index_eq [OF assms(1), of i j] by simp
  qed
  with False foldl_upds_other [OF this, of vf d] show ?thesis by simp
qed

lemma rebalance_io_unread:
  "store_get_all lib loads s = (s1, Err e) \<Longrightarrow> rebalance_io lib loads sf co s = (co, s1, Err e) \<and> snd s1 = snd s"
  using store_get_all_reads [of lib loads s s1 "Err e"] by (simp add: rebalance_io_def)

section \<open>Properties\<close>

text \<open>C24. A rebalance over a failing Redis server publishes a prefix: the nodes up to some point in the order of
  the keys have the new budget, the ones after it the budget they had, no other key has changed,
  and only if all were written does the coordinator record the new budgets; else the exception
  leaves it as it was. So until the next round the budgets in force are a mix of two rounds, and
  their sum may exceed the cluster budget: in the example two nodes have 75 W each of 100 W.\<close>

theorem half_published:
  assumes ok: "client_ok db lib" and run: "rebalance_io lib loads sf co s = (co', s', r)"
    and all: "store_get_all lib loads s = (s1, Ok states)" "states \<noteq> []"
    and ids: "distinct (map ns_node_id states)" "\<forall>x \<in> set states. CHR '':'' \<notin> set (ns_node_id x)"
  shows "\<exists>n \<le> length states.
    (\<forall>i < length states. db (snd s') (adopted_key (states ! i)) =
       (if i < n then Some (sf (node_budget (co_budget co) states (states ! i))) else db (snd s) (adopted_key (states ! i)))) \<and>
    (\<forall>k. k \<notin> adopted_key ` set states \<longrightarrow> db (snd s') k = db (snd s) k) \<and>
    (case r of
       Inl e \<Rightarrow> co' = co
     | Inr budgets \<Rightarrow> n = length states \<and> budgets = new_budgets (co_budget co) states \<and> co' = co\<lparr>co_node_budgets := budgets\<rparr>)"
proof -
  let ?b = "new_budgets (co_budget co) states"
  obtain s2 r2 where 2: "set_each_adopted lib sf ?b states s1 = (s2, r2)" by (rule prod.exhaust)
  have s1: "snd s1 = snd s" using store_get_all_reads [OF all(1)] .
  have end_state: "s' = s2" "case r of Inl e \<Rightarrow> co' = co | Inr b \<Rightarrow> r2 = Ok () \<and> b = ?b \<and> co' = co\<lparr>co_node_budgets := b\<rparr>"
    using run all 2 by (auto simp: rebalance_io_def Let_def split: sum.splits)
  obtain n where n: "n \<le> length states" "r2 = Ok () \<longrightarrow> n = length states"
    "db (snd s') = foldl (\<lambda>d x. d(adopted_key x \<mapsto> sf (ditem ?b (ns_node_id x)))) (db (snd s)) (take n states)"
    using set_each_db [OF ok 2] unfolding s1 end_state(1) by blast
  have item: "ditem ?b (ns_node_id x) = node_budget (co_budget co) states x" if "x \<in> set states" for x
    using new_budgets_item [OF ids(1) that] by (rule ditem_Some)
  have "db (snd s') (adopted_key (states ! i)) =
      (if i < n then Some (sf (node_budget (co_budget co) states (states ! i))) else db (snd s) (adopted_key (states ! i)))"
    if "i < length states" for i
    unfolding n(3) prefix_written [OF adopted_keys_distinct [OF ids] that, of "\<lambda>x. sf (ditem ?b (ns_node_id x))"]
    using item [OF nth_mem [OF that]] by simp
  moreover have "db (snd s') k = db (snd s) k" if "k \<notin> adopted_key ` set states" for k
  proof -
    have "k \<notin> adopted_key ` set (take n states)" using that set_take_subset [of n states] by blast
    then show ?thesis unfolding n(3) by (rule foldl_upds_other)
  qed
  ultimately show ?thesis using n(1,2) end_state(2) by (intro exI [of _ n]) (auto split: sum.splits)
qed

text \<open>A server that takes as many writes as its counter says. Node \<open>n0\<close> had 75 W; now \<open>n1\<close> draws everything.\<close>

definition counted_lib :: "(unit, nat \<times> (string, string) dict) redis_lib" where
  "counted_lib = \<lparr>rl_from_url = Some (\<lambda>_. Ok ()),
     rl_setex = (\<lambda>_ k _ v c. if fst c = 0 then (c, Err (RuntimeError ''connection'')) else ((fst c - 1, dset k v (snd c)), Ok ())),
     rl_get = (\<lambda>_ k c. Ok (map_of (snd c) k)), rl_keys = (\<lambda>_ pat c. Ok (dict_keys (snd c) pat))\<rparr>"

definition node_at :: "string \<Rightarrow> watts \<Rightarrow> node_state" where
  "node_at n w = \<lparr>ns_node_id = n, ns_domain_name = ''d'', ns_draw_w = w, ns_cap_w = 15, ns_budget_w = 15, ns_ts = 15\<rparr>"

definition two_nodes :: "(string, string) dict" where
  "two_nodes =
     [(node_key ''n1'', json_dumps_line demo_repr (node_state_json (node_at ''n1'' 15))),
      (node_key ''n0'', json_dumps_line demo_repr (node_state_json (node_at ''n0'' 0))),
      (budget_key ''n0'' ''d'', ''75.0''), (budget_key ''n1'' ''d'', ''25.0'')]"

definition watts_text :: "watts \<Rightarrow> string" where
  "watts_text w = (if w = 75 then ''75.0'' else ''25.0'')"

lemma counted_lib_sel [simp]:
  "rl_from_url counted_lib = Some (\<lambda>_. Ok ())"
  "rl_setex counted_lib h k ttl v c = (if fst c = 0 then (c, Err (RuntimeError ''connection'')) else ((fst c - 1, dset k v (snd c)), Ok ()))"
  by (simp_all add: counted_lib_def)

lemma node_at_sel [simp]: "ns_node_id (node_at n w) = n" "ns_domain_name (node_at n w) = ''d''" "ns_draw_w (node_at n w) = w"
  by (simp_all add: node_at_def)

lemma counted_ok: "client_ok (\<lambda>c. map_of (snd c)) counted_lib"
  by (auto simp: client_ok_def counted_lib_def split: if_splits)

lemma two_nodes_read:
  "store_get_all counted_lib json_loads (redis_store_init u 30, (m, two_nodes)) =
     ((\<lparr>rs_url = u, rs_ttl = 30, rs_client = Some ()\<rparr>, (m, two_nodes)), Ok [node_at ''n1'' 15, node_at ''n0'' 0])"
proof -
  have "printable demo_repr (node_state_json (node_at n w))" if "w \<in> {0, 15}" for n w
    using that by (auto simp: node_state_json_def node_at_def demo_repr_reads)
  then have "json_loads (json_dumps_line demo_repr (node_state_json (node_at n w))) = Ok (node_state_json (node_at n w))" if "w \<in> {0, 15}" for n w
    using json_loads_line that by blast
  moreover have "dict_keys two_nodes pat = [node_key ''n1'', node_key ''n0'']" for pat
    by (simp add: dict_keys_def two_nodes_def node_key_def budget_key_def)
  moreover have "map_of two_nodes (node_key ''n1'') = Some (json_dumps_line demo_repr (node_state_json (node_at ''n1'' 15)))"
    "map_of two_nodes (node_key ''n0'') = Some (json_dumps_line demo_repr (node_state_json (node_at ''n0'' 0)))"
    by (simp_all add: two_nodes_def)
  ultimately show ?thesis
    by (simp add: store_get_all_def with_client_def get_client_def redis_store_init_def counted_lib_def dumps_nonempty node_of_json_state)
qed

theorem half_published_witness:
  "\<exists>s' e. rebalance_io counted_lib json_loads watts_text (coordinator_init 100) (redis_store_init ''redis://r'' 30, (1, two_nodes)) =
      (coordinator_init 100, s', Err e) \<and>
    map_of (snd (snd s')) (budget_key ''n0'' ''d'') = Some ''75.0'' \<and> map_of (snd (snd s')) (budget_key ''n1'' ''d'') = Some ''75.0''"
proof -
  let ?s = "(redis_store_init ''redis://r'' 30 :: unit redis_store, (1 :: nat, two_nodes))"
  let ?states = "[node_at ''n1'' 15, node_at ''n0'' 0]"
  obtain co' s' r where run: "rebalance_io counted_lib json_loads watts_text (coordinator_init 100) ?s = (co', s', r)"
    by (metis prod_cases3)
  have budgets: "node_budget 100 ?states (node_at ''n1'' 15) = 75" "node_budget 100 ?states (node_at ''n0'' 0) = 25"
    by (simp_all add: node_budget_def)
  have "new_budgets 100 ?states = [(''n1'', 75), (''n0'', 25)]"
    using budgets by (simp add: new_budgets_def)
  with run have "\<exists>e. r = Err e" "snd s' = (0, dset (budget_key ''n1'' ''d'') ''75.0'' two_nodes)"
    by (auto simp: rebalance_io_def two_nodes_read coordinator_init_def store_set_adopted_def with_client_def get_client_def
        watts_text_def ditem_def)
  moreover have "distinct (map ns_node_id ?states)" "\<forall>x \<in> set ?states. CHR '':'' \<notin> set (ns_node_id x)" by simp_all
  from half_published [OF counted_ok run two_nodes_read _ this] calculation(1) have "co' = coordinator_init 100"
    by (auto split: sum.splits)
  ultimately show ?thesis using run by (auto simp: two_nodes_def budget_key_def node_key_def)
qed

end
