(* ===== verification/RustSim.thy ===== *)
theory RustSim
  imports Sim "HOL-Library.Word"
begin

text \<open>
  The simulated fleet in Rust (\<open>crates/opendps-sim/src/lib.rs\<close>), which is offered to the controller in
  place of \<open>sim/backend.py\<close>: the generator on 64-bit words, a GPU, the fleet and its operations.
  Indices are \<open>usize\<close>, so natural numbers; what the binding does with a negative Python index, and
  the overflow of a seed beyond \<open>2 ^ 32\<close> GPUs, are not followed. The last section compares the
  fleet with the one in Python.
\<close>

section \<open>A GPU\<close>

record rust_gpu =
  rg_cap_w :: watts
  rg_max_cap_w :: watts
  rg_util_pct :: real
  rg_target_util :: real
  rg_util_noise :: real
  rg_rng :: "64 word"

definition rust_gpu_new :: "watts \<Rightarrow> watts \<Rightarrow> real \<Rightarrow> real \<Rightarrow> 64 word \<Rightarrow> rust_gpu" where
  "rust_gpu_new cap max_cap target noise seed =
     \<lparr>rg_cap_w = cap, rg_max_cap_w = max_cap, rg_util_pct = target, rg_target_util = target, rg_util_noise = noise, rg_rng = seed\<rparr>"

definition lcg_next :: "rust_gpu \<Rightarrow> real \<times> rust_gpu" where
  \<comment> \<open>the multiplication and the addition wrap\<close>
  "lcg_next g =
     (let r = rg_rng g * 6364136223846793005 + 1442695040888963407;
          bits = real (unat (drop_bit 11 r))
      in (bits / real (unat (drop_bit 11 (- 1 :: 64 word))) * 2 - 1, g\<lparr>rg_rng := r\<rparr>))"

definition clamp :: "real \<Rightarrow> real \<Rightarrow> real \<Rightarrow> real" where
  "clamp lo hi x = (if x < lo then lo else if hi < x then hi else x)"

definition rust_gpu_tick :: "rust_gpu \<Rightarrow> rust_gpu" where
  "rust_gpu_tick g =
     (case lcg_next g of (x, g') \<Rightarrow>
        g'\<lparr>rg_util_pct := clamp 0 100 (rg_target_util g' + x * rg_util_noise g')\<rparr>)"

definition rust_power_draw_w :: "rust_gpu \<Rightarrow> watts" where
  "rust_power_draw_w g = min (rg_cap_w g * (rg_util_pct g / 100) * (85 / 100) + 50) (rg_cap_w g)"

section \<open>The fleet\<close>

type_synonym rust_sim = "rust_gpu list"

definition rust_sim_new :: "nat \<Rightarrow> watts \<Rightarrow> real \<Rightarrow> 64 word \<Rightarrow> rust_sim" where
  "rust_sim_new n_gpus cap_w hot_fraction seed =
     (let n_hot = nat \<lfloor>real n_gpus * clamp 0 1 hot_fraction\<rfloor> in
      map (\<lambda>i.
        let is_hot = i < n_hot in
        rust_gpu_new cap_w cap_w (if is_hot then 90 else 10) (if is_hot then 5 else 3) (seed + of_nat i * 2654435761))
      [0..<n_gpus])"

definition rust_gpu_at :: "rust_sim \<Rightarrow> nat \<Rightarrow> rust_gpu res" where
  "rust_gpu_at s i = (if i < length s then Ok (s ! i) else Err IndexError)"

definition rust_set_power_cap :: "rust_sim \<Rightarrow> nat \<Rightarrow> watts \<Rightarrow> rust_sim res" where
  "rust_set_power_cap s i w =
     res_bind (rust_gpu_at s i) (\<lambda>g. Ok (s[i := g\<lparr>rg_cap_w := max (min w (rg_max_cap_w g)) 0\<rparr>]))"

definition rust_get_power_cap :: "rust_sim \<Rightarrow> nat \<Rightarrow> watts res" where
  "rust_get_power_cap s i = res_bind (rust_gpu_at s i) (\<lambda>g. Ok (rg_cap_w g))"

definition rust_get_power_draw :: "rust_sim \<Rightarrow> nat \<Rightarrow> watts res" where
  "rust_get_power_draw s i = res_bind (rust_gpu_at s i) (\<lambda>g. Ok (rust_power_draw_w g))"

definition rust_get_util_pct :: "rust_sim \<Rightarrow> nat \<Rightarrow> real res" where
  "rust_get_util_pct s i = res_bind (rust_gpu_at s i) (\<lambda>g. Ok (rg_util_pct g))"

definition rust_get_max_cap_w :: "rust_sim \<Rightarrow> nat \<Rightarrow> watts res" where
  "rust_get_max_cap_w s i = res_bind (rust_gpu_at s i) (\<lambda>g. Ok (rg_max_cap_w g))"

definition rust_gpu_count :: "rust_sim \<Rightarrow> nat" where
  "rust_gpu_count s = length s"

definition rust_tick :: "rust_sim \<Rightarrow> rust_sim" where
  "rust_tick s = map rust_gpu_tick s"

definition rust_snapshot :: "rust_sim \<Rightarrow> (nat \<times> watts \<times> watts \<times> watts \<times> real) list" where
  "rust_snapshot s =
     map (\<lambda>(i, g). (i, rg_cap_w g, rg_max_cap_w g, rust_power_draw_w g, rg_util_pct g)) (List.enumerate 0 s)"

section \<open>The Python fleet it stands for\<close>

text \<open>The generator as Python's fleet would use it: a number in [0, 1] and the next state.\<close>

definition lcg :: "64 word rng" where
  "lcg r =
     (let r' = r * 6364136223846793005 + 1442695040888963407
      in (real (unat (drop_bit 11 r')) / real (unat (drop_bit 11 (- 1 :: 64 word))), r'))"

definition gpu_view :: "nat \<Rightarrow> rust_gpu \<Rightarrow> 64 word sim_gpu" where
  "gpu_view i g =
     \<lparr>sg_index = int i, sg_cap_w = rg_cap_w g, sg_max_cap_w = rg_max_cap_w g,
      sg_load = \<lparr>base_util_pct = rg_target_util g, util_noise = rg_util_noise g, idle_fraction = 0\<rparr>,
      sg_rng = rg_rng g, sg_current_util = rg_util_pct g\<rparr>"

definition fleet_view :: "rust_sim \<Rightarrow> 64 word sim" where
  "fleet_view s = map (\<lambda>i. (int i, gpu_view i (s ! i))) [0..<length s]"

lemma gpu_view_draw: "power_draw_w (gpu_view i g) = rust_power_draw_w g"
  by (simp add: power_draw_w_def rust_power_draw_w_def gpu_view_def LOAD_EFFICIENCY_def IDLE_POWER_W_def)

lemma gpu_view_tick: "gpu_view i (rust_gpu_tick g) = resample lcg (gpu_view i g)"
  by (simp add: rust_gpu_tick_def lcg_next_def resample_def sample_util_def uniform_def lcg_def gpu_view_def clamp_def Let_def
      algebra_simps max_def min_def)

lemma fleet_view_keys: "dkeys (fleet_view s) = map int [0..<length s]"
  by (simp add: fleet_view_def comp_def)

lemma fleet_view_at: "map_of (fleet_view s) (int i) = (if i < length s then Some (gpu_view i (s ! i)) else None)"
proof -
  have "map_of (map (\<lambda>i. (int i, f i)) [0..<n]) (int i) = (if i < n then Some (f i) else None)" for f :: "nat \<Rightarrow> 64 word sim_gpu" and n
    by (induction n) (auto simp: map_add_def less_Suc_eq)
  then show ?thesis by (simp add: fleet_view_def)
qed

lemma dset_present:
  "wf_dict d \<Longrightarrow> k \<in> set (dkeys d) \<Longrightarrow> dset k v d = map (\<lambda>p. if fst p = k then (k, v) else p) d"
proof (induction d)
  case (Cons x d)
  show ?case
  proof (cases "fst x = k")
    case True
    then have "(if fst p = k then (k, v) else p) = p" if "p \<in> set d" for p
      using that Cons.prems(1) by (metis distinct.simps(2) image_eqI list.simps(9) set_map)
    then have "map (\<lambda>p. if fst p = k then (k, v) else p) d = d" by (rule map_idI)
    with True show ?thesis by (cases x) simp
  next
    case False
    with Cons show ?thesis by (cases x) auto
  qed
qed simp

lemma fleet_view_update:
  assumes "i < length s"
  shows "fleet_view (s[i := g]) = dset (int i) (gpu_view i g) (fleet_view s)"
proof -
  have "wf_dict (fleet_view s)" "int i \<in> set (dkeys (fleet_view s))"
    using assms unfolding fleet_view_keys by (auto simp: distinct_map inj_on_def)
  from dset_present [OF this] show ?thesis by (simp add: fleet_view_def comp_def nth_list_update)
qed

lemma sim_item_view: "sim_item (fleet_view s) (int i) = (case rust_gpu_at s i of Inl _ \<Rightarrow> Err (KeyError (string_of_int (int i))) | Inr g \<Rightarrow> Ok (gpu_view i g))"
  by (simp add: sim_item_def fleet_view_at rust_gpu_at_def)

lemma snapshot_view:
  "map (\<lambda>(i, cap, mx, draw, util). \<lparr>gr_index = int i, gr_power_draw_w = draw, gr_cap_w = cap, gr_util_pct = util\<rparr>) (rust_snapshot s) =
     sim_snapshot (fleet_view s)"
proof -
  have vals: "dvals (fleet_view s) = map (\<lambda>i. gpu_view i (s ! i)) [0..<length s]" by (simp add: fleet_view_def comp_def)
  have "sorted (map sg_index (dvals (fleet_view s)))"
    unfolding vals by (simp add: comp_def gpu_view_def sorted_map sorted_wrt_upt)
  then have "sort_key sg_index (dvals (fleet_view s)) = dvals (fleet_view s)" by (rule sort_key_id_if_sorted)
  then have "sim_snapshot (fleet_view s) = map (\<lambda>i. \<lparr>gr_index = int i, gr_power_draw_w = rust_power_draw_w (s ! i),
      gr_cap_w = rg_cap_w (s ! i), gr_util_pct = rg_util_pct (s ! i)\<rparr>) [0..<length s]"
    by (simp add: sim_snapshot_def vals comp_def gpu_view_draw) (simp add: gpu_view_def)
  then show ?thesis
    by (intro nth_equalityI) (simp_all add: rust_snapshot_def nth_enumerate_eq)
qed

text \<open>C22. The Rust fleet can stand in for the Python fleet: read as a Python fleet that draws its noise from the
  64-bit generator, it gives the same answers and takes the same steps, state by state: the cap,
  draw, maximum and utilisation of every index, the number of GPUs, the snapshot (in Rust with the
  maximum), a cap set, a tick. An index beyond the fleet fails in both, with \<open>IndexError\<close> here and
  \<open>KeyError\<close> there.\<close>

theorem rust_sim_refines:
  assumes max: "\<forall>g \<in> set s. 0 \<le> rg_max_cap_w g"
  shows "rust_gpu_count s = sim_gpu_count (fleet_view s) \<and>
   (case rust_set_power_cap s i w of
      Inl e \<Rightarrow> e = IndexError \<and> (\<exists>k. sim_set_power_cap (fleet_view s) (int i) w = Err (KeyError k))
    | Inr s' \<Rightarrow> sim_set_power_cap (fleet_view s) (int i) w = Ok (fleet_view s')) \<and>
   (\<forall>v. (rust_get_power_cap s i = Ok v \<longleftrightarrow> sim_get_power_cap (fleet_view s) (int i) = Ok v) \<and>
      (rust_get_power_draw s i = Ok v \<longleftrightarrow> sim_get_power_draw (fleet_view s) (int i) = Ok v) \<and>
      (rust_get_max_cap_w s i = Ok v \<longleftrightarrow> sim_get_max_cap_w (fleet_view s) (int i) = Ok v) \<and>
      (rust_get_util_pct s i = Ok v \<longleftrightarrow> sim_get_util_pct (fleet_view s) (int i) = Ok v)) \<and>
   map (\<lambda>(i, cap, mx, draw, util). \<lparr>gr_index = int i, gr_power_draw_w = draw, gr_cap_w = cap, gr_util_pct = util\<rparr>) (rust_snapshot s) =
     sim_snapshot (fleet_view s) \<and>
   fleet_view (rust_tick s) = sim_tick lcg (fleet_view s)"
proof (intro conjI)
  show "rust_gpu_count s = sim_gpu_count (fleet_view s)" by (simp add: rust_gpu_count_def sim_gpu_count_def fleet_view_def)
  show "case rust_set_power_cap s i w of
      Inl e \<Rightarrow> e = IndexError \<and> (\<exists>k. sim_set_power_cap (fleet_view s) (int i) w = Err (KeyError k))
    | Inr s' \<Rightarrow> sim_set_power_cap (fleet_view s) (int i) w = Ok (fleet_view s')"
  proof (cases "i < length s")
    case True
    then have "0 \<le> rg_max_cap_w (s ! i)" using max by simp
    then have "gpu_view i ((s ! i)\<lparr>rg_cap_w := max (min w (rg_max_cap_w (s ! i))) 0\<rparr>) =
        (gpu_view i (s ! i))\<lparr>sg_cap_w := min (max 0 w) (sg_max_cap_w (gpu_view i (s ! i)))\<rparr>"
      by (simp add: gpu_view_def max_def min_def)
    with True show ?thesis
      by (simp add: rust_set_power_cap_def rust_gpu_at_def sim_set_power_cap_def sim_item_view fleet_view_update)
  qed (simp add: rust_set_power_cap_def rust_gpu_at_def sim_set_power_cap_def sim_item_view)
  show "\<forall>v. (rust_get_power_cap s i = Ok v \<longleftrightarrow> sim_get_power_cap (fleet_view s) (int i) = Ok v) \<and>
      (rust_get_power_draw s i = Ok v \<longleftrightarrow> sim_get_power_draw (fleet_view s) (int i) = Ok v) \<and>
      (rust_get_max_cap_w s i = Ok v \<longleftrightarrow> sim_get_max_cap_w (fleet_view s) (int i) = Ok v) \<and>
      (rust_get_util_pct s i = Ok v \<longleftrightarrow> sim_get_util_pct (fleet_view s) (int i) = Ok v)"
    by (simp add: rust_get_power_cap_def rust_get_power_draw_def rust_get_max_cap_w_def rust_get_util_pct_def rust_gpu_at_def
        sim_get_power_cap_def sim_get_power_draw_def sim_get_max_cap_w_def sim_get_util_pct_def sim_item_view gpu_view_draw)
      (simp add: gpu_view_def)
  show "map (\<lambda>(i, cap, mx, draw, util). \<lparr>gr_index = int i, gr_power_draw_w = draw, gr_cap_w = cap, gr_util_pct = util\<rparr>) (rust_snapshot s) =
     sim_snapshot (fleet_view s)"
    by (rule snapshot_view)
  show "fleet_view (rust_tick s) = sim_tick lcg (fleet_view s)"
    by (simp add: fleet_view_def rust_tick_def sim_tick_def map_ran_def gpu_view_tick comp_def)
qed

text \<open>Two GPUs of 1000 W, one of them hot.\<close>

theorem rust_sim_refines_witness:
  "rust_get_power_draw (rust_sim_new 2 1000 (1/2) 42) 1 = Ok 135 \<and>
   sim_get_power_draw (fleet_view (rust_sim_new 2 1000 (1/2) 42)) 1 = Ok 135 \<and>
   (\<exists>s'. rust_set_power_cap (rust_sim_new 2 1000 (1/2) 42) 1 1200 = Ok s' \<and>
      sim_set_power_cap (fleet_view (rust_sim_new 2 1000 (1/2) 42)) 1 1200 = Ok (fleet_view s'))"
proof -
  let ?s = "rust_sim_new 2 1000 (1/2) 42"
  have s: "?s = [rust_gpu_new 1000 1000 90 5 42, rust_gpu_new 1000 1000 10 3 (42 + 2654435761)]"
    by (simp add: rust_sim_new_def clamp_def upt_rec Let_def)
  have max: "\<forall>g \<in> set ?s. 0 \<le> rg_max_cap_w g" by (simp add: s rust_gpu_new_def)
  have draw: "rust_get_power_draw ?s 1 = Ok 135"
    by (simp add: s rust_get_power_draw_def rust_gpu_at_def rust_power_draw_w_def rust_gpu_new_def)
  moreover obtain s' where set: "rust_set_power_cap ?s 1 1200 = Ok s'"
    by (simp add: s rust_set_power_cap_def rust_gpu_at_def)
  moreover note r = rust_sim_refines [OF max, of 1 1200]
  from r have "sim_set_power_cap (fleet_view ?s) 1 1200 = Ok (fleet_view s')" unfolding set by simp
  moreover from r have "rust_get_power_draw ?s 1 = Ok 135 \<longleftrightarrow> sim_get_power_draw (fleet_view ?s) (int 1) = Ok 135" by blast
  ultimately show ?thesis by simp
qed

text \<open>The two constructors differ: Rust truncates the number of hot GPUs, Python rounds it.\<close>

lemma hot_count_differs:
  "length (filter (\<lambda>g. rg_target_util g = 90) (rust_sim_new 8 1000 (6/10) seed)) = 4 \<and>
   round_half_even (real 8 * (6/10)) = 5"
  by (simp add: rust_sim_new_def clamp_def upt_rec Let_def rust_gpu_new_def round_half_even_def)

end
