(* ===== verification/Spec2Isabelle.thy ===== *)
theory Spec2Isabelle
  imports Cluster AgentProps Reconcile SimExporter Redfish Presets Logs RedisStore OperatorLife FailsafeThread AgentTick StoreFailures RustSim
begin

text \<open>
  OpenDPS keeps the GPUs of a node within the power its feed can deliver. This development
  models the Python package \<open>src/opendps\<close> and, of the Rust agent in \<open>crates/opendps-agent\<close>, the
  listener the package talks to, and the Rust fleet of \<open>crates/opendps-sim\<close>. It reads bottom up as follows.

  The parts of the program and how they interact. A PDN topology (\<open>pdn/\<close>) says which domain of
  GPUs has which power budget. Every few seconds the control loop (\<open>controller/standalone.py\<close>)
  reads telemetry (from Prometheus, from the simulated fleet or from the actuator), asks its
  brain (\<open>brain/\<close>) for a cap per GPU, pushes the caps to an actuator (\<open>sim/\<close>, \<open>agent/nvml_agent.py\<close>
  or \<open>controller/agent_bridge.py\<close>), meters energy and reports metrics (\<open>telemetry/\<close>). Next to it
  run the failsafe thread (\<open>agent/failsafe.py\<close>), which lowers caps without asking the brain, the
  job tracker (\<open>agent/job_tracker.py\<close>), the cluster coordinator, which publishes a budget per node
  for the control loop to adopt (\<open>controller/cluster_coordinator.py\<close>), and the priority
  configuration source, which polls the tiers the operator publishes
  (\<open>controller/priority_config.py\<close>). The Kubernetes operator (\<open>operator/handlers.py\<close>) turns custom
  resources into the two ConfigMaps these read. Two command lines put it together.

  Conventions. A fallible function returns \<open>pyerr + 'a\<close>; a call that changes state and may raise
  half way returns the state also when it fails, as the code keeps what it had changed. A
  dictionary is an association list with distinct keys in insertion order. Floats are exact
  reals, Python integers are \<open>int\<close>, strings are lists of characters; infinities and NaN exist
  only where the code tests for them. \<open>OutOfModel\<close> marks the inputs the model does not follow; no
  property assumes it away silently: a theorem about a result is about \<open>Ok\<close> results.
\<close>

text \<open>
  Theories, in the order of their imports, with the code they model.

  \<^item> \<open>Prelude\<close>, \<open>PyText\<close>, \<open>PyJson\<close>: results, dictionaries, sums and shares; \<open>strip\<close>, \<open>split\<close>,
    \<open>int()\<close>, \<open>float()\<close>; parsed JSON and the operations on it.
  \<^item> \<open>Pdn\<close>, \<open>Presets\<close>: \<open>pdn/model.py\<close>, \<open>pdn/presets.py\<close>. The budget cascade rack, adopted budget,
    overhead; validation of caps; the document parser, whose results are well formed.
  \<^item> \<open>Brain\<close>, \<open>Dpm\<close>, \<open>Prs\<close>: the contract of \<open>decide\<close> as the locale \<open>cap_brain\<close> (with
    \<open>bounded_brain\<close>), and \<open>brain/dpm.py\<close>, \<open>brain/prs.py\<close>, which interpret it. \<open>Wrapped\<close> is the
    contract of the brains that rewrite a PRS decision; \<open>JobAware\<close>, \<open>Priority\<close>, \<open>Thermal\<close>,
    \<open>QuotaPrs\<close> and \<open>Cvxpy\<close> are those brains; \<open>Brains\<close> selects one and interprets the contract again.
  \<^item> \<open>JobTracker\<close>, \<open>Quota\<close>, \<open>PriorityConfig\<close>: \<open>agent/job_tracker.py\<close>, \<open>pdn/quota.py\<close>,
    \<open>controller/priority_config.py\<close> with its polls as a step relation.
  \<^item> \<open>Sim\<close>, \<open>Nvml\<close>, \<open>AgentBridge\<close>: the actuators. \<open>Sim\<close> states the actuator protocol as the locale
    \<open>actuator\<close>; \<open>Failsafe\<close> proves its lemmas inside it, with the thread as a step relation that
    interleaves with the rest of the system.
    \<open>FailsafeThread\<close> follows one thread from its constructor through \<open>start\<close> and \<open>stop\<close>, scan by
    scan and sleep by sleep.
  \<^item> \<open>Telemetry\<close>, \<open>Http\<close>, \<open>Redfish\<close>, \<open>Metrics\<close>, \<open>Energy\<close>: \<open>telemetry/\<close>. \<open>Http\<close> holds the encodings of
    the library the requests use, each with its decoder; \<open>Redfish\<close> the scraper and the URLs of the
    Prometheus client, \<open>Metrics\<close> the calls on the exporter's metrics.
  \<^item> \<open>Controller\<close>: one tick and one round of \<open>run\<close> of \<open>controller/standalone.py\<close>. \<open>ControlLoop\<close> states
    what the loop needs of an actuator (locale \<open>control_target\<close>, interpreted on the simulated fleet,
    the NVML backend and the agent bridge) and keeps the controller's invariant; \<open>Enforcement\<close> follows caps to the simulated hardware; \<open>Showback\<close> relates the
    metrics to the metered energy over a whole history.
  \<^item> \<open>Coordinator\<close>, \<open>Cluster\<close>: \<open>controller/cluster_coordinator.py\<close> over the locale
    \<open>node_state_store\<close>, and the coordinator with the controllers of its nodes.
  \<^item> \<open>JsonText\<close>: \<open>json.dumps\<close> in its three layouts (indented, on one line, compact) and \<open>json.loads\<close>
    on text, and that a printed document reads back. \<open>Logs\<close>: the lines the control loop prints, one
    per decision, and \<open>to_jsonl\<close> of a node sample. \<open>RedisStore\<close>: the coordinator over a Redis server,
    a round as text through the server. \<open>StoreFailures\<close>: the same store with its lazy client when
    the library is missing or a call fails, and a rebalance that fails half way.
  \<^item> \<open>RustAgent\<close>, \<open>AgentWire\<close>, \<open>AgentTick\<close>: the listener of the Rust agent (\<open>ipc.rs\<close>, \<open>failsafe.rs\<close>,
    \<open>nvml_backend.rs\<close>), whose trait \<open>IpcBackend\<close> is the locale \<open>ipc_device\<close> (with \<open>capping_device\<close>,
    interpreted on the simulated backend, and \<open>ipc_device\<close> on the NVML one); the text between the
    bridge and the listener; and a tick of the control loop over that text, which interprets
    \<open>control_target\<close> once more. \<open>RustSim\<close>: the simulated fleet of \<open>crates/opendps-sim\<close>, a refinement of
    the Python fleet.
  \<^item> \<open>Kube\<close>, \<open>Assignments\<close>, \<open>Registry\<close>, \<open>Operator\<close>: \<open>operator/handlers.py\<close>; requests to Kubernetes,
    Pods to assignments, the shared registry with its retries, every handler.
  \<^item> \<open>Publish\<close>, \<open>OperatorProps\<close>, \<open>Reconcile\<close>: what the operator writes is what the controllers read;
    a whole namespace reconciled, a policy deleted. \<open>OperatorLife\<close>: the operator as a step relation
    over the notifications of the cluster, and what it never touches.
  \<^item> \<open>ControllerMain\<close>, \<open>Startup\<close>: \<open>main\<close> of \<open>controller/standalone.py\<close> and \<open>agent/process.py\<close>, and what
    they guarantee about the state the control loop starts in. \<open>AgentProps\<close>: the agent, its failsafe
    next to a control loop that sets any cap at any time.
  \<^item> \<open>SimExporter\<close>: \<open>deploy/sim-metrics/sim_exporter.py\<close>, and the sample the controller builds from it.
\<close>

text \<open>
  What the lemmas show. Per component: an invariant and that each operation keeps it
  (\<open>prs_inv\<close>, \<open>sim_inv\<close>, \<open>mem_inv\<close>, \<open>brain_inv\<close>, \<open>wf_topology\<close>, \<open>source_ok\<close>), the results of its
  operations on each branch, and the safety of the numbers it computes: budgets are split and
  never exceeded where the code promises it, and the cases in which it does not are theorems
  too (\<open>Prs.prs_can_exceed_budget\<close>, \<open>Cvxpy.cvx_starves_hot\<close>, \<open>Failsafe.failsafe_can_raise\<close>,
  \<open>QuotaPrs.quota_ignores_adopted_budget\<close>, \<open>Registry.resolved_assignments_policy_lost\<close>). Across
  components: a cluster budget reaches the topology of each node and, for PRS and the brains on top
  of it, the caps its controller decides; a tick enforces what the brain decided; charged energy equals metered energy; a topology, a parameter or a priority
  written by the operator is the one a controller runs with; registry writes of concurrent
  writers are atomic; the Rust agent of a simulated node holds the caps a tick decided, and what becomes of
  both sides after an index out of range is a theorem too (\<open>AgentTick.ipc_poisoned\<close>).

  Parameters, with what is assumed of each as a named hypothesis where a property needs it:
  the NVML library, the LP solver (\<open>sane_solver\<close>), the random generator (\<open>good_rng\<close>), the TCP
  agent (\<open>ask_ok\<close>), the HTTP exchange (its requests are modelled, the answers
  are not), the output of \<open>nvidia-smi\<close>, the Redis client (\<open>redis_ok\<close>, \<open>client_ok\<close>), \<open>serde_json\<close>
  (\<open>serde_ok\<close>: it reads and writes documents within its recursion limit, and what it makes of the
  text of a float is a parameter) and \<open>nvml-wrapper\<close> of the Rust agent, the
  Kubernetes server (\<open>cas_server\<close>: a replacement succeeds only under the resource version it
  names, a request refused with a client error writes nothing, a server error leaves the outcome
  open, and other clients may act between two requests), the clock and \<open>float.__repr__\<close>
  (\<open>printable\<close>: the text of a float reads back as it).

  Bounds and fuel. The JSON scanner has fuel twice the length of its text plus one; the
  round trip of \<open>JsonText\<close> shows that it suffices for every printed document. A registry write
  has the three attempts of the code. Ticks, polls and scans are step relations without a
  bound. \<open>demo_multi_domain\<close> names up to 191 domains with single characters.

  Not modelled: the scheduling of threads beyond their interleavings, the length of a sleep, the
  log messages (the printed decisions are modelled), sockets and HTTP servers, the request
  libraries, \<open>argparse\<close> beyond its defaults and choices, the registration of handlers with the
  kopf framework (\<open>operator/__main__.py\<close>), the delivery
  of signals, the Rust agent beyond its listener, its backends and one scan of its failsafe (command
  line, metrics server, thread priority), rounding of binary floats, and text beyond code point 255. Modules that only
  import (\<open>collector/\<close>, the \<open>__init__\<close> files) hold no behaviour.
\<close>

end
